(* ===== verification/LedgerPrelude.thy ===== *)
theory LedgerPrelude
  imports Complex_Main "HOL-Library.Char_ord" "HOL-Library.List_Lexorder" "HOL-Library.Sublist"
begin

text \<open>
  What every theory of the development shares: the transaction monad that stands for one
  BEGIN ... COMMIT / ROLLBACK block of the services, and generic facts about lists that
  serve as append-only tables.
\<close>

named_theorems tx_simps \<open>equations of the transaction combinators\<close>
named_theorems eval_defs \<open>definitions unfolded to evaluate an operation on a concrete database\<close>

subsection \<open>Transactions\<close>

text \<open>
  A statement sequence run on one client: it reads and writes the database state or throws.
  The state a failed sequence had reached is discarded by \<open>with_tx\<close>, which is the
  \<open>try { BEGIN ... COMMIT } catch { ROLLBACK; throw }\<close> block of the services.
\<close>

type_synonym ('s, 'e, 'a) tx = "'s \<Rightarrow> 'e + ('a \<times> 's)"

definition tx_return :: "'a \<Rightarrow> ('s, 'e, 'a) tx" where
  "tx_return a = (\<lambda>s. Inr (a, s))"

definition tx_throw :: "'e \<Rightarrow> ('s, 'e, 'a) tx" where
  "tx_throw e = (\<lambda>s. Inl e)"

definition tx_bind :: "('s, 'e, 'a) tx \<Rightarrow> ('a \<Rightarrow> ('s, 'e, 'b) tx) \<Rightarrow> ('s, 'e, 'b) tx" where
  "tx_bind m f = (\<lambda>s. case m s of Inl e \<Rightarrow> Inl e | Inr (a, s') \<Rightarrow> f a s')"

text \<open>A statement that only reads.\<close>

definition tx_read :: "('s \<Rightarrow> 'e + 'a) \<Rightarrow> ('s, 'e, 'a) tx" where
  "tx_read r = (\<lambda>s. case r s of Inl e \<Rightarrow> Inl e | Inr a \<Rightarrow> Inr (a, s))"

text \<open>A computation that does not touch the database but may throw.\<close>

definition tx_check :: "'e + 'a \<Rightarrow> ('s, 'e, 'a) tx" where
  "tx_check r = (\<lambda>s. case r of Inl e \<Rightarrow> Inl e | Inr a \<Rightarrow> Inr (a, s))"

definition with_tx :: "('s, 'e, 'a) tx \<Rightarrow> 's \<Rightarrow> ('e + 'a) \<times> 's" where
  "with_tx m s = (case m s of Inl e \<Rightarrow> (Inl e, s) | Inr (a, s') \<Rightarrow> (Inr a, s'))"

lemma tx_return_simp [simp, tx_simps]: "tx_return a s = Inr (a, s)"
  by (simp add: tx_return_def)

lemma tx_throw_simp [simp, tx_simps]: "tx_throw e s = Inl e"
  by (simp add: tx_throw_def)

lemma tx_bind_Inr_eq [tx_simps]:
  "tx_bind m f s = Inr r \<longleftrightarrow> (\<exists>a s'. m s = Inr (a, s') \<and> f a s' = Inr r)"
  by (auto simp: tx_bind_def split: sum.splits)

lemma tx_bind_Inl_eq:
  "tx_bind m f s = Inl e \<longleftrightarrow> m s = Inl e \<or> (\<exists>a s'. m s = Inr (a, s') \<and> f a s' = Inl e)"
  by (auto simp: tx_bind_def split: sum.splits)

lemma tx_bind_Inr [simp]: "m s = Inr (a, s') \<Longrightarrow> tx_bind m f s = f a s'"
  by (simp add: tx_bind_def)

lemma tx_bind_Inl [simp]: "m s = Inl e \<Longrightarrow> tx_bind m f s = Inl e"
  by (simp add: tx_bind_def)

lemma tx_read_Inr_eq [tx_simps]: "tx_read r s = Inr (a, s') \<longleftrightarrow> r s = Inr a \<and> s' = s"
  by (auto simp: tx_read_def split: sum.splits)

lemma tx_read_Inl_eq: "tx_read r s = Inl e \<longleftrightarrow> r s = Inl e"
  by (auto simp: tx_read_def split: sum.splits)

lemma tx_check_Inr_eq [tx_simps]: "tx_check r s = Inr (a, s') \<longleftrightarrow> r = Inr a \<and> s' = s"
  by (auto simp: tx_check_def split: sum.splits)

lemma tx_check_Inl_eq: "tx_check r s = Inl e \<longleftrightarrow> r = Inl e"
  by (auto simp: tx_check_def split: sum.splits)

lemma tx_read_Inr [simp]: "r s = Inr a \<Longrightarrow> tx_read r s = Inr (a, s)"
  by (simp add: tx_read_def)

lemma tx_check_Inr [simp]: "tx_check (Inr a) s = Inr (a, s)"
  by (simp add: tx_check_def)

lemma tx_check_Inl [simp]: "tx_check (Inl e) s = Inl e"
  by (simp add: tx_check_def)

text \<open>A transaction that fails leaves the database as it was: the ROLLBACK of the services.\<close>

lemma with_tx_Inl: "with_tx m s = (Inl e, t) \<longleftrightarrow> m s = Inl e \<and> t = s"
  by (auto simp: with_tx_def split: sum.splits)

lemma with_tx_Inr: "with_tx m s = (Inr a, t) \<longleftrightarrow> m s = Inr (a, t)"
  by (auto simp: with_tx_def split: sum.splits)

lemma with_tx_cases:
  obtains (rolled_back) e where "m s = Inl e" "with_tx m s = (Inl e, s)"
  | (committed) a t where "m s = Inr (a, t)" "with_tx m s = (Inr a, t)"
  by (cases "m s") (auto simp: with_tx_def)

subsection \<open>Lists as tables\<close>

text \<open>\<open>rows.map(f)\<close> with a function that may throw.\<close>

fun map_throw :: "('a \<Rightarrow> 'e + 'b) \<Rightarrow> 'a list \<Rightarrow> 'e + 'b list" where
  "map_throw f [] = Inr []"
| "map_throw f (x # xs) =
     (case f x of Inl e \<Rightarrow> Inl e
      | Inr y \<Rightarrow> (case map_throw f xs of Inl e \<Rightarrow> Inl e | Inr ys \<Rightarrow> Inr (y # ys)))"

lemma map_throw_all: "(\<And>x. x \<in> set xs \<Longrightarrow> f x = Inr (g x)) \<Longrightarrow> map_throw f xs = Inr (map g xs)"
  by (induction xs) simp_all

lemma find_append:
  "find P (xs @ ys) = (case find P xs of None \<Rightarrow> find P ys | Some x \<Rightarrow> Some x)"
  by (induction xs) auto

lemma find_None: "find P xs = None \<longleftrightarrow> (\<forall>x \<in> set xs. \<not> P x)"
  by (induction xs) auto

lemma find_Some_in: "find P xs = Some x \<Longrightarrow> x \<in> set xs \<and> P x"
  by (induction xs) (auto split: if_splits)

lemma find_key_unique:
  "distinct (map k xs) \<Longrightarrow> x \<in> set xs \<Longrightarrow> find (\<lambda>y. k y = k x) xs = Some x"
  by (induction xs) (auto simp: image_iff)

lemma find_key_eq:
  assumes "distinct (map k xs)"
  shows "find (\<lambda>y. k y = c) xs = Some x \<longleftrightarrow> x \<in> set xs \<and> k x = c"
  using find_key_unique [OF assms] find_Some_in [of "\<lambda>y. k y = c" xs x] by blast

lemma filter_key_unique:
  "distinct (map k xs) \<Longrightarrow> x \<in> set xs \<Longrightarrow> filter (\<lambda>y. k y = k x) xs = [x]"
proof (induction xs)
  case Nil
  then show ?case by simp
next
  case (Cons y ys)
  show ?case
  proof (cases "k y = k x")
    case True
    with Cons.prems have "y = x" by (auto simp: image_iff)
    moreover from this Cons.prems(1) have "filter (\<lambda>z. k z = k x) ys = []"
      by (auto simp: filter_empty_conv image_iff)
    ultimately show ?thesis by simp
  next
    case False
    with Cons show ?thesis by auto
  qed
qed

lemma find_prefix: "prefix xs ys \<Longrightarrow> find P xs = Some x \<Longrightarrow> find P ys = Some x"
  by (auto simp: prefix_def find_append)

lemma prefix_append_right: "prefix xs (xs @ ys)"
  by (simp add: prefix_def)

lemma prefix_set_subset: "prefix xs ys \<Longrightarrow> set xs \<subseteq> set ys"
  by (auto simp: prefix_def)

lemma sum_list_concat_map:
  "sum_list (map f (concat xss)) = (\<Sum>xs\<leftarrow>xss. sum_list (map f xs))"
  by (induction xss) simp_all

lemma sum_list_all_zero: "(\<And>x. x \<in> set xs \<Longrightarrow> f x = (0::int)) \<Longrightarrow> sum_list (map f xs) = 0"
  by (induction xs) simp_all

lemma filter_concat_map: "filter P (concat (map f xs)) = concat (map (\<lambda>x. filter P (f x)) xs)"
  by (induction xs) simp_all

lemma concat_map_unique:
  assumes "distinct (map k xs)" and "x \<in> set xs"
    and "\<And>y. y \<in> set xs \<Longrightarrow> k y \<noteq> k x \<Longrightarrow> f y = []"
  shows "concat (map f xs) = f x"
  using assms
proof (induction xs)
  case Nil
  then show ?case by simp
next
  case (Cons y ys)
  show ?case
  proof (cases "y = x")
    case True
    then have "\<forall>z \<in> set ys. f z = []" using Cons.prems by (auto simp: image_iff)
    then have "concat (map f ys) = []" by auto
    with True show ?thesis by simp
  next
    case False
    then have "x \<in> set ys" using Cons.prems(2) by simp
    moreover from this have "k y \<noteq> k x" using Cons.prems(1) by (auto simp: image_iff)
    ultimately show ?thesis using Cons.IH Cons.prems by auto
  qed
qed

end
