(* ===== verification/JsNumbers.thy ===== *)
theory JsNumbers
  imports LedgerPrelude
begin

text \<open>
  The JavaScript numbers the program computes money with. A number is a finite rational (every
  finite double is one; the two zeros are not told apart, as \<open>===\<close> and JSON do not), NaN or
  an infinity. An exact integer becomes a number by rounding to 53 significant bits, ties to
  even, which is what \<open>+\<close> on integer-valued numbers and \<open>Number(text)\<close> do.
\<close>

datatype js_number = JsNum rat | JsNaN | JsInfinity | JsNegInfinity

definition MAX_SAFE_INTEGER :: int where
  "MAX_SAFE_INTEGER = 2 ^ 53 - 1"

definition safe_int :: "int \<Rightarrow> bool" where
  "safe_int n \<longleftrightarrow> \<bar>n\<bar> \<le> MAX_SAFE_INTEGER"

fun js_integer :: "js_number \<Rightarrow> int option" where
  "js_integer (JsNum q) = (if of_int \<lfloor>q\<rfloor> = q then Some \<lfloor>q\<rfloor> else None)"
| "js_integer _ = None"

definition isSafeInteger :: "js_number \<Rightarrow> bool" where
  "isSafeInteger x = (case js_integer x of None \<Rightarrow> False | Some n \<Rightarrow> safe_int n)"

subsection \<open>Rounding an integer to a double\<close>

text \<open>How many low bits a magnitude has beyond the 53 of the significand.\<close>

fun excess_bits :: "nat \<Rightarrow> nat" where
  "excess_bits m = (if m < 2 ^ 53 then 0 else Suc (excess_bits (m div 2)))"

declare excess_bits.simps [simp del]

definition round_magnitude :: "nat \<Rightarrow> nat" where
  "round_magnitude m =
     (let k = excess_bits m; q = m div 2 ^ k; r = m mod 2 ^ k
      in (if 2 * r < 2 ^ k \<or> (2 * r = 2 ^ k \<and> even q) then q else q + 1) * 2 ^ k)"

definition round_int :: "int \<Rightarrow> int" where
  "round_int n = sgn n * int (round_magnitude (nat \<bar>n\<bar>))"

definition js_of_int :: "int \<Rightarrow> js_number" where
  "js_of_int n =
     (let r = round_int n
      in if 2 ^ 1024 \<le> r then JsInfinity
         else if r \<le> - (2 ^ 1024) then JsNegInfinity
         else JsNum (of_int r))"

lemma excess_bits_bound: "m div 2 ^ excess_bits m < 2 ^ 53"
proof (induction m rule: excess_bits.induct)
  case (1 m)
  then show ?case
    by (subst (1) excess_bits.simps) (simp add: div_mult2_eq)
qed

lemma excess_bits_large: "2 ^ 53 \<le> m \<Longrightarrow> 2 ^ 52 \<le> m div 2 ^ excess_bits m \<and> 0 < excess_bits m"
proof (induction m rule: excess_bits.induct)
  case (1 m)
  show ?case
  proof (cases "2 ^ 53 \<le> m div 2")
    case True
    with 1 have "2 ^ 52 \<le> (m div 2) div 2 ^ excess_bits (m div 2)" by simp
    with 1(2) show ?thesis
      by (subst (1 2) excess_bits.simps) (simp add: div_mult2_eq)
  next
    case False
    then have "excess_bits (m div 2) = 0" by (subst excess_bits.simps) simp
    with 1(2) show ?thesis
      by (subst (1 2) excess_bits.simps) simp
  qed
qed

lemma round_magnitude_small: "m < 2 ^ 53 \<Longrightarrow> round_magnitude m = m"
  by (simp add: round_magnitude_def excess_bits.simps [of m])

lemma round_magnitude_large: "2 ^ 53 \<le> m \<Longrightarrow> 2 ^ 53 \<le> round_magnitude m"
proof -
  assume m: "2 ^ 53 \<le> m"
  let ?k = "excess_bits m"
  from excess_bits_large [OF m] have q: "2 ^ 52 \<le> m div 2 ^ ?k" and k: "1 \<le> ?k" by auto
  from k have "(2::nat) ^ 1 \<le> 2 ^ ?k" by (rule power_increasing) simp
  with q have "2 ^ 52 * 2 ^ 1 \<le> (m div 2 ^ ?k) * 2 ^ ?k" by (rule mult_le_mono)
  moreover have "(m div 2 ^ ?k) * 2 ^ ?k \<le> round_magnitude m"
    by (simp add: round_magnitude_def Let_def)
  ultimately show ?thesis by simp
qed

lemma round_int_safe: "safe_int n \<Longrightarrow> round_int n = n"
proof -
  assume "safe_int n"
  then have "nat \<bar>n\<bar> < 2 ^ 53" by (simp add: safe_int_def MAX_SAFE_INTEGER_def)
  then show ?thesis by (simp add: round_int_def round_magnitude_small sgn_mult_abs)
qed

text \<open>Rounding never brings an unsafe integer back into the safe range.\<close>

lemma round_int_unsafe: "\<not> safe_int n \<Longrightarrow> \<not> safe_int (round_int n)"
proof -
  assume "\<not> safe_int n"
  then have "2 ^ 53 \<le> nat \<bar>n\<bar>" and n: "n \<noteq> 0" by (auto simp: safe_int_def MAX_SAFE_INTEGER_def)
  then have "2 ^ 53 \<le> round_magnitude (nat \<bar>n\<bar>)" using round_magnitude_large by blast
  moreover from n have "\<bar>round_int n\<bar> = int (round_magnitude (nat \<bar>n\<bar>))"
    by (simp add: round_int_def abs_mult)
  ultimately show ?thesis by (simp add: safe_int_def MAX_SAFE_INTEGER_def)
qed

lemma round_int_safe_iff: "safe_int (round_int n) \<longleftrightarrow> safe_int n"
  using round_int_safe round_int_unsafe by metis

lemma safe_int_below_infinity: "safe_int n \<Longrightarrow> n < 2 ^ 1024 \<and> - (2 ^ 1024) < n"
  by (auto simp: safe_int_def MAX_SAFE_INTEGER_def)

lemma js_of_int_safe: "safe_int n \<Longrightarrow> js_of_int n = JsNum (of_int n)"
  using safe_int_below_infinity [of n] by (simp add: js_of_int_def round_int_safe Let_def)

text \<open>The test of the code on a rounded integer decides the exact integer.\<close>

lemma isSafeInteger_of_int: "isSafeInteger (js_of_int n) \<longleftrightarrow> safe_int n"
  using round_int_safe_iff [of n]
  by (auto simp: js_of_int_def isSafeInteger_def Let_def js_of_int_safe
      dest: safe_int_below_infinity)

lemma isSafeInteger_num: "isSafeInteger (JsNum (of_int n)) \<longleftrightarrow> safe_int n"
  by (simp add: isSafeInteger_def)

lemma js_integer_of_int: "safe_int n \<Longrightarrow> js_integer (js_of_int n) = Some n"
  by (simp add: js_of_int_safe)

lemma safe_int_neg [simp]: "safe_int (- n) = safe_int n"
  by (simp add: safe_int_def)

lemma safe_int_zero [simp]: "safe_int 0"
  by (simp add: safe_int_def MAX_SAFE_INTEGER_def)

end
