(* ===== verification/PgUuid.thy ===== *)
theory PgUuid
  imports LedgerPrelude
begin

text \<open>
  The UUID columns of the migrations. An identifier reaches a query as text and PostgreSQL
  converts it: hexadecimal digits of either case, a hyphen allowed after any group of four,
  the whole possibly in braces. What comes back from a column is always the lower-case
  8-4-4-4-12 form. The services compare identifiers as text, so the conversion matters: two
  different texts can name one row.
\<close>

definition is_hex :: "char \<Rightarrow> bool" where
  "is_hex c = (let n = (of_char c :: nat)
     in 48 \<le> n \<and> n \<le> 57 \<or> 65 \<le> n \<and> n \<le> 70 \<or> 97 \<le> n \<and> n \<le> 102)"

definition lower_hex :: "char \<Rightarrow> char" where
  "lower_hex c = (let n = (of_char c :: nat) in if 65 \<le> n \<and> n \<le> 70 then char_of (n + 32) else c)"

fun skip_dash :: "string \<Rightarrow> string" where
  "skip_dash [] = []"
| "skip_dash (c # cs) = (if c = CHR ''-'' then cs else c # cs)"

text \<open>\<open>uuid_digits k cs\<close> reads the last \<open>k\<close> of the 32 digits and returns what follows them.\<close>

fun uuid_digits :: "nat \<Rightarrow> string \<Rightarrow> (string \<times> string) option" where
  "uuid_digits 0 cs = Some ([], cs)"
| "uuid_digits (Suc k) [] = None"
| "uuid_digits (Suc k) (c # cs) =
     (if is_hex c
      then map_option (\<lambda>(ds, r). (lower_hex c # ds, r))
             (uuid_digits k (if k mod 4 = 0 \<and> 0 < k then skip_dash cs else cs))
      else None)"

definition uuid_out :: "string \<Rightarrow> string" where
  "uuid_out ds = take 8 ds @ ''-'' @ take 4 (drop 8 ds) @ ''-'' @ take 4 (drop 12 ds) @ ''-''
     @ take 4 (drop 16 ds) @ ''-'' @ drop 20 ds"

definition uuid_in :: "string \<Rightarrow> string option" where
  "uuid_in s =
     (let braces = (s \<noteq> [] \<and> hd s = CHR ''{''); body = (if braces then tl s else s)
      in case uuid_digits 32 body of
           None \<Rightarrow> None
         | Some (ds, rest) \<Rightarrow> if rest = (if braces then ''}'' else []) then Some (uuid_out ds) else None)"

definition lhex :: "char \<Rightarrow> bool" where
  "lhex c \<longleftrightarrow> is_hex c \<and> lower_hex c = c"

lemma of_char_lower: "(of_char (char_of (n + 32) :: char) :: nat) = (n + 32) mod 256"
  by simp

lemma lhex_lower_hex: "is_hex c \<Longrightarrow> lhex (lower_hex c)"
  by (auto simp: lhex_def is_hex_def lower_hex_def Let_def)

lemma is_hex_not_punct: "is_hex c \<Longrightarrow> c \<noteq> CHR ''-'' \<and> c \<noteq> CHR ''{''"
  by (auto simp: is_hex_def Let_def)

lemma uuid_digits_lhex:
  "uuid_digits k cs = Some (ds, r) \<Longrightarrow> length ds = k \<and> list_all lhex ds"
proof (induction k cs arbitrary: ds r rule: uuid_digits.induct)
  case (3 k c cs)
  from "3.prems" have c: "is_hex c" by (auto split: if_splits)
  with "3.prems" obtain ds' where
    "uuid_digits k (if k mod 4 = 0 \<and> 0 < k then skip_dash cs else cs) = Some (ds', r)"
    and "ds = lower_hex c # ds'"
    by (auto simp del: uuid_digits.simps(1,2) split: prod.splits)
  with "3.IH" [OF c] c show ?case by (auto simp: lhex_lower_hex)
qed auto

text \<open>Reading a group of lower-case digits with no hyphen inside.\<close>

lemma uuid_digits_group:
  assumes "list_all lhex ds" and "ds \<noteq> []"
  shows "uuid_digits (length ds + k) (ds @ cs) =
    map_option (\<lambda>(es, r). (ds @ es, r))
      (uuid_digits k (if k mod 4 = 0 \<and> 0 < k then skip_dash cs else cs))"
  using assms
proof (induction ds)
  case Nil
  then show ?case by simp
next
  case (Cons c ds)
  then have c: "is_hex c" "lower_hex c = c" by (simp_all add: lhex_def)
  show ?case
  proof (cases ds)
    case Nil
    with c show ?thesis by (simp add: case_prod_beta')
  next
    case (Cons d ds')
    with Cons.prems have "is_hex d" by (simp add: lhex_def)
    then have skip: "skip_dash (ds @ cs) = ds @ cs" using is_hex_not_punct Cons by simp
    have "uuid_digits (Suc (length ds + k)) (c # (ds @ cs)) =
      map_option (\<lambda>(es, r). (c # es, r)) (uuid_digits (length ds + k) (ds @ cs))"
      by (simp only: uuid_digits.simps skip c if_True if_cancel)
    also have "uuid_digits (length ds + k) (ds @ cs) =
      map_option (\<lambda>(es, r). (ds @ es, r))
        (uuid_digits k (if k mod 4 = 0 \<and> 0 < k then skip_dash cs else cs))"
      using Cons.IH Cons.prems Cons by simp
    finally show ?thesis by (simp add: option.map_comp comp_def case_prod_beta')
  qed
qed

lemma uuid_digits_out:
  assumes len: "length ds = 32" and hex: "list_all lhex ds"
  shows "uuid_digits 32 (uuid_out ds) = Some (ds, [])"
proof -
  let ?a = "take 8 ds" and ?b = "take 4 (drop 8 ds)" and ?c = "take 4 (drop 12 ds)"
    and ?d = "take 4 (drop 16 ds)" and ?e = "drop 20 ds"
  have parts: "list_all lhex ?a" "list_all lhex ?b" "list_all lhex ?c" "list_all lhex ?d"
    "list_all lhex ?e"
    using hex by (auto simp: list_all_iff dest: in_set_takeD in_set_dropD)
  have "drop 8 ds = ?b @ drop 12 ds"
    using append_take_drop_id [of 4 "drop 8 ds"] by simp
  moreover have "drop 12 ds = ?c @ drop 16 ds"
    using append_take_drop_id [of 4 "drop 12 ds"] by simp
  moreover have "drop 16 ds = ?d @ ?e"
    using append_take_drop_id [of 4 "drop 16 ds"] by simp
  ultimately have ds: "?a @ ?b @ ?c @ ?d @ ?e = ds"
    using append_take_drop_id [of 8 ds] by simp
  have ne: "?a \<noteq> []" using len by (cases ds) simp_all
  have "uuid_digits 12 ?e = Some (?e, [])"
    using uuid_digits_group [OF parts(5), of 0 "[]"] len by simp
  then have "uuid_digits 16 (?d @ ''-'' @ ?e) = Some (?d @ ?e, [])"
    using uuid_digits_group [OF parts(4), of 12 "''-'' @ ?e"] len by simp
  then have "uuid_digits 20 (?c @ ''-'' @ ?d @ ''-'' @ ?e) = Some (?c @ ?d @ ?e, [])"
    using uuid_digits_group [OF parts(3), of 16 "''-'' @ ?d @ ''-'' @ ?e"] len by simp
  then have "uuid_digits 24 (?b @ ''-'' @ ?c @ ''-'' @ ?d @ ''-'' @ ?e) = Some (?b @ ?c @ ?d @ ?e, [])"
    using uuid_digits_group [OF parts(2), of 20 "''-'' @ ?c @ ''-'' @ ?d @ ''-'' @ ?e"] len by simp
  then have "uuid_digits 32 (uuid_out ds) = Some (?a @ ?b @ ?c @ ?d @ ?e, [])"
    using uuid_digits_group [OF parts(1) ne, of 24 "''-'' @ ?b @ ''-'' @ ?c @ ''-'' @ ?d @ ''-'' @ ?e"] len
    by (simp add: uuid_out_def)
  with ds show ?thesis by simp
qed

lemma uuid_in_out: "uuid_in s = Some t \<Longrightarrow> \<exists>ds. length ds = 32 \<and> list_all lhex ds \<and> t = uuid_out ds"
  by (auto simp: uuid_in_def Let_def dest!: uuid_digits_lhex split: option.splits prod.splits if_splits)

text \<open>The text of a stored identifier names that identifier: reading it back changes nothing.\<close>

lemma uuid_in_idem: "uuid_in s = Some t \<Longrightarrow> uuid_in t = Some t"
proof -
  assume "uuid_in s = Some t"
  then obtain ds where ds: "length ds = 32" "list_all lhex ds" and t: "t = uuid_out ds"
    using uuid_in_out by blast
  then obtain c cs where "ds = c # cs" by (cases ds) auto
  with ds t have t_hd: "t = c # tl t" and "is_hex c"
    by (simp_all add: uuid_out_def lhex_def)
  from this(2) have "c \<noteq> CHR ''{''" using is_hex_not_punct by blast
  then have "hd t \<noteq> CHR ''{''" and "t \<noteq> []"
    using t_hd by (metis list.sel(1), metis list.distinct(1))
  moreover have "uuid_digits 32 t = Some (ds, [])"
    unfolding t by (rule uuid_digits_out [OF ds])
  ultimately show ?thesis by (simp add: uuid_in_def t [symmetric])
qed

lemma skip_dash_length: "length cs \<le> Suc (length (skip_dash cs))"
  by (cases cs) simp_all

lemma uuid_digits_length: "uuid_digits k cs = Some (ds, r) \<Longrightarrow> length cs \<le> length r + 2 * k"
proof (induction k cs arbitrary: ds r rule: uuid_digits.induct)
  case (3 k c cs)
  let ?cs = "if k mod 4 = 0 \<and> 0 < k then skip_dash cs else cs"
  from "3.prems" have c: "is_hex c" by (auto split: if_splits)
  with "3.prems" obtain ds' where "uuid_digits k ?cs = Some (ds', r)"
    by (auto simp del: uuid_digits.simps(1,2) split: prod.splits)
  then have "length ?cs \<le> length r + 2 * k" by (rule "3.IH" [OF c])
  then show ?case using skip_dash_length [of cs] by (simp split: if_splits)
qed auto

text \<open>Every text PostgreSQL reads as a UUID is short.\<close>

lemma uuid_in_length: "uuid_in s = Some u \<Longrightarrow> length s \<le> 66"
  by (auto simp: uuid_in_def Let_def split: option.splits prod.splits if_splits dest!: uuid_digits_length)

text \<open>The identifiers that come out of the database.\<close>

definition uuid_ok :: "string \<Rightarrow> bool" where
  "uuid_ok u \<longleftrightarrow> uuid_in u = Some u"

lemma uuid_ok_in [simp]: "uuid_ok u \<Longrightarrow> uuid_in u = Some u"
  by (simp add: uuid_ok_def)

lemma uuid_in_ok: "uuid_in s = Some t \<Longrightarrow> uuid_ok t"
  unfolding uuid_ok_def by (rule uuid_in_idem)

text \<open>Letter case does not matter to PostgreSQL.\<close>

lemma of_char_lower_hex: "(of_char (lower_hex c) :: nat) =
    (if 65 \<le> (of_char c :: nat) \<and> (of_char c :: nat) \<le> 70 then of_char c + 32 else of_char c)"
  by (simp add: lower_hex_def Let_def)

lemma lower_hex_same [simp]: "lower_hex (lower_hex c) = lower_hex c" "is_hex (lower_hex c) = is_hex c"
  "lower_hex c = CHR ''-'' \<longleftrightarrow> c = CHR ''-''" "lower_hex c = CHR ''{'' \<longleftrightarrow> c = CHR ''{''"
proof -
  have eq: "a = b \<longleftrightarrow> (of_char a :: nat) = of_char b" for a b :: char by simp
  show "lower_hex (lower_hex c) = lower_hex c" by (simp only: eq of_char_lower_hex) simp
  show "is_hex (lower_hex c) = is_hex c" by (auto simp: is_hex_def of_char_lower_hex Let_def)
  show "lower_hex c = CHR ''-'' \<longleftrightarrow> c = CHR ''-''" by (simp only: eq of_char_lower_hex) simp
  show "lower_hex c = CHR ''{'' \<longleftrightarrow> c = CHR ''{''" by (simp only: eq of_char_lower_hex) simp
qed

lemma skip_dash_lower: "skip_dash (map lower_hex cs) = map lower_hex (skip_dash cs)"
  by (cases cs) simp_all

lemma uuid_digits_lower:
  "uuid_digits k (map lower_hex cs) = map_option (\<lambda>(ds, r). (ds, map lower_hex r)) (uuid_digits k cs)"
proof (induction k cs rule: uuid_digits.induct)
  case (3 k c cs)
  let ?cs = "if k mod 4 = 0 \<and> 0 < k then skip_dash cs else cs"
  have "(if k mod 4 = 0 \<and> 0 < k then skip_dash (map lower_hex cs) else map lower_hex cs) = map lower_hex ?cs"
    by (simp add: skip_dash_lower)
  with "3.IH" show ?case by (cases "uuid_digits k ?cs") (auto simp del: uuid_digits.simps(1,2))
qed simp_all

text \<open>The form the validators of the controllers accept: 8-4-4-4-12 digits in either case.\<close>

definition uuid_form :: "string \<Rightarrow> bool" where
  "uuid_form s \<longleftrightarrow> uuid_ok (map lower_hex s)"

lemma uuid_form_in: "uuid_form s \<Longrightarrow> uuid_in s = Some (map lower_hex s)"
proof -
  assume "uuid_form s"
  then have ok: "uuid_in (map lower_hex s) = Some (map lower_hex s)" by (simp add: uuid_form_def uuid_ok_def)
  then obtain ds where ds: "length ds = 32" "list_all lhex ds" and out: "map lower_hex s = uuid_out ds"
    using uuid_in_out by blast
  from uuid_digits_out [OF ds] have "uuid_digits 32 (map lower_hex s) = Some (ds, [])" by (simp add: out)
  then have "uuid_digits 32 s = Some (ds, [])" by (auto simp: uuid_digits_lower)
  moreover have "s \<noteq> [] \<longrightarrow> hd s \<noteq> CHR ''{''"
  proof (cases s)
    case (Cons c cs)
    obtain d es where "ds = d # es" using ds(1) by (cases ds) auto
    with out ds(2) Cons have "lower_hex c = d" "is_hex d" by (auto simp: uuid_out_def lhex_def)
    then show ?thesis using Cons is_hex_not_punct [of d] by auto
  qed simp
  ultimately show ?thesis using out by (auto simp: uuid_in_def Let_def)
qed

lemma uuid_ok_form: "uuid_ok u \<Longrightarrow> uuid_form u \<and> map lower_hex u = u"
proof -
  assume ok: "uuid_ok u"
  then obtain ds where ds: "list_all lhex ds" and u: "u = uuid_out ds" using uuid_in_out [of u u] by (auto simp: uuid_ok_def)
  have "map lower_hex (uuid_out ds) = uuid_out ds"
    using ds by (auto simp: uuid_out_def lhex_def list_all_iff lower_hex_def Let_def intro!: map_idI dest!: in_set_takeD in_set_dropD)
  with ok u show ?thesis by (simp add: uuid_form_def)
qed

end
