(* ===== verification/Postgres.thy ===== *)
theory Postgres
  imports LedgerPrelude JsNumbers PgUuid
begin

text \<open>
  What the repositories of both services use of PostgreSQL besides tables: the errors a
  statement raises, the conversion of a bound parameter to a UUID or BIGINT column, and the
  range of BIGINT. A service error is a domain error of the service, a database error, a plain
  \<open>new Error(...)\<close>, or the 400 the HTTP layer answers for a request it refuses.
\<close>

datatype db_error =
    UniqueViolation string
  | ForeignKeyViolation string
  | CheckViolation string
  | InvalidTextRepresentation string
  | NumericValueOutOfRange

datatype 'd service_error = Domain 'd | Db db_error | Failure string | BadRequest

definition bigint :: "int \<Rightarrow> bool" where
  "bigint n \<longleftrightarrow> - (2 ^ 63) \<le> n \<and> n < 2 ^ 63"

definition bind_uuid :: "string \<Rightarrow> 'd service_error + string" where
  "bind_uuid s = (case uuid_in s of
     None \<Rightarrow> Inl (Db (InvalidTextRepresentation s)) | Some u \<Rightarrow> Inr u)"

text \<open>A JavaScript number bound to a BIGINT column is sent as text: a fraction is refused.\<close>

definition bind_bigint :: "js_number \<Rightarrow> 'd service_error + int" where
  "bind_bigint x = (case js_integer x of
     None \<Rightarrow> Inl (Db (InvalidTextRepresentation ''bigint''))
   | Some n \<Rightarrow> if bigint n then Inr n else Inl (Db NumericValueOutOfRange))"

text \<open>A domain function of the code that throws, called inside a service.\<close>

definition lift_domain :: "'d + 'a \<Rightarrow> 'd service_error + 'a" where
  "lift_domain r = (case r of Inl e \<Rightarrow> Inl (Domain e) | Inr a \<Rightarrow> Inr a)"

text \<open>A CHECK or foreign key of a table: the statement fails with the error unless it holds.\<close>

definition db_guard :: "bool \<Rightarrow> db_error \<Rightarrow> ('s, 'd service_error, unit) tx" where
  "db_guard p e = (\<lambda>s. if p then Inr ((), s) else Inl (Db e))"

lemma bind_uuid_Inr [tx_simps]: "bind_uuid s = Inr u \<longleftrightarrow> uuid_in s = Some u"
  by (auto simp: bind_uuid_def split: option.splits)

lemma bind_uuid_Inl: "bind_uuid s = Inl e \<longleftrightarrow> uuid_in s = None \<and> e = Db (InvalidTextRepresentation s)"
  by (auto simp: bind_uuid_def split: option.splits)

lemma lift_domain_Inr [tx_simps]: "lift_domain r = Inr a \<longleftrightarrow> r = Inr a"
  by (auto simp: lift_domain_def split: sum.splits)

lemma lift_domain_Inl: "lift_domain r = Inl e \<longleftrightarrow> (\<exists>d. r = Inl d \<and> e = Domain d)"
  by (auto simp: lift_domain_def split: sum.splits)

lemma lift_domain_simps [simp]: "lift_domain (Inl d) = Inl (Domain d)" "lift_domain (Inr a) = Inr a"
  by (simp_all add: lift_domain_def)

lemma db_guard_Inr [tx_simps]: "db_guard p e s = Inr (u, s') \<longleftrightarrow> p \<and> s' = s"
  by (auto simp: db_guard_def)

lemma db_guard_Inl: "db_guard p e s = Inl e' \<longleftrightarrow> \<not> p \<and> e' = Db e"
  by (auto simp: db_guard_def)

lemma db_guard_True [simp]: "db_guard True e s = Inr ((), s)"
  by (simp add: db_guard_def)

lemma safe_int_bigint: "safe_int n \<Longrightarrow> bigint n"
  by (auto simp: safe_int_def bigint_def MAX_SAFE_INTEGER_def)

lemma bind_bigint_safe: "safe_int n \<Longrightarrow> bind_bigint (js_of_int n) = Inr n"
  by (simp add: bind_bigint_def js_integer_of_int safe_int_bigint)

end
