(* ===== verification/BankDomain.thy ===== *)
theory BankDomain
  imports Postgres
begin

text \<open>
  The domain layer of Bank A (src/domain): money in integer cents, the errors, the transfer
  with its double entry, the two well-known accounts, and the table that maps a domain error
  to an HTTP status.
\<close>

datatype domain_error =
    InvalidAmountError js_number
  | SelfTransferError
  | InsufficientFundsError string
  | AccountNotFoundError string
  | TransferNotFoundError string
  | IdempotencyConflictError

type_synonym bank_error = "domain_error service_error"

subsection \<open>Money\<close>

text \<open>
  The constructor is private: a value comes from \<open>fromCents\<close>, \<open>zero\<close> or an operation on
  values, so \<open>money_ok\<close> holds of every value the program can build.
\<close>

datatype money = Money (cents: int)

definition money_ok :: "money \<Rightarrow> bool" where
  "money_ok m \<longleftrightarrow> safe_int (cents m)"

definition Money_fromCents :: "js_number \<Rightarrow> domain_error + money" where
  "Money_fromCents n =
     (if \<not> isSafeInteger n then Inl (InvalidAmountError n) else Inr (Money (the (js_integer n))))"

definition Money_zero :: money where
  "Money_zero = Money 0"

definition Money_plus :: "money \<Rightarrow> money \<Rightarrow> domain_error + money" where
  "Money_plus this other = Money_fromCents (js_of_int (cents this + cents other))"

definition Money_negated :: "money \<Rightarrow> domain_error + money" where
  "Money_negated this = Money_fromCents (js_of_int (- cents this))"

definition Money_isPositive :: "money \<Rightarrow> bool" where
  "Money_isPositive this \<longleftrightarrow> cents this > 0"

definition Money_lessThan :: "money \<Rightarrow> money \<Rightarrow> bool" where
  "Money_lessThan this other \<longleftrightarrow> cents this < cents other"

definition Money_equals :: "money \<Rightarrow> money \<Rightarrow> bool" where
  "Money_equals this other \<longleftrightarrow> cents this = cents other"

instantiation money :: linorder
begin

definition less_eq_money :: "money \<Rightarrow> money \<Rightarrow> bool" where
  "less_eq_money a b \<longleftrightarrow> \<not> Money_lessThan b a"

definition less_money :: "money \<Rightarrow> money \<Rightarrow> bool" where
  "less_money a b \<longleftrightarrow> Money_lessThan a b"

instance
  by standard (auto simp: less_eq_money_def less_money_def Money_lessThan_def intro: money.expand)

end

lemma Money_equals_iff [simp]: "Money_equals a b \<longleftrightarrow> a = b"
  by (auto simp: Money_equals_def intro: money.expand)

lemma Money_fromCents_of_int:
  "Money_fromCents (js_of_int n) =
     (if safe_int n then Inr (Money n) else Inl (InvalidAmountError (js_of_int n)))"
  by (simp add: Money_fromCents_def isSafeInteger_of_int js_integer_of_int)

lemma Money_fromCents_Inr: "Money_fromCents x = Inr m \<longleftrightarrow> isSafeInteger x \<and> js_integer x = Some (cents m)"
  by (cases m) (auto simp: Money_fromCents_def isSafeInteger_def split: option.splits)

lemma Money_fromCents_ok: "Money_fromCents x = Inr m \<Longrightarrow> money_ok m"
  by (auto simp: Money_fromCents_Inr isSafeInteger_def money_ok_def)

lemma Money_negated_ok: "money_ok m \<Longrightarrow> Money_negated m = Inr (Money (- cents m))"
  by (simp add: Money_negated_def Money_fromCents_of_int money_ok_def)

text \<open>
  Money is never computed with a rounded number: whatever two amounts are added, with all
  the rounding of double arithmetic, the result is the exact sum of the cents, or the addition
  throws because the exact sum is not a safe integer.
\<close>
theorem Money_plus_exact:
  "Money_plus a b =
     (if safe_int (cents a + cents b) then Inr (Money (cents a + cents b))
      else Inl (InvalidAmountError (js_of_int (cents a + cents b))))"
  by (simp add: Money_plus_def Money_fromCents_of_int)

subsection \<open>Transfers\<close>

record transfer =
  tr_id :: string
  tr_payerAccountId :: string
  tr_payeeAccountId :: string
  tr_amount :: money

record ledger_entry =
  entry_transferId :: string
  entry_accountId :: string
  entry_amount :: money

definition Transfer_create :: "string \<Rightarrow> string \<Rightarrow> string \<Rightarrow> money \<Rightarrow> domain_error + transfer" where
  "Transfer_create i payer payee amount =
     (if \<not> Money_isPositive amount then Inl (InvalidAmountError (js_of_int (cents amount)))
      else if payer = payee then Inl SelfTransferError
      else Inr \<lparr>tr_id = i, tr_payerAccountId = payer, tr_payeeAccountId = payee, tr_amount = amount\<rparr>)"

definition Transfer_entries :: "transfer \<Rightarrow> domain_error + ledger_entry list" where
  "Transfer_entries this =
     (case Money_negated (tr_amount this) of
        Inl e \<Rightarrow> Inl e
      | Inr neg \<Rightarrow> Inr
         [\<lparr>entry_transferId = tr_id this, entry_accountId = tr_payerAccountId this, entry_amount = neg\<rparr>,
          \<lparr>entry_transferId = tr_id this, entry_accountId = tr_payeeAccountId this,
           entry_amount = tr_amount this\<rparr>])"

definition assertPayerCanAfford :: "transfer \<Rightarrow> money \<Rightarrow> domain_error + unit" where
  "assertPayerCanAfford this payerBalance =
     (if Money_lessThan payerBalance (tr_amount this)
      then Inl (InsufficientFundsError (tr_payerAccountId this)) else Inr ())"

definition SUSPENSE_ACCOUNT_ID :: string where
  "SUSPENSE_ACCOUNT_ID = ''00000000-0000-0000-0000-000000000001''"

definition DEV_TREASURY_ACCOUNT_ID :: string where
  "DEV_TREASURY_ACCOUNT_ID = ''00000000-0000-0000-0000-000000000099''"

lemma Transfer_create_Inr:
  "Transfer_create i payer payee amount = Inr t \<longleftrightarrow>
     0 < cents amount \<and> payer \<noteq> payee \<and>
     t = \<lparr>tr_id = i, tr_payerAccountId = payer, tr_payeeAccountId = payee, tr_amount = amount\<rparr>"
  by (auto simp: Transfer_create_def Money_isPositive_def)

lemma Transfer_entries_ok:
  "money_ok (tr_amount t) \<Longrightarrow> Transfer_entries t = Inr
     [\<lparr>entry_transferId = tr_id t, entry_accountId = tr_payerAccountId t,
       entry_amount = Money (- cents (tr_amount t))\<rparr>,
      \<lparr>entry_transferId = tr_id t, entry_accountId = tr_payeeAccountId t, entry_amount = tr_amount t\<rparr>]"
  by (simp add: Transfer_entries_def Money_negated_ok)

lemma assertPayerCanAfford_Inr: "assertPayerCanAfford t b = Inr u \<longleftrightarrow> cents (tr_amount t) \<le> cents b"
  by (auto simp: assertPayerCanAfford_def Money_lessThan_def)

lemma suspense_ok: "uuid_ok SUSPENSE_ACCOUNT_ID"
  by code_simp

lemma treasury_ok: "uuid_ok DEV_TREASURY_ACCOUNT_ID"
  by code_simp

lemma suspense_not_treasury: "SUSPENSE_ACCOUNT_ID \<noteq> DEV_TREASURY_ACCOUNT_ID"
  by code_simp

lemma suspense_uuid [simp]: "uuid_in SUSPENSE_ACCOUNT_ID = Some SUSPENSE_ACCOUNT_ID"
  using suspense_ok by simp

lemma treasury_uuid [simp]: "uuid_in DEV_TREASURY_ACCOUNT_ID = Some DEV_TREASURY_ACCOUNT_ID"
  using treasury_ok by simp

text \<open>
  A transfer is only built for a positive amount between two different account ids, and
  building its double entry never throws: one debit of the payer, one credit of the payee, both
  under the transfer's id, non-zero (as the ledger table requires) and summing to zero.
\<close>
theorem Transfer_double_entry:
  assumes "Transfer_create i payer payee amount = Inr t" and "money_ok amount"
  shows "\<exists>d c. Transfer_entries t = Inr [d, c] \<and>
    entry_accountId d = payer \<and> entry_accountId c = payee \<and>
    entry_transferId d = i \<and> entry_transferId c = i \<and>
    cents (entry_amount d) < 0 \<and> 0 < cents (entry_amount c) \<and>
    Money_plus (entry_amount d) (entry_amount c) = Inr Money_zero"
proof -
  from assms have t: "t = \<lparr>tr_id = i, tr_payerAccountId = payer, tr_payeeAccountId = payee, tr_amount = amount\<rparr>"
    and pos: "0 < cents amount" by (simp_all add: Transfer_create_Inr)
  then have "Transfer_entries t = Inr
     [\<lparr>entry_transferId = i, entry_accountId = payer, entry_amount = Money (- cents amount)\<rparr>,
      \<lparr>entry_transferId = i, entry_accountId = payee, entry_amount = amount\<rparr>]"
    using Transfer_entries_ok [of t] assms(2) by simp
  with pos show ?thesis
    by (simp add: Money_plus_def Money_fromCents_of_int Money_zero_def)
qed

theorem Transfer_double_entry_witness:
  "\<exists>d c. Transfer_entries \<lparr>tr_id = ''t'', tr_payerAccountId = ''p'', tr_payeeAccountId = ''q'',
      tr_amount = Money 100\<rparr> = Inr [d, c] \<and>
    entry_accountId d = ''p'' \<and> entry_accountId c = ''q'' \<and>
    entry_transferId d = ''t'' \<and> entry_transferId c = ''t'' \<and>
    cents (entry_amount d) < 0 \<and> 0 < cents (entry_amount c) \<and>
    Money_plus (entry_amount d) (entry_amount c) = Inr Money_zero"
  by (rule Transfer_double_entry [of _ _ _ "Money 100"])
    (simp_all add: Transfer_create_Inr money_ok_def safe_int_def MAX_SAFE_INTEGER_def)

subsection \<open>The exception filter\<close>

definition error_name :: "domain_error \<Rightarrow> string" where
  "error_name e = (case e of
     InvalidAmountError _ \<Rightarrow> ''InvalidAmountError''
   | SelfTransferError \<Rightarrow> ''SelfTransferError''
   | InsufficientFundsError _ \<Rightarrow> ''InsufficientFundsError''
   | AccountNotFoundError _ \<Rightarrow> ''AccountNotFoundError''
   | TransferNotFoundError _ \<Rightarrow> ''TransferNotFoundError''
   | IdempotencyConflictError \<Rightarrow> ''IdempotencyConflictError'')"

text \<open>\<open>show\<close> is the text \<open>String(value)\<close> of a JavaScript number.\<close>

definition error_message :: "(js_number \<Rightarrow> string) \<Rightarrow> domain_error \<Rightarrow> string" where
  "error_message show e = (case e of
     InvalidAmountError v \<Rightarrow> ''Amount must be a positive integer number of cents, got '' @ show v @ ''.''
   | SelfTransferError \<Rightarrow> ''Payer and payee accounts must be different.''
   | InsufficientFundsError a \<Rightarrow> ''Account '' @ a @ '' has insufficient funds.''
   | AccountNotFoundError a \<Rightarrow> ''Account '' @ a @ '' not found.''
   | TransferNotFoundError t \<Rightarrow> ''Transfer '' @ t @ '' not found.''
   | IdempotencyConflictError \<Rightarrow> ''Idempotency key was already used with different parameters.'')"

definition STATUS_BY_ERROR :: "(string \<times> nat) list" where
  "STATUS_BY_ERROR =
    [(''AccountNotFoundError'', 404),
     (''TransferNotFoundError'', 404),
     (''InsufficientFundsError'', 422),
     (''IdempotencyConflictError'', 409),
     (''InvalidAmountError'', 400),
     (''SelfTransferError'', 400)]"

definition exception_status :: "domain_error \<Rightarrow> nat" where
  "exception_status e = (case find (\<lambda>(n, _). n = error_name e) STATUS_BY_ERROR of
     Some (_, st) \<Rightarrow> st | None \<Rightarrow> 500)"

text \<open>
  Every domain error has a row in the filter's table: what the caller did wrong is always
  reported as a client error (400, 404, 409 or 422) and never as the 500 of the fallback.
\<close>
theorem exception_status_table:
  "exception_status e = (case e of
     InvalidAmountError _ \<Rightarrow> 400 | SelfTransferError \<Rightarrow> 400
   | InsufficientFundsError _ \<Rightarrow> 422
   | AccountNotFoundError _ \<Rightarrow> 404 | TransferNotFoundError _ \<Rightarrow> 404
   | IdempotencyConflictError \<Rightarrow> 409)"
  by (cases e) (simp_all add: exception_status_def STATUS_BY_ERROR_def error_name_def)

end
