(* ===== verification/Interfaces.thy ===== *)
theory Interfaces
  imports LedgerPrelude
begin

text \<open>
  The contracts the components share, each with the lemmas a client gets from it: an
  append-only journal whose balances are sums of its rows, a double-entry journal on top of it,
  a process status that leaves its live value at most once, and a consumer that may see a
  message any number of times. The components that provide them interpret them.
\<close>

subsection \<open>A journal and its balances\<close>

locale journal =
  fixes rows :: "'s \<Rightarrow> 'r list"
    and holder :: "'r \<Rightarrow> 'k"
    and amount :: "'r \<Rightarrow> int"
    and append :: "'r list \<Rightarrow> 's \<Rightarrow> 's"
    and balance :: "'k \<Rightarrow> 's \<Rightarrow> int"
  assumes rows_append: "rows (append es s) = rows s @ es"
    and balance_rows: "balance k s = sum_list (map amount (filter (\<lambda>r. holder r = k) (rows s)))"
begin

lemma balance_append:
  "balance k (append es s) = balance k s + sum_list (map amount (filter (\<lambda>r. holder r = k) es))"
  by (simp add: balance_rows rows_append)

lemma balance_untouched: "k \<notin> holder ` set es \<Longrightarrow> balance k (append es s) = balance k s"
proof -
  assume "k \<notin> holder ` set es"
  then have "filter (\<lambda>r. holder r = k) es = []" by (auto simp: filter_empty_conv)
  then show ?thesis by (simp add: balance_append)
qed

text \<open>Summing the balances of all holders is summing the rows.\<close>

lemma sum_balances:
  assumes "finite K" and "holder ` set (rows s) \<subseteq> K"
  shows "(\<Sum>k\<in>K. balance k s) = sum_list (map amount (rows s))"
proof -
  have "(\<Sum>k\<in>K. sum_list (map amount (filter (\<lambda>r. holder r = k) rs))) = sum_list (map amount rs)"
    if "holder ` set rs \<subseteq> K" for rs
    using that
  proof (induction rs)
    case Nil
    then show ?case by simp
  next
    case (Cons r rs)
    have "(\<Sum>k\<in>K. sum_list (map amount (filter (\<lambda>x. holder x = k) (r # rs)))) =
      (\<Sum>k\<in>K. (if holder r = k then amount r else 0) + sum_list (map amount (filter (\<lambda>x. holder x = k) rs)))"
      by (rule sum.cong) auto
    also have "\<dots> = amount r + sum_list (map amount rs)"
      using Cons assms(1) by (simp add: sum.distrib)
    finally show ?case by simp
  qed
  with assms(2) show ?thesis by (simp add: balance_rows)
qed

end

subsection \<open>Double entry\<close>

locale double_entry = journal +
  fixes entries :: "'t \<Rightarrow> 'r list"
  assumes entries_balanced: "sum_list (map amount (entries t)) = 0"
begin

lemma total_post: "sum_list (map amount (rows (append (entries t) s))) = sum_list (map amount (rows s))"
  by (simp add: rows_append entries_balanced)

lemma total_rows_of:
  "rows s = concat (map entries ts) \<Longrightarrow> sum_list (map amount (rows s)) = 0"
  by (simp add: sum_list_concat_map entries_balanced comp_def)

lemma no_money_created:
  assumes "rows s = concat (map entries ts)" and "finite K" and "holder ` set (rows s) \<subseteq> K"
  shows "(\<Sum>k\<in>K. balance k s) = 0"
  using sum_balances [OF assms(2,3)] total_rows_of [OF assms(1)] by simp

end

subsection \<open>A status that settles once\<close>

text \<open>\<open>mark st w k\<close> asks for status \<open>st\<close> of row \<open>k\<close>; \<open>w\<close> is what else the update writes.\<close>

locale guarded_status =
  fixes status :: "'k \<Rightarrow> 's \<Rightarrow> 'st option"
    and mark :: "'st \<Rightarrow> 'w \<Rightarrow> 'k \<Rightarrow> 's \<Rightarrow> 's"
    and live :: 'st
  assumes mark_live: "status k s = Some live \<Longrightarrow> status k (mark st w k s) = Some st"
    and mark_other: "k \<noteq> k' \<Longrightarrow> status k (mark st w k' s) = status k s"
    and mark_settled: "status k s \<noteq> Some live \<Longrightarrow> status k (mark st w k s) = status k s"
begin

lemma settled_stays:
  "status k s = Some st \<Longrightarrow> st \<noteq> live \<Longrightarrow> status k (fold (\<lambda>(st, w, k). mark st w k) ms s) = Some st"
proof (induction ms arbitrary: s)
  case Nil
  then show ?case by simp
next
  case (Cons m ms)
  obtain st' w k' where m: "m = (st', w, k')" by (cases m)
  have "status k (mark st' w k' s) = Some st"
    using Cons.prems mark_other [of k k'] mark_settled [of k' s] by (cases "k = k'") auto
  with Cons.IH Cons.prems(2) m show ?case by simp
qed

text \<open>Whatever is asked of a live row afterwards, the first request decides.\<close>

lemma first_mark_wins:
  "status k s = Some live \<Longrightarrow> st \<noteq> live \<Longrightarrow>
   status k (fold (\<lambda>(st, w, k). mark st w k) ((st, w, k) # ms) s) = Some st"
  using settled_stays [of k "mark st w k s" st ms] by (simp add: mark_live)

text \<open>Nothing but a request for its own row moves a status.\<close>

lemma unmarked_unchanged:
  "k \<notin> (\<lambda>(st, w, k). k) ` set ms \<Longrightarrow> status k (fold (\<lambda>(st, w, k). mark st w k) ms s) = status k s"
  by (induction ms arbitrary: s) (auto simp: mark_other)

end

subsection \<open>A consumer of at-least-once deliveries\<close>

locale idempotent_consumer =
  fixes handle :: "'ev \<Rightarrow> 's \<Rightarrow> ('e + 'a) \<times> 's"
    and key :: "'ev \<Rightarrow> 'k"
    and handled :: "'k \<Rightarrow> 's \<Rightarrow> bool"
  assumes handle_handled: "handled (key e) s \<Longrightarrow> snd (handle e s) = s"
    and handle_marks: "fst (handle e s) = Inr a \<Longrightarrow> handled (key e) (snd (handle e s))"
    and handled_stays: "handled k s \<Longrightarrow> handled k (snd (handle e s))"
begin

lemma handled_run: "handled k s \<Longrightarrow> handled k (fold (\<lambda>e s. snd (handle e s)) es s)"
  by (induction es arbitrary: s) (simp_all add: handled_stays)

text \<open>
  A message delivered again, at any later point and with any other deliveries between, changes
  nothing once it was processed.
\<close>

lemma redelivery_ignored:
  assumes "fst (handle e s) = Inr a" and "key e' = key e"
  shows "fold (\<lambda>e s. snd (handle e s)) (e # xs @ e' # ys) s = fold (\<lambda>e s. snd (handle e s)) (e # xs @ ys) s"
proof -
  let ?s = "fold (\<lambda>e s. snd (handle e s)) xs (snd (handle e s))"
  have "handled (key e) ?s" using handled_run handle_marks [OF assms(1)] by blast
  then have "snd (handle e' ?s) = ?s" using handle_handled assms(2) by metis
  then show ?thesis by simp
qed

lemma repeated_delivery:
  "fst (handle e s) = Inr a \<Longrightarrow> fold (\<lambda>e s. snd (handle e s)) (replicate (Suc n) e) s = snd (handle e s)"
proof (induction n)
  case 0
  then show ?case by simp
next
  case (Suc n)
  have "fold (\<lambda>e s. snd (handle e s)) (replicate (Suc (Suc n)) e) s =
        fold (\<lambda>e s. snd (handle e s)) (e # [] @ e # replicate n e) s" by simp
  also have "\<dots> = fold (\<lambda>e s. snd (handle e s)) (replicate (Suc n) e) s"
    using redelivery_ignored [OF Suc.prems refl, of "[]" "replicate n e"] by simp
  finally show ?case using Suc by simp
qed

end

end
