(* ===== verification/Messaging.thy ===== *)
theory Messaging
  imports JsNumbers
begin

text \<open>
  What travels between the banks and the Hub: JSON payloads and the routing keys of the topic
  exchange (src/infra/messaging/topology.ts and its twin under hub/src). A field that is
  \<open>undefined\<close> is left out of the JSON text, one that is null is kept.
\<close>

datatype json =
    JNull
  | JBool bool
  | JNum rat
  | JStr string
  | JArr "json list"
  | JObj "(string \<times> json) list"

fun json_field :: "string \<Rightarrow> json \<Rightarrow> json option" where
  "json_field f (JObj fs) = map_of (rev fs) f"
| "json_field f _ = None"

definition json_string :: "string \<Rightarrow> json \<Rightarrow> string option" where
  "json_string f j = (case json_field f j of Some (JStr s) \<Rightarrow> Some s | _ \<Rightarrow> None)"

definition json_number :: "string \<Rightarrow> json \<Rightarrow> js_number option" where
  "json_number f j = (case json_field f j of Some (JNum q) \<Rightarrow> Some (JsNum q) | _ \<Rightarrow> None)"

text \<open>A property that may be \<open>undefined\<close> (None), as \<open>JSON.stringify\<close> writes it.\<close>

fun opt_field :: "string \<Rightarrow> json option \<Rightarrow> (string \<times> json) list" where
  "opt_field f None = []"
| "opt_field f (Some j) = [(f, j)]"

text \<open>
  An HTTP answer: the status and the body, None where the framework writes the body itself.
\<close>

type_synonym http_answer = "nat \<times> json option"

text \<open>\<open>@IsInt\<close> and \<open>@IsPositive\<close> of class-validator on the same property.\<close>

definition IsInt_IsPositive :: "js_number \<Rightarrow> bool" where
  "IsInt_IsPositive x = (case js_integer x of None \<Rightarrow> False | Some n \<Rightarrow> 0 < n)"

subsection \<open>Topology\<close>

text \<open>What a consumer tells the broker: acknowledged, or dead-lettered without a requeue.\<close>

datatype ack = Ack | Nack

definition HUB_SETTLEMENTS_EXCHANGE :: string where
  "HUB_SETTLEMENTS_EXCHANGE = ''hub-settlements''"

definition SETTLEMENT_REQUESTED_ROUTING_KEY :: string where
  "SETTLEMENT_REQUESTED_ROUTING_KEY = ''settlement.requested''"

definition SETTLEMENT_REPLY_ROUTING_KEY :: string where
  "SETTLEMENT_REPLY_ROUTING_KEY = ''settlement.reply''"

definition settlementNotifyRoutingKey :: "string \<Rightarrow> string" where
  "settlementNotifyRoutingKey bankId = ''settlement.notify.'' @ bankId"

definition settlementOutcomeRoutingKey :: "string \<Rightarrow> string" where
  "settlementOutcomeRoutingKey bankId = ''settlement.outcome.'' @ bankId"

text \<open>
  The Hub has its own copy of the file, which says that the two must match; that they do is what
  the last lemma states, and the Hub's definitions below use the Hub's names.
\<close>

definition hub_HUB_SETTLEMENTS_EXCHANGE :: string where
  "hub_HUB_SETTLEMENTS_EXCHANGE = ''hub-settlements''"

definition hub_SETTLEMENT_REQUESTED_ROUTING_KEY :: string where
  "hub_SETTLEMENT_REQUESTED_ROUTING_KEY = ''settlement.requested''"

definition hub_SETTLEMENT_REPLY_ROUTING_KEY :: string where
  "hub_SETTLEMENT_REPLY_ROUTING_KEY = ''settlement.reply''"

definition hub_settlementNotifyRoutingKey :: "string \<Rightarrow> string" where
  "hub_settlementNotifyRoutingKey bankId = ''settlement.notify.'' @ bankId"

definition hub_settlementOutcomeRoutingKey :: "string \<Rightarrow> string" where
  "hub_settlementOutcomeRoutingKey bankId = ''settlement.outcome.'' @ bankId"

lemma topologies_match [simp]:
  "hub_HUB_SETTLEMENTS_EXCHANGE = HUB_SETTLEMENTS_EXCHANGE"
  "hub_SETTLEMENT_REQUESTED_ROUTING_KEY = SETTLEMENT_REQUESTED_ROUTING_KEY"
  "hub_SETTLEMENT_REPLY_ROUTING_KEY = SETTLEMENT_REPLY_ROUTING_KEY"
  "hub_settlementNotifyRoutingKey bankId = settlementNotifyRoutingKey bankId"
  "hub_settlementOutcomeRoutingKey bankId = settlementOutcomeRoutingKey bankId"
  by (simp_all add: hub_HUB_SETTLEMENTS_EXCHANGE_def HUB_SETTLEMENTS_EXCHANGE_def
      hub_SETTLEMENT_REQUESTED_ROUTING_KEY_def SETTLEMENT_REQUESTED_ROUTING_KEY_def
      hub_SETTLEMENT_REPLY_ROUTING_KEY_def SETTLEMENT_REPLY_ROUTING_KEY_def
      hub_settlementNotifyRoutingKey_def settlementNotifyRoutingKey_def
      hub_settlementOutcomeRoutingKey_def settlementOutcomeRoutingKey_def)

lemma outcome_key_inj [simp]:
  "settlementOutcomeRoutingKey a = settlementOutcomeRoutingKey b \<longleftrightarrow> a = b"
  by (simp add: settlementOutcomeRoutingKey_def)

lemma notify_key_inj [simp]:
  "settlementNotifyRoutingKey a = settlementNotifyRoutingKey b \<longleftrightarrow> a = b"
  by (simp add: settlementNotifyRoutingKey_def)

lemma notify_key_not_outcome [simp]:
  "settlementNotifyRoutingKey a \<noteq> settlementOutcomeRoutingKey b"
  by (simp add: settlementNotifyRoutingKey_def settlementOutcomeRoutingKey_def)

end
