(* ===== verification/Outbox.thy ===== *)
theory Outbox
  imports Messaging Postgres
begin

text \<open>
  The transactional outbox: the table, the repository and one poll-publish-mark cycle of the
  relay (src/outbox; hub/src/outbox holds the same code). Row ids come from an identity
  column, so they grow with the rows.
\<close>

record outbox_row =
  ob_id :: nat
  ob_aggregate_id :: string
  ob_event_type :: string
  ob_routing_key :: string
  ob_payload :: json
  ob_created_at :: int
  ob_published_at :: "int option"

record outbox_table =
  outbox_rows :: "outbox_row list"
  outbox_next_id :: nat

record outbox_event =
  ev_id :: nat
  ev_routingKey :: string
  ev_payload :: json

definition empty_outbox :: outbox_table where
  "empty_outbox = \<lparr>outbox_rows = [], outbox_next_id = 1\<rparr>"

definition outbox_add :: "int \<Rightarrow> string \<Rightarrow> string \<Rightarrow> string \<Rightarrow> json \<Rightarrow> outbox_table \<Rightarrow> outbox_table" where
  "outbox_add now aggregateId eventType routingKey payload ob =
     ob\<lparr>outbox_rows := outbox_rows ob @
          [\<lparr>ob_id = outbox_next_id ob, ob_aggregate_id = aggregateId, ob_event_type = eventType,
            ob_routing_key = routingKey, ob_payload = payload, ob_created_at = now,
            ob_published_at = None\<rparr>],
        outbox_next_id := Suc (outbox_next_id ob)\<rparr>"

definition unpublished :: "outbox_table \<Rightarrow> outbox_row list" where
  "unpublished ob = filter (\<lambda>r. ob_published_at r = None) (outbox_rows ob)"

definition to_event :: "outbox_row \<Rightarrow> outbox_event" where
  "to_event r = \<lparr>ev_id = ob_id r, ev_routingKey = ob_routing_key r, ev_payload = ob_payload r\<rparr>"

text \<open>\<open>ORDER BY id LIMIT .. FOR UPDATE SKIP LOCKED\<close>; \<open>locked\<close> are the rows other ticks hold.\<close>

definition claimUnpublished :: "nat list \<Rightarrow> nat \<Rightarrow> outbox_table \<Rightarrow> outbox_event list" where
  "claimUnpublished locked limit ob =
     map to_event (take limit (filter (\<lambda>r. ob_id r \<notin> set locked) (sort_key ob_id (unpublished ob))))"

definition markPublished :: "int \<Rightarrow> nat \<Rightarrow> outbox_table \<Rightarrow> outbox_table" where
  "markPublished now i ob =
     ob\<lparr>outbox_rows := map (\<lambda>r. if ob_id r = i then r\<lparr>ob_published_at := Some now\<rparr> else r) (outbox_rows ob)\<rparr>"

definition BATCH_SIZE :: nat where
  "BATCH_SIZE = 100"

subsection \<open>The relay\<close>

text \<open>
  The channel of the publisher is outside the program: \<open>publish\<close> says whether handing over the
  event returns (it throws when the channel is closed), and \<open>commit\<close> whether the COMMIT
  succeeds. What was handed over stays handed over when the transaction rolls back; that is the
  second component of the loop's result, next to the error or the count and the table.
\<close>

type_synonym relay_error = "unit service_error"

fun relay_loop ::
  "(outbox_event \<Rightarrow> bool) \<Rightarrow> int \<Rightarrow> outbox_event list \<Rightarrow> outbox_table \<Rightarrow>
   (relay_error + outbox_table) \<times> outbox_event list" where
  "relay_loop publish now [] ob = (Inr ob, [])"
| "relay_loop publish now (e # es) ob =
     (if publish e
      then (case relay_loop publish now es (markPublished now (ev_id e) ob) of (r, sent) \<Rightarrow> (r, e # sent))
      else (Inl (Failure ''publish''), []))"

definition tick ::
  "(outbox_event \<Rightarrow> bool) \<Rightarrow> bool \<Rightarrow> nat list \<Rightarrow> int \<Rightarrow> outbox_table \<Rightarrow>
   (relay_error + nat) \<times> outbox_table \<times> outbox_event list" where
  "tick publish commit locked now ob =
     (let events = claimUnpublished locked BATCH_SIZE ob
      in case relay_loop publish now events ob of
           (Inl e, sent) \<Rightarrow> (Inl e, ob, sent)
         | (Inr ob', sent) \<Rightarrow>
             if commit then (Inr (length events), ob', sent) else (Inl (Failure ''commit''), ob, sent))"

text \<open>The scheduled handler swallows the error of a tick; \<open>attempts\<close> are its successive runs.\<close>

definition handleInterval ::
  "(outbox_event \<Rightarrow> bool) \<Rightarrow> bool \<Rightarrow> int \<Rightarrow> outbox_table \<Rightarrow> outbox_table \<times> outbox_event list" where
  "handleInterval publish commit now ob = snd (tick publish commit [] now ob)"

fun relay_run ::
  "((outbox_event \<Rightarrow> bool) \<times> bool \<times> int) list \<Rightarrow> outbox_table \<Rightarrow> outbox_table \<times> outbox_event list" where
  "relay_run [] ob = (ob, [])"
| "relay_run ((publish, commit, now) # attempts) ob =
     (case handleInterval publish commit now ob of
        (ob', sent) \<Rightarrow> (case relay_run attempts ob' of (ob'', sent') \<Rightarrow> (ob'', sent @ sent')))"

subsection \<open>Well-formed tables\<close>

definition outbox_ok :: "outbox_table \<Rightarrow> bool" where
  "outbox_ok ob \<longleftrightarrow> sorted_wrt (<) (map ob_id (outbox_rows ob)) \<and>
     (\<forall>r \<in> set (outbox_rows ob). ob_id r < outbox_next_id ob)"

lemma outbox_ok_empty: "outbox_ok empty_outbox"
  by (simp add: outbox_ok_def empty_outbox_def)

lemma outbox_ok_add: "outbox_ok ob \<Longrightarrow> outbox_ok (outbox_add now a t k p ob)"
  by (auto simp: outbox_ok_def outbox_add_def sorted_wrt_append)

lemma map_id_mark [simp]: "map ob_id (outbox_rows (markPublished now i ob)) = map ob_id (outbox_rows ob)"
  by (simp add: markPublished_def)

lemma outbox_ok_mark: "outbox_ok ob \<Longrightarrow> outbox_ok (markPublished now i ob)"
  by (auto simp: outbox_ok_def) (auto simp: markPublished_def)

lemma outbox_ok_distinct: "outbox_ok ob \<Longrightarrow> distinct (map ob_id (outbox_rows ob))"
  by (simp add: outbox_ok_def strict_sorted_iff)

lemma unpublished_add:
  "unpublished (outbox_add now a t k p ob) = unpublished ob @
     [\<lparr>ob_id = outbox_next_id ob, ob_aggregate_id = a, ob_event_type = t, ob_routing_key = k,
       ob_payload = p, ob_created_at = now, ob_published_at = None\<rparr>]"
  by (simp add: unpublished_def outbox_add_def)

lemma unpublished_mark:
  "unpublished (markPublished now i ob) = filter (\<lambda>r. ob_id r \<noteq> i) (unpublished ob)"
proof -
  have "filter (\<lambda>r. ob_published_at r = None)
          (map (\<lambda>r. if ob_id r = i then r\<lparr>ob_published_at := Some now\<rparr> else r) rs) =
        filter (\<lambda>r. ob_id r \<noteq> i) (filter (\<lambda>r. ob_published_at r = None) rs)" for rs :: "outbox_row list"
    by (induction rs) auto
  then show ?thesis by (simp add: unpublished_def markPublished_def)
qed

lemma unpublished_sorted: "outbox_ok ob \<Longrightarrow> sorted_wrt (<) (map ob_id (unpublished ob))"
  by (simp add: outbox_ok_def unpublished_def sorted_wrt_map sorted_wrt_filter)

lemma unpublished_in_order: "outbox_ok ob \<Longrightarrow> sort_key ob_id (unpublished ob) = unpublished ob"
  by (intro sort_key_id_if_sorted) (simp add: unpublished_sorted strict_sorted_imp_sorted)

lemma to_event_id [simp]: "ev_id (to_event r) = ob_id r"
  by (simp add: to_event_def)

text \<open>What a claim holds: the oldest unpublished rows no other tick holds, oldest first.\<close>

lemma claim_eq: "outbox_ok ob \<Longrightarrow> claimUnpublished locked n ob =
    map to_event (take n (filter (\<lambda>r. ob_id r \<notin> set locked) (unpublished ob)))"
  by (simp add: claimUnpublished_def unpublished_in_order)

subsection \<open>What one tick does\<close>

lemma relay_loop_all:
  "(\<And>e. e \<in> set es \<Longrightarrow> publish e) \<Longrightarrow>
   relay_loop publish now es ob = (Inr (fold (\<lambda>e. markPublished now (ev_id e)) es ob), es)"
  by (induction es arbitrary: ob) simp_all

lemma relay_loop_sent: "relay_loop publish now es ob = (r, sent) \<Longrightarrow> prefix sent es"
  by (induction es arbitrary: ob r sent) (auto split: if_splits prod.splits)

lemma relay_loop_Inr:
  "relay_loop publish now es ob = (Inr ob', sent) \<Longrightarrow>
   sent = es \<and> ob' = fold (\<lambda>e. markPublished now (ev_id e)) es ob"
  by (induction es arbitrary: ob sent) (auto split: if_splits prod.splits)

lemma unpublished_fold_mark:
  "unpublished (fold (\<lambda>e. markPublished now (ev_id e)) es ob) =
   filter (\<lambda>r. ob_id r \<notin> ev_id ` set es) (unpublished ob)"
proof (induction es arbitrary: ob)
  case Nil
  then show ?case by simp
next
  case (Cons e es)
  show ?case
    by (simp add: Cons.IH unpublished_mark conj_commute)
qed

lemma outbox_ok_fold_mark: "outbox_ok ob \<Longrightarrow> outbox_ok (fold (\<lambda>e. markPublished now (ev_id e)) es ob)"
  by (induction es arbitrary: ob) (simp_all add: outbox_ok_mark)

lemma filter_not_taken:
  assumes "distinct (map f xs)"
  shows "filter (\<lambda>x. f x \<notin> f ` set (take n xs)) xs = drop n xs"
proof -
  let ?P = "\<lambda>x. f x \<notin> f ` set (take n xs)"
  have "filter ?P xs = filter ?P (take n xs @ drop n xs)" by simp
  also have "\<dots> = filter ?P (take n xs) @ filter ?P (drop n xs)" by (rule filter_append)
  also have "filter ?P (take n xs) = []" by (auto simp: filter_empty_conv)
  also have "filter ?P (drop n xs) = drop n xs"
  proof (rule filter_True, rule ballI)
    fix x assume "x \<in> set (drop n xs)"
    moreover have "distinct (map f (take n xs) @ map f (drop n xs))"
      using assms by (simp only: map_append [symmetric] append_take_drop_id)
    ultimately show "?P x" by (auto simp: disjoint_iff)
  qed
  finally show ?thesis by simp
qed

lemma tick_all:
  assumes "outbox_ok ob" and "tick (\<lambda>_. True) True [] now ob = (res, ob', sent)"
  shows "res = Inr (length sent)" and "sent = map to_event (take BATCH_SIZE (unpublished ob))"
    and "unpublished ob' = drop BATCH_SIZE (unpublished ob)" and "outbox_ok ob'"
proof -
  let ?es = "map to_event (take BATCH_SIZE (unpublished ob))"
  have ob': "ob' = fold (\<lambda>e. markPublished now (ev_id e)) ?es ob" and s: "sent = ?es"
    and r: "res = Inr (length ?es)"
    using assms by (auto simp: tick_def claim_eq relay_loop_all Let_def)
  from s r show "res = Inr (length sent)" "sent = ?es" by simp_all
  have "distinct (map ob_id (unpublished ob))"
    using unpublished_sorted [OF assms(1)] by (simp add: strict_sorted_iff)
  then show "unpublished ob' = drop BATCH_SIZE (unpublished ob)"
    using filter_not_taken [of ob_id "unpublished ob" BATCH_SIZE]
    by (simp add: ob' unpublished_fold_mark image_image)
  show "outbox_ok ob'" by (simp add: ob' outbox_ok_fold_mark assms(1))
qed

text \<open>What may be delivered: rows as letters, kept for ever, and those still to be sent.\<close>

definition letter :: "outbox_row \<Rightarrow> string \<times> json" where
  "letter r = (ob_routing_key r, ob_payload r)"

definition letters :: "outbox_table \<Rightarrow> (string \<times> json) set" where
  "letters ob = letter ` set (outbox_rows ob)"

definition waiting :: "outbox_table \<Rightarrow> (string \<times> json) set" where
  "waiting ob = letter ` set (unpublished ob)"

definition envelope :: "outbox_event \<Rightarrow> string \<times> json" where
  "envelope e = (ev_routingKey e, ev_payload e)"

lemma envelope_event [simp]: "envelope (to_event r) = letter r"
  by (simp add: envelope_def to_event_def letter_def)

lemma waiting_letters: "waiting ob \<subseteq> letters ob"
  by (auto simp: waiting_def letters_def unpublished_def)

lemma letters_empty [simp]: "letters empty_outbox = {}" "waiting empty_outbox = {}"
  by (simp_all add: letters_def waiting_def unpublished_def empty_outbox_def)

lemma letters_add [simp]:
  "letters (outbox_add now a t k p ob) = insert (k, p) (letters ob)"
  "waiting (outbox_add now a t k p ob) = insert (k, p) (waiting ob)"
proof -
  show "letters (outbox_add now a t k p ob) = insert (k, p) (letters ob)"
    by (auto simp: letters_def outbox_add_def letter_def)
  show "waiting (outbox_add now a t k p ob) = insert (k, p) (waiting ob)"
    by (auto simp: waiting_def unpublished_add letter_def)
qed

lemma letters_mark [simp]: "letters (markPublished now i ob) = letters ob"
proof -
  have "letter ` (\<lambda>r. if ob_id r = i then r\<lparr>ob_published_at := Some now\<rparr> else r) ` R = letter ` R" for R
    unfolding image_image by (rule image_cong) (auto simp: letter_def)
  then show ?thesis by (simp add: letters_def markPublished_def)
qed

lemma tick_letters:
  assumes "tick publish commit locked now ob = (res, ob', sent)"
  shows "letters ob' = letters ob" and "waiting ob' \<subseteq> waiting ob" and "envelope ` set sent \<subseteq> waiting ob"
proof -
  let ?es = "claimUnpublished locked BATCH_SIZE ob"
  obtain r s where loop: "relay_loop publish now ?es ob = (r, s)" by fastforce
  have "letters (fold (\<lambda>e. markPublished now (ev_id e)) es ob) = letters ob" for es :: "outbox_event list"
    by (induction es arbitrary: ob) simp_all
  moreover have "waiting (fold (\<lambda>e. markPublished now (ev_id e)) es ob) \<subseteq> waiting ob" for es :: "outbox_event list"
    by (auto simp: waiting_def unpublished_fold_mark)
  ultimately show "letters ob' = letters ob" "waiting ob' \<subseteq> waiting ob"
    using assms loop relay_loop_Inr [of publish now ?es ob] by (auto simp: tick_def Let_def split: sum.splits if_splits)
  have "set sent \<subseteq> set ?es"
    using assms loop set_mono_prefix [OF relay_loop_sent [OF loop]] by (auto simp: tick_def Let_def split: sum.splits if_splits)
  then have "set sent \<subseteq> to_event ` set (unpublished ob)"
    by (auto simp: claimUnpublished_def dest!: in_set_takeD)
  then show "envelope ` set sent \<subseteq> waiting ob" by (force simp: waiting_def)
qed

lemma tick_ok: "outbox_ok ob \<Longrightarrow> outbox_ok (fst (snd (tick publish commit locked now ob)))"
  using relay_loop_Inr [of publish now "claimUnpublished locked BATCH_SIZE ob" ob]
  by (cases "relay_loop publish now (claimUnpublished locked BATCH_SIZE ob) ob")
    (auto simp: tick_def Let_def outbox_ok_fold_mark split: sum.splits)

text \<open>
  C26. A relay cycle hands over what it publishes before it forgets it. Whatever the channel and
  the COMMIT do, the rows that stop being unpublished are exactly rows whose event was handed to
  the publisher; a cycle that fails leaves the whole table as it was, so its events are offered
  again (delivery is at least once, never at most once).
\<close>
theorem tick_never_loses:
  assumes "outbox_ok ob" and "tick publish commit locked now ob = (res, ob', sent)"
  shows "(\<exists>e. res = Inl e) \<and> ob' = ob \<or>
    res = Inr (length sent) \<and> outbox_ok ob' \<and>
    unpublished ob' = filter (\<lambda>r. to_event r \<notin> set sent) (unpublished ob)"
proof -
  let ?cs = "filter (\<lambda>r. ob_id r \<notin> set locked) (unpublished ob)"
  let ?es = "map to_event (take BATCH_SIZE ?cs)"
  obtain r s where loop: "relay_loop publish now ?es ob = (r, s)" by fastforce
  show ?thesis
  proof (cases r)
    case (Inl e)
    with loop assms show ?thesis by (auto simp: tick_def claim_eq Let_def)
  next
    case (Inr ob1)
    with loop have s: "s = ?es" and ob1: "ob1 = fold (\<lambda>e. markPublished now (ev_id e)) ?es ob"
      using relay_loop_Inr by blast+
    have dist: "distinct (map ob_id (unpublished ob))"
      using unpublished_sorted [OF assms(1)] by (simp add: strict_sorted_iff)
    have "unpublished ob1 = filter (\<lambda>r. ob_id r \<notin> ev_id ` set ?es) (unpublished ob)"
      by (simp only: ob1 unpublished_fold_mark)
    also have "\<dots> = filter (\<lambda>r. to_event r \<notin> set ?es) (unpublished ob)"
    proof (rule filter_cong [OF refl])
      fix x assume "x \<in> set (unpublished ob)"
      then have "\<And>y. y \<in> set (take BATCH_SIZE ?cs) \<Longrightarrow> ob_id y = ob_id x \<Longrightarrow> y = x"
        using dist by (auto simp: distinct_map inj_on_def dest!: in_set_takeD)
      then show "(ob_id x \<notin> ev_id ` set ?es) = (to_event x \<notin> set ?es)"
        by (auto simp: image_image image_iff) (metis to_event_id)
    qed
    finally have u: "unpublished ob1 = filter (\<lambda>r. to_event r \<notin> set ?es) (unpublished ob)" .
    have "outbox_ok ob1" unfolding ob1 by (rule outbox_ok_fold_mark [OF assms(1)])
    with loop Inr s u assms show ?thesis
      by (cases commit) (auto simp: tick_def claim_eq Let_def)
  qed
qed


definition sample_outbox :: outbox_table where
  "sample_outbox = outbox_add 7 ''a2'' ''settlement.notify'' ''k2'' (JStr ''p2'')
     (outbox_add 5 ''a1'' ''settlement.requested'' ''k1'' (JStr ''p1'') empty_outbox)"

lemma sample_outbox_ok: "outbox_ok sample_outbox"
  by (simp add: sample_outbox_def outbox_ok_add outbox_ok_empty)

theorem tick_never_loses_witness:
  "(\<exists>e. fst (tick (\<lambda>e. ev_id e = 1) True [] 9 sample_outbox) = Inl e) \<and>
   snd (snd (tick (\<lambda>e. ev_id e = 1) True [] 9 sample_outbox)) \<noteq> [] \<and>
   fst (snd (tick (\<lambda>e. ev_id e = 1) True [] 9 sample_outbox)) = sample_outbox"
proof -
  let ?t = "tick (\<lambda>e. ev_id e = 1) True [] 9 sample_outbox"
  have failed: "(\<exists>e. fst ?t = Inl e) \<and> snd (snd ?t) \<noteq> []"
    by (simp add: tick_def claim_eq [OF sample_outbox_ok] BATCH_SIZE_def)
      (simp add: sample_outbox_def outbox_add_def empty_outbox_def unpublished_def to_event_def)
  with tick_never_loses [OF sample_outbox_ok, of "\<lambda>e. ev_id e = 1" True "[]" 9 "fst ?t" "fst (snd ?t)" "snd (snd ?t)"]
  show ?thesis by auto
qed

text \<open>
  Enough undisturbed cycles empty the outbox: every event that was waiting is handed over
  exactly once, in the order of the row ids, whatever the batches.
\<close>
theorem relay_drains:
  assumes "outbox_ok ob"
    and "\<forall>(publish, commit, now) \<in> set attempts. commit \<and> publish = (\<lambda>_. True)"
    and "length (unpublished ob) \<le> BATCH_SIZE * length attempts"
  shows "\<exists>ob'. relay_run attempts ob = (ob', map to_event (unpublished ob)) \<and> unpublished ob' = []"
  using assms
proof (induction attempts arbitrary: ob)
  case Nil
  then show ?case by simp
next
  case (Cons a attempts)
  obtain publish commit now where a: "a = (publish, commit, now)" by (cases a)
  with Cons.prems have good: "commit" "publish = (\<lambda>_. True)" by auto
  obtain res ob1 sent where t: "tick (\<lambda>_. True) True [] now ob = (res, ob1, sent)"
    by (metis prod_cases3)
  note one = tick_all [OF Cons.prems(1) t]
  have "length (unpublished ob1) \<le> BATCH_SIZE * length attempts"
    using Cons.prems(3) one(3) by (simp add: algebra_simps)
  then obtain ob' where "relay_run attempts ob1 = (ob', map to_event (unpublished ob1))"
    and "unpublished ob' = []"
    using Cons.IH [OF one(4)] Cons.prems(2) by auto
  then show ?case
    using a good t one(2,3)
    by (simp add: handleInterval_def map_append [symmetric] append_take_drop_id del: map_append)
qed

theorem relay_drains_witness:
  "\<exists>ob'. relay_run [(\<lambda>_. True, True, 9)] sample_outbox = (ob', map to_event (unpublished sample_outbox)) \<and>
     unpublished ob' = [] \<and> length (unpublished sample_outbox) = 2"
proof -
  have two: "length (unpublished sample_outbox) = 2"
    by (simp add: sample_outbox_def outbox_add_def empty_outbox_def unpublished_def)
  have "\<exists>ob'. relay_run [(\<lambda>_. True, True, 9)] sample_outbox = (ob', map to_event (unpublished sample_outbox)) \<and>
     unpublished ob' = []"
    by (rule relay_drains [OF sample_outbox_ok]) (simp_all add: two BATCH_SIZE_def)
  with two show ?thesis by blast
qed

text \<open>
  Two relay cycles that overlap never hand over the same row. The second one claims while the
  first still holds its rows (SKIP LOCKED), so the claims are disjoint, and once both have
  committed the waiting rows are those neither of them handed over.
\<close>
theorem overlapping_ticks_disjoint:
  assumes "outbox_ok ob"
    and "first = claimUnpublished [] BATCH_SIZE ob"
    and "second = claimUnpublished (map ev_id first) BATCH_SIZE ob"
    and "relay_loop (\<lambda>_. True) now first ob = (Inr ob1, sent1)"
    and "relay_loop (\<lambda>_. True) now' second ob1 = (Inr ob2, sent2)"
  shows "distinct (map ev_id (sent1 @ sent2)) \<and>
    unpublished ob2 = filter (\<lambda>r. ob_id r \<notin> ev_id ` set (sent1 @ sent2)) (unpublished ob)"
proof -
  have sent: "sent1 = first" "sent2 = second"
    and ob: "ob1 = fold (\<lambda>e. markPublished now (ev_id e)) first ob"
      "ob2 = fold (\<lambda>e. markPublished now' (ev_id e)) second ob1"
    using relay_loop_Inr [OF assms(4)] relay_loop_Inr [OF assms(5)] by simp_all
  have dist: "distinct (map ob_id (unpublished ob))"
    using unpublished_sorted [OF assms(1)] by (simp add: strict_sorted_iff)
  let ?rest = "filter (\<lambda>r. ob_id r \<notin> set (map ev_id first)) (unpublished ob)"
  have f: "map ev_id first = take BATCH_SIZE (map ob_id (unpublished ob))"
    using assms(1,2) by (simp add: claim_eq comp_def take_map)
  have s: "map ev_id second = take BATCH_SIZE (map ob_id ?rest)"
    using assms(1,3) by (simp add: claim_eq comp_def take_map)
  have "set (map ev_id second) \<subseteq> set (map ob_id ?rest)"
    unfolding s by (rule set_take_subset)
  then have "set (map ev_id second) \<inter> set (map ev_id first) = {}" by auto
  moreover have "distinct (map ev_id first)" unfolding f by (rule distinct_take [OF dist])
  moreover have "distinct (map ev_id second)"
    unfolding s by (rule distinct_take) (rule distinct_map_filter [OF dist])
  ultimately have "distinct (map ev_id (first @ second))" by auto
  then show ?thesis
    by (simp add: sent ob unpublished_fold_mark image_Un)
qed

theorem overlapping_ticks_disjoint_witness:
  "\<exists>ob1 ob2 sent1 sent2.
     relay_loop (\<lambda>_. True) 9 (claimUnpublished [] BATCH_SIZE sample_outbox) sample_outbox = (Inr ob1, sent1) \<and>
     relay_loop (\<lambda>_. True) 9 (claimUnpublished (map ev_id sent1) BATCH_SIZE sample_outbox) ob1 = (Inr ob2, sent2) \<and>
     distinct (map ev_id (sent1 @ sent2)) \<and> sent1 \<noteq> []"
proof -
  let ?first = "claimUnpublished [] BATCH_SIZE sample_outbox"
  let ?second = "claimUnpublished (map ev_id ?first) BATCH_SIZE sample_outbox"
  obtain ob1 where 1: "relay_loop (\<lambda>_. True) 9 ?first sample_outbox = (Inr ob1, ?first)"
    by (simp add: relay_loop_all)
  obtain ob2 where 2: "relay_loop (\<lambda>_. True) 9 ?second ob1 = (Inr ob2, ?second)"
    by (simp add: relay_loop_all)
  have "distinct (map ev_id (?first @ ?second))"
    using overlapping_ticks_disjoint [OF sample_outbox_ok refl refl 1 2] by blast
  moreover have "?first \<noteq> []"
    by (simp add: claim_eq sample_outbox_ok BATCH_SIZE_def)
      (simp add: sample_outbox_def outbox_add_def empty_outbox_def unpublished_def)
  ultimately show ?thesis using 1 2 by blast
qed

end
