(* ===== verification/BankDb.thy ===== *)
theory BankDb
  imports BankDomain Interfaces Outbox
begin

text \<open>
  Bank A's database (migrations/) and the repositories over it: one record per table row, one
  definition per query, with the constraints of the migrations as the errors of the statement.
  Rows are kept in insertion order, which is the order of the identity columns. The clock
  (\<open>now()\<close>) and fresh identifiers are arguments.
\<close>

subsection \<open>Tables\<close>

record account_row =
  acc_id :: string
  acc_owner_name :: string
  acc_created_at :: int

record transfer_row =
  trow_id :: string
  trow_idempotency_key :: string
  trow_payer_account_id :: string
  trow_payee_account_id :: string
  trow_amount :: int
  trow_created_at :: int

record ledger_row =
  led_transfer_id :: string
  led_account_id :: string
  led_amount :: int
  led_created_at :: int

datatype interbank_status = DEBITED | CONFIRMED | COMPENSATED

record interbank_row =
  ib_transfer_id :: string
  ib_payee_bank_id :: string
  ib_payee_account_ref :: string
  ib_status :: interbank_status
  ib_created_at :: int
  ib_updated_at :: int

record bank_db =
  accounts :: "account_row list"
  transfers :: "transfer_row list"
  ledger_entries :: "ledger_row list"
  interbank_transfers :: "interbank_row list"
  outbox :: outbox_table

type_synonym 'a bank_tx = "(bank_db, bank_error, 'a) tx"

text \<open>The database right after the migrations: the two seeded accounts and nothing else.\<close>

definition migrated_bank :: bank_db where
  "migrated_bank =
     \<lparr>accounts = [\<lparr>acc_id = SUSPENSE_ACCOUNT_ID,
                    acc_owner_name = ''suspense (interbank transfers in transit)'', acc_created_at = 0\<rparr>,
                  \<lparr>acc_id = DEV_TREASURY_ACCOUNT_ID,
                    acc_owner_name = ''dev treasury (demo seeding only, not part of the public API)'',
                    acc_created_at = 0\<rparr>],
      transfers = [], ledger_entries = [], interbank_transfers = [], outbox = empty_outbox\<rparr>"

definition account_exists :: "string \<Rightarrow> bank_db \<Rightarrow> bool" where
  "account_exists k s \<longleftrightarrow> list_ex (\<lambda>r. acc_id r = k) (accounts s)"

definition transfer_exists :: "string \<Rightarrow> bank_db \<Rightarrow> bool" where
  "transfer_exists k s \<longleftrightarrow> list_ex (\<lambda>r. trow_id r = k) (transfers s)"

definition key_taken :: "string \<Rightarrow> bank_db \<Rightarrow> bool" where
  "key_taken key s \<longleftrightarrow> list_ex (\<lambda>r. trow_idempotency_key r = key) (transfers s)"

subsection \<open>AccountRepository\<close>

record account =
  account_id :: string
  account_ownerName :: string
  account_createdAt :: int

definition toAccount :: "account_row \<Rightarrow> account" where
  "toAccount row = \<lparr>account_id = acc_id row, account_ownerName = acc_owner_name row,
     account_createdAt = acc_created_at row\<rparr>"

definition AccountRepository_create :: "string \<Rightarrow> int \<Rightarrow> string \<Rightarrow> account bank_tx" where
  "AccountRepository_create uuid now ownerName =
     tx_bind (db_guard (1 \<le> length ownerName \<and> length ownerName \<le> 120) (CheckViolation ''accounts''))
       (\<lambda>_ s. if account_exists uuid s then Inl (Db (UniqueViolation ''accounts_pkey''))
              else let row = \<lparr>acc_id = uuid, acc_owner_name = ownerName, acc_created_at = now\<rparr>
                   in Inr (toAccount row, s\<lparr>accounts := accounts s @ [row]\<rparr>))"

definition AccountRepository_findById :: "string \<Rightarrow> bank_db \<Rightarrow> bank_error + account option" where
  "AccountRepository_findById i s = (case bind_uuid i of
     Inl e \<Rightarrow> Inl e
   | Inr k \<Rightarrow> Inr (map_option toAccount (find (\<lambda>r. acc_id r = k) (accounts s))))"

text \<open>The row lock itself is taken until the end of the transaction; the answer is whether the row exists.\<close>

definition AccountRepository_lockById :: "string \<Rightarrow> bank_db \<Rightarrow> bank_error + bool" where
  "AccountRepository_lockById i s = (case bind_uuid i of
     Inl e \<Rightarrow> Inl e | Inr k \<Rightarrow> Inr (account_exists k s))"

subsection \<open>LedgerRepository\<close>

definition ledger_sum :: "string \<Rightarrow> bank_db \<Rightarrow> int" where
  "ledger_sum k s = sum_list (map led_amount (filter (\<lambda>r. led_account_id r = k) (ledger_entries s)))"

definition balanceOf :: "string \<Rightarrow> bank_db \<Rightarrow> bank_error + money" where
  "balanceOf accountId s = (case bind_uuid accountId of
     Inl e \<Rightarrow> Inl e
   | Inr k \<Rightarrow> lift_domain (Money_fromCents (js_of_int (ledger_sum k s))))"

definition ledger_insert :: "int \<Rightarrow> ledger_entry \<Rightarrow> unit bank_tx" where
  "ledger_insert now entry =
     tx_bind (tx_check (bind_uuid (entry_transferId entry))) (\<lambda>t.
     tx_bind (tx_check (bind_uuid (entry_accountId entry))) (\<lambda>a.
     tx_bind (tx_check (bind_bigint (js_of_int (cents (entry_amount entry))))) (\<lambda>n.
     tx_bind (db_guard (n \<noteq> 0) (CheckViolation ''ledger_entries'')) (\<lambda>_ s.
       if \<not> account_exists a s then Inl (Db (ForeignKeyViolation ''ledger_entries''))
       else if \<not> transfer_exists t s then Inl (Db (ForeignKeyViolation ''ledger_entries''))
       else Inr ((), s\<lparr>ledger_entries := ledger_entries s @
              [\<lparr>led_transfer_id = t, led_account_id = a, led_amount = n, led_created_at = now\<rparr>]\<rparr>)))))"

fun ledger_append :: "int \<Rightarrow> ledger_entry list \<Rightarrow> unit bank_tx" where
  "ledger_append now [] = tx_return ()"
| "ledger_append now (entry # entries) =
     tx_bind (ledger_insert now entry) (\<lambda>_. ledger_append now entries)"

record statement_line =
  sl_transferId :: string
  sl_amount :: money
  sl_createdAt :: int

definition statementOf :: "string \<Rightarrow> nat \<Rightarrow> bank_db \<Rightarrow> bank_error + statement_line list" where
  "statementOf accountId limit s = (case bind_uuid accountId of
     Inl e \<Rightarrow> Inl e
   | Inr k \<Rightarrow> lift_domain (map_throw
       (\<lambda>row. case Money_fromCents (js_of_int (led_amount row)) of
          Inl e \<Rightarrow> Inl e
        | Inr m \<Rightarrow> Inr \<lparr>sl_transferId = led_transfer_id row, sl_amount = m, sl_createdAt = led_created_at row\<rparr>)
       (take limit (rev (filter (\<lambda>r. led_account_id r = k) (ledger_entries s))))))"

subsection \<open>TransferRepository\<close>

record transfer_record =
  rec_id :: string
  rec_payerAccountId :: string
  rec_payeeAccountId :: string
  rec_amount :: money
  rec_createdAt :: int

definition toRecord :: "transfer_row \<Rightarrow> domain_error + transfer_record" where
  "toRecord row = (case Money_fromCents (js_of_int (trow_amount row)) of
     Inl e \<Rightarrow> Inl e
   | Inr m \<Rightarrow> Inr \<lparr>rec_id = trow_id row, rec_payerAccountId = trow_payer_account_id row,
       rec_payeeAccountId = trow_payee_account_id row, rec_amount = m, rec_createdAt = trow_created_at row\<rparr>)"

text \<open>The row of an INSERT, checked in PostgreSQL's order: CHECKs, then the conflict, then the other keys.\<close>

definition insert_transfer_row :: "transfer_row \<Rightarrow> transfer_record option bank_tx" where
  "insert_transfer_row row =
     tx_bind (db_guard (1 \<le> length (trow_idempotency_key row) \<and> length (trow_idempotency_key row) \<le> 255
                \<and> 0 < trow_amount row \<and> trow_payer_account_id row \<noteq> trow_payee_account_id row)
               (CheckViolation ''transfers''))
       (\<lambda>_ s.
         if key_taken (trow_idempotency_key row) s then Inr (None, s)
         else if transfer_exists (trow_id row) s then Inl (Db (UniqueViolation ''transfers_pkey''))
         else if \<not> account_exists (trow_payer_account_id row) s \<or> \<not> account_exists (trow_payee_account_id row) s
           then Inl (Db (ForeignKeyViolation ''transfers''))
         else case toRecord row of
           Inl e \<Rightarrow> Inl (Domain e)
         | Inr r \<Rightarrow> Inr (Some r, s\<lparr>transfers := transfers s @ [row]\<rparr>))"

definition TransferRepository_insert :: "int \<Rightarrow> transfer \<Rightarrow> string \<Rightarrow> transfer_record option bank_tx" where
  "TransferRepository_insert now transfer idempotencyKey =
     tx_bind (tx_check (bind_uuid (tr_id transfer))) (\<lambda>i.
     tx_bind (tx_check (bind_uuid (tr_payerAccountId transfer))) (\<lambda>p.
     tx_bind (tx_check (bind_uuid (tr_payeeAccountId transfer))) (\<lambda>q.
     tx_bind (tx_check (bind_bigint (js_of_int (cents (tr_amount transfer))))) (\<lambda>n.
       insert_transfer_row
         \<lparr>trow_id = i, trow_idempotency_key = idempotencyKey, trow_payer_account_id = p,
          trow_payee_account_id = q, trow_amount = n, trow_created_at = now\<rparr>))))"

definition findByIdempotencyKey :: "string \<Rightarrow> bank_db \<Rightarrow> bank_error + transfer_record option" where
  "findByIdempotencyKey key s = (case find (\<lambda>r. trow_idempotency_key r = key) (transfers s) of
     None \<Rightarrow> Inr None
   | Some row \<Rightarrow> (case toRecord row of Inl e \<Rightarrow> Inl (Domain e) | Inr r \<Rightarrow> Inr (Some r)))"

definition TransferRepository_findById :: "string \<Rightarrow> bank_db \<Rightarrow> bank_error + transfer_record option" where
  "TransferRepository_findById i s = (case bind_uuid i of
     Inl e \<Rightarrow> Inl e
   | Inr k \<Rightarrow> (case find (\<lambda>r. trow_id r = k) (transfers s) of
       None \<Rightarrow> Inr None
     | Some row \<Rightarrow> (case toRecord row of Inl e \<Rightarrow> Inl (Domain e) | Inr r \<Rightarrow> Inr (Some r))))"

subsection \<open>InterbankTransferRepository\<close>

record interbank_record =
  ibr_transferId :: string
  ibr_payeeBankId :: string
  ibr_payeeAccountRef :: string
  ibr_status :: interbank_status
  ibr_createdAt :: int
  ibr_updatedAt :: int

definition toInterbankRecord :: "interbank_row \<Rightarrow> interbank_record" where
  "toInterbankRecord row = \<lparr>ibr_transferId = ib_transfer_id row, ibr_payeeBankId = ib_payee_bank_id row,
     ibr_payeeAccountRef = ib_payee_account_ref row, ibr_status = ib_status row,
     ibr_createdAt = ib_created_at row, ibr_updatedAt = ib_updated_at row\<rparr>"

definition InterbankRepository_insert :: "int \<Rightarrow> string \<Rightarrow> string \<Rightarrow> string \<Rightarrow> interbank_record bank_tx" where
  "InterbankRepository_insert now transferId payeeBankId payeeAccountRef =
     tx_bind (tx_check (bind_uuid transferId)) (\<lambda>t.
     tx_bind (db_guard (1 \<le> length payeeAccountRef \<and> length payeeAccountRef \<le> 255)
               (CheckViolation ''interbank_transfers'')) (\<lambda>_ s.
       if list_ex (\<lambda>r. ib_transfer_id r = t) (interbank_transfers s)
         then Inl (Db (UniqueViolation ''interbank_transfers_pkey''))
       else if \<not> transfer_exists t s then Inl (Db (ForeignKeyViolation ''interbank_transfers''))
       else let row = \<lparr>ib_transfer_id = t, ib_payee_bank_id = payeeBankId,
                        ib_payee_account_ref = payeeAccountRef, ib_status = DEBITED,
                        ib_created_at = now, ib_updated_at = now\<rparr>
            in Inr (toInterbankRecord row, s\<lparr>interbank_transfers := interbank_transfers s @ [row]\<rparr>)))"

definition InterbankRepository_findById :: "string \<Rightarrow> bank_db \<Rightarrow> bank_error + interbank_record option" where
  "InterbankRepository_findById i s = (case bind_uuid i of
     Inl e \<Rightarrow> Inl e
   | Inr k \<Rightarrow> Inr (map_option toInterbankRecord
       (find (\<lambda>r. ib_transfer_id r = k) (interbank_transfers s))))"

text \<open>\<open>UPDATE .. SET status, updated_at WHERE transfer_id AND status = 'DEBITED'\<close>\<close>

definition update_debited :: "interbank_status \<Rightarrow> int \<Rightarrow> string \<Rightarrow> bank_db \<Rightarrow> bank_db" where
  "update_debited st now k s = s\<lparr>interbank_transfers :=
     map (\<lambda>r. if ib_transfer_id r = k \<and> ib_status r = DEBITED
              then r\<lparr>ib_status := st, ib_updated_at := now\<rparr> else r) (interbank_transfers s)\<rparr>"

definition markConfirmed :: "int \<Rightarrow> string \<Rightarrow> unit bank_tx" where
  "markConfirmed now transferId =
     tx_bind (tx_check (bind_uuid transferId)) (\<lambda>k s. Inr ((), update_debited CONFIRMED now k s))"

definition markCompensated :: "int \<Rightarrow> string \<Rightarrow> unit bank_tx" where
  "markCompensated now transferId =
     tx_bind (tx_check (bind_uuid transferId)) (\<lambda>k s. Inr ((), update_debited COMPENSATED now k s))"

definition findStaleDebited :: "int \<Rightarrow> bank_db \<Rightarrow> interbank_record list" where
  "findStaleDebited olderThan s = map toInterbankRecord
     (sort_key ib_updated_at
       (filter (\<lambda>r. ib_status r = DEBITED \<and> ib_updated_at r < olderThan) (interbank_transfers s)))"

subsection \<open>OutboxRepository\<close>

definition OutboxRepository_insert :: "int \<Rightarrow> string \<Rightarrow> string \<Rightarrow> string \<Rightarrow> json \<Rightarrow> unit bank_tx" where
  "OutboxRepository_insert now aggregateId eventType routingKey payload =
     tx_bind (tx_check (bind_uuid aggregateId)) (\<lambda>a s.
       Inr ((), s\<lparr>outbox := outbox_add now a eventType routingKey payload (outbox s)\<rparr>))"

end
