(* ===== verification/BankPosting.thy ===== *)
theory BankPosting
  imports BankDb
begin

text \<open>
  What the four writers of Bank A's money tables have in common: a transfers row together with
  its two ledger rows (\<open>post\<close>), the well-formedness of the database that posting keeps, and
  the exact outcome of the repository statements on a well-formed database.
\<close>

subsection \<open>A transfer row and its double entry\<close>

definition row_entries :: "transfer_row \<Rightarrow> ledger_row list" where
  "row_entries r =
     [\<lparr>led_transfer_id = trow_id r, led_account_id = trow_payer_account_id r,
       led_amount = - trow_amount r, led_created_at = trow_created_at r\<rparr>,
      \<lparr>led_transfer_id = trow_id r, led_account_id = trow_payee_account_id r,
       led_amount = trow_amount r, led_created_at = trow_created_at r\<rparr>]"

definition add_transfer :: "transfer_row \<Rightarrow> bank_db \<Rightarrow> bank_db" where
  "add_transfer r s = s\<lparr>transfers := transfers s @ [r]\<rparr>"

definition add_entries :: "ledger_row list \<Rightarrow> bank_db \<Rightarrow> bank_db" where
  "add_entries es s = s\<lparr>ledger_entries := ledger_entries s @ es\<rparr>"

definition post :: "transfer_row \<Rightarrow> bank_db \<Rightarrow> bank_db" where
  "post r s = add_entries (row_entries r) (add_transfer r s)"

interpretation books: double_entry ledger_entries led_account_id led_amount add_entries ledger_sum row_entries
  by unfold_locales (auto simp: add_entries_def ledger_sum_def row_entries_def)

lemma add_transfer_frame [simp]:
  "accounts (add_transfer r s) = accounts s" "transfers (add_transfer r s) = transfers s @ [r]"
  "ledger_entries (add_transfer r s) = ledger_entries s"
  "interbank_transfers (add_transfer r s) = interbank_transfers s" "outbox (add_transfer r s) = outbox s"
  by (simp_all add: add_transfer_def)

lemma post_frame [simp]:
  "accounts (post r s) = accounts s" "transfers (post r s) = transfers s @ [r]"
  "ledger_entries (post r s) = ledger_entries s @ row_entries r"
  "interbank_transfers (post r s) = interbank_transfers s" "outbox (post r s) = outbox s"
  by (simp_all add: post_def add_entries_def)

lemma account_exists_post [simp]: "account_exists k (post r s) = account_exists k s"
  by (simp add: account_exists_def)

lemma account_exists_add [simp]: "account_exists k (add_transfer r s) = account_exists k s"
  by (simp add: account_exists_def)

lemma transfer_exists_add [simp]:
  "transfer_exists k (add_transfer r s) = (transfer_exists k s \<or> trow_id r = k)"
  by (auto simp: transfer_exists_def)

lemma transfer_exists_post [simp]: "transfer_exists k (post r s) = (transfer_exists k s \<or> trow_id r = k)"
  by (auto simp: transfer_exists_def)

lemma key_taken_post [simp]:
  "key_taken key (post r s) = (key_taken key s \<or> trow_idempotency_key r = key)"
  by (auto simp: key_taken_def)

lemma ledger_sum_add [simp]: "ledger_sum k (add_transfer r s) = ledger_sum k s"
  by (simp add: ledger_sum_def)

text \<open>The abstract effect of a transfer: the balances as a function of the account.\<close>

definition move :: "string \<Rightarrow> string \<Rightarrow> int \<Rightarrow> (string \<Rightarrow> int) \<Rightarrow> string \<Rightarrow> int" where
  "move p q n b = b(p := b p - n, q := b q + n)"

definition balances :: "bank_db \<Rightarrow> string \<Rightarrow> int" where
  "balances s = (\<lambda>k. ledger_sum k s)"

lemma balances_post:
  "trow_payer_account_id r \<noteq> trow_payee_account_id r \<Longrightarrow>
   balances (post r s) = move (trow_payer_account_id r) (trow_payee_account_id r) (trow_amount r) (balances s)"
  by (auto simp: balances_def move_def post_def books.balance_append row_entries_def fun_eq_iff)

lemma ledger_sum_post:
  "trow_payer_account_id r \<noteq> trow_payee_account_id r \<Longrightarrow>
   ledger_sum k (post r s) =
     (if k = trow_payer_account_id r then ledger_sum k s - trow_amount r
      else if k = trow_payee_account_id r then ledger_sum k s + trow_amount r else ledger_sum k s)"
  using fun_cong [OF balances_post [of r s], of k] by (simp add: balances_def move_def)

subsection \<open>Well-formed databases\<close>

definition system_account :: "string \<Rightarrow> bool" where
  "system_account k \<longleftrightarrow> k = SUSPENSE_ACCOUNT_ID \<or> k = DEV_TREASURY_ACCOUNT_ID"

definition row_ok :: "bank_db \<Rightarrow> transfer_row \<Rightarrow> bool" where
  "row_ok s r \<longleftrightarrow> uuid_ok (trow_id r) \<and> uuid_ok (trow_payer_account_id r) \<and> uuid_ok (trow_payee_account_id r)
     \<and> account_exists (trow_payer_account_id r) s \<and> account_exists (trow_payee_account_id r) s
     \<and> trow_payer_account_id r \<noteq> trow_payee_account_id r
     \<and> 0 < trow_amount r \<and> safe_int (trow_amount r)
     \<and> 1 \<le> length (trow_idempotency_key r) \<and> length (trow_idempotency_key r) \<le> 255"

definition accounts_ok :: "bank_db \<Rightarrow> bool" where
  "accounts_ok s \<longleftrightarrow> distinct (map acc_id (accounts s)) \<and> (\<forall>a \<in> set (accounts s). uuid_ok (acc_id a))
     \<and> account_exists SUSPENSE_ACCOUNT_ID s \<and> account_exists DEV_TREASURY_ACCOUNT_ID s"

definition transfers_ok :: "bank_db \<Rightarrow> bool" where
  "transfers_ok s \<longleftrightarrow> distinct (map trow_id (transfers s)) \<and> distinct (map trow_idempotency_key (transfers s))
     \<and> (\<forall>r \<in> set (transfers s). row_ok s r)
     \<and> ledger_entries s = concat (map row_entries (transfers s))"

text \<open>Every saga row belongs to a transfer of a payer to the suspense account.\<close>

definition interbank_ok :: "bank_db \<Rightarrow> bool" where
  "interbank_ok s \<longleftrightarrow> distinct (map ib_transfer_id (interbank_transfers s))
     \<and> (\<forall>i \<in> set (interbank_transfers s). \<exists>r \<in> set (transfers s).
           trow_id r = ib_transfer_id i \<and> trow_payee_account_id r = SUSPENSE_ACCOUNT_ID)"

definition solvent :: "bank_db \<Rightarrow> bool" where
  "solvent s \<longleftrightarrow> (\<forall>k. \<not> system_account k \<longrightarrow> 0 \<le> ledger_sum k s)"

definition bank_inv :: "bank_db \<Rightarrow> bool" where
  "bank_inv s \<longleftrightarrow> accounts_ok s \<and> transfers_ok s \<and> interbank_ok s \<and> outbox_ok (outbox s) \<and> solvent s"

lemma bank_inv_migrated: "bank_inv migrated_bank"
  by (auto simp: bank_inv_def accounts_ok_def transfers_ok_def interbank_ok_def solvent_def
      migrated_bank_def account_exists_def ledger_sum_def suspense_not_treasury suspense_ok treasury_ok
      outbox_ok_empty)

lemma row_ok_mono:
  "row_ok s r \<Longrightarrow> (\<And>k. account_exists k s \<Longrightarrow> account_exists k t) \<Longrightarrow> row_ok t r"
  by (auto simp: row_ok_def)

lemma transfer_in_ok: "bank_inv s \<Longrightarrow> r \<in> set (transfers s) \<Longrightarrow> row_ok s r"
  by (auto simp: bank_inv_def transfers_ok_def)

definition row_fits :: "bank_db \<Rightarrow> transfer_row \<Rightarrow> bool" where
  "row_fits s r \<longleftrightarrow> row_ok s r \<and> \<not> transfer_exists (trow_id r) s \<and> \<not> key_taken (trow_idempotency_key r) s"

lemma transfers_ok_post: "transfers_ok s \<Longrightarrow> row_fits s r \<Longrightarrow> transfers_ok (post r s)"
  by (auto simp: transfers_ok_def row_fits_def transfer_exists_def key_taken_def list_ex_iff
      intro: row_ok_mono)

lemma interbank_ok_post: "interbank_ok s \<Longrightarrow> interbank_ok (post r s)"
  by (auto simp: interbank_ok_def)

text \<open>Posting a fitting row keeps the database well formed when the payer can pay, or is not a customer.\<close>

lemma bank_inv_post:
  assumes "bank_inv s" and "row_fits s r"
    and "system_account (trow_payer_account_id r) \<or> trow_amount r \<le> ledger_sum (trow_payer_account_id r) s"
  shows "bank_inv (post r s)"
proof -
  from assms(2) have r: "trow_payer_account_id r \<noteq> trow_payee_account_id r" "0 < trow_amount r"
    by (simp_all add: row_fits_def row_ok_def)
  have "solvent (post r s)"
    using assms(1,3) r by (auto simp: bank_inv_def solvent_def ledger_sum_post)
  then show ?thesis
    using assms(1,2) by (auto simp: bank_inv_def accounts_ok_def transfers_ok_post interbank_ok_post)
qed

lemma accounts_ok_uuid: "accounts_ok s \<Longrightarrow> account_exists k s \<Longrightarrow> uuid_ok k"
  by (auto simp: accounts_ok_def account_exists_def list_ex_iff)

lemma bank_inv_uuid: "bank_inv s \<Longrightarrow> account_exists k s \<Longrightarrow> uuid_ok k"
  by (auto simp: bank_inv_def intro: accounts_ok_uuid)

lemma bank_inv_system: "bank_inv s \<Longrightarrow> account_exists SUSPENSE_ACCOUNT_ID s \<and> account_exists DEV_TREASURY_ACCOUNT_ID s"
  by (simp add: bank_inv_def accounts_ok_def)

subsection \<open>The statements on a well-formed database\<close>

definition row_record :: "transfer_row \<Rightarrow> transfer_record" where
  "row_record r = \<lparr>rec_id = trow_id r, rec_payerAccountId = trow_payer_account_id r,
     rec_payeeAccountId = trow_payee_account_id r, rec_amount = Money (trow_amount r),
     rec_createdAt = trow_created_at r\<rparr>"

lemma row_record_sel [simp]:
  "rec_id (row_record r) = trow_id r" "rec_payerAccountId (row_record r) = trow_payer_account_id r"
  "rec_payeeAccountId (row_record r) = trow_payee_account_id r" "rec_amount (row_record r) = Money (trow_amount r)"
  by (simp_all add: row_record_def)

lemma toRecord_ok: "safe_int (trow_amount r) \<Longrightarrow> toRecord r = Inr (row_record r)"
  by (simp add: toRecord_def Money_fromCents_of_int row_record_def)

lemma findByIdempotencyKey_ok:
  "bank_inv s \<Longrightarrow> findByIdempotencyKey key s =
     Inr (map_option row_record (find (\<lambda>r. trow_idempotency_key r = key) (transfers s)))"
  by (auto simp: findByIdempotencyKey_def toRecord_ok row_ok_def split: option.splits
      dest!: find_Some_in transfer_in_ok)

lemma TransferRepository_findById_ok:
  "bank_inv s \<Longrightarrow> uuid_in i = Some k \<Longrightarrow> TransferRepository_findById i s =
     Inr (map_option row_record (find (\<lambda>r. trow_id r = k) (transfers s)))"
  by (auto simp: TransferRepository_findById_def bind_uuid_def toRecord_ok row_ok_def split: option.splits
      dest!: find_Some_in transfer_in_ok)

lemma key_taken_find: "key_taken key s \<longleftrightarrow> find (\<lambda>r. trow_idempotency_key r = key) (transfers s) \<noteq> None"
  by (auto simp: key_taken_def find_None list_ex_iff)

definition new_row :: "int \<Rightarrow> transfer \<Rightarrow> string \<Rightarrow> string \<Rightarrow> string \<Rightarrow> transfer_row" where
  "new_row now t key p q = \<lparr>trow_id = tr_id t, trow_idempotency_key = key, trow_payer_account_id = p,
     trow_payee_account_id = q, trow_amount = cents (tr_amount t), trow_created_at = now\<rparr>"

lemma new_row_sel [simp]:
  "trow_id (new_row now t key p q) = tr_id t" "trow_idempotency_key (new_row now t key p q) = key"
  "trow_payer_account_id (new_row now t key p q) = p" "trow_payee_account_id (new_row now t key p q) = q"
  "trow_amount (new_row now t key p q) = cents (tr_amount t)" "trow_created_at (new_row now t key p q) = now"
  by (simp_all add: new_row_def)

text \<open>What the services pass to \<open>insert\<close>: a fresh identifier and an amount \<open>Transfer.create\<close> let through.\<close>

definition transfer_ok :: "transfer \<Rightarrow> bool" where
  "transfer_ok t \<longleftrightarrow> uuid_ok (tr_id t) \<and> money_ok (tr_amount t) \<and> 0 < cents (tr_amount t)"

lemma TransferRepository_insert_ok:
  assumes "transfer_ok t" and "uuid_in (tr_payerAccountId t) = Some p" and "uuid_in (tr_payeeAccountId t) = Some q"
  shows "TransferRepository_insert now t key s =
    (if \<not> (1 \<le> length key \<and> length key \<le> 255 \<and> p \<noteq> q) then Inl (Db (CheckViolation ''transfers''))
     else if key_taken key s then Inr (None, s)
     else if transfer_exists (tr_id t) s then Inl (Db (UniqueViolation ''transfers_pkey''))
     else if \<not> account_exists p s \<or> \<not> account_exists q s then Inl (Db (ForeignKeyViolation ''transfers''))
     else Inr (Some (row_record (new_row now t key p q)), add_transfer (new_row now t key p q) s))"
proof -
  have "bind_uuid (tr_id t) = (Inr (tr_id t) :: bank_error + string)"
    "bind_bigint (js_of_int (cents (tr_amount t))) = (Inr (cents (tr_amount t)) :: bank_error + int)"
    "safe_int (cents (tr_amount t))"
    using assms(1) by (simp_all add: transfer_ok_def bind_uuid_def bind_bigint_safe money_ok_def)
  then show ?thesis
    using assms by (simp add: TransferRepository_insert_def bind_uuid_def insert_transfer_row_def tx_bind_def
        tx_check_def db_guard_def transfer_ok_def toRecord_ok new_row_def [symmetric] add_transfer_def)
qed

lemma TransferRepository_insert_bad_uuid:
  assumes "transfer_ok t" and "uuid_in (tr_payerAccountId t) = None \<or> uuid_in (tr_payeeAccountId t) = None"
  shows "\<exists>x. TransferRepository_insert now t key s = Inl (Db (InvalidTextRepresentation x))"
  using assms by (auto simp: TransferRepository_insert_def tx_bind_def tx_check_def bind_uuid_def
      transfer_ok_def split: sum.splits option.splits)

text \<open>Both writers of ledger rows append a debit and a credit of one transfer, which never fails.\<close>

lemma ledger_append_pair:
  assumes i: "uuid_in i = Some (trow_id r)" and p: "uuid_in a = Some (trow_payer_account_id r)"
    and q: "uuid_in b = Some (trow_payee_account_id r)" and n: "safe_int (trow_amount r)" "0 < trow_amount r"
    and ex: "account_exists (trow_payer_account_id r) s" "account_exists (trow_payee_account_id r) s"
    and t: "transfer_exists (trow_id r) s"
  shows "ledger_append (trow_created_at r)
      [\<lparr>entry_transferId = i, entry_accountId = a, entry_amount = Money (- trow_amount r)\<rparr>,
       \<lparr>entry_transferId = i, entry_accountId = b, entry_amount = Money (trow_amount r)\<rparr>] s =
    Inr ((), add_entries (row_entries r) s)"
proof -
  have "bind_bigint (js_of_int (trow_amount r)) = (Inr (trow_amount r) :: bank_error + int)"
    "bind_bigint (js_of_int (- trow_amount r)) = (Inr (- trow_amount r) :: bank_error + int)"
    using n by (simp_all add: bind_bigint_safe)
  then have "ledger_insert (trow_created_at r)
        \<lparr>entry_transferId = i, entry_accountId = a, entry_amount = Money (- trow_amount r)\<rparr> s =
      Inr ((), add_entries [hd (row_entries r)] s)"
    and "ledger_insert (trow_created_at r)
        \<lparr>entry_transferId = i, entry_accountId = b, entry_amount = Money (trow_amount r)\<rparr>
        (add_entries [hd (row_entries r)] s) =
      Inr ((), add_entries [hd (row_entries r), row_entries r ! 1] s)"
    using ex t n by (simp_all add: ledger_insert_def bind_uuid_def i p q add_entries_def row_entries_def
        account_exists_def transfer_exists_def)
  then show ?thesis by (simp add: row_entries_def)
qed

lemma ledger_append_ok:
  assumes t: "transfer_ok t" and p: "uuid_in (tr_payerAccountId t) = Some p"
    and q: "uuid_in (tr_payeeAccountId t) = Some q"
    and ex: "account_exists p s" "account_exists q s"
    and es: "Transfer_entries t = Inr entries"
  shows "ledger_append now entries (add_transfer (new_row now t key p q) s) = Inr ((), post (new_row now t key p q) s)"
proof -
  have "entries =
     [\<lparr>entry_transferId = tr_id t, entry_accountId = tr_payerAccountId t,
       entry_amount = Money (- cents (tr_amount t))\<rparr>,
      \<lparr>entry_transferId = tr_id t, entry_accountId = tr_payeeAccountId t, entry_amount = Money (cents (tr_amount t))\<rparr>]"
    using es t by (simp add: Transfer_entries_ok transfer_ok_def)
  moreover have "uuid_in (tr_id t) = Some (tr_id t)" "safe_int (cents (tr_amount t))" "0 < cents (tr_amount t)"
    using t by (simp_all add: transfer_ok_def money_ok_def)
  ultimately show ?thesis
    using ledger_append_pair [of "tr_id t" "new_row now t key p q" "tr_payerAccountId t" "tr_payeeAccountId t"] p q ex
    by (simp add: post_def)
qed

lemma balanceOf_ok:
  "uuid_in i = Some k \<Longrightarrow> balanceOf i s =
     (if safe_int (ledger_sum k s) then Inr (Money (ledger_sum k s))
      else Inl (Domain (InvalidAmountError (js_of_int (ledger_sum k s)))))"
  by (simp add: balanceOf_def bind_uuid_def Money_fromCents_of_int)

lemma lockById_ok: "AccountRepository_lockById i s =
    (case uuid_in i of None \<Rightarrow> Inl (Db (InvalidTextRepresentation i)) | Some k \<Rightarrow> Inr (account_exists k s))"
  by (simp add: AccountRepository_lockById_def bind_uuid_def split: option.splits)

lemma row_fits_new:
  "transfer_ok t \<Longrightarrow> uuid_ok p \<Longrightarrow> uuid_ok q \<Longrightarrow> account_exists p s \<Longrightarrow> account_exists q s \<Longrightarrow> p \<noteq> q \<Longrightarrow>
   1 \<le> length key \<Longrightarrow> length key \<le> 255 \<Longrightarrow> \<not> transfer_exists (tr_id t) s \<Longrightarrow> \<not> key_taken key s \<Longrightarrow>
   row_fits s (new_row now t key p q)"
  by (simp add: row_fits_def row_ok_def transfer_ok_def money_ok_def)

subsection \<open>The status of a saga row\<close>

definition interbank_status_of :: "string \<Rightarrow> bank_db \<Rightarrow> interbank_status option" where
  "interbank_status_of k s = map_option ib_status (find (\<lambda>r. ib_transfer_id r = k) (interbank_transfers s))"

lemma find_update_debited:
  "find (\<lambda>r. ib_transfer_id r = k') (interbank_transfers (update_debited st now k s)) =
   map_option (\<lambda>r. if ib_transfer_id r = k \<and> ib_status r = DEBITED
                    then r\<lparr>ib_status := st, ib_updated_at := now\<rparr> else r)
     (find (\<lambda>r. ib_transfer_id r = k') (interbank_transfers s))"
proof -
  have "find (\<lambda>r. ib_transfer_id r = k') (map (\<lambda>r. if ib_transfer_id r = k \<and> ib_status r = DEBITED
          then r\<lparr>ib_status := st, ib_updated_at := now\<rparr> else r) rs) =
      map_option (\<lambda>r. if ib_transfer_id r = k \<and> ib_status r = DEBITED
          then r\<lparr>ib_status := st, ib_updated_at := now\<rparr> else r) (find (\<lambda>r. ib_transfer_id r = k') rs)"
    for rs :: "interbank_row list"
    by (induction rs) auto
  then show ?thesis by (simp add: update_debited_def)
qed

lemma status_update_debited:
  "interbank_status_of k' (update_debited st now k s) =
   (if k' = k \<and> interbank_status_of k s = Some DEBITED then Some st else interbank_status_of k' s)"
  using find_Some_in [of "\<lambda>r. ib_transfer_id r = k'" "interbank_transfers s"]
  by (cases "find (\<lambda>r. ib_transfer_id r = k') (interbank_transfers s)")
    (auto simp: interbank_status_of_def find_update_debited)

text \<open>\<open>markConfirmed\<close> and \<open>markCompensated\<close> are guarded updates of one row.\<close>

interpretation sagas: guarded_status interbank_status_of update_debited DEBITED
  by unfold_locales (simp_all add: status_update_debited)

lemma update_debited_settled:
  assumes "distinct (map ib_transfer_id (interbank_transfers s))"
    and "interbank_status_of k s \<noteq> Some DEBITED"
  shows "update_debited st now k s = s"
proof -
  have "r\<lparr>ib_status := st, ib_updated_at := now\<rparr> = r"
    if "r \<in> set (interbank_transfers s)" "ib_transfer_id r = k" "ib_status r = DEBITED" for r
    using that assms find_key_unique [OF assms(1) that(1)] by (auto simp: interbank_status_of_def)
  then have "map (\<lambda>r. if ib_transfer_id r = k \<and> ib_status r = DEBITED
          then r\<lparr>ib_status := st, ib_updated_at := now\<rparr> else r) (interbank_transfers s) = interbank_transfers s"
    by (auto intro: map_idI)
  then show ?thesis by (simp add: update_debited_def)
qed

lemma update_debited_frame [simp]:
  "accounts (update_debited st now k s) = accounts s" "transfers (update_debited st now k s) = transfers s"
  "ledger_entries (update_debited st now k s) = ledger_entries s" "outbox (update_debited st now k s) = outbox s"
  by (simp_all add: update_debited_def)

definition ib_ident :: "interbank_row \<Rightarrow> string \<times> string \<times> string" where
  "ib_ident r = (ib_transfer_id r, ib_payee_bank_id r, ib_payee_account_ref r)"

lemma map_ident_update [simp]:
  "map ib_ident (interbank_transfers (update_debited st now k s)) = map ib_ident (interbank_transfers s)"
  by (simp add: update_debited_def ib_ident_def)

lemma bank_inv_update: "bank_inv s \<Longrightarrow> bank_inv (update_debited st now k s)"
proof -
  assume inv: "bank_inv s"
  let ?t = "update_debited st now k s"
  have ids: "map ib_transfer_id (interbank_transfers ?t) = map ib_transfer_id (interbank_transfers s)"
    by (simp add: update_debited_def)
  have ex: "account_exists a ?t = account_exists a s" for a by (simp add: account_exists_def)
  have "transfers_ok ?t" using inv ex by (auto simp: bank_inv_def transfers_ok_def intro: row_ok_mono)
  moreover have "interbank_ok ?t"
  proof -
    have "\<exists>r \<in> set (transfers s). trow_id r = ib_transfer_id i \<and> trow_payee_account_id r = SUSPENSE_ACCOUNT_ID"
      if "i \<in> set (interbank_transfers ?t)" for i
    proof -
      from that have "ib_transfer_id i \<in> ib_transfer_id ` set (interbank_transfers s)"
        using ids by (metis image_eqI list.set_map)
      then show ?thesis using inv by (auto simp: bank_inv_def interbank_ok_def)
    qed
    then show ?thesis using inv ids by (simp add: bank_inv_def interbank_ok_def)
  qed
  ultimately show ?thesis
    using inv ex by (auto simp: bank_inv_def accounts_ok_def solvent_def ledger_sum_def)
qed

subsection \<open>What other requests may do meanwhile\<close>

text \<open>
  The money tables are append-only: whatever runs in between, rows are only added. Saga rows
  keep their identity and, once settled, their status.
\<close>

definition grows :: "bank_db \<Rightarrow> bank_db \<Rightarrow> bool" where
  "grows s t \<longleftrightarrow> prefix (accounts s) (accounts t) \<and> prefix (transfers s) (transfers t)
     \<and> prefix (ledger_entries s) (ledger_entries t)
     \<and> prefix (map ib_ident (interbank_transfers s)) (map ib_ident (interbank_transfers t))
     \<and> (\<forall>k st. interbank_status_of k s = Some st \<longrightarrow> st \<noteq> DEBITED \<longrightarrow> interbank_status_of k t = Some st)"

lemma grows_refl [simp]: "grows s s"
  by (simp add: grows_def)

lemma grows_trans: "grows s t \<Longrightarrow> grows t u \<Longrightarrow> grows s u"
  unfolding grows_def by (metis prefix_order.trans)

lemma grows_post [simp]: "grows s (post r s)"
  by (simp add: grows_def interbank_status_of_def)

lemma grows_update [simp]: "grows s (update_debited st now k s)"
  by (auto simp: grows_def status_update_debited)

lemma grows_account: "grows s t \<Longrightarrow> account_exists k s \<Longrightarrow> account_exists k t"
  by (auto simp: grows_def account_exists_def list_ex_iff dest: prefix_set_subset)

lemma grows_key: "grows s t \<Longrightarrow> find (\<lambda>r. trow_idempotency_key r = key) (transfers s) = Some r \<Longrightarrow>
    find (\<lambda>r. trow_idempotency_key r = key) (transfers t) = Some r"
  by (auto simp: grows_def intro: find_prefix)

lemma grows_transfer: "grows s t \<Longrightarrow> r \<in> set (transfers s) \<Longrightarrow> r \<in> set (transfers t)"
  by (auto simp: grows_def dest: prefix_set_subset)

lemma grows_settled:
  "grows s t \<Longrightarrow> interbank_status_of k s = Some st \<Longrightarrow> st \<noteq> DEBITED \<Longrightarrow> interbank_status_of k t = Some st"
  by (simp add: grows_def)

subsection \<open>A small bank to run examples on\<close>

definition alice :: string where
  "alice = ''aaaaaaaa-0000-4000-8000-000000000001''"

definition bob :: string where
  "bob = ''bbbbbbbb-0000-4000-8000-000000000002''"

definition seed_row :: transfer_row where
  "seed_row = \<lparr>trow_id = ''cccccccc-0000-4000-8000-000000000003'', trow_idempotency_key = ''dev-seed-cccccccc-0000-4000-8000-000000000003'',
     trow_payer_account_id = DEV_TREASURY_ACCOUNT_ID, trow_payee_account_id = alice,
     trow_amount = 1000, trow_created_at = 1\<rparr>"

definition opened_bank :: bank_db where
  "opened_bank = migrated_bank\<lparr>accounts := accounts migrated_bank @
     [\<lparr>acc_id = alice, acc_owner_name = ''Alice'', acc_created_at = 1\<rparr>,
      \<lparr>acc_id = bob, acc_owner_name = ''Bob'', acc_created_at = 1\<rparr>]\<rparr>"

definition sample_bank :: bank_db where
  "sample_bank = post seed_row opened_bank"

lemma sample_uuids: "uuid_ok alice" "uuid_ok bob" "uuid_ok (trow_id seed_row)"
  by code_simp+

lemma sample_distinct: "distinct [SUSPENSE_ACCOUNT_ID, DEV_TREASURY_ACCOUNT_ID, alice, bob]"
  by code_simp

lemma opened_inv: "bank_inv opened_bank"
proof -
  have "acc_id ` set (accounts opened_bank) = {SUSPENSE_ACCOUNT_ID, DEV_TREASURY_ACCOUNT_ID, alice, bob}"
    by (auto simp: opened_bank_def migrated_bank_def)
  then have "\<forall>k \<in> acc_id ` set (accounts opened_bank). uuid_ok k"
    using sample_uuids suspense_ok treasury_ok by simp
  then have "\<forall>a \<in> set (accounts opened_bank). uuid_ok (acc_id a)" by blast
  moreover have "distinct (map acc_id (accounts opened_bank))"
    using sample_distinct by (simp add: opened_bank_def migrated_bank_def)
  ultimately show ?thesis
    using bank_inv_migrated
    by (auto simp: bank_inv_def accounts_ok_def transfers_ok_def interbank_ok_def solvent_def
        opened_bank_def migrated_bank_def account_exists_def ledger_sum_def)
qed

lemma opened_accounts [simp]: "account_exists alice opened_bank" "account_exists bob opened_bank"
  by (simp_all add: opened_bank_def account_exists_def)

lemma sample_inv: "bank_inv sample_bank"
proof -
  have "row_fits opened_bank seed_row"
    using sample_uuids sample_distinct bank_inv_system [OF opened_inv]
    by (auto simp: row_fits_def row_ok_def treasury_ok seed_row_def opened_bank_def migrated_bank_def
        transfer_exists_def key_taken_def safe_int_def MAX_SAFE_INTEGER_def account_exists_def)
  then show ?thesis
    unfolding sample_bank_def
    by (rule bank_inv_post [OF opened_inv]) (simp add: seed_row_def system_account_def)
qed

lemma sample_accounts [simp]: "account_exists alice sample_bank" "account_exists bob sample_bank"
  by (simp_all add: sample_bank_def)

lemma sample_balance: "ledger_sum alice sample_bank = 1000" "ledger_sum bob sample_bank = 0"
  using sample_distinct
  by (simp_all add: sample_bank_def post_def add_entries_def row_entries_def seed_row_def opened_bank_def
      migrated_bank_def ledger_sum_def)

lemma sample_transfers: "transfers sample_bank = [seed_row]" "interbank_transfers sample_bank = []"
  by (simp_all add: sample_bank_def opened_bank_def migrated_bank_def)

end
