(* ===== verification/BankTransfers.thy ===== *)
theory BankTransfers
  imports BankPosting
begin

text \<open>
  Transfers between two accounts of Bank A (src/transfers/transfers.service.ts). A request reads
  outside the transaction before and after it, so \<open>execute\<close> takes two functions that stand for
  whatever other requests commit in those two gaps; the transaction itself is one step, which
  is what the row locks of \<open>lockAccounts\<close> are for.
\<close>

subsection \<open>TransfersService\<close>

record transfer_params =
  tp_payerAccountId :: string
  tp_payeeAccountId :: string
  tp_amount :: money

fun lock_loop :: "string list \<Rightarrow> unit bank_tx" where
  "lock_loop [] = tx_return ()"
| "lock_loop (i # ids) =
     tx_bind (tx_read (AccountRepository_lockById i)) (\<lambda>found.
       if \<not> found then tx_throw (Domain (AccountNotFoundError i)) else lock_loop ids)"

definition lockAccounts :: "transfer \<Rightarrow> unit bank_tx" where
  "lockAccounts transfer = lock_loop (sort [tr_payerAccountId transfer, tr_payeeAccountId transfer])"

definition replay :: "transfer_record \<Rightarrow> transfer \<Rightarrow> domain_error + transfer_record" where
  "replay existing attempted =
     (if rec_payerAccountId existing = tr_payerAccountId attempted
         \<and> rec_payeeAccountId existing = tr_payeeAccountId attempted
         \<and> Money_equals (rec_amount existing) (tr_amount attempted)
      then Inr existing else Inl IdempotencyConflictError)"

text \<open>BEGIN to COMMIT or ROLLBACK: None is the branch that lost the race on the key.\<close>

definition execute_tx :: "int \<Rightarrow> transfer \<Rightarrow> string \<Rightarrow> transfer_record option bank_tx" where
  "execute_tx now transfer idempotencyKey =
     tx_bind (lockAccounts transfer) (\<lambda>_.
     tx_bind (TransferRepository_insert now transfer idempotencyKey) (\<lambda>record.
       case record of
         None \<Rightarrow> tx_return None
       | Some r \<Rightarrow>
           tx_bind (tx_read (balanceOf (tr_payerAccountId transfer))) (\<lambda>balance.
           tx_bind (tx_check (lift_domain (assertPayerCanAfford transfer balance))) (\<lambda>_.
           tx_bind (tx_check (lift_domain (Transfer_entries transfer))) (\<lambda>entries.
           tx_bind (ledger_append now entries) (\<lambda>_. tx_return (Some r)))))))"

definition vanished :: "string \<Rightarrow> bank_error" where
  "vanished key = Failure (''Transfer with idempotency key '' @ key @ '' vanished.'')"

definition TransfersService_execute ::
  "(bank_db \<Rightarrow> bank_db) \<Rightarrow> (bank_db \<Rightarrow> bank_db) \<Rightarrow> string \<Rightarrow> int \<Rightarrow> string \<Rightarrow> transfer_params \<Rightarrow>
   bank_db \<Rightarrow> (bank_error + transfer_record) \<times> bank_db" where
  "TransfersService_execute i1 i2 uuid now idempotencyKey params s =
     (case Transfer_create uuid (tp_payerAccountId params) (tp_payeeAccountId params) (tp_amount params) of
        Inl e \<Rightarrow> (Inl (Domain e), s)
      | Inr transfer \<Rightarrow>
        (case findByIdempotencyKey idempotencyKey s of
           Inl e \<Rightarrow> (Inl e, s)
         | Inr (Some existing) \<Rightarrow> (lift_domain (replay existing transfer), s)
         | Inr None \<Rightarrow>
           (case with_tx (execute_tx now transfer idempotencyKey) (i1 s) of
              (Inl e, s1) \<Rightarrow> (Inl e, s1)
            | (Inr (Some record), s1) \<Rightarrow> (Inr record, s1)
            | (Inr None, s1) \<Rightarrow>
              (case findByIdempotencyKey idempotencyKey (i2 s1) of
                 Inl e \<Rightarrow> (Inl e, i2 s1)
               | Inr None \<Rightarrow> (Inl (vanished idempotencyKey), i2 s1)
               | Inr (Some winner) \<Rightarrow> (lift_domain (replay winner transfer), i2 s1)))))"

definition getTransfer :: "string \<Rightarrow> bank_db \<Rightarrow> bank_error + transfer_record" where
  "getTransfer i s = (case TransferRepository_findById i s of
     Inl e \<Rightarrow> Inl e
   | Inr None \<Rightarrow> Inl (Domain (TransferNotFoundError i))
   | Inr (Some record) \<Rightarrow> Inr record)"

subsection \<open>The transaction\<close>

lemma lock_loop_cases:
  "lock_loop ids s =
     (case find (\<lambda>i. \<forall>k. uuid_in i = Some k \<longrightarrow> \<not> account_exists k s) ids of
        None \<Rightarrow> Inr ((), s)
      | Some i \<Rightarrow> Inl (if uuid_in i = None then Db (InvalidTextRepresentation i)
                       else Domain (AccountNotFoundError i)))"
  by (induction ids) (auto simp: tx_bind_def tx_read_def lockById_ok split: option.splits)

lemma lock_loop_Inr: "lock_loop ids s = Inr (u, s') \<longleftrightarrow>
    s' = s \<and> (\<forall>i \<in> set ids. \<exists>k. uuid_in i = Some k \<and> account_exists k s)"
  by (auto simp: lock_loop_cases find_None split: option.splits dest!: find_Some_in)

lemma lockAccounts_Inr: "lockAccounts t s = Inr (u, s') \<longleftrightarrow> s' = s \<and>
    (\<exists>p. uuid_in (tr_payerAccountId t) = Some p \<and> account_exists p s) \<and>
    (\<exists>q. uuid_in (tr_payeeAccountId t) = Some q \<and> account_exists q s)"
  by (auto simp: lockAccounts_def lock_loop_Inr)

text \<open>The part after the locks, for a payer and a payee that exist.\<close>

lemma execute_tx_locked:
  assumes t: "transfer_ok t" and p: "uuid_in (tr_payerAccountId t) = Some p" "account_exists p s"
    and q: "uuid_in (tr_payeeAccountId t) = Some q" "account_exists q s"
  shows "execute_tx now t key s =
    (if \<not> (1 \<le> length key \<and> length key \<le> 255 \<and> p \<noteq> q) then Inl (Db (CheckViolation ''transfers''))
     else if key_taken key s then Inr (None, s)
     else if transfer_exists (tr_id t) s then Inl (Db (UniqueViolation ''transfers_pkey''))
     else if \<not> safe_int (ledger_sum p s) then Inl (Domain (InvalidAmountError (js_of_int (ledger_sum p s))))
     else if ledger_sum p s < cents (tr_amount t)
       then Inl (Domain (InsufficientFundsError (tr_payerAccountId t)))
     else Inr (Some (row_record (new_row now t key p q)), post (new_row now t key p q) s))"
proof -
  have lock: "lockAccounts t s = Inr ((), s)" using p q by (simp add: lockAccounts_Inr)
  obtain es where es: "Transfer_entries t = Inr es"
    using t by (simp add: Transfer_entries_ok transfer_ok_def)
  note app = ledger_append_ok [OF t p(1) q(1) p(2) q(2) es, of now key]
  show ?thesis
    using p q
    by (simp add: execute_tx_def lock TransferRepository_insert_ok [OF t p(1) q(1)] tx_bind_def tx_read_def
        tx_check_def balanceOf_ok [OF p(1)] assertPayerCanAfford_def Money_lessThan_def es app)
qed

lemma execute_tx_Inr:
  assumes t: "transfer_ok t" and run: "execute_tx now t key s = Inr (res, s')"
  obtains (taken) "res = None" "s' = s" "key_taken key s"
  | (posted) p q where "uuid_in (tr_payerAccountId t) = Some p" "uuid_in (tr_payeeAccountId t) = Some q"
      "res = Some (row_record (new_row now t key p q))" "s' = post (new_row now t key p q) s"
      "row_fits s (new_row now t key p q)" "cents (tr_amount t) \<le> ledger_sum p s"
proof -
  from run obtain u s0 where "lockAccounts t s = Inr (u, s0)"
    by (auto simp: execute_tx_def tx_simps)
  then obtain p q where p: "uuid_in (tr_payerAccountId t) = Some p" "account_exists p s"
    and q: "uuid_in (tr_payeeAccountId t) = Some q" "account_exists q s"
    by (auto simp: lockAccounts_Inr)
  have "uuid_ok p" "uuid_ok q" using p q uuid_in_ok by blast+
  note run' = run [unfolded execute_tx_locked [OF t p q]]
  show thesis
  proof (cases "key_taken key s")
    case True
    with run' show thesis by (intro taken) (auto split: if_splits)
  next
    case False
    with run' show thesis
      using t p q \<open>uuid_ok p\<close> \<open>uuid_ok q\<close>
      by (intro posted [OF p(1) q(1)]) (auto split: if_splits intro!: row_fits_new)
  qed
qed

lemma sort_pair: "sort [a, b] = (if a \<le> b then [a, b] else [b, a :: string])"
  by simp

text \<open>Which of the two ids the missing-account error names: the lock loop stops at the first.\<close>

definition missing_account :: "transfer \<Rightarrow> bool \<Rightarrow> bool \<Rightarrow> string" where
  "missing_account t payerThere payeeThere =
     (if \<not> payerThere \<and> (payeeThere \<or> tr_payerAccountId t \<le> tr_payeeAccountId t)
      then tr_payerAccountId t else tr_payeeAccountId t)"

lemma execute_tx_missing:
  assumes "uuid_in (tr_payerAccountId t) = Some p" "uuid_in (tr_payeeAccountId t) = Some q"
    and "\<not> account_exists p s \<or> \<not> account_exists q s"
  shows "execute_tx now t key s =
    Inl (Domain (AccountNotFoundError (missing_account t (account_exists p s) (account_exists q s))))"
  using assms by (auto simp: execute_tx_def lockAccounts_def sort_pair lock_loop_cases missing_account_def)

lemma execute_tx_Inl:
  assumes t: "transfer_ok t" and run: "execute_tx now t key s = Inl e"
  shows "(\<exists>d. e = Domain d) \<or> (\<exists>d. e = Db d)"
proof (cases "lockAccounts t s")
  case (Inl e')
  with run have "e = e'" by (simp add: execute_tx_def)
  with Inl show ?thesis by (auto simp: lockAccounts_def lock_loop_cases split: option.splits if_splits)
next
  case (Inr r)
  then obtain u s0 where "lockAccounts t s = Inr (u, s0)" by (cases r) simp
  then obtain p q where p: "uuid_in (tr_payerAccountId t) = Some p" "account_exists p s"
    and q: "uuid_in (tr_payeeAccountId t) = Some q" "account_exists q s"
    by (auto simp: lockAccounts_Inr)
  from run show ?thesis by (auto simp: execute_tx_locked [OF t p q] split: if_splits)
qed

lemma created_ok: "Transfer_create i p q m = Inr t \<Longrightarrow> uuid_ok i \<Longrightarrow> money_ok m \<Longrightarrow> transfer_ok t"
  by (auto simp: Transfer_create_Inr transfer_ok_def)

lemma replay_row_record: "replay (row_record row) t =
    (if trow_payer_account_id row = tr_payerAccountId t \<and> trow_payee_account_id row = tr_payeeAccountId t
        \<and> trow_amount row = cents (tr_amount t)
     then Inr (row_record row) else Inl IdempotencyConflictError)"
  by (cases "tr_amount t") (auto simp: replay_def)

lemma replay_Inr: "replay (row_record row) t = Inr r \<longleftrightarrow> r = row_record row \<and>
    trow_payer_account_id row = tr_payerAccountId t \<and> trow_payee_account_id row = tr_payeeAccountId t \<and>
    trow_amount row = cents (tr_amount t)"
  by (auto simp: replay_row_record)

text \<open>A replay that is accepted was asked for with the canonical texts of the recorded accounts.\<close>

lemma replay_row:
  "bank_inv s \<Longrightarrow> row \<in> set (transfers s) \<Longrightarrow> replay (row_record row) t = Inr r \<Longrightarrow>
   r = row_record row \<and> uuid_in (tr_payerAccountId t) = Some (trow_payer_account_id row) \<and>
   uuid_in (tr_payeeAccountId t) = Some (trow_payee_account_id row) \<and> trow_amount row = cents (tr_amount t)"
  using transfer_in_ok [of s row] by (auto simp: replay_Inr row_ok_def uuid_ok_def)

lemma replay_Inl: "replay x t = Inl e \<Longrightarrow> e = IdempotencyConflictError"
  by (auto simp: replay_def split: if_splits)

subsection \<open>Properties\<close>

text \<open>A request with nothing else going on.\<close>

lemma execute_quiet:
  assumes inv: "bank_inv s" and uuid: "uuid_ok uuid" and fresh: "\<not> transfer_exists uuid s"
    and m: "money_ok (tp_amount ps)"
    and p: "uuid_in (tp_payerAccountId ps) = Some p" and q: "uuid_in (tp_payeeAccountId ps) = Some q"
  shows "TransfersService_execute id id uuid now key ps s =
   (let n = cents (tp_amount ps);
        t = \<lparr>tr_id = uuid, tr_payerAccountId = tp_payerAccountId ps,
             tr_payeeAccountId = tp_payeeAccountId ps, tr_amount = tp_amount ps\<rparr>;
        row = \<lparr>trow_id = uuid, trow_idempotency_key = key, trow_payer_account_id = p,
               trow_payee_account_id = q, trow_amount = n, trow_created_at = now\<rparr>
    in if n \<le> 0 then (Inl (Domain (InvalidAmountError (js_of_int n))), s)
       else if tp_payerAccountId ps = tp_payeeAccountId ps then (Inl (Domain SelfTransferError), s)
       else case find (\<lambda>r. trow_idempotency_key r = key) (transfers s) of
         Some r \<Rightarrow> (if trow_payer_account_id r = tp_payerAccountId ps
                       \<and> trow_payee_account_id r = tp_payeeAccountId ps \<and> trow_amount r = n
                    then Inr (row_record r) else Inl (Domain IdempotencyConflictError), s)
       | None \<Rightarrow>
          if \<not> account_exists p s \<or> \<not> account_exists q s
            then (Inl (Domain (AccountNotFoundError
                    (missing_account t (account_exists p s) (account_exists q s)))), s)
          else if p = q \<or> key = [] \<or> 255 < length key then (Inl (Db (CheckViolation ''transfers'')), s)
          else if \<not> safe_int (ledger_sum p s)
            then (Inl (Domain (InvalidAmountError (js_of_int (ledger_sum p s)))), s)
          else if ledger_sum p s < n
            then (Inl (Domain (InsufficientFundsError (tp_payerAccountId ps))), s)
          else (Inr (row_record row), post row s))"
proof -
  let ?n = "cents (tp_amount ps)"
  let ?t = "\<lparr>tr_id = uuid, tr_payerAccountId = tp_payerAccountId ps,
    tr_payeeAccountId = tp_payeeAccountId ps, tr_amount = tp_amount ps\<rparr>"
  show ?thesis
  proof (cases "?n \<le> 0 \<or> tp_payerAccountId ps = tp_payeeAccountId ps")
    case True
    then show ?thesis
      by (auto simp: TransfersService_execute_def Transfer_create_def Money_isPositive_def Let_def not_less)
  next
    case False
    then have create: "Transfer_create uuid (tp_payerAccountId ps) (tp_payeeAccountId ps) (tp_amount ps) = Inr ?t"
      and t: "transfer_ok ?t" using uuid m by (simp_all add: Transfer_create_Inr transfer_ok_def)
    show ?thesis
    proof (cases "find (\<lambda>r. trow_idempotency_key r = key) (transfers s)")
      case (Some r)
      then show ?thesis
        using False
        by (simp add: TransfersService_execute_def create findByIdempotencyKey_ok [OF inv] replay_row_record Let_def)
    next
      case None
      then have nokey: "\<not> key_taken key s" by (simp add: key_taken_find)
      show ?thesis
      proof (cases "account_exists p s \<and> account_exists q s")
        case True
        then show ?thesis
          using False None nokey fresh p q
          by (simp add: TransfersService_execute_def create findByIdempotencyKey_ok [OF inv] Let_def with_tx_def
              execute_tx_locked [OF t] new_row_def not_le not_less_eq_eq)
      next
        case acc: False
        then have "\<not> account_exists p s \<or> \<not> account_exists q s" by blast
        then show ?thesis
          using False None p q execute_tx_missing [of ?t p q s now key]
          by (simp add: TransfersService_execute_def create findByIdempotencyKey_ok [OF inv] Let_def with_tx_def)
      qed
    qed
  qed
qed


definition sample_params :: transfer_params where
  "sample_params = \<lparr>tp_payerAccountId = alice, tp_payeeAccountId = bob, tp_amount = Money 300\<rparr>"

definition sample_id :: string where
  "sample_id = ''dddddddd-0000-4000-8000-000000000004''"

definition sample_row :: transfer_row where
  "sample_row = \<lparr>trow_id = sample_id, trow_idempotency_key = ''k1'', trow_payer_account_id = alice,
     trow_payee_account_id = bob, trow_amount = 300, trow_created_at = 7\<rparr>"

lemma sample_id_ok: "uuid_ok sample_id"
  by code_simp

lemma sample_fresh: "\<not> transfer_exists sample_id sample_bank"
  by (simp add: transfer_exists_def sample_transfers seed_row_def sample_id_def)

lemma sample_names: "alice \<noteq> bob" "alice \<noteq> SUSPENSE_ACCOUNT_ID" "bob \<noteq> SUSPENSE_ACCOUNT_ID"
  using sample_distinct by auto

lemma safe_small: "\<bar>n\<bar> \<le> 1000000 \<Longrightarrow> safe_int n"
  by (simp add: safe_int_def MAX_SAFE_INTEGER_def)

lemma money_small: "\<bar>cents m\<bar> \<le> 1000000 \<Longrightarrow> money_ok m"
  by (simp add: money_ok_def safe_small)


text \<open>The one row under the key records what the request asked for.\<close>

definition recorded :: "string \<Rightarrow> transfer_params \<Rightarrow> transfer_row \<Rightarrow> bank_db \<Rightarrow> bool" where
  "recorded key ps row s \<longleftrightarrow> filter (\<lambda>r. trow_idempotency_key r = key) (transfers s) = [row]
     \<and> uuid_in (tp_payerAccountId ps) = Some (trow_payer_account_id row)
     \<and> uuid_in (tp_payeeAccountId ps) = Some (trow_payee_account_id row)
     \<and> trow_amount row = cents (tp_amount ps)"

lemma recorded_row: "recorded key ps row s \<Longrightarrow> row \<in> set (transfers s) \<and> trow_idempotency_key row = key"
proof -
  assume "recorded key ps row s"
  then have "row \<in> set (filter (\<lambda>r. trow_idempotency_key r = key) (transfers s))"
    by (simp add: recorded_def del: set_filter)
  then show ?thesis by simp
qed

lemma recorded_find:
  "bank_inv s \<Longrightarrow> recorded key ps row s \<Longrightarrow> find (\<lambda>r. trow_idempotency_key r = key) (transfers s) = Some row"
  using recorded_row by (simp add: find_key_eq bank_inv_def transfers_ok_def)

lemma key_row_unique:
  "bank_inv s \<Longrightarrow> row \<in> set (transfers s) \<Longrightarrow>
   filter (\<lambda>r. trow_idempotency_key r = trow_idempotency_key row) (transfers s) = [row]"
  by (auto simp: bank_inv_def transfers_ok_def intro: filter_key_unique)

lemma replay_recorded:
  assumes inv: "bank_inv s" and f: "find (\<lambda>r. trow_idempotency_key r = key) (transfers s) = Some row"
    and c: "Transfer_create uuid (tp_payerAccountId ps) (tp_payeeAccountId ps) (tp_amount ps) = Inr tr"
  shows "lift_domain (replay (row_record row) tr) = Inl (Domain IdempotencyConflictError) \<or>
    lift_domain (replay (row_record row) tr) = Inr (row_record row) \<and> recorded key ps row s"
proof (cases "replay (row_record row) tr")
  case (Inl e)
  then show ?thesis using replay_Inl [OF Inl] by simp
next
  case (Inr r)
  from find_Some_in [OF f] have row: "row \<in> set (transfers s)" "trow_idempotency_key row = key" by auto
  from c have "tr_payerAccountId tr = tp_payerAccountId ps" "tr_payeeAccountId tr = tp_payeeAccountId ps"
    "tr_amount tr = tp_amount ps" by (auto simp: Transfer_create_Inr)
  with replay_row [OF inv row(1) Inr] key_row_unique [OF inv row(1)] row(2) Inr show ?thesis
    by (auto simp: recorded_def)
qed

lemma execute_tx_recorded:
  assumes inv: "bank_inv s" and uuid: "uuid_ok uuid" and m: "money_ok (tp_amount ps)"
    and c: "Transfer_create uuid (tp_payerAccountId ps) (tp_payeeAccountId ps) (tp_amount ps) = Inr tr"
    and run: "execute_tx now tr key s = Inr (Some r, s')"
  obtains row where "r = row_record row" "s' = post row s" "row_fits s row" "bank_inv s'"
    "cents (tp_amount ps) \<le> ledger_sum (trow_payer_account_id row) s" "recorded key ps row s'"
proof (rule execute_tx_Inr [OF created_ok [OF c uuid m] run])
  fix p q
  let ?row = "new_row now tr key p q"
  assume won: "uuid_in (tr_payerAccountId tr) = Some p" "uuid_in (tr_payeeAccountId tr) = Some q"
    "Some r = Some (row_record ?row)" "s' = post ?row s" "row_fits s ?row"
    "cents (tr_amount tr) \<le> ledger_sum p s"
  have inv': "bank_inv s'" unfolding won(4) by (rule bank_inv_post [OF inv won(5)]) (simp add: won(6))
  moreover from this have "recorded key ps ?row s'"
    using key_row_unique [of s' ?row] c won by (auto simp: recorded_def Transfer_create_Inr)
  moreover have "tr_amount tr = tp_amount ps" using c by (auto simp: Transfer_create_Inr)
  ultimately show thesis using won by (intro that [of ?row]) simp_all
qed simp

text \<open>A request under interference: its answer is recorded, or it has written nothing.\<close>

lemma execute_interleaved:
  assumes inv: "bank_inv s" "bank_inv (i1 s)" "bank_inv (i2 (i1 s))"
    and grow: "grows s (i1 s)" "grows (i1 s) (i2 (i1 s))"
    and uuid: "uuid_ok uuid" and m: "money_ok (tp_amount ps)"
    and run: "TransfersService_execute i1 i2 uuid now key ps s = (res, t)"
  shows "bank_inv t \<and>
    ((\<exists>e. res = Inl e \<and> e \<noteq> vanished key \<and> t \<in> {s, i1 s, i2 (i1 s)}) \<or>
     (\<exists>row. res = Inr (row_record row) \<and> recorded key ps row t \<and>
        (t \<in> {s, i1 s, i2 (i1 s)} \<or>
         t = post row (i1 s) \<and> row_fits (i1 s) row \<and>
           cents (tp_amount ps) \<le> ledger_sum (trow_payer_account_id row) (i1 s))))"
proof (cases "Transfer_create uuid (tp_payerAccountId ps) (tp_payeeAccountId ps) (tp_amount ps)")
  case (Inl e)
  with run inv show ?thesis by (auto simp: TransfersService_execute_def vanished_def)
next
  case c: (Inr tr)
  note tr = created_ok [OF c uuid m]
  note start = run [unfolded TransfersService_execute_def, simplified c findByIdempotencyKey_ok [OF inv(1)], simplified]
  show ?thesis
  proof (cases "find (\<lambda>r. trow_idempotency_key r = key) (transfers s)")
    case (Some row)
    with start replay_recorded [OF inv(1) Some c] inv(1) show ?thesis by (auto simp: vanished_def)
  next
    case none: None
    show ?thesis
    proof (cases rule: with_tx_cases [of "execute_tx now tr key" "i1 s"])
      case (rolled_back e)
      then show ?thesis using start none inv execute_tx_Inl [OF tr rolled_back(1)] by (auto simp: vanished_def)
    next
      case (committed rec s1)
      show ?thesis
      proof (cases rec)
        case lost: None
        with execute_tx_Inr [OF tr committed(1)] have s1: "s1 = i1 s" "key_taken key (i1 s)" by auto
        then obtain row where "find (\<lambda>r. trow_idempotency_key r = key) (transfers (i1 s)) = Some row"
          by (auto simp: key_taken_find)
        then have f: "find (\<lambda>r. trow_idempotency_key r = key) (transfers (i2 (i1 s))) = Some row"
          by (rule grows_key [OF grow(2)])
        with start none lost committed(2) s1 replay_recorded [OF inv(3) f c] inv(3) show ?thesis
          by (auto simp: findByIdempotencyKey_ok [OF inv(3)] vanished_def)
      next
        case (Some r)
        then show ?thesis
          using start none committed execute_tx_recorded [OF inv(2) uuid m c committed(1) [unfolded Some]]
          by auto
      qed
    qed
  qed
qed

text \<open>
  C3. Exactly once, under any interleaving. Whatever other requests commit before the
  transaction and between a lost race and the second lookup, as long as they keep the database
  well formed and only append: a request that succeeds returns the one transfer recorded under
  its key, for the accounts and the amount it asked for, and has either posted it in full from
  a payer who could pay, or found it there; a request that fails has written nothing; and it
  never ends with the "vanished" error of the lost race.
\<close>
theorem execute_exactly_once:
  assumes inv: "bank_inv s" "bank_inv (i1 s)" "bank_inv (i2 (i1 s))"
    and grow: "grows s (i1 s)" "grows (i1 s) (i2 (i1 s))"
    and uuid: "uuid_ok uuid" and m: "money_ok (tp_amount ps)"
    and run: "TransfersService_execute i1 i2 uuid now key ps s = (res, t)"
  shows "bank_inv t \<and>
    ((\<exists>e. res = Inl e \<and> e \<noteq> vanished key \<and> t \<in> {s, i1 s, i2 (i1 s)}) \<or>
     (\<exists>row. res = Inr (row_record row) \<and> recorded key ps row t \<and>
        (t \<in> {s, i1 s, i2 (i1 s)} \<or>
         t = post row (i1 s) \<and> row_fits (i1 s) row \<and>
           cents (tp_amount ps) \<le> ledger_sum (trow_payer_account_id row) (i1 s))))"
  using assms by (rule execute_interleaved)

lemma sample_row_posted: "row_fits sample_bank sample_row" "bank_inv (post sample_row sample_bank)"
proof -
  show fits: "row_fits sample_bank sample_row"
    using sample_id_ok sample_uuids sample_names sample_fresh
    by (auto simp: row_fits_def row_ok_def sample_row_def safe_small key_taken_def sample_transfers seed_row_def)
  show "bank_inv (post sample_row sample_bank)"
    by (rule bank_inv_post [OF sample_inv fits]) (simp add: sample_row_def sample_balance)
qed

definition sample_id2 :: string where
  "sample_id2 = ''eeeeeeee-0000-4000-8000-000000000005''"

lemma sample_id2_ok: "uuid_ok sample_id2"
  by code_simp

lemma sample_params_ok: "money_ok (tp_amount sample_params)"
  by (simp add: sample_params_def money_small)

lemma sample_created: "Transfer_create i alice bob (Money 300) =
    Inr \<lparr>tr_id = i, tr_payerAccountId = alice, tr_payeeAccountId = bob, tr_amount = Money 300\<rparr>"
  by (simp add: Transfer_create_Inr sample_names)

lemma sample_find: "find (\<lambda>r. trow_idempotency_key r = ''k1'') (transfers sample_bank) = None"
  by (simp add: sample_transfers seed_row_def)

text \<open>The witness runs into a competitor that takes the key first.\<close>

lemma sample_race:
  "TransfersService_execute (post sample_row) id sample_id2 8 ''k1'' sample_params sample_bank =
     (Inr (row_record sample_row), post sample_row sample_bank)"
proof -
  let ?t = "\<lparr>tr_id = sample_id2, tr_payerAccountId = alice, tr_payeeAccountId = bob, tr_amount = Money 300\<rparr>"
  have t: "transfer_ok ?t" by (simp add: transfer_ok_def sample_id2_ok money_small)
  have "execute_tx 8 ?t ''k1'' (post sample_row sample_bank) = Inr (None, post sample_row sample_bank)"
    by (subst execute_tx_locked [OF t, of alice _ bob])
      (simp_all add: sample_uuids sample_names, simp add: sample_row_def)
  moreover have "find (\<lambda>r. trow_idempotency_key r = ''k1'') (transfers (post sample_row sample_bank)) = Some sample_row"
    using sample_find by (simp add: find_append sample_row_def)
  ultimately show ?thesis
    by (simp add: TransfersService_execute_def sample_params_def sample_created findByIdempotencyKey_ok [OF sample_inv]
        sample_find with_tx_def findByIdempotencyKey_ok [OF sample_row_posted(2)] replay_row_record)
      (simp add: sample_row_def)
qed

theorem execute_exactly_once_witness:
  "\<exists>row. recorded ''k1'' sample_params row (post sample_row sample_bank) \<and> row_record row = row_record sample_row"
  using execute_exactly_once [OF sample_inv _ _ _ _ sample_id2_ok sample_params_ok sample_race]
    sample_row_posted(2) by auto

text \<open>
  A retry is answered, not executed. Once a request is recorded, the same request with
  canonical account ids, sent again at any later moment and whatever was committed since,
  returns the recorded transfer and leaves the database alone.
\<close>
theorem retry_answers_original:
  assumes inv: "bank_inv s" "bank_inv t" and "grows s t" and rec: "recorded key ps row s"
    and canon: "uuid_ok (tp_payerAccountId ps)" "uuid_ok (tp_payeeAccountId ps)"
  shows "TransfersService_execute i1 i2 uuid now key ps t = (Inr (row_record row), t)"
proof -
  from recorded_row [OF rec] have row: "row \<in> set (transfers s)" "trow_idempotency_key row = key"
    by blast+
  from rec have ps: "trow_payer_account_id row = tp_payerAccountId ps" "trow_payee_account_id row = tp_payeeAccountId ps"
      "trow_amount row = cents (tp_amount ps)"
    using canon by (auto simp: recorded_def)
  from row have f: "find (\<lambda>r. trow_idempotency_key r = key) (transfers t) = Some row"
    using inv(2) grows_transfer [OF assms(3)] by (simp add: find_key_eq bank_inv_def transfers_ok_def)
  have "row_ok s row" by (rule transfer_in_ok [OF inv(1) row(1)])
  then show ?thesis
    using f ps by (auto simp: TransfersService_execute_def Transfer_create_def Money_isPositive_def row_ok_def
        findByIdempotencyKey_ok [OF inv(2)] replay_row_record)
qed

lemma sample_recorded: "recorded ''k1'' sample_params sample_row (post sample_row sample_bank)"
  by (simp add: recorded_def sample_transfers sample_params_def sample_uuids)
    (simp add: sample_row_def seed_row_def)

theorem retry_answers_original_witness:
  "TransfersService_execute id id sample_id2 9 ''k1'' sample_params (post sample_row sample_bank) =
     (Inr (row_record sample_row), post sample_row sample_bank)"
  by (rule retry_answers_original [OF sample_row_posted(2,2) grows_refl sample_recorded])
    (simp_all add: sample_params_def sample_uuids)

text \<open>
  The identifiers are compared as texts, so a retry is only recognised in canonical form. A
  request that names an account in another form PostgreSQL accepts (upper case, say) is
  executed and recorded the first time, and answered with an idempotency conflict every time it
  is repeated with the very same parameters.
\<close>
theorem noncanonical_retry_conflicts:
  assumes inv: "bank_inv s" and rec: "recorded key ps row s"
    and form: "\<not> uuid_ok (tp_payerAccountId ps) \<or> \<not> uuid_ok (tp_payeeAccountId ps)"
  shows "TransfersService_execute i1 i2 uuid now key ps s = (Inl (Domain IdempotencyConflictError), s)"
proof -
  from recorded_row [OF rec] have row: "row \<in> set (transfers s)" by blast
  from rec have p: "uuid_in (tp_payerAccountId ps) = Some (trow_payer_account_id row)"
    and q: "uuid_in (tp_payeeAccountId ps) = Some (trow_payee_account_id row)"
    and n: "trow_amount row = cents (tp_amount ps)"
    by (simp_all add: recorded_def)
  note f = recorded_find [OF inv rec]
  have "row_ok s row" by (rule transfer_in_ok [OF inv row(1)])
  moreover from this p q have "tp_payerAccountId ps \<noteq> tp_payeeAccountId ps" by (auto simp: row_ok_def)
  moreover have "trow_payer_account_id row \<noteq> tp_payerAccountId ps \<or> trow_payee_account_id row \<noteq> tp_payeeAccountId ps"
    using form p q by (auto simp: uuid_ok_def)
  ultimately show ?thesis
    using f n by (auto simp: TransfersService_execute_def Transfer_create_def Money_isPositive_def row_ok_def
        findByIdempotencyKey_ok [OF inv] replay_row_record)
qed

definition shouting_alice :: string where
  "shouting_alice = ''AAAAAAAA-0000-4000-8000-000000000001''"

lemma shouting_alice_in: "uuid_in shouting_alice = Some alice" "\<not> uuid_ok shouting_alice"
  by code_simp+

theorem noncanonical_retry_conflicts_witness:
  "recorded ''k1'' (sample_params\<lparr>tp_payerAccountId := shouting_alice\<rparr>) sample_row (post sample_row sample_bank) \<and>
   TransfersService_execute id id sample_id2 9 ''k1'' (sample_params\<lparr>tp_payerAccountId := shouting_alice\<rparr>)
     (post sample_row sample_bank) = (Inl (Domain IdempotencyConflictError), post sample_row sample_bank)"
proof -
  have rec: "recorded ''k1'' (sample_params\<lparr>tp_payerAccountId := shouting_alice\<rparr>) sample_row (post sample_row sample_bank)"
    using sample_recorded by (simp add: recorded_def shouting_alice_in sample_params_def sample_uuids)
  with noncanonical_retry_conflicts [OF sample_row_posted(2) rec, of id id sample_id2 9] show ?thesis
    by (simp add: shouting_alice_in)
qed

text \<open>
  Two copies of one request that race for its key become one transfer: if the other copy
  commits in full between this one's lookup and its transaction, this one returns the other's
  transfer and posts nothing.
\<close>
theorem racing_duplicates_one_transfer:
  assumes inv: "bank_inv s" and free: "\<not> key_taken key s"
    and uuids: "uuid_ok uuid" "uuid_ok uuid'" and m: "money_ok (tp_amount ps)"
    and canon: "uuid_ok (tp_payerAccountId ps)" "uuid_ok (tp_payeeAccountId ps)"
    and other: "TransfersService_execute id id uuid' now' key ps s = (Inr r, t)"
  shows "TransfersService_execute (\<lambda>s. snd (TransfersService_execute id id uuid' now' key ps s)) id uuid now key ps s
    = (Inr r, t)"
proof -
  from free have none: "find (\<lambda>r. trow_idempotency_key r = key) (transfers s) = None"
    by (simp add: key_taken_find)
  obtain tr where c: "Transfer_create uuid' (tp_payerAccountId ps) (tp_payeeAccountId ps) (tp_amount ps) = Inr tr"
    using other by (cases "Transfer_create uuid' (tp_payerAccountId ps) (tp_payeeAccountId ps) (tp_amount ps)")
      (auto simp: TransfersService_execute_def)
  define tr' where "tr' = tr\<lparr>tr_id := uuid\<rparr>"
  from c have c': "Transfer_create uuid (tp_payerAccountId ps) (tp_payeeAccountId ps) (tp_amount ps) = Inr tr'"
    by (auto simp: Transfer_create_Inr tr'_def)
  note tr = created_ok [OF c uuids(2) m] and tr' = created_ok [OF c' uuids(1) m]
  from other have "execute_tx now' tr key s = Inr (Some r, t)"
    using execute_tx_Inr [OF tr, of now' key s None] free none
    by (cases "execute_tx now' tr key s")
      (auto simp: TransfersService_execute_def c findByIdempotencyKey_ok [OF inv] with_tx_def split: option.splits)
  then obtain row where row: "r = row_record row" "t = post row s" "row_fits s row" "bank_inv t" "recorded key ps row t"
    using execute_tx_recorded [OF inv uuids(2) m c] by metis
  then have key: "trow_idempotency_key row = key" using recorded_row by blast
  then have f: "find (\<lambda>r. trow_idempotency_key r = key) (transfers t) = Some row"
    using none row(2) by (simp add: find_append)
  have pq: "uuid_in (tr_payerAccountId tr') = Some (trow_payer_account_id row)"
    "uuid_in (tr_payeeAccountId tr') = Some (trow_payee_account_id row)"
    using c' row(5) by (auto simp: Transfer_create_Inr recorded_def)
  have "execute_tx now tr' key t = Inr (None, t)"
    using row(2,3) key
    by (subst execute_tx_locked [OF tr' pq(1) _ pq(2)]) (auto simp: row_fits_def row_ok_def)
  moreover have "replay (row_record row) tr' = Inr (row_record row)"
    using c' row(5) canon by (auto simp: replay_row_record Transfer_create_Inr recorded_def)
  ultimately show ?thesis
    using other none f row(1)
    by (simp add: TransfersService_execute_def [of _ id uuid] c' findByIdempotencyKey_ok [OF inv] with_tx_def
        findByIdempotencyKey_ok [OF row(4)])
qed

lemma sample_run:
  "TransfersService_execute id id sample_id 7 ''k1'' sample_params sample_bank =
     (Inr (row_record sample_row), post sample_row sample_bank)"
proof -
  let ?t = "\<lparr>tr_id = sample_id, tr_payerAccountId = alice, tr_payeeAccountId = bob, tr_amount = Money 300\<rparr>"
  have "execute_tx 7 ?t ''k1'' sample_bank = Inr (Some (row_record sample_row), post sample_row sample_bank)"
    by (subst execute_tx_locked [of _ alice _ bob])
      (simp_all add: transfer_ok_def sample_id_ok money_small sample_uuids sample_names sample_fresh
        key_taken_find sample_find sample_balance safe_small new_row_def sample_row_def)
  then show ?thesis
    by (simp add: TransfersService_execute_def sample_params_def sample_created findByIdempotencyKey_ok [OF sample_inv]
        sample_find with_tx_def)
qed

theorem racing_duplicates_one_transfer_witness:
  "TransfersService_execute (\<lambda>s. snd (TransfersService_execute id id sample_id 7 ''k1'' sample_params s))
     id sample_id2 8 ''k1'' sample_params sample_bank = (Inr (row_record sample_row), post sample_row sample_bank)"
  by (rule racing_duplicates_one_transfer [OF sample_inv _ sample_id2_ok sample_id_ok sample_params_ok _ _ sample_run])
    (simp_all add: key_taken_find sample_find sample_params_def sample_uuids)

text \<open>
  What a transfer does to the balances. A request that succeeds under a new key moves
  exactly its amount from the payer's balance to the payee's, touches no other balance, leaves
  the payer at zero or above, and appends one transfer with two ledger entries, on top of
  whatever was committed before its transaction.
\<close>
theorem transfer_moves_money:
  assumes inv: "bank_inv s" "bank_inv (i1 s)" and free: "\<not> key_taken key s" "\<not> key_taken key (i1 s)"
    and uuid: "uuid_ok uuid" and m: "money_ok (tp_amount ps)"
    and run: "TransfersService_execute i1 i2 uuid now key ps s = (Inr r, t)"
  shows "balances t = move (the (uuid_in (tp_payerAccountId ps))) (the (uuid_in (tp_payeeAccountId ps)))
           (cents (tp_amount ps)) (balances (i1 s))
     \<and> 0 \<le> balances t (the (uuid_in (tp_payerAccountId ps)))
     \<and> length (transfers t) = length (transfers (i1 s)) + 1
     \<and> length (ledger_entries t) = length (ledger_entries (i1 s)) + 2
     \<and> interbank_transfers t = interbank_transfers (i1 s) \<and> outbox t = outbox (i1 s)"
proof -
  from free have none: "find (\<lambda>r. trow_idempotency_key r = key) (transfers s) = None"
    by (simp add: key_taken_find)
  obtain tr where c: "Transfer_create uuid (tp_payerAccountId ps) (tp_payeeAccountId ps) (tp_amount ps) = Inr tr"
    using run by (cases "Transfer_create uuid (tp_payerAccountId ps) (tp_payeeAccountId ps) (tp_amount ps)")
      (auto simp: TransfersService_execute_def)
  have "execute_tx now tr key (i1 s) = Inr (Some r, t)"
    using run execute_tx_Inr [OF created_ok [OF c uuid m], of now key "i1 s" None] free none
    by (cases "execute_tx now tr key (i1 s)")
      (auto simp: TransfersService_execute_def c findByIdempotencyKey_ok [OF inv(1)] with_tx_def split: option.splits)
  then obtain row where row: "t = post row (i1 s)" "row_fits (i1 s) row"
    "cents (tp_amount ps) \<le> ledger_sum (trow_payer_account_id row) (i1 s)" "recorded key ps row t"
    using execute_tx_recorded [OF inv(2) uuid m c] by metis
  then have "trow_payer_account_id row \<noteq> trow_payee_account_id row" by (simp add: row_fits_def row_ok_def)
  from balances_post [OF this, of "i1 s"] row this show ?thesis
    by (auto simp: recorded_def row_entries_def) (simp add: move_def balances_def)
qed

theorem transfer_moves_money_witness:
  "balances (post sample_row sample_bank) = move alice bob 300 (balances sample_bank) \<and>
   0 \<le> balances (post sample_row sample_bank) alice"
proof -
  have "\<not> key_taken ''k1'' sample_bank" by (simp add: key_taken_find sample_find)
  from transfer_moves_money [OF sample_inv _ this _ sample_id_ok sample_params_ok sample_run] sample_inv this
  show ?thesis by (auto simp: sample_params_def sample_uuids)
qed

end
