(* ===== verification/BankAccounts.thy ===== *)
theory BankAccounts
  imports BankTransfers
begin

text \<open>
  Opening accounts, reading balances and statements, and the demo seeding of Bank A
  (src/accounts/accounts.service.ts). Balances are never stored: they are sums over the ledger.
\<close>

subsection \<open>AccountsService\<close>

definition createAccount :: "string \<Rightarrow> int \<Rightarrow> string \<Rightarrow> bank_db \<Rightarrow> (bank_error + account) \<times> bank_db" where
  "createAccount uuid now ownerName s = with_tx (AccountRepository_create uuid now ownerName) s"

definition getAccount :: "string \<Rightarrow> bank_db \<Rightarrow> bank_error + account" where
  "getAccount i s = (case AccountRepository_findById i s of
     Inl e \<Rightarrow> Inl e
   | Inr None \<Rightarrow> Inl (Domain (AccountNotFoundError i))
   | Inr (Some account) \<Rightarrow> Inr account)"

text \<open>Two reads; \<open>s'\<close> is the database at the second one.\<close>

definition getBalance :: "string \<Rightarrow> bank_db \<Rightarrow> bank_db \<Rightarrow> bank_error + money" where
  "getBalance accountId s s' = (case getAccount accountId s of Inl e \<Rightarrow> Inl e | Inr _ \<Rightarrow> balanceOf accountId s')"

definition STATEMENT_LIMIT :: nat where
  "STATEMENT_LIMIT = 50"

definition getStatement :: "string \<Rightarrow> bank_db \<Rightarrow> bank_db \<Rightarrow> bank_error + statement_line list" where
  "getStatement accountId s s' = (case getAccount accountId s of
     Inl e \<Rightarrow> Inl e | Inr _ \<Rightarrow> statementOf accountId STATEMENT_LIMIT s')"

text \<open>The plain INSERT of the seeding: a taken key is an error, unlike in \<open>TransferRepository\<close>.\<close>

definition seed_insert :: "int \<Rightarrow> string \<Rightarrow> string \<Rightarrow> string \<Rightarrow> money \<Rightarrow> unit bank_tx" where
  "seed_insert now transferId key accountId amount =
     tx_bind (tx_check (bind_uuid transferId)) (\<lambda>i.
     tx_bind (tx_check (bind_uuid DEV_TREASURY_ACCOUNT_ID)) (\<lambda>p.
     tx_bind (tx_check (bind_uuid accountId)) (\<lambda>q.
     tx_bind (tx_check (bind_bigint (js_of_int (cents amount)))) (\<lambda>n.
     tx_bind (db_guard (1 \<le> length key \<and> length key \<le> 255 \<and> 0 < n \<and> p \<noteq> q) (CheckViolation ''transfers''))
       (\<lambda>_ s.
         if transfer_exists i s then Inl (Db (UniqueViolation ''transfers_pkey''))
         else if key_taken key s then Inl (Db (UniqueViolation ''transfers_idempotency_key_key''))
         else if \<not> account_exists p s \<or> \<not> account_exists q s then Inl (Db (ForeignKeyViolation ''transfers''))
         else Inr ((), add_transfer \<lparr>trow_id = i, trow_idempotency_key = key, trow_payer_account_id = p,
                trow_payee_account_id = q, trow_amount = n, trow_created_at = now\<rparr> s))))))"

definition devSeed_tx :: "string \<Rightarrow> int \<Rightarrow> string \<Rightarrow> money \<Rightarrow> unit bank_tx" where
  "devSeed_tx transferId now accountId amount =
     tx_bind (seed_insert now transferId (''dev-seed-'' @ transferId) accountId amount) (\<lambda>_.
       ledger_append now
         [\<lparr>entry_transferId = transferId, entry_accountId = DEV_TREASURY_ACCOUNT_ID,
           entry_amount = Money (- cents amount)\<rparr>,
          \<lparr>entry_transferId = transferId, entry_accountId = accountId, entry_amount = amount\<rparr>])"

definition devSeed ::
  "(bank_db \<Rightarrow> bank_db) \<Rightarrow> (bank_db \<Rightarrow> bank_db) \<Rightarrow> string \<Rightarrow> int \<Rightarrow> string \<Rightarrow> money \<Rightarrow>
   bank_db \<Rightarrow> (bank_error + money) \<times> bank_db" where
  "devSeed i1 i2 uuid now accountId amount s =
     (case getAccount accountId s of
        Inl e \<Rightarrow> (Inl e, s)
      | Inr _ \<Rightarrow> (case with_tx (devSeed_tx uuid now accountId amount) (i1 s) of
          (Inl e, s1) \<Rightarrow> (Inl e, s1)
        | (Inr _, s1) \<Rightarrow> (getBalance accountId (i2 s1) (i2 s1), i2 s1)))"

subsection \<open>Facts about the operations\<close>

lemma account_exists_find: "account_exists k s \<longleftrightarrow> find (\<lambda>r. acc_id r = k) (accounts s) \<noteq> None"
  by (auto simp: find_None account_exists_def list_ex_iff)

lemma getAccount_ok: "uuid_in i = Some k \<Longrightarrow> account_exists k s \<Longrightarrow> \<exists>a. getAccount i s = Inr a"
  by (auto simp: getAccount_def AccountRepository_findById_def bind_uuid_def account_exists_find)

lemma getAccount_missing:
  "uuid_in i = Some k \<Longrightarrow> \<not> account_exists k s \<Longrightarrow> getAccount i s = Inl (Domain (AccountNotFoundError i))"
  by (simp add: getAccount_def AccountRepository_findById_def bind_uuid_def account_exists_find)

definition seed_row_for :: "string \<Rightarrow> int \<Rightarrow> string \<Rightarrow> int \<Rightarrow> transfer_row" where
  "seed_row_for transferId now k n = \<lparr>trow_id = transferId, trow_idempotency_key = ''dev-seed-'' @ transferId,
     trow_payer_account_id = DEV_TREASURY_ACCOUNT_ID, trow_payee_account_id = k, trow_amount = n,
     trow_created_at = now\<rparr>"

lemma seed_row_for_sel [simp]:
  "trow_id (seed_row_for i now k n) = i" "trow_idempotency_key (seed_row_for i now k n) = ''dev-seed-'' @ i"
  "trow_payer_account_id (seed_row_for i now k n) = DEV_TREASURY_ACCOUNT_ID"
  "trow_payee_account_id (seed_row_for i now k n) = k" "trow_amount (seed_row_for i now k n) = n"
  "trow_created_at (seed_row_for i now k n) = now"
  by (simp_all add: seed_row_for_def)

lemma uuid_length: "uuid_ok u \<Longrightarrow> length u = 36"
  using uuid_in_out [of u u] by (auto simp: uuid_ok_def uuid_out_def)

lemma seed_insert_ok:
  assumes "uuid_in i = Some i" and m: "money_ok m" and k: "uuid_in a = Some k" "account_exists k s"
    and tr: "account_exists DEV_TREASURY_ACCOUNT_ID s" and len: "length key = 45"
  shows "seed_insert now i key a m s =
    (if cents m \<le> 0 \<or> k = DEV_TREASURY_ACCOUNT_ID then Inl (Db (CheckViolation ''transfers''))
     else if transfer_exists i s then Inl (Db (UniqueViolation ''transfers_pkey''))
     else if key_taken key s then Inl (Db (UniqueViolation ''transfers_idempotency_key_key''))
     else Inr ((), add_transfer \<lparr>trow_id = i, trow_idempotency_key = key,
            trow_payer_account_id = DEV_TREASURY_ACCOUNT_ID, trow_payee_account_id = k, trow_amount = cents m,
            trow_created_at = now\<rparr> s))"
proof -
  have "bind_bigint (js_of_int (cents m)) = (Inr (cents m) :: bank_error + int)"
    using m by (simp add: bind_bigint_safe money_ok_def)
  then show ?thesis
    using assms by (auto simp: seed_insert_def bind_uuid_def tx_bind_def db_guard_def)
qed

lemma devSeed_tx_ok:
  assumes "bank_inv s" and "uuid_ok i" and "money_ok m" and k: "uuid_in a = Some k" "account_exists k s"
  shows "devSeed_tx i now a m s =
    (if cents m \<le> 0 \<or> k = DEV_TREASURY_ACCOUNT_ID then Inl (Db (CheckViolation ''transfers''))
     else if transfer_exists i s then Inl (Db (UniqueViolation ''transfers_pkey''))
     else if key_taken (''dev-seed-'' @ i) s then Inl (Db (UniqueViolation ''transfers_idempotency_key_key''))
     else Inr ((), post (seed_row_for i now k (cents m)) s))"
proof -
  have i: "uuid_in i = Some i" "length (''dev-seed-'' @ i) = 45" using assms(2) uuid_length by auto
  have tr: "account_exists DEV_TREASURY_ACCOUNT_ID s" using bank_inv_system assms(1) by blast
  note ins = seed_insert_ok [OF i(1) assms(3) k tr i(2), of now, folded seed_row_for_def]
  show ?thesis
    using ledger_append_pair [of i "seed_row_for i now k (cents m)" DEV_TREASURY_ACCOUNT_ID a
        "add_transfer (seed_row_for i now k (cents m)) s"] ins assms(3) tr k i(1)
    by (simp add: devSeed_tx_def tx_bind_def post_def money_ok_def)
qed

lemma seed_row_fits:
  "bank_inv s \<Longrightarrow> uuid_ok i \<Longrightarrow> safe_int n \<Longrightarrow> 0 < n \<Longrightarrow> account_exists k s \<Longrightarrow> k \<noteq> DEV_TREASURY_ACCOUNT_ID \<Longrightarrow>
   \<not> transfer_exists i s \<Longrightarrow> \<not> key_taken (''dev-seed-'' @ i) s \<Longrightarrow> row_fits s (seed_row_for i now k n)"
  using bank_inv_uuid [of s k] bank_inv_system [of s] uuid_length [of i]
  by (auto simp: row_fits_def row_ok_def treasury_ok)

lemma devSeed_tx_Inr:
  assumes "bank_inv s" and "uuid_ok i" and "money_ok m" and run: "devSeed_tx i now a m s = Inr (u, t)"
  obtains k where "uuid_in a = Some k" "t = post (seed_row_for i now k (cents m)) s"
    "row_fits s (seed_row_for i now k (cents m))" "bank_inv t"
proof -
  from run obtain k where k: "uuid_in a = Some k" "account_exists k s"
    by (auto simp: devSeed_tx_def seed_insert_def tx_simps split: if_splits)
  note run' = run [unfolded devSeed_tx_ok [OF assms(1,2,3) k]]
  then have fits: "row_fits s (seed_row_for i now k (cents m))" and t: "t = post (seed_row_for i now k (cents m)) s"
    using assms(1,2,3) k(2) by (auto intro!: seed_row_fits simp: money_ok_def split: if_splits)
  have "bank_inv t" unfolding t by (rule bank_inv_post [OF assms(1) fits]) (simp add: system_account_def)
  with k(1) t fits show thesis by (rule that)
qed

lemma AccountRepository_create_Inr:
  "AccountRepository_create uuid now name s = Inr (a, t) \<longleftrightarrow>
   1 \<le> length name \<and> length name \<le> 120 \<and> \<not> account_exists uuid s \<and>
   a = \<lparr>account_id = uuid, account_ownerName = name, account_createdAt = now\<rparr> \<and>
   t = s\<lparr>accounts := accounts s @ [\<lparr>acc_id = uuid, acc_owner_name = name, acc_created_at = now\<rparr>]\<rparr>"
  by (auto simp: AccountRepository_create_def tx_simps toAccount_def Let_def split: if_splits)

lemma bank_inv_create:
  assumes "bank_inv s" and "uuid_ok k" and "\<not> account_exists k s"
  shows "bank_inv (s\<lparr>accounts := accounts s @ [\<lparr>acc_id = k, acc_owner_name = name, acc_created_at = now\<rparr>]\<rparr>)"
proof -
  let ?t = "s\<lparr>accounts := accounts s @ [\<lparr>acc_id = k, acc_owner_name = name, acc_created_at = now\<rparr>]\<rparr>"
  have ex: "account_exists a ?t \<longleftrightarrow> account_exists a s \<or> a = k" for a
    by (auto simp: account_exists_def)
  have "\<forall>r \<in> set (transfers s). row_ok ?t r"
    using assms(1) ex by (auto intro: row_ok_mono dest: transfer_in_ok)
  moreover have "accounts_ok ?t"
    using assms ex by (auto simp: bank_inv_def accounts_ok_def) (auto simp: account_exists_def list_ex_iff)
  ultimately show ?thesis
    using assms(1) by (auto simp: bank_inv_def transfers_ok_def interbank_ok_def solvent_def ledger_sum_def)
qed

lemma no_entries_without_account:
  assumes "bank_inv s" and "\<not> account_exists k s"
  shows "ledger_sum k s = 0"
proof -
  have "filter (\<lambda>r. led_account_id r = k) (ledger_entries s) = []"
    using assms transfer_in_ok [OF assms(1)]
    by (auto simp: bank_inv_def transfers_ok_def filter_empty_conv row_entries_def row_ok_def)
  then show ?thesis by (simp add: ledger_sum_def)
qed

subsection \<open>Properties\<close>

text \<open>
  Demo seeding is a double entry like any other, on every branch: it posts one transfer
  from the treasury, so the sum of all balances is unchanged and only the treasury can go below
  zero. Its answer is the new balance; when that is no safe integer the request reports an
  error although the seed is committed.
\<close>
theorem devSeed_outcome:
  assumes inv: "bank_inv s" and "uuid_ok i" and m: "money_ok m" and pos: "0 < cents m"
    and fresh: "\<not> transfer_exists i s" "\<not> key_taken (''dev-seed-'' @ i) s" and k: "uuid_in a = Some k"
  shows "devSeed id id i now a m s =
    (if \<not> account_exists k s then (Inl (Domain (AccountNotFoundError a)), s)
     else if k = DEV_TREASURY_ACCOUNT_ID then (Inl (Db (CheckViolation ''transfers'')), s)
     else (let n = ledger_sum k s + cents m in
       (if safe_int n then Inr (Money n) else Inl (Domain (InvalidAmountError (js_of_int n))),
        post (seed_row_for i now k (cents m)) s)))"
proof (cases "account_exists k s")
  case False
  with k show ?thesis by (simp add: devSeed_def getAccount_missing)
next
  case True
  then obtain acc where acc: "getAccount a s = Inr acc" using getAccount_ok [OF k] by blast
  show ?thesis
  proof (cases "k = DEV_TREASURY_ACCOUNT_ID")
    case True
    with acc \<open>account_exists k s\<close> show ?thesis
      by (simp add: devSeed_def with_tx_def devSeed_tx_ok [OF inv assms(2) m k \<open>account_exists k s\<close>])
  next
    case False
    let ?t = "post (seed_row_for i now k (cents m)) s"
    have "account_exists k ?t" using True by simp
    then obtain acc' where acc': "getAccount a ?t = Inr acc'" using getAccount_ok [OF k] by blast
    from False have "ledger_sum k ?t = ledger_sum k s + cents m" by (simp add: ledger_sum_post)
    then show ?thesis
      using acc acc' True False pos fresh
      by (simp add: devSeed_def with_tx_def devSeed_tx_ok [OF inv assms(2) m k True] getBalance_def
          balanceOf_ok [OF k] Let_def)
  qed
qed

theorem devSeed_outcome_witness:
  "devSeed id id sample_id 5 bob (Money 700) sample_bank =
     (Inr (Money 700), post (seed_row_for sample_id 5 bob 700) sample_bank)"
proof -
  have "bob \<noteq> DEV_TREASURY_ACCOUNT_ID" using sample_distinct by auto
  moreover have "''cccccccc-0000-4000-8000-000000000003'' \<noteq> sample_id" by (simp add: sample_id_def)
  ultimately show ?thesis
    using devSeed_outcome [OF sample_inv sample_id_ok, of "Money 700" bob bob 5]
    by (simp add: money_small sample_fresh key_taken_def sample_transfers seed_row_def sample_uuids
        sample_balance safe_small Let_def)
qed

definition statement_lines :: "string \<Rightarrow> bank_db \<Rightarrow> statement_line list" where
  "statement_lines k s = map (\<lambda>r. \<lparr>sl_transferId = led_transfer_id r, sl_amount = Money (led_amount r),
     sl_createdAt = led_created_at r\<rparr>) (rev (filter (\<lambda>r. led_account_id r = k) (ledger_entries s)))"

lemma ledger_amounts_safe:
  "bank_inv s \<Longrightarrow> r \<in> set (ledger_entries s) \<Longrightarrow> safe_int (led_amount r)"
  using transfer_in_ok [of s] by (fastforce simp: bank_inv_def transfers_ok_def row_entries_def row_ok_def)

lemma statementOf_ok:
  assumes "bank_inv s" and "uuid_in a = Some k"
  shows "statementOf a n s = Inr (take n (statement_lines k s))"
proof -
  let ?rows = "take n (rev (filter (\<lambda>r. led_account_id r = k) (ledger_entries s)))"
  have "safe_int (led_amount r)" if "r \<in> set ?rows" for r
    using that ledger_amounts_safe [OF assms(1)] by (auto dest: in_set_takeD)
  then have "map_throw (\<lambda>row. case Money_fromCents (js_of_int (led_amount row)) of
          Inl e \<Rightarrow> Inl e
        | Inr m \<Rightarrow> Inr \<lparr>sl_transferId = led_transfer_id row, sl_amount = m, sl_createdAt = led_created_at row\<rparr>) ?rows =
     Inr (map (\<lambda>r. \<lparr>sl_transferId = led_transfer_id r, sl_amount = Money (led_amount r),
       sl_createdAt = led_created_at r\<rparr>) ?rows)"
    by (intro map_throw_all) (simp add: Money_fromCents_of_int)
  then show ?thesis using assms(2) by (simp add: statementOf_def bind_uuid_def statement_lines_def take_map)
qed

text \<open>
  A statement never fails on an existing account and accounts for the balance: it lists
  the latest entries first, at most fifty, and while the account has no more than that, the
  listed amounts add up to exactly the balance the service reports.
\<close>
theorem statement_explains_balance:
  assumes inv: "bank_inv s" and k: "uuid_in a = Some k" and ex: "account_exists k s"
  shows "\<exists>lines. getStatement a s s = Inr lines \<and> lines = take 50 (statement_lines k s) \<and>
    (length (statement_lines k s) \<le> 50 \<longrightarrow>
       getBalance a s s = lift_domain (Money_fromCents (js_of_int (sum_list (map (\<lambda>l. cents (sl_amount l)) lines)))))"
proof -
  obtain acc where acc: "getAccount a s = Inr acc" using getAccount_ok [OF k ex] by blast
  have "sum_list (map (\<lambda>l. cents (sl_amount l)) (statement_lines k s)) = ledger_sum k s"
    by (simp add: statement_lines_def ledger_sum_def comp_def rev_map [symmetric])
  then show ?thesis
    using acc by (simp add: getStatement_def STATEMENT_LIMIT_def statementOf_ok [OF inv k] getBalance_def
        balanceOf_def bind_uuid_def k)
qed

theorem statement_explains_balance_witness:
  "getStatement alice sample_bank sample_bank =
     Inr [\<lparr>sl_transferId = trow_id seed_row, sl_amount = Money 1000, sl_createdAt = 1\<rparr>] \<and>
   getBalance alice sample_bank sample_bank = Inr (Money 1000)"
proof -
  have "statement_lines alice sample_bank = [\<lparr>sl_transferId = trow_id seed_row, sl_amount = Money 1000, sl_createdAt = 1\<rparr>]"
    using sample_distinct
    by (simp add: statement_lines_def sample_bank_def row_entries_def seed_row_def opened_bank_def migrated_bank_def)
  with statement_explains_balance [OF sample_inv, of alice alice]
  show ?thesis by (simp add: sample_uuids Money_fromCents_of_int safe_small)
qed

text \<open>
  Opening an account adds one row with a zero balance, keeps the bank well formed and
  leaves every balance as it was; an empty or over-long owner name changes nothing.
\<close>
theorem createAccount_outcome:
  assumes inv: "bank_inv s" and uuid: "uuid_ok k" "\<not> account_exists k s"
    and run: "createAccount k now name s = (res, t)"
  shows "bank_inv t \<and> balances t = balances s \<and> balances t k = 0 \<and>
    (if 1 \<le> length name \<and> length name \<le> 120
     then res = Inr \<lparr>account_id = k, account_ownerName = name, account_createdAt = now\<rparr> \<and> account_exists k t
     else res = Inl (Db (CheckViolation ''accounts'')) \<and> t = s)"
proof (cases "1 \<le> length name \<and> length name \<le> 120")
  case True
  then have "AccountRepository_create k now name s =
      Inr (\<lparr>account_id = k, account_ownerName = name, account_createdAt = now\<rparr>,
        s\<lparr>accounts := accounts s @ [\<lparr>acc_id = k, acc_owner_name = name, acc_created_at = now\<rparr>]\<rparr>)"
    using uuid by (simp add: AccountRepository_create_Inr)
  then show ?thesis
    using True run bank_inv_create [OF inv uuid] no_entries_without_account [OF inv uuid(2)]
    by (auto simp: createAccount_def with_tx_def balances_def ledger_sum_def account_exists_def)
next
  case False
  then have "AccountRepository_create k now name s = Inl (Db (CheckViolation ''accounts''))"
    by (auto simp: AccountRepository_create_def tx_bind_def db_guard_def)
  with False run inv no_entries_without_account [OF inv uuid(2)] show ?thesis
    by (auto simp: createAccount_def with_tx_def balances_def)
qed

theorem createAccount_outcome_witness:
  "account_exists sample_id (snd (createAccount sample_id 3 ''Carol'' sample_bank))"
proof -
  have "\<not> account_exists sample_id sample_bank"
    by (simp add: sample_bank_def opened_bank_def migrated_bank_def account_exists_def) code_simp
  from createAccount_outcome [OF sample_inv sample_id_ok this, of 3 "''Carol''"]
  show ?thesis by (cases "createAccount sample_id 3 ''Carol'' sample_bank") simp
qed

end
