(* ===== verification/BankInterbank.thy ===== *)
theory BankInterbank
  imports BankAccounts
begin

text \<open>
  Transfers to an account at another bank
  (src/interbank-transfers/interbank-transfers.service.ts): one transaction debits the payer into
  the suspense account, opens the saga row and leaves the settlement request in the outbox.
  As for local transfers, function arguments stand for what other requests commit between the
  reads outside the transaction.
\<close>

subsection \<open>InterbankTransfersService\<close>

record interbank_params =
  ip_payerAccountId :: string
  ip_payeeBankId :: string
  ip_payeeAccountRef :: string
  ip_amount :: money

record interbank_result =
  ir_transfer :: transfer_record
  ir_interbank :: interbank_record

definition settlement_request :: "string \<Rightarrow> string \<Rightarrow> interbank_params \<Rightarrow> json" where
  "settlement_request transferId bankId params = JObj
     [(''settlementId'', JStr transferId),
      (''payerBankId'', JStr bankId),
      (''payeeBankId'', JStr (ip_payeeBankId params)),
      (''payeeAccountRef'', JStr (ip_payeeAccountRef params)),
      (''amountCents'', JNum (of_int (cents (ip_amount params))))]"

text \<open>\<open>bankId\<close> is the outcome of \<open>config.getOrThrow('BANK_ID')\<close>.\<close>

definition interbank_tx ::
  "bank_error + string \<Rightarrow> int \<Rightarrow> transfer \<Rightarrow> string \<Rightarrow> interbank_params \<Rightarrow> interbank_result option bank_tx" where
  "interbank_tx bankId now transfer idempotencyKey params =
     tx_bind (tx_read (AccountRepository_lockById (tr_payerAccountId transfer))) (\<lambda>found.
       if \<not> found then tx_throw (Domain (AccountNotFoundError (tr_payerAccountId transfer)))
       else
     tx_bind (TransferRepository_insert now transfer idempotencyKey) (\<lambda>record.
       case record of
         None \<Rightarrow> tx_return None
       | Some r \<Rightarrow>
           tx_bind (tx_read (balanceOf (tr_payerAccountId transfer))) (\<lambda>balance.
           tx_bind (tx_check (lift_domain (assertPayerCanAfford transfer balance))) (\<lambda>_.
           tx_bind (tx_check (lift_domain (Transfer_entries transfer))) (\<lambda>entries.
           tx_bind (ledger_append now entries) (\<lambda>_.
           tx_bind (InterbankRepository_insert now (tr_id transfer) (ip_payeeBankId params)
                      (ip_payeeAccountRef params)) (\<lambda>interbank.
           tx_bind (tx_check bankId) (\<lambda>b.
           tx_bind (OutboxRepository_insert now (tr_id transfer) ''settlement.requested''
                      SETTLEMENT_REQUESTED_ROUTING_KEY (settlement_request (tr_id transfer) b params)) (\<lambda>_.
             tx_return (Some \<lparr>ir_transfer = r, ir_interbank = interbank\<rparr>))))))))))"

definition interbank_replay ::
  "transfer_record \<Rightarrow> transfer \<Rightarrow> string \<Rightarrow> string \<Rightarrow> bank_db \<Rightarrow> bank_error + interbank_result" where
  "interbank_replay existing attempted payeeBankId payeeAccountRef s =
     (if \<not> (rec_payerAccountId existing = tr_payerAccountId attempted
             \<and> rec_payeeAccountId existing = tr_payeeAccountId attempted
             \<and> Money_equals (rec_amount existing) (tr_amount attempted))
      then Inl (Domain IdempotencyConflictError)
      else case InterbankRepository_findById (rec_id existing) s of
        Inl e \<Rightarrow> Inl e
      | Inr None \<Rightarrow> Inl (Domain IdempotencyConflictError)
      | Inr (Some interbank) \<Rightarrow>
          if ibr_payeeBankId interbank \<noteq> payeeBankId \<or> ibr_payeeAccountRef interbank \<noteq> payeeAccountRef
          then Inl (Domain IdempotencyConflictError)
          else Inr \<lparr>ir_transfer = existing, ir_interbank = interbank\<rparr>)"

definition interbank_vanished :: "string \<Rightarrow> bank_error" where
  "interbank_vanished key = Failure (''Interbank transfer with idempotency key '' @ key @ '' vanished.'')"

text \<open>
  \<open>i1\<close> runs after the first lookup, \<open>i2\<close> after the ROLLBACK of a lost race and \<open>i3\<close> before the
  saga row of the winner is read.
\<close>

definition InterbankService_execute ::
  "bank_error + string \<Rightarrow> (bank_db \<Rightarrow> bank_db) \<Rightarrow> (bank_db \<Rightarrow> bank_db) \<Rightarrow> (bank_db \<Rightarrow> bank_db) \<Rightarrow> string \<Rightarrow> int \<Rightarrow>
   string \<Rightarrow> interbank_params \<Rightarrow> bank_db \<Rightarrow> (bank_error + interbank_result) \<times> bank_db" where
  "InterbankService_execute bankId i1 i2 i3 uuid now idempotencyKey params s =
     (case Transfer_create uuid (ip_payerAccountId params) SUSPENSE_ACCOUNT_ID (ip_amount params) of
        Inl e \<Rightarrow> (Inl (Domain e), s)
      | Inr transfer \<Rightarrow>
        (case findByIdempotencyKey idempotencyKey s of
           Inl e \<Rightarrow> (Inl e, s)
         | Inr (Some existing) \<Rightarrow>
             (interbank_replay existing transfer (ip_payeeBankId params) (ip_payeeAccountRef params) (i1 s), i1 s)
         | Inr None \<Rightarrow>
           (case with_tx (interbank_tx bankId now transfer idempotencyKey params) (i1 s) of
              (Inl e, s1) \<Rightarrow> (Inl e, s1)
            | (Inr (Some result), s1) \<Rightarrow> (Inr result, s1)
            | (Inr None, s1) \<Rightarrow>
              (case findByIdempotencyKey idempotencyKey (i2 s1) of
                 Inl e \<Rightarrow> (Inl e, i2 s1)
               | Inr None \<Rightarrow> (Inl (interbank_vanished idempotencyKey), i2 s1)
               | Inr (Some winner) \<Rightarrow>
                   (interbank_replay winner transfer (ip_payeeBankId params) (ip_payeeAccountRef params)
                      (i3 (i2 s1)), i3 (i2 s1))))))"

text \<open>Two reads; \<open>s'\<close> is the database at the second one.\<close>

definition InterbankService_getTransfer :: "string \<Rightarrow> bank_db \<Rightarrow> bank_db \<Rightarrow> bank_error + interbank_result" where
  "InterbankService_getTransfer transferId s s' =
     (case TransferRepository_findById transferId s of
        Inl e \<Rightarrow> Inl e
      | Inr None \<Rightarrow> Inl (Domain (TransferNotFoundError transferId))
      | Inr (Some transfer) \<Rightarrow>
        (case InterbankRepository_findById transferId s' of
           Inl e \<Rightarrow> Inl e
         | Inr None \<Rightarrow> Inl (Domain (TransferNotFoundError transferId))
         | Inr (Some interbank) \<Rightarrow> Inr \<lparr>ir_transfer = transfer, ir_interbank = interbank\<rparr>))"

subsection \<open>The saga a committed transaction opens\<close>

definition saga_row :: "transfer_row \<Rightarrow> string \<Rightarrow> string \<Rightarrow> interbank_row" where
  "saga_row r bank ref = \<lparr>ib_transfer_id = trow_id r, ib_payee_bank_id = bank, ib_payee_account_ref = ref,
     ib_status = DEBITED, ib_created_at = trow_created_at r, ib_updated_at = trow_created_at r\<rparr>"

text \<open>All four writes of the transaction: transfer, double entry, saga row and outbox event.\<close>

definition open_saga :: "string \<Rightarrow> transfer_row \<Rightarrow> interbank_params \<Rightarrow> bank_db \<Rightarrow> bank_db" where
  "open_saga bankId r params s = (post r s)
     \<lparr>interbank_transfers := interbank_transfers s @ [saga_row r (ip_payeeBankId params) (ip_payeeAccountRef params)],
      outbox := outbox_add (trow_created_at r) (trow_id r) ''settlement.requested''
        SETTLEMENT_REQUESTED_ROUTING_KEY (settlement_request (trow_id r) bankId params) (outbox s)\<rparr>"

lemma open_saga_frame [simp]:
  "accounts (open_saga b r ps s) = accounts s" "transfers (open_saga b r ps s) = transfers s @ [r]"
  "ledger_entries (open_saga b r ps s) = ledger_entries s @ row_entries r"
  "interbank_transfers (open_saga b r ps s) =
     interbank_transfers s @ [saga_row r (ip_payeeBankId ps) (ip_payeeAccountRef ps)]"
  by (simp_all add: open_saga_def)

lemma balances_open_saga: "balances (open_saga b r ps s) = balances (post r s)"
  by (simp add: balances_def ledger_sum_def fun_eq_iff)

lemma no_saga_without_transfer:
  "bank_inv s \<Longrightarrow> \<not> transfer_exists k s \<Longrightarrow> find (\<lambda>i. ib_transfer_id i = k) (interbank_transfers s) = None"
  by (fastforce simp: bank_inv_def interbank_ok_def transfer_exists_def list_ex_iff find_None)

lemma no_status_without_transfer: "bank_inv s \<Longrightarrow> \<not> transfer_exists k s \<Longrightarrow> interbank_status_of k s = None"
  by (simp add: interbank_status_of_def no_saga_without_transfer)

lemma status_open_saga:
  assumes "bank_inv s" and "\<not> transfer_exists (trow_id r) s"
  shows "interbank_status_of k (open_saga b r ps s) = (if k = trow_id r then Some DEBITED else interbank_status_of k s)"
  using no_saga_without_transfer [OF assms]
  by (auto simp: interbank_status_of_def find_append saga_row_def split: option.splits)

lemma bank_inv_open_saga:
  assumes inv: "bank_inv s" and fits: "row_fits s r" and sus: "trow_payee_account_id r = SUSPENSE_ACCOUNT_ID"
    and pay: "system_account (trow_payer_account_id r) \<or> trow_amount r \<le> ledger_sum (trow_payer_account_id r) s"
  shows "bank_inv (open_saga b r ps s)"
proof -
  let ?t = "open_saga b r ps s"
  have inv': "bank_inv (post r s)" by (rule bank_inv_post [OF inv fits pay])
  have ex: "account_exists k ?t = account_exists k (post r s)" for k by (simp add: account_exists_def)
  have "find (\<lambda>i. ib_transfer_id i = trow_id r) (interbank_transfers s) = None"
    using no_saga_without_transfer [OF inv] fits by (simp add: row_fits_def)
  then have "interbank_ok ?t"
    using inv sus by (auto simp: bank_inv_def interbank_ok_def saga_row_def find_None)
  moreover have "transfers_ok ?t"
    using inv' ex by (auto simp: bank_inv_def transfers_ok_def intro: row_ok_mono)
  moreover have "outbox_ok (outbox ?t)"
    using inv by (simp add: open_saga_def bank_inv_def outbox_ok_add)
  ultimately show ?thesis
    using inv' ex by (auto simp: bank_inv_def accounts_ok_def solvent_def ledger_sum_def)
qed

lemma grows_open_saga: "bank_inv s \<Longrightarrow> row_fits s r \<Longrightarrow> grows s (open_saga b r ps s)"
  unfolding grows_def
  by (auto simp: status_open_saga row_fits_def no_status_without_transfer)

subsection \<open>The transaction\<close>

definition new_saga_row :: "int \<Rightarrow> transfer \<Rightarrow> string \<Rightarrow> string \<Rightarrow> transfer_row" where
  "new_saga_row now t key p = new_row now t key p SUSPENSE_ACCOUNT_ID"

definition saga_result :: "transfer_row \<Rightarrow> interbank_params \<Rightarrow> interbank_result" where
  "saga_result r ps = \<lparr>ir_transfer = row_record r,
     ir_interbank = toInterbankRecord (saga_row r (ip_payeeBankId ps) (ip_payeeAccountRef ps))\<rparr>"

lemma InterbankRepository_insert_ok:
  assumes "bank_inv s" and "\<not> transfer_exists (trow_id r) s" and "uuid_ok (trow_id r)"
  shows "InterbankRepository_insert (trow_created_at r) (trow_id r) bank ref (post r s) =
    (if 1 \<le> length ref \<and> length ref \<le> 255
     then Inr (toInterbankRecord (saga_row r bank ref),
            (post r s)\<lparr>interbank_transfers := interbank_transfers s @ [saga_row r bank ref]\<rparr>)
     else Inl (Db (CheckViolation ''interbank_transfers'')))"
proof -
  have "\<not> list_ex (\<lambda>i. ib_transfer_id i = trow_id r) (interbank_transfers s)"
    using no_saga_without_transfer [OF assms(1,2)] by (auto simp: find_None list_ex_iff)
  then show ?thesis
    using assms(3) by (simp add: InterbankRepository_insert_def bind_uuid_def tx_bind_def db_guard_def
        saga_row_def Let_def)
qed

lemma interbank_tx_locked:
  assumes inv: "bank_inv s" and t: "transfer_ok t" "tr_payeeAccountId t = SUSPENSE_ACCOUNT_ID"
    and p: "uuid_in (tr_payerAccountId t) = Some p" "account_exists p s"
  shows "interbank_tx bankId now t key ps s =
    (let r = new_saga_row now t key p in
     if \<not> (1 \<le> length key \<and> length key \<le> 255 \<and> p \<noteq> SUSPENSE_ACCOUNT_ID) then Inl (Db (CheckViolation ''transfers''))
     else if key_taken key s then Inr (None, s)
     else if transfer_exists (tr_id t) s then Inl (Db (UniqueViolation ''transfers_pkey''))
     else if \<not> safe_int (ledger_sum p s) then Inl (Domain (InvalidAmountError (js_of_int (ledger_sum p s))))
     else if ledger_sum p s < cents (tr_amount t)
       then Inl (Domain (InsufficientFundsError (tr_payerAccountId t)))
     else if \<not> (1 \<le> length (ip_payeeAccountRef ps) \<and> length (ip_payeeAccountRef ps) \<le> 255)
       then Inl (Db (CheckViolation ''interbank_transfers''))
     else case bankId of Inl e \<Rightarrow> Inl e | Inr b \<Rightarrow> Inr (Some (saga_result r ps), open_saga b r ps s))"
proof -
  let ?r = "new_saga_row now t key p"
  have q: "uuid_in (tr_payeeAccountId t) = Some SUSPENSE_ACCOUNT_ID" "account_exists SUSPENSE_ACCOUNT_ID s"
    using t(2) bank_inv_system [OF inv] by simp_all
  obtain es where es: "Transfer_entries t = Inr es"
    using t by (simp add: Transfer_entries_ok transfer_ok_def)
  note app = ledger_append_ok [OF t(1) p(1) q(1) p(2) q(2) es, of now key, folded new_saga_row_def]
  have sel: "trow_id ?r = tr_id t" "trow_created_at ?r = now" by (simp_all add: new_saga_row_def)
  have id: "uuid_ok (tr_id t)" using t by (simp add: transfer_ok_def)
  note ins = InterbankRepository_insert_ok [OF inv, of ?r, unfolded sel, OF _ id]
  have out: "OutboxRepository_insert now (tr_id t) a b c = (\<lambda>u. Inr ((), u\<lparr>outbox := outbox_add now (tr_id t) a b c (outbox u)\<rparr>))"
    for a b c using id by (simp add: OutboxRepository_insert_def bind_uuid_def tx_bind_def fun_eq_iff)
  show ?thesis
    using p q
    by (simp add: interbank_tx_def lockById_ok TransferRepository_insert_ok [OF t(1) p(1) q(1)] tx_bind_def tx_read_def
        tx_check_def balanceOf_ok [OF p(1)] assertPayerCanAfford_def Money_lessThan_def es Let_def
        new_saga_row_def [symmetric] app ins out sel open_saga_def saga_result_def split: sum.splits)
qed

text \<open>The saga a request asks for, seen as a transfer to the suspense account.\<close>

definition suspense_leg :: "interbank_params \<Rightarrow> transfer_params" where
  "suspense_leg ps = \<lparr>tp_payerAccountId = ip_payerAccountId ps, tp_payeeAccountId = SUSPENSE_ACCOUNT_ID,
     tp_amount = ip_amount ps\<rparr>"

lemma suspense_leg_sel [simp]:
  "tp_payerAccountId (suspense_leg ps) = ip_payerAccountId ps"
  "tp_payeeAccountId (suspense_leg ps) = SUSPENSE_ACCOUNT_ID" "tp_amount (suspense_leg ps) = ip_amount ps"
  by (simp_all add: suspense_leg_def)

lemma interbank_tx_Inr:
  assumes inv: "bank_inv s" and t: "transfer_ok t" "tr_payeeAccountId t = SUSPENSE_ACCOUNT_ID"
    and run: "interbank_tx bankId now t key ps s = Inr (res, s')"
  obtains (taken) "res = None" "s' = s" "key_taken key s"
  | (opened) p b where "uuid_in (tr_payerAccountId t) = Some p" "bankId = Inr b"
      "res = Some (saga_result (new_saga_row now t key p) ps)" "s' = open_saga b (new_saga_row now t key p) ps s"
      "row_fits s (new_saga_row now t key p)" "cents (tr_amount t) \<le> ledger_sum p s"
proof -
  from run obtain p where p: "uuid_in (tr_payerAccountId t) = Some p" "account_exists p s"
    by (auto simp: interbank_tx_def tx_simps lockById_ok split: option.splits if_splits)
  have "uuid_ok p" using p uuid_in_ok by blast
  note run' = run [unfolded interbank_tx_locked [OF inv t p] Let_def]
  show thesis
  proof (cases "key_taken key s")
    case True
    with run' show thesis by (intro taken) (auto split: if_splits)
  next
    case False
    with run' have "row_fits s (new_saga_row now t key p)"
      using t p \<open>uuid_ok p\<close> bank_inv_system [OF inv]
      by (auto simp: new_saga_row_def suspense_ok intro!: row_fits_new split: if_splits)
    with False run' show thesis
      by (cases bankId) (auto intro!: opened [OF p(1)] split: if_splits)
  qed
qed

lemma interbank_tx_Inl:
  assumes inv: "bank_inv s" and t: "transfer_ok t" "tr_payeeAccountId t = SUSPENSE_ACCOUNT_ID"
    and run: "interbank_tx (Inr b) now t key ps s = Inl e"
  shows "(\<exists>d. e = Domain d) \<or> (\<exists>d. e = Db d)"
proof (cases "\<exists>p. uuid_in (tr_payerAccountId t) = Some p \<and> account_exists p s")
  case True
  then obtain p where p: "uuid_in (tr_payerAccountId t) = Some p" "account_exists p s" by blast
  from run show ?thesis by (auto simp: interbank_tx_locked [OF inv t p] Let_def split: if_splits)
next
  case False
  with run show ?thesis
    by (auto simp: interbank_tx_def lockById_ok tx_bind_def tx_read_def split: option.splits)
qed

text \<open>What the database holds of an answered request: the transfer, and its saga row.\<close>

definition saga_recorded :: "string \<Rightarrow> interbank_params \<Rightarrow> interbank_result \<Rightarrow> transfer_row \<Rightarrow> bank_db \<Rightarrow> bool" where
  "saga_recorded key ps res row s \<longleftrightarrow> recorded key (suspense_leg ps) row s \<and> ir_transfer res = row_record row
     \<and> (\<exists>i \<in> set (interbank_transfers s). ir_interbank res = toInterbankRecord i \<and> ib_transfer_id i = trow_id row
           \<and> ib_payee_bank_id i = ip_payeeBankId ps \<and> ib_payee_account_ref i = ip_payeeAccountRef ps)"

lemma recorded_grows:
  assumes "bank_inv t" and "grows s t" and "recorded key ps row s"
  shows "recorded key ps row t"
proof -
  from recorded_row [OF assms(3)] have row: "row \<in> set (transfers s)" and key: "trow_idempotency_key row = key" by auto
  have "filter (\<lambda>r. trow_idempotency_key r = key) (transfers t) = [row]"
    using key_row_unique [OF assms(1) grows_transfer [OF assms(2) row]] key by simp
  with assms(3) show ?thesis by (simp add: recorded_def)
qed

lemma interbank_replay_cases:
  assumes inv: "bank_inv s" "bank_inv t" and g: "grows s t"
    and f: "find (\<lambda>r. trow_idempotency_key r = key) (transfers s) = Some row"
    and c: "Transfer_create uuid (ip_payerAccountId ps) SUSPENSE_ACCOUNT_ID (ip_amount ps) = Inr tr"
    and res: "interbank_replay (row_record row) tr (ip_payeeBankId ps) (ip_payeeAccountRef ps) t = res"
  shows "res = Inl (Domain IdempotencyConflictError) \<or> (\<exists>r. res = Inr r \<and> saga_recorded key ps r row t)"
proof (cases "replay (row_record row) tr")
  case (Inl e)
  with res show ?thesis by (auto simp: interbank_replay_def replay_def split: if_splits)
next
  case (Inr r)
  from c have c': "Transfer_create uuid (tp_payerAccountId (suspense_leg ps)) (tp_payeeAccountId (suspense_leg ps))
      (tp_amount (suspense_leg ps)) = Inr tr" by simp
  from replay_recorded [OF inv(1) f c'] Inr have rec: "recorded key (suspense_leg ps) row t"
    using recorded_grows [OF inv(2) g] by auto
  then have "row \<in> set (transfers t)" using recorded_row by blast
  from transfer_in_ok [OF inv(2) this] have id: "uuid_in (trow_id row) = Some (trow_id row)" by (simp add: row_ok_def)
  from Inr res have "res = (case InterbankRepository_findById (trow_id row) t of
        Inl e \<Rightarrow> Inl e
      | Inr None \<Rightarrow> Inl (Domain IdempotencyConflictError)
      | Inr (Some interbank) \<Rightarrow>
          if ibr_payeeBankId interbank \<noteq> ip_payeeBankId ps \<or> ibr_payeeAccountRef interbank \<noteq> ip_payeeAccountRef ps
          then Inl (Domain IdempotencyConflictError)
          else Inr \<lparr>ir_transfer = row_record row, ir_interbank = interbank\<rparr>)"
    by (auto simp: interbank_replay_def replay_def split: if_splits)
  with rec id show ?thesis
    by (cases "find (\<lambda>r. ib_transfer_id r = trow_id row) (interbank_transfers t)")
      (auto simp: InterbankRepository_findById_def bind_uuid_def saga_recorded_def toInterbankRecord_def
        dest!: find_Some_in)
qed

lemma interbank_tx_recorded:
  assumes inv: "bank_inv s" and uuid: "uuid_ok uuid" and m: "money_ok (ip_amount ps)"
    and c: "Transfer_create uuid (ip_payerAccountId ps) SUSPENSE_ACCOUNT_ID (ip_amount ps) = Inr tr"
    and run: "interbank_tx (Inr b) now tr key ps s = Inr (Some r, s')"
  obtains row where "r = saga_result row ps" "s' = open_saga b row ps s" "row_fits s row" "bank_inv s'"
    "trow_payee_account_id row = SUSPENSE_ACCOUNT_ID"
    "cents (ip_amount ps) \<le> ledger_sum (trow_payer_account_id row) s" "saga_recorded key ps r row s'"
proof -
  from c have tr: "tr_payeeAccountId tr = SUSPENSE_ACCOUNT_ID" "tr_payerAccountId tr = ip_payerAccountId ps"
    "tr_amount tr = ip_amount ps" by (auto simp: Transfer_create_Inr)
  show thesis
  proof (rule interbank_tx_Inr [OF inv created_ok [OF c uuid m] tr(1) run])
    fix p b'
    let ?row = "new_saga_row now tr key p"
    assume won: "uuid_in (tr_payerAccountId tr) = Some p" "Inr b = (Inr b' :: bank_error + string)"
      "Some r = Some (saga_result ?row ps)" "s' = open_saga b' ?row ps s" "row_fits s ?row"
      "cents (tr_amount tr) \<le> ledger_sum p s"
    have sel: "trow_payer_account_id ?row = p" "trow_payee_account_id ?row = SUSPENSE_ACCOUNT_ID"
      "trow_amount ?row = cents (tr_amount tr)" "trow_idempotency_key ?row = key"
      by (simp_all add: new_saga_row_def)
    have inv': "bank_inv s'"
      unfolding won(4) by (rule bank_inv_open_saga [OF inv won(5)]) (simp_all add: sel won(6))
    then have "recorded key (suspense_leg ps) ?row s'"
      using key_row_unique [of s' ?row] won tr sel by (simp add: recorded_def)
    then have "saga_recorded key ps r ?row s'"
      using won by (auto simp: saga_recorded_def saga_result_def saga_row_def)
    with won tr sel inv' show thesis by (intro that [of ?row]) simp_all
  qed simp
qed

subsection \<open>Properties\<close>

text \<open>An interbank request under interference: its answer is recorded, or it has written nothing.\<close>

lemma interbank_interleaved:
  assumes inv: "bank_inv s" "bank_inv (i1 s)" "bank_inv (i2 (i1 s))" "bank_inv (i3 (i2 (i1 s)))"
    and grow: "grows s (i1 s)" "grows (i1 s) (i2 (i1 s))" "grows (i2 (i1 s)) (i3 (i2 (i1 s)))"
    and uuid: "uuid_ok uuid" and m: "money_ok (ip_amount ps)"
    and run: "InterbankService_execute (Inr b) i1 i2 i3 uuid now key ps s = (res, t)"
  shows "bank_inv t \<and>
    ((\<exists>e. res = Inl e \<and> e \<noteq> interbank_vanished key \<and> t \<in> {s, i1 s, i2 (i1 s), i3 (i2 (i1 s))}) \<or>
     (\<exists>r row. res = Inr r \<and> saga_recorded key ps r row t \<and>
        (t \<in> {i1 s, i3 (i2 (i1 s))} \<or>
         t = open_saga b row ps (i1 s) \<and> row_fits (i1 s) row \<and> r = saga_result row ps \<and>
           cents (ip_amount ps) \<le> ledger_sum (trow_payer_account_id row) (i1 s))))"
proof (cases "Transfer_create uuid (ip_payerAccountId ps) SUSPENSE_ACCOUNT_ID (ip_amount ps)")
  case (Inl e)
  with run inv show ?thesis by (auto simp: InterbankService_execute_def interbank_vanished_def)
next
  case c: (Inr tr)
  then have tr: "transfer_ok tr" "tr_payeeAccountId tr = SUSPENSE_ACCOUNT_ID"
    using created_ok [OF c uuid m] by (auto simp: Transfer_create_Inr)
  note start = run [unfolded InterbankService_execute_def, simplified c findByIdempotencyKey_ok [OF inv(1)], simplified]
  show ?thesis
  proof (cases "find (\<lambda>r. trow_idempotency_key r = key) (transfers s)")
    case (Some row)
    with start interbank_replay_cases [OF inv(1,2) grow(1) Some c refl] inv(2) show ?thesis
      by (auto simp: interbank_vanished_def)
  next
    case none: None
    show ?thesis
    proof (cases rule: with_tx_cases [of "interbank_tx (Inr b) now tr key ps" "i1 s"])
      case (rolled_back e)
      then show ?thesis
        using start none inv interbank_tx_Inl [OF inv(2) tr rolled_back(1)] by (auto simp: interbank_vanished_def)
    next
      case (committed rec s1)
      show ?thesis
      proof (cases rec)
        case lost: None
        with interbank_tx_Inr [OF inv(2) tr committed(1)] have s1: "s1 = i1 s" "key_taken key (i1 s)" by auto
        then obtain row where "find (\<lambda>r. trow_idempotency_key r = key) (transfers (i1 s)) = Some row"
          by (auto simp: key_taken_find)
        then have f: "find (\<lambda>r. trow_idempotency_key r = key) (transfers (i2 (i1 s))) = Some row"
          by (rule grows_key [OF grow(2)])
        with start none lost committed(2) s1 interbank_replay_cases [OF inv(3,4) grow(3) f c refl] inv(4) show ?thesis
          by (auto simp: findByIdempotencyKey_ok [OF inv(3)] interbank_vanished_def)
      next
        case (Some r)
        then show ?thesis
          using start none committed interbank_tx_recorded [OF inv(2) uuid m c committed(1) [unfolded Some]]
          by auto
      qed
    qed
  qed
qed

text \<open>
  C4. An interbank request happens exactly once and as a whole, under any interleaving that
  keeps the bank well formed and only grows it. A request that succeeds answers with the one
  transfer under its key, the payer's debit to suspense, and with the saga row of that transfer
  for the payee bank and account it named; if it did not find them there, its transaction
  appended the transfer, both entries, the saga row and the settlement request together. A
  request that fails has written nothing of these, and never fails as "vanished".
\<close>
theorem interbank_exactly_once:
  assumes inv: "bank_inv s" "bank_inv (i1 s)" "bank_inv (i2 (i1 s))" "bank_inv (i3 (i2 (i1 s)))"
    and grow: "grows s (i1 s)" "grows (i1 s) (i2 (i1 s))" "grows (i2 (i1 s)) (i3 (i2 (i1 s)))"
    and uuid: "uuid_ok uuid" and m: "money_ok (ip_amount ps)"
    and run: "InterbankService_execute (Inr b) i1 i2 i3 uuid now key ps s = (res, t)"
  shows "bank_inv t \<and>
    ((\<exists>e. res = Inl e \<and> e \<noteq> interbank_vanished key \<and> t \<in> {s, i1 s, i2 (i1 s), i3 (i2 (i1 s))}) \<or>
     (\<exists>r row. res = Inr r \<and> saga_recorded key ps r row t \<and>
        (t \<in> {i1 s, i3 (i2 (i1 s))} \<or>
         t = open_saga b row ps (i1 s) \<and> row_fits (i1 s) row \<and> r = saga_result row ps \<and>
           cents (ip_amount ps) \<le> ledger_sum (trow_payer_account_id row) (i1 s))))"
  using assms by (rule interbank_interleaved)

definition sample_ib_params :: interbank_params where
  "sample_ib_params = \<lparr>ip_payerAccountId = alice, ip_payeeBankId = ''bank-b'', ip_payeeAccountRef = ''acc-7'',
     ip_amount = Money 400\<rparr>"

definition sample_ib_row :: transfer_row where
  "sample_ib_row = \<lparr>trow_id = sample_id, trow_idempotency_key = ''k2'', trow_payer_account_id = alice,
     trow_payee_account_id = SUSPENSE_ACCOUNT_ID, trow_amount = 400, trow_created_at = 7\<rparr>"

definition sample_saga_bank :: bank_db where
  "sample_saga_bank = open_saga ''bank-a'' sample_ib_row sample_ib_params sample_bank"

definition sample_ib_transfer :: transfer where
  "sample_ib_transfer =
     \<lparr>tr_id = sample_id, tr_payerAccountId = alice, tr_payeeAccountId = SUSPENSE_ACCOUNT_ID, tr_amount = Money 400\<rparr>"

lemma sample_ib_create: "Transfer_create sample_id (ip_payerAccountId sample_ib_params) SUSPENSE_ACCOUNT_ID
    (ip_amount sample_ib_params) = Inr sample_ib_transfer"
  by (simp add: Transfer_create_Inr sample_names sample_ib_params_def sample_ib_transfer_def)

lemma sample_free_key: "\<not> key_taken ''k2'' sample_bank"
  by (simp add: key_taken_def sample_transfers seed_row_def)

lemma sample_saga_tx: "interbank_tx (Inr ''bank-a'') 7 sample_ib_transfer ''k2'' sample_ib_params sample_bank =
    Inr (Some (saga_result sample_ib_row sample_ib_params), sample_saga_bank)"
proof -
  have row: "new_saga_row 7 sample_ib_transfer ''k2'' alice = sample_ib_row"
    by (simp add: new_saga_row_def new_row_def sample_ib_row_def sample_ib_transfer_def)
  have t: "transfer_ok sample_ib_transfer" "tr_payeeAccountId sample_ib_transfer = SUSPENSE_ACCOUNT_ID"
    by (simp_all add: transfer_ok_def sample_id_ok money_small sample_ib_transfer_def)
  show ?thesis
    using sample_free_key by (subst interbank_tx_locked [OF sample_inv t, of alice])
      (simp_all add: sample_uuids row sample_fresh sample_balance safe_small sample_names Let_def sample_saga_bank_def
        sample_ib_transfer_def, simp_all add: sample_ib_params_def row [unfolded sample_ib_transfer_def])
qed

lemma sample_saga_run:
  "InterbankService_execute (Inr ''bank-a'') id id id sample_id 7 ''k2'' sample_ib_params sample_bank =
     (Inr (saga_result sample_ib_row sample_ib_params), sample_saga_bank)"
  using sample_ib_create sample_saga_tx sample_free_key
  by (simp add: InterbankService_execute_def with_tx_def findByIdempotencyKey_ok [OF sample_inv] key_taken_find)

lemma sample_ib_ok: "money_ok (ip_amount sample_ib_params)"
  by (simp add: sample_ib_params_def money_small)

theorem interbank_exactly_once_witness:
  "bank_inv sample_saga_bank \<and> (\<exists>row. saga_recorded ''k2'' sample_ib_params
     (saga_result sample_ib_row sample_ib_params) row sample_saga_bank)"
  using interbank_exactly_once [OF _ _ _ _ _ _ _ sample_id_ok sample_ib_ok sample_saga_run] sample_inv
  by auto

text \<open>A request under a free key that succeeds has opened a saga in its transaction.\<close>

lemma interbank_opened:
  assumes inv: "bank_inv s" "bank_inv (i1 s)" and free: "\<not> key_taken key s" "\<not> key_taken key (i1 s)"
    and uuid: "uuid_ok uuid" and m: "money_ok (ip_amount ps)"
    and run: "InterbankService_execute (Inr b) i1 i2 i3 uuid now key ps s = (Inr r, t)"
  obtains row where "r = saga_result row ps" "t = open_saga b row ps (i1 s)" "row_fits (i1 s) row" "bank_inv t"
    "trow_payee_account_id row = SUSPENSE_ACCOUNT_ID"
    "cents (ip_amount ps) \<le> ledger_sum (trow_payer_account_id row) (i1 s)"
    "uuid_in (ip_payerAccountId ps) = Some (trow_payer_account_id row)" "trow_amount row = cents (ip_amount ps)"
    "balances t = move (trow_payer_account_id row) SUSPENSE_ACCOUNT_ID (cents (ip_amount ps)) (balances (i1 s))"
proof -
  from free have none: "find (\<lambda>r. trow_idempotency_key r = key) (transfers s) = None"
    by (simp add: key_taken_find)
  obtain tr where c: "Transfer_create uuid (ip_payerAccountId ps) SUSPENSE_ACCOUNT_ID (ip_amount ps) = Inr tr"
    using run by (cases "Transfer_create uuid (ip_payerAccountId ps) SUSPENSE_ACCOUNT_ID (ip_amount ps)")
      (auto simp: InterbankService_execute_def)
  have tr: "transfer_ok tr" "tr_payeeAccountId tr = SUSPENSE_ACCOUNT_ID"
    using created_ok [OF c uuid m] c by (auto simp: Transfer_create_Inr)
  have "interbank_tx (Inr b) now tr key ps (i1 s) = Inr (Some r, t)"
    using run interbank_tx_Inr [OF inv(2) tr, of "Inr b" now key ps None] free none
    by (cases "interbank_tx (Inr b) now tr key ps (i1 s)")
      (auto simp: InterbankService_execute_def c findByIdempotencyKey_ok [OF inv(1)] with_tx_def split: option.splits)
  then obtain row where row: "r = saga_result row ps" "t = open_saga b row ps (i1 s)" "row_fits (i1 s) row" "bank_inv t"
    "trow_payee_account_id row = SUSPENSE_ACCOUNT_ID"
    "cents (ip_amount ps) \<le> ledger_sum (trow_payer_account_id row) (i1 s)" "saga_recorded key ps r row t"
    using interbank_tx_recorded [OF inv(2) uuid m c] by metis
  then have ne: "trow_payer_account_id row \<noteq> trow_payee_account_id row" by (simp add: row_fits_def row_ok_def)
  from row(7) have leg: "uuid_in (ip_payerAccountId ps) = Some (trow_payer_account_id row)"
    "trow_amount row = cents (ip_amount ps)" by (simp_all add: saga_recorded_def recorded_def)
  have "balances t = move (trow_payer_account_id row) SUSPENSE_ACCOUNT_ID (cents (ip_amount ps)) (balances (i1 s))"
    using balances_post [OF ne, of "i1 s"] row(5) leg by (simp add: row(2) balances_open_saga)
  with row leg show thesis by (intro that)
qed

text \<open>
  What an accepted interbank request has done, seen from outside: the payer's balance went
  down by the amount and the suspense account's went up, no other balance moved, the saga is
  DEBITED, and the outbox holds, after what it held before, one unpublished settlement request
  addressed to the Hub that names the transfer, both banks, the payee account and the cents.
\<close>
theorem interbank_effect:
  assumes inv: "bank_inv s" "bank_inv (i1 s)" and free: "\<not> key_taken key s" "\<not> key_taken key (i1 s)"
    and uuid: "uuid_ok uuid" and m: "money_ok (ip_amount ps)"
    and run: "InterbankService_execute (Inr b) i1 i2 i3 uuid now key ps s = (Inr r, t)"
  shows "\<exists>p ev. uuid_in (ip_payerAccountId ps) = Some p \<and>
    balances t = move p SUSPENSE_ACCOUNT_ID (cents (ip_amount ps)) (balances (i1 s)) \<and> 0 \<le> balances t p \<and>
    interbank_status_of (rec_id (ir_transfer r)) t = Some DEBITED \<and>
    unpublished (outbox t) = unpublished (outbox (i1 s)) @ [ev] \<and>
    ob_routing_key ev = ''settlement.requested'' \<and>
    json_string ''settlementId'' (ob_payload ev) = Some (rec_id (ir_transfer r)) \<and>
    json_string ''payerBankId'' (ob_payload ev) = Some b \<and>
    json_string ''payeeBankId'' (ob_payload ev) = Some (ip_payeeBankId ps) \<and>
    json_string ''payeeAccountRef'' (ob_payload ev) = Some (ip_payeeAccountRef ps) \<and>
    json_number ''amountCents'' (ob_payload ev) = Some (JsNum (of_int (cents (ip_amount ps))))"
proof -
  obtain row where row: "r = saga_result row ps" "t = open_saga b row ps (i1 s)" "row_fits (i1 s) row" "bank_inv t"
    "trow_payee_account_id row = SUSPENSE_ACCOUNT_ID"
    "cents (ip_amount ps) \<le> ledger_sum (trow_payer_account_id row) (i1 s)"
    and leg: "uuid_in (ip_payerAccountId ps) = Some (trow_payer_account_id row)"
    and bal: "balances t = move (trow_payer_account_id row) SUSPENSE_ACCOUNT_ID (cents (ip_amount ps)) (balances (i1 s))"
    using interbank_opened [OF inv free uuid m run] by metis
  then have ne: "trow_payer_account_id row \<noteq> trow_payee_account_id row" by (simp add: row_fits_def row_ok_def)
  have "0 \<le> balances t (trow_payer_account_id row)"
    using row(5,6) ne by (simp add: bal move_def) (simp add: balances_def)
  moreover have "interbank_status_of (rec_id (ir_transfer r)) t = Some DEBITED"
    using row(3) by (simp add: row(1,2) saga_result_def status_open_saga [OF inv(2)] row_fits_def)
  ultimately show ?thesis
    using leg bal by (intro exI conjI) (assumption, assumption, assumption, assumption,
        simp add: row(2) open_saga_def unpublished_add,
        simp_all add: row(1) saga_result_def settlement_request_def SETTLEMENT_REQUESTED_ROUTING_KEY_def
          json_string_def json_number_def)
qed

theorem interbank_effect_witness:
  "balances sample_saga_bank = move alice SUSPENSE_ACCOUNT_ID 400 (balances sample_bank) \<and>
   interbank_status_of sample_id sample_saga_bank = Some DEBITED"
proof -
  have free: "\<not> key_taken ''k2'' sample_bank" by (simp add: key_taken_def sample_transfers seed_row_def)
  from interbank_effect [OF sample_inv _ free _ sample_id_ok sample_ib_ok sample_saga_run] sample_inv free
  show ?thesis by (auto simp: sample_ib_params_def sample_uuids saga_result_def sample_ib_row_def)
qed

end
