(* ===== verification/BankHttp.thy ===== *)
theory BankHttp
  imports BankInterbank
begin

text \<open>
  The HTTP side of Bank A: the DTOs and the controllers of src/accounts, src/transfers and
  src/interbank-transfers, and what the exception filter answers. \<open>isUUID\<close> and \<open>parseUUID\<close>, the
  validators of \<open>@IsUUID\<close> and \<open>ParseUUIDPipe\<close>, are code of the framework; they are arguments, and
  the properties rely on their accepting nothing but 8-4-4-4-12 digits of either case. A failed
  validation is 400; an error the filter does not catch is 500; a handler that returns is
  answered 201 on POST and 200 on GET. \<open>to_iso\<close> is the text of a Date in JSON, \<open>show\<close> the one of a
  number. Texts are taken without the character U+0000, which PostgreSQL refuses.
\<close>

subsection \<open>Answers\<close>

definition error_body :: "(js_number \<Rightarrow> string) \<Rightarrow> domain_error \<Rightarrow> json" where
  "error_body show e = JObj
     [(''statusCode'', JNum (of_nat (exception_status e))),
      (''error'', JStr (error_name e)),
      (''message'', JStr (error_message show e))]"

definition error_answer :: "(js_number \<Rightarrow> string) \<Rightarrow> bank_error \<Rightarrow> http_answer" where
  "error_answer show e = (case e of
     Domain d \<Rightarrow> (exception_status d, Some (error_body show d))
   | BadRequest \<Rightarrow> (400, None)
   | _ \<Rightarrow> (500, None))"

definition bank_answer :: "(js_number \<Rightarrow> string) \<Rightarrow> nat \<Rightarrow> ('a \<Rightarrow> json) \<Rightarrow> bank_error + 'a \<Rightarrow> http_answer" where
  "bank_answer show ok body r = (case r of Inl e \<Rightarrow> error_answer show e | Inr a \<Rightarrow> (ok, Some (body a)))"

subsection \<open>The DTOs\<close>

definition CreateAccountDto :: "json \<Rightarrow> bank_error + string" where
  "CreateAccountDto body = (case json_string ''ownerName'' body of
     Some name \<Rightarrow> if 1 \<le> length name \<and> length name \<le> 120 then Inr name else Inl BadRequest
   | None \<Rightarrow> Inl BadRequest)"

definition DevSeedDto :: "json \<Rightarrow> bank_error + js_number" where
  "DevSeedDto body = (case json_number ''amountCents'' body of
     Some n \<Rightarrow> if IsInt_IsPositive n then Inr n else Inl BadRequest
   | None \<Rightarrow> Inl BadRequest)"

record create_transfer_dto =
  ct_payerAccountId :: string
  ct_payeeAccountId :: string
  ct_amountCents :: js_number

definition CreateTransferDto :: "(string \<Rightarrow> bool) \<Rightarrow> json \<Rightarrow> bank_error + create_transfer_dto" where
  "CreateTransferDto isUUID body =
     (case (json_string ''payerAccountId'' body, json_string ''payeeAccountId'' body, json_number ''amountCents'' body) of
        (Some p, Some q, Some n) \<Rightarrow>
          if isUUID p \<and> isUUID q \<and> IsInt_IsPositive n
          then Inr \<lparr>ct_payerAccountId = p, ct_payeeAccountId = q, ct_amountCents = n\<rparr> else Inl BadRequest
      | _ \<Rightarrow> Inl BadRequest)"

record create_interbank_dto =
  ci_payerAccountId :: string
  ci_payeeBankId :: string
  ci_payeeAccountRef :: string
  ci_amountCents :: js_number

definition CreateInterbankTransferDto :: "(string \<Rightarrow> bool) \<Rightarrow> json \<Rightarrow> bank_error + create_interbank_dto" where
  "CreateInterbankTransferDto isUUID body =
     (case (json_string ''payerAccountId'' body, json_string ''payeeBankId'' body,
            json_string ''payeeAccountRef'' body, json_number ''amountCents'' body) of
        (Some p, Some bank, Some ref, Some n) \<Rightarrow>
          if isUUID p \<and> bank \<noteq> [] \<and> length bank \<le> 64 \<and> ref \<noteq> [] \<and> length ref \<le> 255 \<and> IsInt_IsPositive n
          then Inr \<lparr>ci_payerAccountId = p, ci_payeeBankId = bank, ci_payeeAccountRef = ref, ci_amountCents = n\<rparr>
          else Inl BadRequest
      | _ \<Rightarrow> Inl BadRequest)"

subsection \<open>AccountsController\<close>

definition account_json :: "(int \<Rightarrow> string) \<Rightarrow> account \<Rightarrow> json" where
  "account_json to_iso a = JObj
     [(''id'', JStr (account_id a)), (''ownerName'', JStr (account_ownerName a)),
      (''createdAt'', JStr (to_iso (account_createdAt a)))]"

definition balance_json :: "string \<times> int \<Rightarrow> json" where
  "balance_json r = JObj [(''accountId'', JStr (fst r)), (''balanceCents'', JNum (of_int (snd r)))]"

definition AccountsController_create :: "string \<Rightarrow> int \<Rightarrow> json \<Rightarrow> bank_db \<Rightarrow> (bank_error + account) \<times> bank_db" where
  "AccountsController_create uuid now body s =
     (case CreateAccountDto body of
        Inl e \<Rightarrow> (Inl e, s)
      | Inr ownerName \<Rightarrow> createAccount uuid now ownerName s)"

definition AccountsController_get :: "(string \<Rightarrow> bool) \<Rightarrow> string \<Rightarrow> bank_db \<Rightarrow> bank_error + account" where
  "AccountsController_get parseUUID i s = (if \<not> parseUUID i then Inl BadRequest else getAccount i s)"

text \<open>The answer names the account as the URL does; \<open>s'\<close> is the database at the second read.\<close>

definition AccountsController_balance ::
  "(string \<Rightarrow> bool) \<Rightarrow> string \<Rightarrow> bank_db \<Rightarrow> bank_db \<Rightarrow> bank_error + (string \<times> int)" where
  "AccountsController_balance parseUUID i s s' =
     (if \<not> parseUUID i then Inl BadRequest
      else case getBalance i s s' of Inl e \<Rightarrow> Inl e | Inr balance \<Rightarrow> Inr (i, cents balance))"

record statement_entry =
  se_transferId :: string
  se_amountCents :: int
  se_createdAt :: int

definition AccountsController_statement ::
  "(string \<Rightarrow> bool) \<Rightarrow> string \<Rightarrow> bank_db \<Rightarrow> bank_db \<Rightarrow> bank_error + (string \<times> statement_entry list)" where
  "AccountsController_statement parseUUID i s s' =
     (if \<not> parseUUID i then Inl BadRequest
      else case getStatement i s s' of
        Inl e \<Rightarrow> Inl e
      | Inr lines \<Rightarrow> Inr (i, map (\<lambda>line. \<lparr>se_transferId = sl_transferId line, se_amountCents = cents (sl_amount line),
                                     se_createdAt = sl_createdAt line\<rparr>) lines))"

definition AccountsController_devSeed ::
  "(string \<Rightarrow> bool) \<Rightarrow> (bank_db \<Rightarrow> bank_db) \<Rightarrow> (bank_db \<Rightarrow> bank_db) \<Rightarrow> string \<Rightarrow> int \<Rightarrow> string \<Rightarrow> json \<Rightarrow>
   bank_db \<Rightarrow> (bank_error + (string \<times> int)) \<times> bank_db" where
  "AccountsController_devSeed parseUUID i1 i2 uuid now i body s =
     (if \<not> parseUUID i then (Inl BadRequest, s)
      else case DevSeedDto body of
        Inl e \<Rightarrow> (Inl e, s)
      | Inr amountCents \<Rightarrow> (case Money_fromCents amountCents of
          Inl e \<Rightarrow> (Inl (Domain e), s)
        | Inr amount \<Rightarrow> (case devSeed i1 i2 uuid now i amount s of
            (Inl e, t) \<Rightarrow> (Inl e, t) | (Inr balance, t) \<Rightarrow> (Inr (i, cents balance), t))))"

subsection \<open>TransfersController\<close>

text \<open>The guard on the header, the same in both controllers; an absent header is None.\<close>

definition idempotency_key :: "string option \<Rightarrow> bank_error + string" where
  "idempotency_key header = (case header of
     None \<Rightarrow> Inl BadRequest
   | Some key \<Rightarrow> if key = [] \<or> 255 < length key then Inl BadRequest else Inr key)"

record transfer_response =
  rs_id :: string
  rs_payerAccountId :: string
  rs_payeeAccountId :: string
  rs_amountCents :: int
  rs_createdAt :: int

definition toResponse :: "transfer_record \<Rightarrow> transfer_response" where
  "toResponse record = \<lparr>rs_id = rec_id record, rs_payerAccountId = rec_payerAccountId record,
     rs_payeeAccountId = rec_payeeAccountId record, rs_amountCents = cents (rec_amount record),
     rs_createdAt = rec_createdAt record\<rparr>"

definition transfer_json :: "(int \<Rightarrow> string) \<Rightarrow> transfer_response \<Rightarrow> json" where
  "transfer_json to_iso r = JObj
     [(''id'', JStr (rs_id r)), (''payerAccountId'', JStr (rs_payerAccountId r)),
      (''payeeAccountId'', JStr (rs_payeeAccountId r)), (''amountCents'', JNum (of_int (rs_amountCents r))),
      (''createdAt'', JStr (to_iso (rs_createdAt r)))]"

definition TransfersController_create ::
  "(string \<Rightarrow> bool) \<Rightarrow> (bank_db \<Rightarrow> bank_db) \<Rightarrow> (bank_db \<Rightarrow> bank_db) \<Rightarrow> string \<Rightarrow> int \<Rightarrow> string option \<Rightarrow> json \<Rightarrow>
   bank_db \<Rightarrow> (bank_error + transfer_response) \<times> bank_db" where
  "TransfersController_create isUUID i1 i2 uuid now header body s =
     (case CreateTransferDto isUUID body of
        Inl e \<Rightarrow> (Inl e, s)
      | Inr dto \<Rightarrow> (case idempotency_key header of
          Inl e \<Rightarrow> (Inl e, s)
        | Inr key \<Rightarrow> (case Money_fromCents (ct_amountCents dto) of
            Inl e \<Rightarrow> (Inl (Domain e), s)
          | Inr amount \<Rightarrow>
              (case TransfersService_execute i1 i2 uuid now key
                      \<lparr>tp_payerAccountId = ct_payerAccountId dto, tp_payeeAccountId = ct_payeeAccountId dto,
                       tp_amount = amount\<rparr> s of
                 (Inl e, t) \<Rightarrow> (Inl e, t) | (Inr record, t) \<Rightarrow> (Inr (toResponse record), t)))))"

definition TransfersController_get :: "(string \<Rightarrow> bool) \<Rightarrow> string \<Rightarrow> bank_db \<Rightarrow> bank_error + transfer_response" where
  "TransfersController_get parseUUID i s =
     (if \<not> parseUUID i then Inl BadRequest
      else case getTransfer i s of Inl e \<Rightarrow> Inl e | Inr record \<Rightarrow> Inr (toResponse record))"

subsection \<open>InterbankTransfersController\<close>

record interbank_response =
  br_transferId :: string
  br_payerAccountId :: string
  br_payeeBankId :: string
  br_payeeAccountRef :: string
  br_amountCents :: int
  br_status :: interbank_status
  br_createdAt :: int

definition interbank_toResponse :: "interbank_result \<Rightarrow> interbank_response" where
  "interbank_toResponse result =
     \<lparr>br_transferId = rec_id (ir_transfer result), br_payerAccountId = rec_payerAccountId (ir_transfer result),
      br_payeeBankId = ibr_payeeBankId (ir_interbank result), br_payeeAccountRef = ibr_payeeAccountRef (ir_interbank result),
      br_amountCents = cents (rec_amount (ir_transfer result)), br_status = ibr_status (ir_interbank result),
      br_createdAt = rec_createdAt (ir_transfer result)\<rparr>"

definition interbank_status_text :: "interbank_status \<Rightarrow> string" where
  "interbank_status_text st = (case st of DEBITED \<Rightarrow> ''DEBITED'' | CONFIRMED \<Rightarrow> ''CONFIRMED'' | COMPENSATED \<Rightarrow> ''COMPENSATED'')"

definition interbank_json :: "(int \<Rightarrow> string) \<Rightarrow> interbank_response \<Rightarrow> json" where
  "interbank_json to_iso r = JObj
     [(''transferId'', JStr (br_transferId r)), (''payerAccountId'', JStr (br_payerAccountId r)),
      (''payeeBankId'', JStr (br_payeeBankId r)), (''payeeAccountRef'', JStr (br_payeeAccountRef r)),
      (''amountCents'', JNum (of_int (br_amountCents r))), (''status'', JStr (interbank_status_text (br_status r))),
      (''createdAt'', JStr (to_iso (br_createdAt r)))]"

definition InterbankController_create ::
  "(string \<Rightarrow> bool) \<Rightarrow> bank_error + string \<Rightarrow> (bank_db \<Rightarrow> bank_db) \<Rightarrow> (bank_db \<Rightarrow> bank_db) \<Rightarrow> (bank_db \<Rightarrow> bank_db) \<Rightarrow>
   string \<Rightarrow> int \<Rightarrow> string option \<Rightarrow> json \<Rightarrow> bank_db \<Rightarrow> (bank_error + interbank_response) \<times> bank_db" where
  "InterbankController_create isUUID bankId i1 i2 i3 uuid now header body s =
     (case CreateInterbankTransferDto isUUID body of
        Inl e \<Rightarrow> (Inl e, s)
      | Inr dto \<Rightarrow> (case idempotency_key header of
          Inl e \<Rightarrow> (Inl e, s)
        | Inr key \<Rightarrow> (case Money_fromCents (ci_amountCents dto) of
            Inl e \<Rightarrow> (Inl (Domain e), s)
          | Inr amount \<Rightarrow>
              (case InterbankService_execute bankId i1 i2 i3 uuid now key
                      \<lparr>ip_payerAccountId = ci_payerAccountId dto, ip_payeeBankId = ci_payeeBankId dto,
                       ip_payeeAccountRef = ci_payeeAccountRef dto, ip_amount = amount\<rparr> s of
                 (Inl e, t) \<Rightarrow> (Inl e, t) | (Inr result, t) \<Rightarrow> (Inr (interbank_toResponse result), t)))))"

definition InterbankController_get ::
  "(string \<Rightarrow> bool) \<Rightarrow> string \<Rightarrow> bank_db \<Rightarrow> bank_db \<Rightarrow> bank_error + interbank_response" where
  "InterbankController_get parseUUID i s s' =
     (if \<not> parseUUID i then Inl BadRequest
      else case InterbankService_getTransfer i s s' of Inl e \<Rightarrow> Inl e | Inr result \<Rightarrow> Inr (interbank_toResponse result))"

subsection \<open>What the answers say\<close>

lemma bank_answer_simps [simp]:
  "bank_answer show ok body (Inr a) = (ok, Some (body a))"
  "fst (bank_answer show ok body (Inl (Domain d))) = exception_status d"
  "fst (bank_answer show ok body (Inl (Db x))) = 500" "fst (bank_answer show ok body (Inl (Failure m))) = 500"
  "fst (bank_answer show ok body (Inl BadRequest)) = 400"
  by (simp_all add: bank_answer_def error_answer_def)

lemma idempotency_key_cases: "idempotency_key h = Inl e \<Longrightarrow> e = BadRequest"
  "idempotency_key h = Inr key \<Longrightarrow> key \<noteq> [] \<and> length key \<le> 255"
  by (auto simp: idempotency_key_def split: option.splits if_splits)

lemma IsInt_IsPositive_cents: "IsInt_IsPositive x \<Longrightarrow> \<exists>n. js_integer x = Some n \<and> 0 < n"
  by (auto simp: IsInt_IsPositive_def split: option.splits)

lemma transfer_dto:
  "CreateTransferDto isUUID body = Inl e \<Longrightarrow> e = BadRequest"
  "CreateTransferDto isUUID body = Inr dto \<Longrightarrow> isUUID (ct_payerAccountId dto) \<and> isUUID (ct_payeeAccountId dto) \<and>
     (\<exists>n. js_integer (ct_amountCents dto) = Some n \<and> 0 < n)"
  by (auto simp: CreateTransferDto_def IsInt_IsPositive_cents split: option.splits if_splits)

lemma interbank_dto:
  "CreateInterbankTransferDto isUUID body = Inl e \<Longrightarrow> e = BadRequest"
  "CreateInterbankTransferDto isUUID body = Inr dto \<Longrightarrow> isUUID (ci_payerAccountId dto) \<and>
     ci_payeeAccountRef dto \<noteq> [] \<and> length (ci_payeeAccountRef dto) \<le> 255 \<and>
     (\<exists>n. js_integer (ci_amountCents dto) = Some n \<and> 0 < n)"
  by (auto simp: CreateInterbankTransferDto_def IsInt_IsPositive_cents split: option.splits if_splits)

lemma fromCents_integer: "js_integer x = Some n \<Longrightarrow>
    Money_fromCents x = (if safe_int n then Inr (Money n) else Inl (InvalidAmountError x))"
  by (simp add: Money_fromCents_def isSafeInteger_def)


text \<open>The body of a request for 300 cents.\<close>

definition sample_body :: "string \<Rightarrow> string \<Rightarrow> json" where
  "sample_body p q = JObj [(''payerAccountId'', JStr p), (''payeeAccountId'', JStr q), (''amountCents'', JNum 300)]"

lemma sample_dto: "CreateTransferDto uuid_form (sample_body p q) =
    (if uuid_form p \<and> uuid_form q
     then Inr \<lparr>ct_payerAccountId = p, ct_payeeAccountId = q, ct_amountCents = JsNum 300\<rparr> else Inl BadRequest)"
  by (simp add: CreateTransferDto_def sample_body_def json_string_def json_number_def IsInt_IsPositive_def)

lemma sample_lower: "map lower_hex alice = alice" "map lower_hex bob = bob" "uuid_form alice" "uuid_form bob"
  using uuid_ok_form sample_uuids by blast+

lemma sample_shout: "map lower_hex shouting_alice = alice" "uuid_form shouting_alice" "shouting_alice \<noteq> alice"
proof -
  show lower: "map lower_hex shouting_alice = alice" by code_simp
  then show "uuid_form shouting_alice" using sample_uuids by (simp add: uuid_form_def)
  show "shouting_alice \<noteq> alice" using shouting_alice_in sample_uuids by auto
qed

lemma sample_key: "idempotency_key (Some ''k1'') = Inr ''k1''"
  by (simp add: idempotency_key_def)




text \<open>The suspense account has no letters in its id: no other text names it.\<close>

lemma lower_hex_low: "(of_char (lower_hex c) :: nat) < 97 \<Longrightarrow> lower_hex c = c"
  using of_char_lower_hex [of c] by (auto simp: lower_hex_def Let_def split: if_splits)

lemma only_suspense: "map lower_hex x = SUSPENSE_ACCOUNT_ID \<Longrightarrow> x = SUSPENSE_ACCOUNT_ID"
proof -
  assume x: "map lower_hex x = SUSPENSE_ACCOUNT_ID"
  have low: "\<forall>c \<in> set SUSPENSE_ACCOUNT_ID. (of_char c :: nat) < 97" by (simp add: SUSPENSE_ACCOUNT_ID_def)
  have "map lower_hex x = x"
  proof (rule map_idI)
    fix c assume "c \<in> set x"
    then have "lower_hex c \<in> set SUSPENSE_ACCOUNT_ID" unfolding x [symmetric] by simp
    with low show "lower_hex c = c" by (auto intro: lower_hex_low)
  qed
  with x show ?thesis by simp
qed

text \<open>An interbank request of valid form fails with a domain error or not at all.\<close>

lemma interbank_errors:
  assumes inv: "bank_inv s" "bank_inv (i1 s)" "bank_inv (i2 (i1 s))" "bank_inv (i3 (i2 (i1 s)))"
    and grow: "grows s (i1 s)" "grows (i1 s) (i2 (i1 s))" "grows (i2 (i1 s)) (i3 (i2 (i1 s)))"
    and uuid: "uuid_ok uuid" "\<not> transfer_exists uuid (i1 s)" and m: "money_ok (ip_amount ps)"
    and form: "uuid_form (ip_payerAccountId ps)" "key \<noteq> []" "length key \<le> 255"
      "ip_payeeAccountRef ps \<noteq> []" "length (ip_payeeAccountRef ps) \<le> 255"
    and run: "InterbankService_execute (Inr b) i1 i2 i3 uuid now key ps s = (Inl e, t)"
  shows "\<exists>d. e = Domain d"
proof (cases "Transfer_create uuid (ip_payerAccountId ps) SUSPENSE_ACCOUNT_ID (ip_amount ps)")
  case (Inl d)
  with run show ?thesis by (auto simp: InterbankService_execute_def)
next
  case c: (Inr tr)
  let ?p = "map lower_hex (ip_payerAccountId ps)"
  have tr: "transfer_ok tr" "tr_payeeAccountId tr = SUSPENSE_ACCOUNT_ID" "tr_id tr = uuid"
    and payer: "uuid_in (tr_payerAccountId tr) = Some ?p" "?p \<noteq> SUSPENSE_ACCOUNT_ID"
    using created_ok [OF c uuid(1) m] c uuid_form_in [OF form(1)] only_suspense by (auto simp: Transfer_create_Inr)
  note start = run [unfolded InterbankService_execute_def, simplified c findByIdempotencyKey_ok [OF inv(1)], simplified]
  show ?thesis
  proof (cases "find (\<lambda>r. trow_idempotency_key r = key) (transfers s)")
    case (Some row)
    with start interbank_replay_cases [OF inv(1,2) grow(1) Some c refl] show ?thesis by auto
  next
    case none: None
    show ?thesis
    proof (cases rule: with_tx_cases [of "interbank_tx (Inr b) now tr key ps" "i1 s"])
      case (rolled_back e')
      then have e: "e = e'" using start none by simp
      show ?thesis
      proof (cases "account_exists ?p (i1 s)")
        case True
        with rolled_back(1) form uuid payer tr(3) show ?thesis unfolding e
          by (auto simp: interbank_tx_locked [OF inv(2) tr(1,2) payer(1) True] Let_def Suc_le_eq split: if_splits)
      next
        case False
        with rolled_back(1) payer(1) show ?thesis unfolding e
          by (auto simp: interbank_tx_def lockById_ok tx_bind_def tx_read_def)
      qed
    next
      case (committed rec s1)
      show ?thesis
      proof (cases rec)
        case lost: None
        with interbank_tx_Inr [OF inv(2) tr(1,2) committed(1)] have s1: "s1 = i1 s" "key_taken key (i1 s)" by auto
        then obtain row where "find (\<lambda>r. trow_idempotency_key r = key) (transfers (i1 s)) = Some row"
          by (auto simp: key_taken_find)
        then have f: "find (\<lambda>r. trow_idempotency_key r = key) (transfers (i2 (i1 s))) = Some row"
          by (rule grows_key [OF grow(2)])
        with start none lost committed(2) s1 interbank_replay_cases [OF inv(3,4) grow(3) f c refl] show ?thesis
          by (auto simp: findByIdempotencyKey_ok [OF inv(3)])
      next
        case (Some r)
        with start none committed(2) show ?thesis by simp
      qed
    qed
  qed
qed

lemma domain_status: "exception_status d \<in> {400, 404, 409, 422}"
  by (simp add: exception_status_table split: domain_error.splits)


definition sample_ib_body :: json where
  "sample_ib_body = JObj [(''payerAccountId'', JStr alice), (''payeeBankId'', JStr ''bank-b''),
     (''payeeAccountRef'', JStr ''acc-7''), (''amountCents'', JNum 400)]"


lemma balance_page:
  assumes "parseUUID i" "uuid_in i = Some k" "account_exists k s"
  shows "AccountsController_balance parseUUID i s s' = (if safe_int (ledger_sum k s') then Inr (i, ledger_sum k s')
     else Inl (Domain (InvalidAmountError (js_of_int (ledger_sum k s')))))"
  using getAccount_ok [OF assms(2,3)] assms
  by (auto simp: AccountsController_balance_def getBalance_def balanceOf_def bind_uuid_def Money_fromCents_of_int)

text \<open>
  What the pages of an account answer: 400 for an identifier the pipe refuses, 404 for one
  that names no account, and otherwise the account, the sum of its entries, and its latest fifty
  entries with their cents. The balance page alone can fail for an existing account: a sum that
  is no safe integer is answered 400, as if the client had sent a bad amount.
\<close>
theorem account_pages_answer:
  assumes inv: "bank_inv s" "bank_inv s'" and grow: "grows s s'" and valid: "\<And>x. parseUUID x \<Longrightarrow> uuid_form x"
    and k: "k = map lower_hex i"
  shows "if \<not> parseUUID i then AccountsController_get parseUUID i s = Inl BadRequest \<and>
      AccountsController_balance parseUUID i s s' = Inl BadRequest \<and>
      AccountsController_statement parseUUID i s s' = Inl BadRequest
    else if \<not> account_exists k s then
      fst (bank_answer show 200 (account_json to_iso) (AccountsController_get parseUUID i s)) = 404 \<and>
      fst (bank_answer show 200 balance_json (AccountsController_balance parseUUID i s s')) = 404 \<and>
      AccountsController_statement parseUUID i s s' = Inl (Domain (AccountNotFoundError i))
    else (\<exists>a. AccountsController_get parseUUID i s = Inr a \<and> account_id a = k) \<and>
      bank_answer show 200 balance_json (AccountsController_balance parseUUID i s s') =
        (if safe_int (ledger_sum k s') then (200, Some (balance_json (i, ledger_sum k s')))
         else (400, Some (error_body show (InvalidAmountError (js_of_int (ledger_sum k s')))))) \<and>
      AccountsController_statement parseUUID i s s' = Inr (i, map (\<lambda>l. \<lparr>se_transferId = sl_transferId l,
        se_amountCents = cents (sl_amount l), se_createdAt = sl_createdAt l\<rparr>) (take 50 (statement_lines k s')))"
proof (cases "parseUUID i")
  case True
  then have in_k: "uuid_in i = Some k" using uuid_form_in [OF valid] k by simp
  show ?thesis
  proof (cases "account_exists k s")
    case False
    with True getAccount_missing [OF in_k] show ?thesis
      by (simp add: AccountsController_get_def AccountsController_balance_def AccountsController_statement_def
          getBalance_def getStatement_def exception_status_table)
  next
    case ex: True
    obtain row where row: "find (\<lambda>r. acc_id r = k) (accounts s) = Some row" using ex by (auto simp: account_exists_find)
    then have acc: "getAccount i s = Inr (toAccount row)" "acc_id row = k"
      using in_k find_Some_in [OF row] by (simp_all add: getAccount_def AccountRepository_findById_def bind_uuid_def)
    show ?thesis
      using True ex acc by (auto simp: AccountsController_get_def balance_page [of parseUUID i, OF True in_k ex]
          AccountsController_statement_def getStatement_def statementOf_ok [OF inv(2) in_k]
          STATEMENT_LIMIT_def toAccount_def bank_answer_def error_answer_def exception_status_table)
  qed
qed (simp add: AccountsController_get_def AccountsController_balance_def AccountsController_statement_def)

theorem account_pages_answer_witness:
  "bank_answer (\<lambda>_. []) 200 balance_json (AccountsController_balance uuid_form shouting_alice sample_bank sample_bank) =
     (200, Some (JObj [(''accountId'', JStr shouting_alice), (''balanceCents'', JNum 1000)]))"
  using account_pages_answer [OF sample_inv sample_inv grows_refl _ sample_shout(1) [symmetric], of uuid_form "\<lambda>_. []" "\<lambda>_. []"]
  by (simp add: sample_shout sample_balance safe_small balance_json_def)

text \<open>
  POST /accounts never answers 500 for a fresh identifier: a body without an owner name of
  1 to 120 characters is 400 and changes nothing, any other is 201; the account is found at once
  under the answered identifier, its balance is zero and no other balance has changed.
\<close>
theorem account_post_answers:
  assumes inv: "bank_inv s" and uuid: "uuid_ok uuid" "\<not> account_exists uuid s" and parse: "parseUUID uuid"
    and run: "AccountsController_create uuid now body s = (r, t)"
    and status: "status = fst (bank_answer show 201 (account_json to_iso) r)"
  shows "case json_string ''ownerName'' body of
      Some name \<Rightarrow>
        if 1 \<le> length name \<and> length name \<le> 120
        then status = 201 \<and> r = Inr \<lparr>account_id = uuid, account_ownerName = name, account_createdAt = now\<rparr> \<and>
          AccountsController_get parseUUID uuid t = r \<and> AccountsController_balance parseUUID uuid t t = Inr (uuid, 0) \<and>
          bank_inv t \<and> balances t = balances s
        else status = 400 \<and> t = s
    | None \<Rightarrow> status = 400 \<and> t = s"
proof (cases "CreateAccountDto body")
  case (Inl e)
  then have "e = BadRequest" by (auto simp: CreateAccountDto_def split: option.splits if_splits)
  with Inl run status show ?thesis
    by (auto simp: AccountsController_create_def CreateAccountDto_def split: option.splits if_splits)
next
  case (Inr name)
  then have name: "json_string ''ownerName'' body = Some name" "1 \<le> length name \<and> length name \<le> 120"
    by (auto simp: CreateAccountDto_def split: option.splits if_splits)
  have "createAccount uuid now name s = (r, t)" using run Inr by (simp add: AccountsController_create_def)
  note c = createAccount_outcome [OF inv uuid this]
  have r: "r = Inr \<lparr>account_id = uuid, account_ownerName = name, account_createdAt = now\<rparr>" and t: "bank_inv t"
    "balances t = balances s" "ledger_sum uuid t = 0" "account_exists uuid t"
    using c name by (simp_all add: balances_def)
  have "AccountRepository_create uuid now name s = Inr (\<lparr>account_id = uuid, account_ownerName = name, account_createdAt = now\<rparr>, t)"
    using run Inr name r by (auto simp: AccountsController_create_def createAccount_def with_tx_def split: sum.splits)
  then have "accounts t = accounts s @ [\<lparr>acc_id = uuid, acc_owner_name = name, acc_created_at = now\<rparr>]"
    by (auto simp: AccountRepository_create_Inr)
  then have "getAccount uuid t = r"
    using uuid by (auto simp: getAccount_def AccountRepository_findById_def bind_uuid_def find_append account_exists_find
        toAccount_def r)
  then show ?thesis
    using name r t uuid parse status
    by (simp add: AccountsController_get_def AccountsController_balance_def getBalance_def balanceOf_def bind_uuid_def
        Money_fromCents_of_int safe_small)
qed

theorem account_post_answers_witness:
  "fst (AccountsController_create sample_id 3 (JObj [(''ownerName'', JStr ''Carol'')]) sample_bank) =
     Inr \<lparr>account_id = sample_id, account_ownerName = ''Carol'', account_createdAt = 3\<rparr>"
proof -
  have new: "\<not> account_exists sample_id sample_bank"
    by (simp add: sample_bank_def opened_bank_def migrated_bank_def account_exists_def) code_simp
  obtain r t where run: "AccountsController_create sample_id 3 (JObj [(''ownerName'', JStr ''Carol'')]) sample_bank = (r, t)"
    by (metis prod.exhaust)
  from account_post_answers [OF sample_inv sample_id_ok new _ run refl, of "\<lambda>_. True" "\<lambda>_. []" "\<lambda>_. []"]
  show ?thesis by (simp add: run json_string_def)
qed

end
