(* ===== verification/BankReply.thy ===== *)
theory BankReply
  imports BankInterbank
begin

text \<open>
  How Bank A applies the Hub's outcome of a settlement it requested
  (src/interbank-transfers/interbank-reply.service.ts): a confirmation settles the saga, anything
  else refunds the payer out of suspense. The event is read from a message, so its outcome is
  whatever the JSON holds; the code only tells CONFIRMED from the rest.
\<close>

subsection \<open>InterbankReplyService\<close>

record outcome_event =
  oe_settlementId :: string
  oe_outcome :: "json option"
  oe_reason :: "json option"

definition compensation_key :: "string \<Rightarrow> string" where
  "compensation_key originalTransferId = ''compensation-'' @ originalTransferId"

definition compensate_tx :: "int \<Rightarrow> transfer \<Rightarrow> string \<Rightarrow> unit bank_tx" where
  "compensate_tx now reversal originalTransferId =
     tx_bind (TransferRepository_insert now reversal (compensation_key originalTransferId)) (\<lambda>record.
     tx_bind (case record of
         None \<Rightarrow> tx_return ()
       | Some _ \<Rightarrow> tx_bind (tx_check (lift_domain (Transfer_entries reversal))) (\<lambda>entries. ledger_append now entries))
       (\<lambda>_. markCompensated now originalTransferId))"

definition compensate ::
  "(bank_db \<Rightarrow> bank_db) \<Rightarrow> string \<Rightarrow> int \<Rightarrow> string \<Rightarrow> bank_db \<Rightarrow> (bank_error + unit) \<times> bank_db" where
  "compensate i2 uuid now originalTransferId s =
     (case TransferRepository_findById originalTransferId s of
        Inl e \<Rightarrow> (Inl e, s)
      | Inr None \<Rightarrow>
          (Inl (Failure (''Local transfer '' @ originalTransferId @ '' not found for compensation.'')), s)
      | Inr (Some original) \<Rightarrow>
        (case Transfer_create uuid SUSPENSE_ACCOUNT_ID (rec_payerAccountId original) (rec_amount original) of
           Inl e \<Rightarrow> (Inl (Domain e), s)
         | Inr reversal \<Rightarrow> with_tx (compensate_tx now reversal originalTransferId) (i2 s)))"

text \<open>\<open>i1\<close> runs after the saga row was read, \<open>i2\<close> before the compensating transaction begins.\<close>

definition handle ::
  "(bank_db \<Rightarrow> bank_db) \<Rightarrow> (bank_db \<Rightarrow> bank_db) \<Rightarrow> string \<Rightarrow> int \<Rightarrow> outcome_event \<Rightarrow> bank_db \<Rightarrow>
   (bank_error + unit) \<times> bank_db" where
  "handle i1 i2 uuid now event s =
     (case InterbankRepository_findById (oe_settlementId event) s of
        Inl e \<Rightarrow> (Inl e, s)
      | Inr None \<Rightarrow> (Inl (Failure (''No interbank transfer found for '' @ oe_settlementId event @ ''.'')), s)
      | Inr (Some interbank) \<Rightarrow>
          if ibr_status interbank \<noteq> DEBITED then (Inr (), s)
          else if oe_outcome event = Some (JStr ''CONFIRMED'')
            then with_tx (markConfirmed now (oe_settlementId event)) (i1 s)
          else compensate i2 uuid now (oe_settlementId event) (i1 s))"

subsection \<open>The consumer\<close>

text \<open>
  The settlement id of a message; any other JSON value reaches PostgreSQL as no UUID or as
  NULL, and the handler throws.
\<close>

definition decode_outcome :: "json option \<Rightarrow> bank_error + outcome_event" where
  "decode_outcome content = (case content of
     None \<Rightarrow> Inl (Failure ''SyntaxError'')
   | Some j \<Rightarrow> (case json_string ''settlementId'' j of
       None \<Rightarrow> Inl (Failure ''settlementId'')
     | Some i \<Rightarrow> Inr \<lparr>oe_settlementId = i, oe_outcome = json_field ''outcome'' j, oe_reason = json_field ''reason'' j\<rparr>))"

text \<open>\<open>content\<close> is the outcome of \<open>JSON.parse\<close>, None when it throws; a failure is dead-lettered.\<close>

definition onMessage ::
  "(bank_db \<Rightarrow> bank_db) \<Rightarrow> (bank_db \<Rightarrow> bank_db) \<Rightarrow> string \<Rightarrow> int \<Rightarrow> json option \<Rightarrow> bank_db \<Rightarrow> ack \<times> bank_db" where
  "onMessage i1 i2 uuid now content s =
     (case decode_outcome content of
        Inl e \<Rightarrow> (Nack, s)
      | Inr event \<Rightarrow> (case handle i1 i2 uuid now event s of
          (Inl e, t) \<Rightarrow> (Nack, t) | (Inr _, t) \<Rightarrow> (Ack, t)))"

subsection \<open>The compensating transaction\<close>

definition refund_row :: "string \<Rightarrow> int \<Rightarrow> string \<Rightarrow> transfer_row \<Rightarrow> transfer_row" where
  "refund_row uuid now oid r = \<lparr>trow_id = uuid, trow_idempotency_key = compensation_key oid,
     trow_payer_account_id = SUSPENSE_ACCOUNT_ID, trow_payee_account_id = trow_payer_account_id r,
     trow_amount = trow_amount r, trow_created_at = now\<rparr>"

lemma refund_row_sel [simp]:
  "trow_id (refund_row u now oid r) = u" "trow_idempotency_key (refund_row u now oid r) = compensation_key oid"
  "trow_payer_account_id (refund_row u now oid r) = SUSPENSE_ACCOUNT_ID"
  "trow_payee_account_id (refund_row u now oid r) = trow_payer_account_id r"
  "trow_amount (refund_row u now oid r) = trow_amount r"
  by (simp_all add: refund_row_def)

text \<open>The transfer a saga row accompanies: from a customer to suspense.\<close>

definition saga_leg :: "string \<Rightarrow> transfer_row \<Rightarrow> bank_db \<Rightarrow> bool" where
  "saga_leg k r s \<longleftrightarrow> r \<in> set (transfers s) \<and> trow_id r = k \<and> trow_payee_account_id r = SUSPENSE_ACCOUNT_ID"

lemma saga_leg_grows: "grows s t \<Longrightarrow> saga_leg k r s \<Longrightarrow> saga_leg k r t"
  by (auto simp: saga_leg_def intro: grows_transfer)

lemma saga_leg_exists:
  "bank_inv s \<Longrightarrow> interbank_status_of k s = Some st \<Longrightarrow> \<exists>r. saga_leg k r s"
  by (auto simp: bank_inv_def interbank_ok_def interbank_status_of_def saga_leg_def dest!: find_Some_in)

lemma saga_leg_find:
  "bank_inv s \<Longrightarrow> saga_leg k r s \<Longrightarrow> find (\<lambda>r. trow_id r = k) (transfers s) = Some r"
  by (simp add: saga_leg_def find_key_eq bank_inv_def transfers_ok_def)

lemma saga_leg_ok:
  assumes "bank_inv s" and "saga_leg k r s"
  shows "row_ok s r" and "trow_payer_account_id r \<noteq> SUSPENSE_ACCOUNT_ID"
    and "uuid_in (trow_payer_account_id r) = Some (trow_payer_account_id r)"
  using transfer_in_ok [OF assms(1), of r] assms(2) by (auto simp: saga_leg_def row_ok_def)

lemma compensation_key_length: "uuid_in oid = Some k \<Longrightarrow> length (compensation_key oid) \<le> 255"
  using uuid_in_length [of oid k] by (simp add: compensation_key_def)

lemma reversal_create:
  assumes "bank_inv s" and "saga_leg k r s"
  shows "Transfer_create uuid SUSPENSE_ACCOUNT_ID (trow_payer_account_id r) (Money (trow_amount r)) = Inr
    \<lparr>tr_id = uuid, tr_payerAccountId = SUSPENSE_ACCOUNT_ID, tr_payeeAccountId = trow_payer_account_id r,
     tr_amount = Money (trow_amount r)\<rparr>"
  using saga_leg_ok [OF assms] by (simp add: Transfer_create_Inr row_ok_def)

lemma compensate_tx_ok:
  assumes inv: "bank_inv s" and leg: "saga_leg k r s" and uuid: "uuid_ok uuid" and oid: "uuid_in oid = Some k"
  shows "compensate_tx now \<lparr>tr_id = uuid, tr_payerAccountId = SUSPENSE_ACCOUNT_ID,
      tr_payeeAccountId = trow_payer_account_id r, tr_amount = Money (trow_amount r)\<rparr> oid s =
    (if key_taken (compensation_key oid) s then Inr ((), update_debited COMPENSATED now k s)
     else if transfer_exists uuid s then Inl (Db (UniqueViolation ''transfers_pkey''))
     else Inr ((), update_debited COMPENSATED now k (post (refund_row uuid now oid r) s)))"
proof -
  let ?t = "\<lparr>tr_id = uuid, tr_payerAccountId = SUSPENSE_ACCOUNT_ID,
      tr_payeeAccountId = trow_payer_account_id r, tr_amount = Money (trow_amount r)\<rparr>"
  note r = saga_leg_ok [OF inv leg]
  have t: "transfer_ok ?t" using uuid r(1) by (simp add: transfer_ok_def money_ok_def row_ok_def)
  have p: "uuid_in (tr_payerAccountId ?t) = Some SUSPENSE_ACCOUNT_ID"
    and q: "uuid_in (tr_payeeAccountId ?t) = Some (trow_payer_account_id r)" using r(3) by simp_all
  have ex: "account_exists SUSPENSE_ACCOUNT_ID s" "account_exists (trow_payer_account_id r) s"
    using bank_inv_system [OF inv] r(1) by (simp_all add: row_ok_def)
  obtain es where es: "Transfer_entries ?t = Inr es"
    using t by (simp add: Transfer_entries_ok transfer_ok_def)
  have row: "new_row now ?t (compensation_key oid) SUSPENSE_ACCOUNT_ID (trow_payer_account_id r) = refund_row uuid now oid r"
    by (simp add: new_row_def refund_row_def)
  note app = ledger_append_ok [OF t p q ex es, of now "compensation_key oid", unfolded row]
  have key: "length (compensation_key oid) \<le> 255" "1 \<le> length (compensation_key oid)"
    using compensation_key_length [OF oid] by (simp_all add: compensation_key_def)
  show ?thesis
    using key ex r(2)
    by (simp add: compensate_tx_def TransferRepository_insert_ok [OF t p q] tx_bind_def tx_check_def es row app
        markCompensated_def bind_uuid_def oid)
qed

lemma refund_row_fits:
  assumes inv: "bank_inv s" and leg: "saga_leg k r s" and "uuid_ok uuid" and oid: "uuid_in oid = Some k"
    and "\<not> key_taken (compensation_key oid) s" and "\<not> transfer_exists uuid s"
  shows "row_fits s (refund_row uuid now oid r)"
  using assms(3,5,6) saga_leg_ok [OF inv leg] bank_inv_system [OF inv] compensation_key_length [OF oid]
  by (auto simp: row_fits_def row_ok_def suspense_ok) (simp add: compensation_key_def)

lemma findById_status:
  "uuid_in i = Some k \<Longrightarrow> InterbankRepository_findById i s =
     Inr (map_option toInterbankRecord (find (\<lambda>r. ib_transfer_id r = k) (interbank_transfers s)))"
  by (simp add: InterbankRepository_findById_def bind_uuid_def)

text \<open>What \<open>handle\<close> does with a saga that was DEBITED when it looked.\<close>

lemma handle_debited:
  assumes inv: "bank_inv (i1 s)" "bank_inv (i2 (i1 s))" and g: "grows (i1 s) (i2 (i1 s))"
    and leg: "saga_leg k r (i1 s)" and st: "interbank_status_of k s = Some DEBITED"
    and oid: "uuid_in (oe_settlementId ev) = Some k" and uuid: "uuid_ok uuid"
  shows "handle i1 i2 uuid now ev s =
    (if oe_outcome ev = Some (JStr ''CONFIRMED'') then (Inr (), update_debited CONFIRMED now k (i1 s))
     else if key_taken (compensation_key (oe_settlementId ev)) (i2 (i1 s))
       then (Inr (), update_debited COMPENSATED now k (i2 (i1 s)))
     else if transfer_exists uuid (i2 (i1 s)) then (Inl (Db (UniqueViolation ''transfers_pkey'')), i2 (i1 s))
     else (Inr (), update_debited COMPENSATED now k
             (post (refund_row uuid now (oe_settlementId ev) r) (i2 (i1 s)))))"
proof -
  from st obtain i where i: "find (\<lambda>r. ib_transfer_id r = k) (interbank_transfers s) = Some i" "ib_status i = DEBITED"
    by (auto simp: interbank_status_of_def)
  have find: "TransferRepository_findById (oe_settlementId ev) (i1 s) = Inr (Some (row_record r))"
    using saga_leg_find [OF inv(1) leg] by (simp add: TransferRepository_findById_ok [OF inv(1) oid])
  show ?thesis
    using i by (simp add: handle_def findById_status [OF oid] toInterbankRecord_def markConfirmed_def tx_bind_def
        bind_uuid_def oid with_tx_def compensate_def find reversal_create [OF inv(1) leg]
        compensate_tx_ok [OF inv(2) saga_leg_grows [OF g leg] uuid oid])
qed

subsection \<open>Deliveries\<close>

definition settled :: "string option \<Rightarrow> bank_db \<Rightarrow> bool" where
  "settled i s \<longleftrightarrow> (case i of None \<Rightarrow> False | Some k \<Rightarrow>
     (case interbank_status_of k s of None \<Rightarrow> False | Some st \<Rightarrow> st \<noteq> DEBITED))"

text \<open>A delivery with the fresh identifier and the time its handling would use.\<close>

type_synonym delivery = "string \<times> int \<times> outcome_event"

definition deliver :: "delivery \<Rightarrow> bank_db \<Rightarrow> (bank_error + unit) \<times> bank_db" where
  "deliver d s = (case d of (uuid, now, event) \<Rightarrow> handle id id uuid now event s)"

definition delivery_key :: "delivery \<Rightarrow> string option" where
  "delivery_key d = uuid_in (oe_settlementId (snd (snd d)))"

lemma interbank_same_after:
  "insert_transfer_row row s = Inr (x, t) \<Longrightarrow> interbank_transfers t = interbank_transfers s"
  by (auto simp: insert_transfer_row_def tx_simps split: if_splits sum.splits)

lemma TransferRepository_insert_interbank:
  "TransferRepository_insert now tr key s = Inr (x, t) \<Longrightarrow> interbank_transfers t = interbank_transfers s"
  by (auto simp: TransferRepository_insert_def tx_simps dest: interbank_same_after)

lemma ledger_append_interbank:
  "ledger_append now es s = Inr (x, t) \<Longrightarrow> interbank_transfers t = interbank_transfers s"
  by (induction es arbitrary: s) (fastforce simp: ledger_insert_def tx_simps split: if_splits)+

lemma compensate_tx_interbank:
  assumes "compensate_tx now tr oid s = Inr (x, t)"
  shows "\<exists>k u. uuid_in oid = Some k \<and> interbank_transfers u = interbank_transfers s \<and> t = update_debited COMPENSATED now k u"
  using assms
  by (auto simp: compensate_tx_def tx_simps markCompensated_def split: option.splits
      dest!: TransferRepository_insert_interbank ledger_append_interbank)

lemma status_cong: "interbank_transfers u = interbank_transfers s \<Longrightarrow> interbank_status_of k u = interbank_status_of k s"
  by (simp add: interbank_status_of_def)

lemma markConfirmed_Inr:
  "markConfirmed now i s = Inr (x, t) \<longleftrightarrow> (\<exists>k. uuid_in i = Some k \<and> t = update_debited CONFIRMED now k s)"
  by (auto simp: markConfirmed_def tx_simps)

lemma settled_iff: "settled i s \<longleftrightarrow> (\<exists>k st. i = Some k \<and> interbank_status_of k s = Some st \<and> st \<noteq> DEBITED)"
  by (auto simp: settled_def split: option.splits)

lemma compensate_cases:
  "compensate i2 uuid now oid s = (res, t) \<Longrightarrow>
   (\<exists>e. res = Inl e \<and> (t = s \<or> t = i2 s)) \<or> (\<exists>tr. res = Inr () \<and> compensate_tx now tr oid (i2 s) = Inr ((), t))"
  by (auto simp: compensate_def with_tx_def split: sum.splits option.splits)

lemma handle_not_debited:
  assumes "interbank_status_of k s \<noteq> Some DEBITED" and "uuid_in (oe_settlementId ev) = Some k"
  shows "snd (handle i1 i2 uuid now ev s) = s \<and>
    (fst (handle i1 i2 uuid now ev s) = Inr () \<longrightarrow> settled (Some k) s)"
  using assms by (cases "find (\<lambda>r. ib_transfer_id r = k) (interbank_transfers s)")
    (auto simp: handle_def findById_status toInterbankRecord_def interbank_status_of_def settled_iff)

lemma handle_live:
  assumes "interbank_status_of k s = Some DEBITED" and "uuid_in (oe_settlementId ev) = Some k"
  shows "handle i1 i2 uuid now ev s =
    (if oe_outcome ev = Some (JStr ''CONFIRMED'') then (Inr (), update_debited CONFIRMED now k (i1 s))
     else compensate i2 uuid now (oe_settlementId ev) (i1 s))"
  using assms by (auto simp: handle_def findById_status toInterbankRecord_def interbank_status_of_def
      markConfirmed_def tx_bind_def bind_uuid_def with_tx_def)

text \<open>All a delivery does to the saga table is at most one guarded update of its own row.\<close>

lemma deliver_cases:
  "snd (deliver d s) = s \<and> (fst (deliver d s) = Inr () \<longrightarrow> settled (delivery_key d) s) \<or>
   (\<exists>k st u now. delivery_key d = Some k \<and> interbank_status_of k s = Some DEBITED \<and> st \<noteq> DEBITED \<and>
      interbank_transfers u = interbank_transfers s \<and> snd (deliver d s) = update_debited st now k u)"
proof (cases d)
  case (fields uuid now ev)
  then have d: "deliver d s = handle id id uuid now ev s" "delivery_key d = uuid_in (oe_settlementId ev)"
    by (simp_all add: deliver_def delivery_key_def)
  show ?thesis
  proof (cases "uuid_in (oe_settlementId ev)")
    case None
    then show ?thesis by (simp add: d handle_def InterbankRepository_findById_def bind_uuid_def)
  next
    case k: (Some k)
    show ?thesis
    proof (cases "interbank_status_of k s = Some DEBITED")
      case False
      with handle_not_debited [OF False k, of id id uuid now] k show ?thesis by (simp add: d)
    next
      case live: True
      obtain res t where run: "handle id id uuid now ev s = (res, t)" by fastforce
      show ?thesis
      proof (cases "oe_outcome ev = Some (JStr ''CONFIRMED'')")
        case True
        then have "t = update_debited CONFIRMED now k s" using run by (simp add: handle_live [OF live k])
        then show ?thesis using live k run by (auto simp: d)
      next
        case False
        then have "compensate id uuid now (oe_settlementId ev) s = (res, t)"
          using run by (simp add: handle_live [OF live k])
        from compensate_cases [OF this] show ?thesis
        proof (elim disjE exE conjE)
          fix tr assume "compensate_tx now tr (oe_settlementId ev) (id s) = Inr ((), t)"
          then obtain u where "interbank_transfers u = interbank_transfers s" "t = update_debited COMPENSATED now k u"
            using compensate_tx_interbank k by fastforce
          then show ?thesis using live k run by (auto simp: d)
        qed (simp_all add: d run)
      qed
    qed
  qed
qed

lemma deliver_failed: "deliver d s = (Inl e, t) \<Longrightarrow> t = s"
  by (auto simp: deliver_def handle_def compensate_def with_tx_def split: prod.splits sum.splits option.splits if_splits)

lemma settled_marked:
  assumes "interbank_status_of k s = Some DEBITED" and "st \<noteq> DEBITED" and "interbank_transfers u = interbank_transfers s"
  shows "settled i (update_debited st now k u) \<longleftrightarrow> i = Some k \<or> settled i s"
  using assms(1,2) status_cong [OF assms(3)] by (auto simp: settled_iff status_update_debited)

interpretation replies: idempotent_consumer deliver delivery_key settled
proof
  fix d s a k
  show "settled (delivery_key d) s \<Longrightarrow> snd (deliver d s) = s"
    using deliver_cases [of d s] by (auto simp: settled_iff)
  show "fst (deliver d s) = Inr a \<Longrightarrow> settled (delivery_key d) (snd (deliver d s))"
    using deliver_cases [of d s] by (auto simp: settled_marked)
  show "settled k s \<Longrightarrow> settled k (snd (deliver d s))"
    using deliver_cases [of d s] by (auto simp: settled_marked)
qed

subsection \<open>Properties\<close>

lemma balances_update [simp]: "balances (update_debited st now k s) = balances s"
  by (simp add: balances_def ledger_sum_def)

lemma key_taken_update [simp]: "key_taken key (update_debited st now k s) = key_taken key s"
  by (simp add: key_taken_def)

lemma status_grows:
  assumes "grows s t" and "interbank_status_of k s \<noteq> None"
  shows "interbank_status_of k t \<noteq> None"
proof -
  from assms(2) have "k \<in> fst ` set (map ib_ident (interbank_transfers s))"
    by (auto simp: interbank_status_of_def ib_ident_def image_iff dest!: find_Some_in)
  then have "k \<in> fst ` set (map ib_ident (interbank_transfers t))"
    using assms(1) prefix_set_subset unfolding grows_def by blast
  then show ?thesis by (auto simp: interbank_status_of_def ib_ident_def find_None)
qed

lemma refund_posted_inv:
  "bank_inv s \<Longrightarrow> saga_leg k r s \<Longrightarrow> uuid_ok uuid \<Longrightarrow> uuid_in oid = Some k \<Longrightarrow>
   \<not> key_taken (compensation_key oid) s \<Longrightarrow> \<not> transfer_exists uuid s \<Longrightarrow>
   bank_inv (post (refund_row uuid now oid r) s)"
  by (rule bank_inv_post) (simp_all add: refund_row_fits system_account_def)

lemma settled_update:
  "interbank_status_of k s \<noteq> None \<Longrightarrow> st \<noteq> DEBITED \<Longrightarrow> settled (Some k) (update_debited st now k s)"
  by (auto simp: settled_iff status_update_debited)

text \<open>
  C5. An outcome settles its saga, and the payer is refunded at most once, whatever commits
  around the handler. If the handler saw the saga DEBITED and returns, the saga is settled; a
  confirmation moves no money; any other outcome leaves exactly one transfer under the
  compensation key, and unless that key was already there it moved the debited amount back
  from suspense to the payer.
\<close>
theorem reply_settles_once:
  assumes inv: "bank_inv s" "bank_inv (i1 s)" "bank_inv (i2 (i1 s))"
    and g: "grows s (i1 s)" "grows (i1 s) (i2 (i1 s))"
    and st: "interbank_status_of k s = Some DEBITED" and leg: "saga_leg k r s"
    and oid: "uuid_in (oe_settlementId ev) = Some k" and uuid: "uuid_ok uuid"
    and run: "handle i1 i2 uuid now ev s = (Inr (), t)"
  shows "bank_inv t \<and> settled (Some k) t \<and>
    (if oe_outcome ev = Some (JStr ''CONFIRMED'') then balances t = balances (i1 s)
     else key_taken (compensation_key (oe_settlementId ev)) t \<and>
       balances t = (if key_taken (compensation_key (oe_settlementId ev)) (i2 (i1 s)) then balances (i2 (i1 s))
         else move SUSPENSE_ACCOUNT_ID (trow_payer_account_id r) (trow_amount r) (balances (i2 (i1 s)))))"
proof -
  let ?s = "i2 (i1 s)" and ?key = "compensation_key (oe_settlementId ev)"
  let ?row = "refund_row uuid now (oe_settlementId ev) r"
  have leg1: "saga_leg k r (i1 s)" and leg2: "saga_leg k r ?s"
    using leg g saga_leg_grows grows_trans by blast+
  have st1: "interbank_status_of k (i1 s) \<noteq> None" and st2: "interbank_status_of k ?s \<noteq> None"
    using st g status_grows by (metis option.distinct(1))+
  note run' = run [unfolded handle_debited [of i1 s i2 k r ev uuid now, OF inv(2,3) g(2) leg1 st oid uuid]]
  show ?thesis
  proof (cases "oe_outcome ev = Some (JStr ''CONFIRMED'') \<or> key_taken ?key ?s")
    case True
    with run' inv st1 st2 show ?thesis
      by (auto simp: bank_inv_update settled_update split: if_splits)
  next
    case False
    with run' have t: "t = update_debited COMPENSATED now k (post ?row ?s)" and fresh: "\<not> transfer_exists uuid ?s"
      by (auto split: if_splits)
    have "bank_inv (post ?row ?s)"
      using refund_posted_inv [OF inv(3) leg2 uuid oid] False fresh by blast
    moreover have "balances (post ?row ?s) = move SUSPENSE_ACCOUNT_ID (trow_payer_account_id r) (trow_amount r) (balances ?s)"
      using balances_post [of ?row ?s] saga_leg_ok(2) [OF inv(3) leg2] by simp
    moreover have "interbank_status_of k (post ?row ?s) \<noteq> None" using st2 by (simp add: interbank_status_of_def)
    ultimately show ?thesis
      using False by (simp add: t bank_inv_update settled_update)
  qed
qed

definition sample_rejected :: outcome_event where
  "sample_rejected = \<lparr>oe_settlementId = sample_id, oe_outcome = Some (JStr ''REVERSED''), oe_reason = None\<rparr>"

definition sample_confirmed :: outcome_event where
  "sample_confirmed = \<lparr>oe_settlementId = sample_id, oe_outcome = Some (JStr ''CONFIRMED''), oe_reason = None\<rparr>"

lemma sample_saga_facts:
  "bank_inv sample_saga_bank" "saga_leg sample_id sample_ib_row sample_saga_bank"
  "interbank_status_of sample_id sample_saga_bank = Some DEBITED"
  "\<not> key_taken (compensation_key sample_id) sample_saga_bank" "\<not> transfer_exists sample_id2 sample_saga_bank"
proof -
  have fits: "row_fits sample_bank sample_ib_row"
    using sample_id_ok sample_uuids suspense_ok sample_names bank_inv_system [OF sample_inv] sample_fresh
    by (auto simp: row_fits_def row_ok_def sample_ib_row_def safe_small key_taken_def sample_transfers seed_row_def)
  show "bank_inv sample_saga_bank"
    unfolding sample_saga_bank_def
    by (rule bank_inv_open_saga [OF sample_inv fits]) (simp_all add: sample_ib_row_def sample_balance)
  show "saga_leg sample_id sample_ib_row sample_saga_bank"
    by (simp add: saga_leg_def sample_saga_bank_def) (simp add: sample_ib_row_def)
  show "interbank_status_of sample_id sample_saga_bank = Some DEBITED"
    using status_open_saga [OF sample_inv, of sample_ib_row sample_id] sample_fresh
    by (simp add: sample_saga_bank_def) (simp add: sample_ib_row_def)
  show "\<not> key_taken (compensation_key sample_id) sample_saga_bank"
    by (simp add: key_taken_def sample_saga_bank_def sample_transfers)
      (simp add: seed_row_def sample_ib_row_def compensation_key_def)
  show "\<not> transfer_exists sample_id2 sample_saga_bank"
    by (simp add: transfer_exists_def sample_saga_bank_def sample_transfers)
      (simp add: seed_row_def sample_ib_row_def sample_id_def sample_id2_def)
qed

lemma sample_rejected_run:
  "handle id id sample_id2 9 sample_rejected sample_saga_bank =
     (Inr (), update_debited COMPENSATED 9 sample_id (post (refund_row sample_id2 9 sample_id sample_ib_row) sample_saga_bank))"
  using handle_debited [of id sample_saga_bank id sample_id sample_ib_row sample_rejected sample_id2 9]
    sample_saga_facts sample_id_ok sample_id2_ok by (simp add: sample_rejected_def)

theorem reply_settles_once_witness:
  "balances (snd (handle id id sample_id2 9 sample_rejected sample_saga_bank)) =
     move SUSPENSE_ACCOUNT_ID alice 400 (balances sample_saga_bank)"
  using reply_settles_once [of sample_saga_bank id id sample_id sample_ib_row sample_rejected sample_id2 9]
    sample_saga_facts sample_id_ok sample_id2_ok sample_rejected_run
  by (simp add: sample_rejected_def sample_ib_row_def)

text \<open>
  Outcomes may be delivered any number of times, in any order and with others between
  them: once one delivery for a settlement has been processed, every later delivery for the
  same settlement, even one with a different outcome, leaves the database exactly as it is.
\<close>
theorem redelivered_outcome_ignored:
  assumes "fst (deliver d s) = Inr ()" and "delivery_key d' = delivery_key d"
  shows "fold (\<lambda>d s. snd (deliver d s)) (d # between @ d' # later) s =
         fold (\<lambda>d s. snd (deliver d s)) (d # between @ later) s"
  by (rule replies.redelivery_ignored [OF assms])

theorem redelivered_outcome_ignored_witness:
  "fold (\<lambda>d s. snd (deliver d s)) ((sample_id2, 9, sample_rejected) # [] @ (sample_id2, 11, sample_confirmed) # [])
     sample_saga_bank =
   fold (\<lambda>d s. snd (deliver d s)) ((sample_id2, 9, sample_rejected) # [] @ []) sample_saga_bank"
  by (rule redelivered_outcome_ignored)
    (simp_all add: deliver_def sample_rejected_run delivery_key_def, simp add: sample_rejected_def sample_confirmed_def)

text \<open>
  C38. The guard is read outside the transaction, so contradicting outcomes that race are both
  applied. If a confirmation is processed in full after the handler of another outcome has read
  DEBITED (a late event and a reconciliation pass, say), the refund is still posted: the saga
  ends CONFIRMED and the payer has the money back.
\<close>
theorem confirmed_and_refunded:
  assumes inv: "bank_inv s" and st: "interbank_status_of k s = Some DEBITED" and leg: "saga_leg k r s"
    and oid: "uuid_in (oe_settlementId ev) = Some k" "uuid_in (oe_settlementId conf) = Some k"
    and uuid: "uuid_ok uuid" "\<not> transfer_exists uuid s"
    and free: "\<not> key_taken (compensation_key (oe_settlementId ev)) s"
    and conf: "oe_outcome conf = Some (JStr ''CONFIRMED'')" and other: "oe_outcome ev \<noteq> Some (JStr ''CONFIRMED'')"
  shows "\<exists>t. handle (\<lambda>s. snd (handle id id uuid' now' conf s)) id uuid now ev s = (Inr (), t) \<and>
    interbank_status_of k t = Some CONFIRMED \<and>
    balances t = move SUSPENSE_ACCOUNT_ID (trow_payer_account_id r) (trow_amount r) (balances s)"
proof -
  let ?s1 = "update_debited CONFIRMED now' k s"
  let ?row = "refund_row uuid now (oe_settlementId ev) r"
  have s1: "snd (handle id id uuid' now' conf s) = ?s1" using handle_live [OF st oid(2)] conf by simp
  have inv1: "bank_inv ?s1" by (rule bank_inv_update [OF inv])
  have leg1: "saga_leg k r ?s1" using leg by (simp add: saga_leg_def)
  have "handle (\<lambda>s. snd (handle id id uuid' now' conf s)) id uuid now ev s =
      (Inr (), update_debited COMPENSATED now k (post ?row ?s1))"
    using handle_debited [of "\<lambda>s. snd (handle id id uuid' now' conf s)" s id k r ev uuid now]
      s1 inv1 leg1 st oid uuid free other by (simp add: transfer_exists_def)
  moreover have "balances (post ?row ?s1) = move SUSPENSE_ACCOUNT_ID (trow_payer_account_id r) (trow_amount r) (balances s)"
    using balances_post [of ?row ?s1] saga_leg_ok(2) [OF inv leg] by simp
  moreover have "interbank_status_of k (post ?row ?s1) = Some CONFIRMED"
    using st by (simp add: status_update_debited status_cong [of "post ?row ?s1" ?s1])
  ultimately show ?thesis by (simp add: status_update_debited)
qed

theorem confirmed_and_refunded_witness:
  "\<exists>t. handle (\<lambda>s. snd (handle id id sample_id2 8 sample_confirmed s)) id sample_id2 9 sample_rejected sample_saga_bank
       = (Inr (), t) \<and> interbank_status_of sample_id t = Some CONFIRMED \<and>
     balances t = move SUSPENSE_ACCOUNT_ID (trow_payer_account_id sample_ib_row) (trow_amount sample_ib_row)
       (balances sample_saga_bank)"
  by (rule confirmed_and_refunded)
    (use sample_saga_facts sample_id_ok sample_id2_ok in
      \<open>simp_all add: sample_rejected_def sample_confirmed_def\<close>)

text \<open>
  C39. The key space of compensations is not reserved. If any transfer already carries the key
  \<open>compensation-<transfer id>\<close> (a client may send it as its Idempotency-Key), the rejected
  settlement is marked COMPENSATED but no balance moves: the payer is never refunded.
\<close>
theorem occupied_key_loses_refund:
  assumes inv: "bank_inv s" and st: "interbank_status_of k s = Some DEBITED"
    and oid: "uuid_in (oe_settlementId ev) = Some k" and uuid: "uuid_ok uuid"
    and other: "oe_outcome ev \<noteq> Some (JStr ''CONFIRMED'')"
    and taken: "key_taken (compensation_key (oe_settlementId ev)) s"
  shows "\<exists>t. handle id id uuid now ev s = (Inr (), t) \<and> interbank_status_of k t = Some COMPENSATED \<and>
    balances t = balances s \<and> transfers t = transfers s"
proof -
  obtain r where leg: "saga_leg k r s" using saga_leg_exists [OF inv st] by blast
  show ?thesis
    using handle_debited [of id s id k r ev uuid now] inv leg st oid uuid other taken
    by (simp add: status_update_debited)
qed

definition squatting_row :: transfer_row where
  "squatting_row = \<lparr>trow_id = sample_id2, trow_idempotency_key = compensation_key sample_id,
     trow_payer_account_id = alice, trow_payee_account_id = bob, trow_amount = 1, trow_created_at = 8\<rparr>"

lemma squatted_bank_inv: "bank_inv (post squatting_row sample_saga_bank)"
proof -
  have "account_exists alice sample_saga_bank" "account_exists bob sample_saga_bank"
    by (simp_all add: sample_saga_bank_def account_exists_def open_saga_def)
      (simp_all add: account_exists_def [symmetric] sample_bank_def)
  then have fits: "row_fits sample_saga_bank squatting_row"
    using sample_saga_facts(4,5) sample_uuids sample_names sample_id2_ok
    by (auto simp: row_fits_def row_ok_def squatting_row_def safe_small)
      (simp_all add: compensation_key_def sample_id_def)
  have "ledger_sum alice sample_saga_bank = 600"
    using ledger_sum_post [of sample_ib_row alice sample_bank] sample_names sample_balance
    by (simp add: sample_saga_bank_def ledger_sum_def [of _ "open_saga _ _ _ _"] ledger_sum_def [of _ "post _ _", symmetric]
        sample_ib_row_def)
      (simp add: ledger_sum_def sample_ib_row_def)
  then show ?thesis
    by (intro bank_inv_post [OF sample_saga_facts(1) fits]) (simp add: squatting_row_def)
qed

theorem occupied_key_loses_refund_witness:
  "\<exists>t. handle id id sample_id2 9 sample_rejected (post squatting_row sample_saga_bank) = (Inr (), t) \<and>
     interbank_status_of sample_id t = Some COMPENSATED \<and>
     balances t = balances (post squatting_row sample_saga_bank) \<and> transfers t = transfers (post squatting_row sample_saga_bank)"
  by (rule occupied_key_loses_refund [OF squatted_bank_inv])
    (use sample_saga_facts(3) sample_id_ok sample_id2_ok in
      \<open>simp_all add: sample_rejected_def interbank_status_of_def squatting_row_def\<close>)

text \<open>
  A message leaves the queue in one of two ways: it is acknowledged, and then its settlement
  is settled, or it is dead-lettered, and then it has changed nothing. This holds for every
  content, malformed ones included.
\<close>
theorem message_settles_or_changes_nothing:
  "case onMessage id id uuid now content s of
     (Ack, t) \<Rightarrow> \<exists>event. decode_outcome content = Inr event \<and> settled (uuid_in (oe_settlementId event)) t
   | (Nack, t) \<Rightarrow> t = s"
proof (cases "decode_outcome content")
  case (Inl e)
  then show ?thesis by (simp add: onMessage_def)
next
  case (Inr event)
  obtain res t where run: "handle id id uuid now event s = (res, t)" by fastforce
  have d: "deliver (uuid, now, event) s = (res, t)" using run by (simp add: deliver_def)
  show ?thesis
  proof (cases res)
    case Inl
    then have "t = s" using d deliver_failed by blast
    with \<open>decode_outcome content = Inr event\<close> run Inl show ?thesis by (simp add: onMessage_def)
  next
    case (Inr x)
    with replies.handle_marks [of "(uuid, now, event)" s x] d \<open>decode_outcome content = Inr event\<close> run
    show ?thesis by (simp add: onMessage_def delivery_key_def)
  qed
qed

end
