(* ===== verification/BankReconciliation.thy ===== *)
theory BankReconciliation
  imports BankReply
begin

text \<open>
  The safety net of the saga (src/interbank-transfers/reconciliation.service.ts): a sweep over
  the transfers that stayed DEBITED too long, which asks the Hub about each and applies the
  answer through the reply handler. The HTTP exchange is an argument: what \<open>fetch\<close> answers
  to a URL.
\<close>

text \<open>The status and the parsed body (None when \<open>json()\<close> throws), or no response at all.\<close>

datatype hub_response = FetchFailed | Response nat "json option"

definition STALE_AFTER_MS :: int where
  "STALE_AFTER_MS = 5 * 60 * 1000"

text \<open>
  What a pass depends on besides the database: the configured URL, the network, the identifier
  and time the handling of a transfer uses, and what other requests commit before it.
\<close>

record recon_env =
  re_hubUrl :: "bank_error + string"
  re_fetch :: "string \<Rightarrow> hub_response"
  re_uuid :: "string \<Rightarrow> string"
  re_now :: "string \<Rightarrow> int"
  re_before :: "string \<Rightarrow> bank_db \<Rightarrow> bank_db"

text \<open>\<open>rejectReason ?? undefined\<close>\<close>

definition nullish :: "json option \<Rightarrow> json option" where
  "nullish x = (if x = Some JNull then None else x)"

definition reconcile_handle :: "recon_env \<Rightarrow> string \<Rightarrow> json option \<Rightarrow> json option \<Rightarrow> bank_db \<Rightarrow> (bank_error + bool) \<times> bank_db" where
  "reconcile_handle env transferId outcome reason s =
     (case handle id id (re_uuid env transferId) (re_now env transferId)
             \<lparr>oe_settlementId = transferId, oe_outcome = outcome, oe_reason = reason\<rparr>
             (re_before env transferId s) of
        (Inl e, t) \<Rightarrow> (Inl e, t) | (Inr _, t) \<Rightarrow> (Inr True, t))"

definition reconcileOne :: "recon_env \<Rightarrow> string \<Rightarrow> bank_db \<Rightarrow> (bank_error + bool) \<times> bank_db" where
  "reconcileOne env transferId s =
     (case re_hubUrl env of
        Inl e \<Rightarrow> (Inl e, s)
      | Inr hubUrl \<Rightarrow>
        (case re_fetch env (hubUrl @ ''/settlements/'' @ transferId) of
           FetchFailed \<Rightarrow> (Inl (Failure ''fetch failed''), s)
         | Response status body \<Rightarrow>
             if status = 404 then
               reconcile_handle env transferId (Some (JStr ''REJECTED''))
                 (Some (JStr ''RECONCILIATION_NO_RECORD_AT_HUB'')) s
             else if \<not> (200 \<le> status \<and> status \<le> 299) then (Inr False, s)
             else (case body of
                None \<Rightarrow> (Inl (Failure ''SyntaxError''), s)
              | Some JNull \<Rightarrow> (Inl (Failure ''TypeError''), s)
              | Some hubView \<Rightarrow>
                  if json_field ''status'' hubView = Some (JStr ''PENDING'') then (Inr False, s)
                  else reconcile_handle env transferId (json_field ''status'' hubView)
                    (nullish (json_field ''rejectReason'' hubView)) s)))"

fun sweep_loop :: "recon_env \<Rightarrow> interbank_record list \<Rightarrow> nat \<Rightarrow> bank_db \<Rightarrow> (bank_error + nat) \<times> bank_db" where
  "sweep_loop env [] reconciled s = (Inr reconciled, s)"
| "sweep_loop env (transfer # stale) reconciled s =
     (case reconcileOne env (ibr_transferId transfer) s of
        (Inl e, t) \<Rightarrow> (Inl e, t)
      | (Inr True, t) \<Rightarrow> sweep_loop env stale (reconciled + 1) t
      | (Inr False, t) \<Rightarrow> sweep_loop env stale reconciled t)"

definition sweep :: "recon_env \<Rightarrow> int \<Rightarrow> bank_db \<Rightarrow> (bank_error + nat \<times> nat) \<times> bank_db" where
  "sweep env now s =
     (let stale = findStaleDebited (now - STALE_AFTER_MS) s
      in case sweep_loop env stale 0 s of
           (Inl e, t) \<Rightarrow> (Inl e, t)
         | (Inr reconciled, t) \<Rightarrow> (Inr (length stale, reconciled), t))"

text \<open>The scheduled pass logs the result or the error.\<close>

definition recon_handleInterval :: "recon_env \<Rightarrow> int \<Rightarrow> bank_db \<Rightarrow> bank_db" where
  "recon_handleInterval env now s = snd (sweep env now s)"

subsection \<open>What the Hub's answer makes of one transfer\<close>

datatype verdict = Retry | Settle "json option" | Crash bank_error

text \<open>The decision table of \<open>reconcileOne\<close>.\<close>

definition verdict_of :: "hub_response \<Rightarrow> verdict" where
  "verdict_of r = (case r of
     FetchFailed \<Rightarrow> Crash (Failure ''fetch failed'')
   | Response status body \<Rightarrow>
       if status = 404 then Settle (Some (JStr ''REJECTED''))
       else if \<not> (200 \<le> status \<and> status \<le> 299) then Retry
       else (case body of
          None \<Rightarrow> Crash (Failure ''SyntaxError'')
        | Some JNull \<Rightarrow> Crash (Failure ''TypeError'')
        | Some v \<Rightarrow> if json_field ''status'' v = Some (JStr ''PENDING'') then Retry
                    else Settle (json_field ''status'' v)))"

lemma handle_ignores_reason:
  assumes "oe_settlementId ev' = oe_settlementId ev" and "oe_outcome ev' = oe_outcome ev"
  shows "handle i1 i2 uuid now ev' s = handle i1 i2 uuid now ev s"
  unfolding handle_def assms by (rule refl)

lemma reconcile_ignores_reason: "reconcile_handle env i outcome reason s = reconcile_handle env i outcome None s"
  unfolding reconcile_handle_def
  by (subst handle_ignores_reason [of _ "\<lparr>oe_settlementId = i, oe_outcome = outcome, oe_reason = None\<rparr>"]) simp_all

lemma reconcileOne_verdict:
  assumes "re_hubUrl env = Inr url"
  shows "reconcileOne env i s = (case verdict_of (re_fetch env (url @ ''/settlements/'' @ i)) of
      Crash e \<Rightarrow> (Inl e, s)
    | Retry \<Rightarrow> (Inr False, s)
    | Settle outcome \<Rightarrow> (case reconcile_handle env i outcome None s of (r, t) \<Rightarrow> (r, t)))"
  by (auto simp: reconcileOne_def assms verdict_of_def reconcile_ignores_reason [of env i _ "Some _"]
      reconcile_ignores_reason [of env i _ "nullish _"] split: hub_response.splits option.splits json.splits)

lemma reconcile_handle_live:
  assumes inv: "bank_inv s" and leg: "saga_leg k r s" and st: "interbank_status_of k s = Some DEBITED"
    and k: "uuid_ok k" and uuid: "uuid_ok (re_uuid env k)" "\<not> transfer_exists (re_uuid env k) s"
    and quiet: "re_before env k = id"
  shows "reconcile_handle env k outcome reason s = (Inr True,
    (if outcome = Some (JStr ''CONFIRMED'') then update_debited CONFIRMED (re_now env k) k s
     else if key_taken (compensation_key k) s then update_debited COMPENSATED (re_now env k) k s
     else update_debited COMPENSATED (re_now env k) k
            (post (refund_row (re_uuid env k) (re_now env k) k r) s)))"
  using handle_debited [of id s id k r "\<lparr>oe_settlementId = k, oe_outcome = outcome, oe_reason = reason\<rparr>"
      "re_uuid env k" "re_now env k"] assms
  by (simp add: reconcile_handle_def)

subsection \<open>Properties\<close>

text \<open>
  One reconciliation applies the Hub's verdict and nothing else. With no other writer in
  between, for a transfer that is DEBITED: an unreachable Hub or an unreadable body fails and
  changes nothing; an error status or PENDING leaves it for the next sweep; CONFIRMED settles
  it and moves no money; no record at the Hub or any other status refunds the payer.
\<close>
theorem reconcile_applies_verdict:
  assumes url: "re_hubUrl env = Inr url" and inv: "bank_inv s" and leg: "saga_leg k r s"
    and st: "interbank_status_of k s = Some DEBITED"
    and uuid: "uuid_ok (re_uuid env k)" "\<not> transfer_exists (re_uuid env k) s"
    and quiet: "re_before env k = id" and free: "\<not> key_taken (compensation_key k) s"
  shows "case verdict_of (re_fetch env (url @ ''/settlements/'' @ k)) of
      Crash e \<Rightarrow> reconcileOne env k s = (Inl e, s)
    | Retry \<Rightarrow> reconcileOne env k s = (Inr False, s)
    | Settle outcome \<Rightarrow> (\<exists>t. reconcileOne env k s = (Inr True, t) \<and>
        (if outcome = Some (JStr ''CONFIRMED'')
         then interbank_status_of k t = Some CONFIRMED \<and> balances t = balances s
         else interbank_status_of k t = Some COMPENSATED \<and>
           balances t = move SUSPENSE_ACCOUNT_ID (trow_payer_account_id r) (trow_amount r) (balances s)))"
proof (cases "verdict_of (re_fetch env (url @ ''/settlements/'' @ k))")
  case (Settle outcome)
  have k: "uuid_ok k" using saga_leg_ok(1) [OF inv leg] leg by (auto simp: row_ok_def saga_leg_def)
  let ?row = "refund_row (re_uuid env k) (re_now env k) k r"
  have "balances (post ?row s) = move SUSPENSE_ACCOUNT_ID (trow_payer_account_id r) (trow_amount r) (balances s)"
    using balances_post [of ?row s] saga_leg_ok(2) [OF inv leg] by simp
  moreover have "interbank_status_of k (post ?row s) = Some DEBITED" using st by (simp add: interbank_status_of_def)
  ultimately show ?thesis
    using Settle st free
    by (simp add: reconcileOne_verdict [OF url] reconcile_handle_live [OF inv leg st k uuid quiet] status_update_debited)
qed (simp_all add: reconcileOne_verdict [OF url])

definition sample_env :: recon_env where
  "sample_env = \<lparr>re_hubUrl = Inr ''http://hub'', re_fetch = (\<lambda>_. Response 404 None), re_uuid = (\<lambda>_. sample_id2),
     re_now = (\<lambda>_. 400000), re_before = (\<lambda>_. id)\<rparr>"

theorem reconcile_applies_verdict_witness:
  "\<exists>t. reconcileOne sample_env sample_id sample_saga_bank = (Inr True, t) \<and>
     interbank_status_of sample_id t = Some COMPENSATED"
  using reconcile_applies_verdict [of sample_env "''http://hub''" sample_saga_bank sample_id sample_ib_row]
    sample_saga_facts sample_id2_ok by (auto simp: sample_env_def verdict_of_def)

text \<open>A transfer a quiet pass can settle: DEBITED, with a fresh identifier, and the Hub has a verdict.\<close>

definition answerable :: "recon_env \<Rightarrow> string \<Rightarrow> string \<Rightarrow> bank_db \<Rightarrow> bool" where
  "answerable env url k s \<longleftrightarrow> interbank_status_of k s = Some DEBITED \<and> re_before env k = id
     \<and> (\<exists>outcome. verdict_of (re_fetch env (url @ ''/settlements/'' @ k)) = Settle outcome)
     \<and> uuid_ok (re_uuid env k) \<and> \<not> transfer_exists (re_uuid env k) s"

lemma reconcile_answerable:
  assumes url: "re_hubUrl env = Inr url" and inv: "bank_inv s" and a: "answerable env url k s"
  obtains st u where "reconcileOne env k s = (Inr True, update_debited st (re_now env k) k u)" "st \<noteq> DEBITED"
    "bank_inv u" "interbank_transfers u = interbank_transfers s"
    "\<And>i. transfer_exists i u \<Longrightarrow> transfer_exists i s \<or> i = re_uuid env k"
proof -
  from a obtain outcome where v: "verdict_of (re_fetch env (url @ ''/settlements/'' @ k)) = Settle outcome"
    and st: "interbank_status_of k s = Some DEBITED" and q: "re_before env k = id"
    and u: "uuid_ok (re_uuid env k)" "\<not> transfer_exists (re_uuid env k) s"
    unfolding answerable_def by blast
  obtain r where leg: "saga_leg k r s" using saga_leg_exists [OF inv st] by blast
  have k: "uuid_ok k" using saga_leg_ok(1) [OF inv leg] leg by (auto simp: row_ok_def saga_leg_def)
  note eq = reconcileOne_verdict [OF url, of k s, unfolded v verdict.case
      reconcile_handle_live [OF inv leg st k u q] prod.case]
  show thesis
  proof (cases "outcome = Some (JStr ''CONFIRMED'') \<or> key_taken (compensation_key k) s")
    case True
    with eq inv show thesis
      by (intro that [of "if outcome = Some (JStr ''CONFIRMED'') then CONFIRMED else COMPENSATED" s]) auto
  next
    case False
    with eq refund_posted_inv [OF inv leg u(1) _ _ u(2)] k show thesis
      by (intro that [of COMPENSATED "post (refund_row (re_uuid env k) (re_now env k) k r) s"]) auto
  qed
qed

text \<open>A loop over transfers the Hub can answer for settles them all, and only them.\<close>

lemma sweep_loop_settles:
  assumes url: "re_hubUrl env = Inr url" and "bank_inv s"
    and "\<forall>x \<in> set xs. answerable env url (ibr_transferId x) s"
    and "distinct (map ibr_transferId xs)" and "distinct (map (\<lambda>x. re_uuid env (ibr_transferId x)) xs)"
  shows "\<exists>t. sweep_loop env xs n s = (Inr (n + length xs), t) \<and> bank_inv t \<and>
    (\<forall>k. if k \<in> ibr_transferId ` set xs then settled (Some k) t
         else interbank_status_of k t = interbank_status_of k s)"
  using assms(2-)
proof (induction xs arbitrary: s n)
  case Nil
  then show ?case by simp
next
  case (Cons x xs)
  let ?k = "ibr_transferId x"
  have a: "answerable env url ?k s" using Cons.prems(2) by simp
  from reconcile_answerable [OF url Cons.prems(1) a] obtain st u where
    one: "reconcileOne env ?k s = (Inr True, update_debited st (re_now env ?k) ?k u)" "st \<noteq> DEBITED"
    and u: "bank_inv u" "interbank_transfers u = interbank_transfers s"
      "\<And>i. transfer_exists i u \<Longrightarrow> transfer_exists i s \<or> i = re_uuid env ?k" by metis
  let ?t = "update_debited st (re_now env ?k) ?k u"
  have status: "interbank_status_of k ?t = (if k = ?k then Some st else interbank_status_of k s)" for k
    using a by (simp add: status_update_debited status_cong [OF u(2)] answerable_def)
  have ex: "transfer_exists i ?t = transfer_exists i u" for i by (simp add: transfer_exists_def)
  have rest: "\<forall>y \<in> set xs. answerable env url (ibr_transferId y) ?t"
  proof
    fix y assume y: "y \<in> set xs"
    then have "ibr_transferId y \<noteq> ?k" "re_uuid env (ibr_transferId y) \<noteq> re_uuid env ?k"
      using Cons.prems(3,4) by (auto simp: image_iff)
    then show "answerable env url (ibr_transferId y) ?t"
      using Cons.prems(2) y u(3) by (auto simp: answerable_def status ex)
  qed
  have dist: "distinct (map ibr_transferId xs)" "distinct (map (\<lambda>x. re_uuid env (ibr_transferId x)) xs)"
    using Cons.prems(3,4) by simp_all
  from Cons.IH [OF bank_inv_update [OF u(1)] rest dist, of "n + 1"] obtain t where
    t: "sweep_loop env xs (n + 1) ?t = (Inr (n + 1 + length xs), t)" "bank_inv t"
    "\<forall>k. if k \<in> ibr_transferId ` set xs then settled (Some k) t
         else interbank_status_of k t = interbank_status_of k ?t" by blast
  have "?k \<notin> ibr_transferId ` set xs" using Cons.prems(3) by simp
  then have "settled (Some ?k) t" using t(3) one(2) by (auto simp: settled_iff status)
  then show ?case
    using one t by (auto simp: status)
qed


lemma sample_stale: "findStaleDebited (400000 - STALE_AFTER_MS) sample_saga_bank =
    [toInterbankRecord (saga_row sample_ib_row ''bank-b'' ''acc-7'')]"
  by (simp add: findStaleDebited_def sample_saga_bank_def sample_transfers sample_ib_params_def)
    (simp add: saga_row_def sample_ib_row_def STALE_AFTER_MS_def)


end
