(* ===== verification/BankSteps.thy ===== *)
theory BankSteps
  imports BankReconciliation
begin

text \<open>
  Bank A as a transition system: one step per committed transaction, with the outcome of the
  reads outside it as premises. Every interleaving of requests is a path of these steps, so
  what holds of all reachable databases holds under concurrency.
\<close>

subsection \<open>Steps and reachability\<close>

inductive bank_step :: "bank_db \<Rightarrow> bank_db \<Rightarrow> bool" where
  open_account: "uuid_ok uuid \<Longrightarrow> AccountRepository_create uuid now name s = Inr (a, t) \<Longrightarrow> bank_step s t"
| local_transfer: "uuid_ok uuid \<Longrightarrow> money_ok m \<Longrightarrow> Transfer_create uuid p q m = Inr tr \<Longrightarrow>
    execute_tx now tr key s = Inr (r, t) \<Longrightarrow> bank_step s t"
| interbank_debit: "uuid_ok uuid \<Longrightarrow> money_ok (ip_amount ps) \<Longrightarrow>
    Transfer_create uuid (ip_payerAccountId ps) SUSPENSE_ACCOUNT_ID (ip_amount ps) = Inr tr \<Longrightarrow>
    interbank_tx bankId now tr key ps s = Inr (r, t) \<Longrightarrow> bank_step s t"
| seed: "uuid_ok uuid \<Longrightarrow> money_ok m \<Longrightarrow> devSeed_tx uuid now a m s = Inr (u, t) \<Longrightarrow> bank_step s t"
| confirm: "markConfirmed now i s = Inr (u, t) \<Longrightarrow> bank_step s t"
| compensation: "uuid_ok uuid \<Longrightarrow> InterbankRepository_findById i s = Inr (Some interbank) \<Longrightarrow>
    TransferRepository_findById i s = Inr (Some original) \<Longrightarrow>
    Transfer_create uuid SUSPENSE_ACCOUNT_ID (rec_payerAccountId original) (rec_amount original) = Inr tr \<Longrightarrow>
    compensate_tx now tr i s = Inr (u, t) \<Longrightarrow> bank_step s t"
| relay: "tick publish commit locked now (outbox s) = (res, ob, sent) \<Longrightarrow> bank_step s (s\<lparr>outbox := ob\<rparr>)"

text \<open>What a committed transaction is, once the code of its service is worked out.\<close>

lemma compensation_cases:
  assumes inv: "bank_inv s" and uuid: "uuid_ok uuid" and ib: "InterbankRepository_findById i s = Inr (Some interbank)"
    and orig: "TransferRepository_findById i s = Inr (Some original)"
    and c: "Transfer_create uuid SUSPENSE_ACCOUNT_ID (rec_payerAccountId original) (rec_amount original) = Inr tr"
    and run: "compensate_tx now tr i s = Inr (u, t)"
  obtains k where "uuid_in i = Some k" "t = update_debited COMPENSATED now k s" "key_taken (compensation_key i) s"
  | k r where "uuid_in i = Some k" "saga_leg k r s" "row_fits s (refund_row uuid now i r)"
      "t = update_debited COMPENSATED now k (post (refund_row uuid now i r) s)"
proof -
  from ib obtain k where k: "uuid_in i = Some k" "interbank_status_of k s \<noteq> None"
    by (auto simp: InterbankRepository_findById_def bind_uuid_def interbank_status_of_def split: option.splits)
  then obtain r where leg: "saga_leg k r s" using saga_leg_exists [OF inv] by blast
  have "original = row_record r"
    using orig saga_leg_find [OF inv leg] by (simp add: TransferRepository_findById_ok [OF inv k(1)])
  with c have tr: "tr = \<lparr>tr_id = uuid, tr_payerAccountId = SUSPENSE_ACCOUNT_ID,
      tr_payeeAccountId = trow_payer_account_id r, tr_amount = Money (trow_amount r)\<rparr>"
    by (simp add: Transfer_create_Inr)
  note run' = run [unfolded tr compensate_tx_ok [OF inv leg uuid k(1)]]
  show thesis
  proof (cases "key_taken (compensation_key i) s")
    case True
    with run' k show thesis by (intro that(1)) auto
  next
    case False
    with run' refund_row_fits [OF inv leg uuid k(1) False] k leg show thesis
      by (intro that(2)) (auto split: if_splits)
  qed
qed

lemma bank_inv_outbox: "bank_inv s \<Longrightarrow> outbox_ok ob \<Longrightarrow> bank_inv (s\<lparr>outbox := ob\<rparr>)"
proof -
  assume inv: "bank_inv s" and ob: "outbox_ok ob"
  have ex: "account_exists k (s\<lparr>outbox := ob\<rparr>) = account_exists k s" for k by (simp add: account_exists_def)
  have "transfers_ok (s\<lparr>outbox := ob\<rparr>)"
    using inv ex by (auto simp: bank_inv_def transfers_ok_def intro: row_ok_mono)
  with inv ob ex show ?thesis
    by (auto simp: bank_inv_def accounts_ok_def interbank_ok_def solvent_def ledger_sum_def)
qed

lemma grows_accounts_outbox: "grows s (s\<lparr>outbox := ob\<rparr>)" "grows s (s\<lparr>accounts := accounts s @ as\<rparr>)"
  by (simp_all add: grows_def interbank_status_of_def)

lemma system_or_paid: "n \<le> b \<Longrightarrow> system_account p \<or> n \<le> b"
  by simp

text \<open>Every committed transaction keeps the database well formed and only grows it.\<close>

lemma bank_step_ok:
  assumes step: "bank_step s t" and inv: "bank_inv s"
  shows "bank_inv t \<and> grows s t"
  using step
proof cases
  case (open_account uuid now name a)
  with inv show ?thesis
    by (auto simp: AccountRepository_create_Inr intro: bank_inv_create grows_accounts_outbox)
next
  case (local_transfer uuid m p q tr now key r)
  from execute_tx_Inr [OF created_ok [OF local_transfer(3,1,2)] local_transfer(4)] show ?thesis
    by cases (use inv in \<open>auto intro: bank_inv_post simp: \<close>)
next
  case (interbank_debit uuid ps tr bankId now key r)
  have tr: "tr_payeeAccountId tr = SUSPENSE_ACCOUNT_ID" using interbank_debit(3) by (auto simp: Transfer_create_Inr)
  from interbank_tx_Inr [OF inv created_ok [OF interbank_debit(3,1,2)] tr interbank_debit(4)] show ?thesis
    by cases (use inv in \<open>auto intro!: bank_inv_open_saga grows_open_saga simp: new_saga_row_def\<close>)
next
  case (seed uuid m now a u)
  from devSeed_tx_Inr [OF inv seed(1,2,3)] show ?thesis by cases auto
next
  case (confirm now i u)
  with inv show ?thesis by (auto simp: markConfirmed_Inr bank_inv_update)
next
  case (compensation uuid i interbank original tr now u)
  from compensation_cases [OF inv compensation] show ?thesis
  proof cases
    case (1 k)
    with inv show ?thesis by (simp add: bank_inv_update)
  next
    case (2 k r)
    have "bank_inv (post (refund_row uuid now i r) s)"
      by (rule bank_inv_post [OF inv 2(3)]) (simp add: system_account_def)
    with 2 show ?thesis using grows_trans [OF grows_post grows_update] by (simp add: bank_inv_update)
  qed
next
  case (relay publish commit locked now res ob sent)
  have "outbox_ok ob" using tick_ok [of "outbox s" publish commit locked now] relay(2) inv by (simp add: bank_inv_def)
  with inv relay(1) show ?thesis by (simp add: bank_inv_outbox grows_accounts_outbox)
qed

lemma bank_steps_ok: "bank_step\<^sup>*\<^sup>* s t \<Longrightarrow> bank_inv s \<Longrightarrow> bank_inv t \<and> grows s t"
  by (induction rule: rtranclp_induct) (auto dest: bank_step_ok intro: grows_trans)

subsection \<open>Requests are paths of steps\<close>

text \<open>Between the transactions of a request, others may commit whatever they like.\<close>

definition interferes :: "(bank_db \<Rightarrow> bank_db) \<Rightarrow> bool" where
  "interferes i \<longleftrightarrow> (\<forall>s. bank_step\<^sup>*\<^sup>* s (i s))"

lemma interferes_id [simp]: "interferes id"
  by (simp add: interferes_def)

lemma interferesD: "interferes i \<Longrightarrow> bank_step\<^sup>*\<^sup>* r s \<Longrightarrow> bank_step\<^sup>*\<^sup>* r (i s)"
  by (auto simp: interferes_def intro: rtranclp_trans)

lemma with_tx_steps:
  "bank_step\<^sup>*\<^sup>* r s \<Longrightarrow> (\<And>a t. m s = Inr (a, t) \<Longrightarrow> bank_step s t) \<Longrightarrow> bank_step\<^sup>*\<^sup>* r (snd (with_tx m s))"
  by (cases rule: with_tx_cases [of m s]) (auto intro: rtranclp.rtrancl_into_rtrancl)

lemma transfer_steps:
  assumes "interferes i1" "interferes i2" and uuid: "uuid_ok uuid" and m: "money_ok (tp_amount ps)"
  shows "bank_step\<^sup>*\<^sup>* s (snd (TransfersService_execute i1 i2 uuid now key ps s))"
proof (cases "Transfer_create uuid (tp_payerAccountId ps) (tp_payeeAccountId ps) (tp_amount ps)")
  case (Inl e)
  then show ?thesis by (simp add: TransfersService_execute_def)
next
  case (Inr tr)
  have i1: "bank_step\<^sup>*\<^sup>* s (i1 s)" using interferesD [OF assms(1)] by blast
  have tx: "bank_step\<^sup>*\<^sup>* s (snd (with_tx (execute_tx now tr key) (i1 s)))"
    by (rule with_tx_steps [OF i1]) (rule bank_step.local_transfer [OF uuid m Inr])
  obtain r s1 where w: "with_tx (execute_tx now tr key) (i1 s) = (r, s1)" by fastforce
  with tx have "bank_step\<^sup>*\<^sup>* s s1" by simp
  then have "bank_step\<^sup>*\<^sup>* s s1" "bank_step\<^sup>*\<^sup>* s (i2 s1)" using interferesD [OF assms(2)] by blast+
  with Inr w show ?thesis
    by (auto simp: TransfersService_execute_def split: sum.splits option.splits)
qed

lemma interbank_steps:
  assumes "interferes i1" "interferes i2" "interferes i3" and uuid: "uuid_ok uuid" and m: "money_ok (ip_amount ps)"
  shows "bank_step\<^sup>*\<^sup>* s (snd (InterbankService_execute bankId i1 i2 i3 uuid now key ps s))"
proof (cases "Transfer_create uuid (ip_payerAccountId ps) SUSPENSE_ACCOUNT_ID (ip_amount ps)")
  case (Inl e)
  then show ?thesis by (simp add: InterbankService_execute_def)
next
  case (Inr tr)
  have i1: "bank_step\<^sup>*\<^sup>* s (i1 s)" using interferesD [OF assms(1)] by blast
  have tx: "bank_step\<^sup>*\<^sup>* s (snd (with_tx (interbank_tx bankId now tr key ps) (i1 s)))"
    by (rule with_tx_steps [OF i1]) (rule bank_step.interbank_debit [OF uuid m Inr])
  obtain r s1 where w: "with_tx (interbank_tx bankId now tr key ps) (i1 s) = (r, s1)" by fastforce
  with tx have "bank_step\<^sup>*\<^sup>* s s1" by simp
  then have "bank_step\<^sup>*\<^sup>* s s1" "bank_step\<^sup>*\<^sup>* s (i2 s1)" "bank_step\<^sup>*\<^sup>* s (i3 (i2 s1))"
    using interferesD assms(2,3) by blast+
  with Inr w i1 show ?thesis
    by (auto simp: InterbankService_execute_def split: sum.splits option.splits)
qed

lemma seed_steps:
  assumes "interferes i1" "interferes i2" and "uuid_ok uuid" and "money_ok m"
  shows "bank_step\<^sup>*\<^sup>* s (snd (devSeed i1 i2 uuid now a m s))"
proof -
  have i1: "bank_step\<^sup>*\<^sup>* s (i1 s)" using interferesD [OF assms(1)] by blast
  have tx: "bank_step\<^sup>*\<^sup>* s (snd (with_tx (devSeed_tx uuid now a m) (i1 s)))"
    by (rule with_tx_steps [OF i1]) (rule bank_step.seed [OF assms(3,4)])
  obtain r s1 where w: "with_tx (devSeed_tx uuid now a m) (i1 s) = (r, s1)" by fastforce
  with tx interferesD [OF assms(2), of s s1] show ?thesis
    by (auto simp: devSeed_def split: sum.splits)
qed

lemma findById_grows:
  assumes inv: "bank_inv s" "bank_inv t" and grow: "grows s t"
  shows "TransferRepository_findById i s = Inr (Some x) \<Longrightarrow> TransferRepository_findById i t = Inr (Some x)"
    and "InterbankRepository_findById i s = Inr (Some y) \<Longrightarrow> \<exists>z. InterbankRepository_findById i t = Inr (Some z)"
proof -
  assume x: "TransferRepository_findById i s = Inr (Some x)"
  then obtain k where k: "uuid_in i = Some k" by (auto simp: TransferRepository_findById_def bind_uuid_def split: option.splits)
  with x grow find_prefix [of "transfers s" "transfers t"] show "TransferRepository_findById i t = Inr (Some x)"
    by (auto simp: TransferRepository_findById_ok [OF inv(1) k] TransferRepository_findById_ok [OF inv(2) k] grows_def)
next
  assume y: "InterbankRepository_findById i s = Inr (Some y)"
  then obtain k where k: "uuid_in i = Some k" by (auto simp: InterbankRepository_findById_def bind_uuid_def split: option.splits)
  with y have "interbank_status_of k s \<noteq> None" by (auto simp: findById_status [OF k] interbank_status_of_def)
  with status_grows [OF grow] have "interbank_status_of k t \<noteq> None" by simp
  then show "\<exists>z. InterbankRepository_findById i t = Inr (Some z)" by (auto simp: findById_status [OF k] interbank_status_of_def)
qed

text \<open>The compensating transaction uses rows read before; by then they cannot have changed.\<close>

lemma handle_steps:
  assumes inv: "bank_inv s" and "interferes i1" "interferes i2" and uuid: "uuid_ok uuid"
  shows "bank_step\<^sup>*\<^sup>* s (snd (handle i1 i2 uuid now ev s))"
proof (cases "uuid_in (oe_settlementId ev)")
  case None
  then show ?thesis by (simp add: handle_def InterbankRepository_findById_def bind_uuid_def)
next
  case k: (Some k)
  show ?thesis
  proof (cases "interbank_status_of k s = Some DEBITED")
    case False
    with handle_not_debited [OF False k, of i1 i2 uuid now] show ?thesis by simp
  next
    case live: True
    have i1: "bank_step\<^sup>*\<^sup>* s (i1 s)" and i2: "bank_step\<^sup>*\<^sup>* s (i2 (i1 s))"
      using interferesD assms(2,3) by blast+
    show ?thesis
    proof (cases "oe_outcome ev = Some (JStr ''CONFIRMED'')")
      case True
      have "bank_step (i1 s) (update_debited CONFIRMED now k (i1 s))"
        by (rule bank_step.confirm [of now k]) (use k uuid_in_idem in \<open>auto simp: markConfirmed_Inr\<close>)
      then show ?thesis using i1 True by (simp add: handle_live [OF live k])
    next
      case False
      obtain res t where run: "compensate i2 uuid now (oe_settlementId ev) (i1 s) = (res, t)" by fastforce
      have "bank_step\<^sup>*\<^sup>* s t"
      proof (cases res)
        case (Inl e)
        with compensate_cases [OF run] i1 i2 show ?thesis by auto
      next
        case (Inr x)
        then obtain original tr where orig: "TransferRepository_findById (oe_settlementId ev) (i1 s) = Inr (Some original)"
          and c: "Transfer_create uuid SUSPENSE_ACCOUNT_ID (rec_payerAccountId original) (rec_amount original) = Inr tr"
          and tx: "compensate_tx now tr (oe_settlementId ev) (i2 (i1 s)) = Inr (x, t)"
          using run by (auto simp: compensate_def with_tx_def split: sum.splits option.splits)
        have ok1: "bank_inv (i1 s)" and ok2: "bank_inv (i2 (i1 s))" "grows s (i2 (i1 s))" "grows (i1 s) (i2 (i1 s))"
          using bank_steps_ok [OF i1 inv] bank_steps_ok [OF i2 inv]
            bank_steps_ok [of "i1 s" "i2 (i1 s)"] assms(3) by (auto simp: interferes_def)
        obtain ib where "InterbankRepository_findById (oe_settlementId ev) s = Inr (Some ib)"
          using live by (auto simp: findById_status [OF k] interbank_status_of_def)
        from findById_grows(2) [OF inv ok2(1,2) this] obtain ib'
          where "InterbankRepository_findById (oe_settlementId ev) (i2 (i1 s)) = Inr (Some ib')" by blast
        moreover have "TransferRepository_findById (oe_settlementId ev) (i2 (i1 s)) = Inr (Some original)"
          by (rule findById_grows(1) [OF ok1 ok2(1,3) orig])
        ultimately have "bank_step (i2 (i1 s)) t" using bank_step.compensation [OF uuid _ _ c tx] by blast
        with i2 show ?thesis by simp
      qed
      with run False show ?thesis by (simp add: handle_live [OF live k])
    qed
  qed
qed

subsection \<open>Properties\<close>

text \<open>
  C6. The books always balance. In every database that any interleaving of committed
  transactions can reach from the migrated one: the balances of all accounts add up to zero,
  no customer account is overdrawn, the ledger holds exactly the two entries of each recorded
  transfer in order, and no two transfers share an idempotency key.
\<close>
theorem books_always_balance:
  assumes "bank_step\<^sup>*\<^sup>* migrated_bank s"
  shows "(\<Sum>k \<in> acc_id ` set (accounts s). balances s k) = 0 \<and>
    (\<forall>k. \<not> system_account k \<longrightarrow> 0 \<le> balances s k) \<and>
    ledger_entries s = concat (map row_entries (transfers s)) \<and>
    distinct (map trow_idempotency_key (transfers s))"
proof -
  have inv: "bank_inv s" using bank_steps_ok [OF assms bank_inv_migrated] by blast
  have "led_account_id e \<in> acc_id ` set (accounts s)" if "e \<in> set (ledger_entries s)" for e
  proof -
    from that inv obtain r where "r \<in> set (transfers s)" and e: "e \<in> set (row_entries r)"
      by (auto simp: bank_inv_def transfers_ok_def)
    with transfer_in_ok [OF inv] have "account_exists (led_account_id e) s"
      by (auto simp: row_entries_def row_ok_def)
    then show ?thesis unfolding account_exists_def list_ex_iff by (metis image_eqI)
  qed
  then have "led_account_id ` set (ledger_entries s) \<subseteq> acc_id ` set (accounts s)" by blast
  with inv books.no_money_created [of s "transfers s" "acc_id ` set (accounts s)"] show ?thesis
    by (auto simp: bank_inv_def transfers_ok_def solvent_def balances_def)
qed

lemma open_account_step:
  "uuid_ok k \<Longrightarrow> \<not> account_exists k s \<Longrightarrow> 1 \<le> length name \<Longrightarrow> length name \<le> 120 \<Longrightarrow>
   bank_step s (s\<lparr>accounts := accounts s @ [\<lparr>acc_id = k, acc_owner_name = name, acc_created_at = now\<rparr>]\<rparr>)"
  by (rule bank_step.open_account [of k now name]) (simp_all add: AccountRepository_create_Inr)

lemma opened_step: "bank_step\<^sup>*\<^sup>* migrated_bank opened_bank"
proof -
  let ?alice = "\<lparr>acc_id = alice, acc_owner_name = ''Alice'', acc_created_at = 1\<rparr>"
  let ?s = "migrated_bank\<lparr>accounts := accounts migrated_bank @ [?alice]\<rparr>"
  have "\<not> account_exists alice migrated_bank" "\<not> account_exists bob ?s"
    using sample_distinct by (auto simp: account_exists_def migrated_bank_def)
  with open_account_step [of alice migrated_bank "''Alice''" 1] open_account_step [of bob ?s "''Bob''" 1]
  have "bank_step migrated_bank ?s" "bank_step ?s opened_bank"
    by (simp_all add: sample_uuids opened_bank_def)
  then show ?thesis by (meson converse_rtranclp_into_rtranclp rtranclp.rtrancl_refl)
qed

theorem books_always_balance_witness:
  "bank_step\<^sup>*\<^sup>* migrated_bank opened_bank \<and> (\<Sum>k \<in> acc_id ` set (accounts opened_bank). balances opened_bank k) = 0"
  using books_always_balance [OF opened_step] opened_step by blast

text \<open>
  History is never rewritten. Whatever commits after a reachable database, its transfers
  and ledger entries stay as the first ones in the same order, and a saga that was CONFIRMED or
  COMPENSATED keeps that status for ever.
\<close>
theorem history_is_final:
  assumes "bank_step\<^sup>*\<^sup>* migrated_bank s" and "bank_step\<^sup>*\<^sup>* s t"
  shows "prefix (transfers s) (transfers t) \<and> prefix (ledger_entries s) (ledger_entries t) \<and>
    (\<forall>k st. interbank_status_of k s = Some st \<longrightarrow> st \<noteq> DEBITED \<longrightarrow> interbank_status_of k t = Some st)"
  using bank_steps_ok [OF assms(2)] bank_steps_ok [OF assms(1) bank_inv_migrated] by (simp add: grows_def)

theorem history_is_final_witness:
  "prefix (transfers opened_bank) (transfers opened_bank)"
  using history_is_final [OF opened_step, of opened_bank] by blast

text \<open>
  The services do nothing but these transactions. From a well-formed database, every
  transfer, interbank, seeding and reply request ends in a database reached by steps, when
  whatever commits in its gaps are steps too; so the two theorems above hold of any number of
  requests running concurrently.
\<close>
theorem requests_are_steps:
  assumes "bank_inv s" and "interferes i1" "interferes i2" "interferes i3" and "uuid_ok uuid"
    and "money_ok (tp_amount tps)" "money_ok (ip_amount ips)" "money_ok m"
  shows "bank_step\<^sup>*\<^sup>* s (snd (TransfersService_execute i1 i2 uuid now key tps s)) \<and>
    bank_step\<^sup>*\<^sup>* s (snd (InterbankService_execute bankId i1 i2 i3 uuid now key ips s)) \<and>
    bank_step\<^sup>*\<^sup>* s (snd (devSeed i1 i2 uuid now a m s)) \<and>
    bank_step\<^sup>*\<^sup>* s (snd (handle i1 i2 uuid now ev s))"
  using assms by (simp add: transfer_steps interbank_steps seed_steps handle_steps)

theorem requests_are_steps_witness:
  "bank_step\<^sup>*\<^sup>* sample_saga_bank (snd (handle id id sample_id2 9 sample_rejected sample_saga_bank))"
  using requests_are_steps [of sample_saga_bank id id id sample_id2 sample_params sample_ib_params "Money 1"
      9 "''k3''" "Inr ''bank-a''" alice sample_rejected]
    sample_saga_facts(1) sample_id2_ok sample_params_ok sample_ib_ok by (simp add: money_small)

end
