(* ===== verification/BankIsolation.thy ===== *)
theory BankIsolation
  imports BankSteps
begin

text \<open>
  The transactions of Bank A that move money, statement by statement, with any number of them
  running at once at READ COMMITTED: a statement sees what is committed and what its own
  transaction wrote, and waits for the locks it needs. A transaction holds the account rows it
  locked FOR UPDATE; the foreign keys of the rows it inserted hold the accounts they name FOR
  KEY SHARE, which is what FOR UPDATE conflicts with; a row it inserted occupies its keys; an
  UPDATE holds its row. Everything is held until the end. The order of rows is the order of the
  commits; a foreign key takes its locks together with the INSERT.
\<close>

subsection \<open>Transactions as programs of statements\<close>

datatype prog =
    Commit
  | Rollback
  | Throw bank_error
  | Lock string prog                                \<comment> \<open>\<open>lockById\<close>, and the error when there is no row\<close>
  | Insert transfer string prog prog                \<comment> \<open>\<open>insert\<close>: inserted, or the key was taken\<close>
  | InsertSeed string string string money prog
  | Afford transfer prog                            \<comment> \<open>\<open>balanceOf\<close> and \<open>assertPayerCanAfford\<close>\<close>
  | Append ledger_entry prog
  | OpenSaga string string string prog
  | Emit string string string json prog
  | Compensated string prog

definition lock_row :: "string \<Rightarrow> unit bank_tx" where
  "lock_row i = tx_bind (tx_read (AccountRepository_lockById i)) (\<lambda>found.
     if \<not> found then tx_throw (Domain (AccountNotFoundError i)) else tx_return ())"

definition afford :: "transfer \<Rightarrow> unit bank_tx" where
  "afford transfer = tx_bind (tx_read (balanceOf (tr_payerAccountId transfer))) (\<lambda>balance.
     tx_check (lift_domain (assertPayerCanAfford transfer balance)))"

text \<open>One statement: the rest of the program, and the database as the transaction sees it then.\<close>

fun statement :: "int \<Rightarrow> prog \<Rightarrow> prog bank_tx" where
  "statement now (Lock i p) = tx_bind (lock_row i) (\<lambda>_. tx_return p)"
| "statement now (Insert tr key p q) =
     tx_bind (TransferRepository_insert now tr key) (\<lambda>r. tx_return (case r of None \<Rightarrow> q | Some _ \<Rightarrow> p))"
| "statement now (InsertSeed i key a m p) = tx_bind (seed_insert now i key a m) (\<lambda>_. tx_return p)"
| "statement now (Afford tr p) = tx_bind (afford tr) (\<lambda>_. tx_return p)"
| "statement now (Append e p) = tx_bind (ledger_insert now e) (\<lambda>_. tx_return p)"
| "statement now (OpenSaga i bank ref p) = tx_bind (InterbankRepository_insert now i bank ref) (\<lambda>_. tx_return p)"
| "statement now (Emit i ty key j p) = tx_bind (OutboxRepository_insert now i ty key j) (\<lambda>_. tx_return p)"
| "statement now (Compensated i p) = tx_bind (markCompensated now i) (\<lambda>_. tx_return p)"
| "statement now (Throw e) = tx_throw e"
| "statement now _ = tx_throw (Failure [])"

text \<open>The program run with nothing in between: whether it commits, and the database it leaves.\<close>

fun run :: "int \<Rightarrow> prog \<Rightarrow> bool bank_tx" where
  "run now Commit = tx_return True"
| "run now Rollback = tx_return False"
| "run now (Throw e) = tx_throw e"
| "run now (Lock i p) = tx_bind (lock_row i) (\<lambda>_. run now p)"
| "run now (Insert tr key p q) =
     tx_bind (TransferRepository_insert now tr key) (\<lambda>r. case r of None \<Rightarrow> run now q | Some _ \<Rightarrow> run now p)"
| "run now (InsertSeed i key a m p) = tx_bind (seed_insert now i key a m) (\<lambda>_. run now p)"
| "run now (Afford tr p) = tx_bind (afford tr) (\<lambda>_. run now p)"
| "run now (Append e p) = tx_bind (ledger_insert now e) (\<lambda>_. run now p)"
| "run now (OpenSaga i bank ref p) = tx_bind (InterbankRepository_insert now i bank ref) (\<lambda>_. run now p)"
| "run now (Emit i ty key j p) = tx_bind (OutboxRepository_insert now i ty key j) (\<lambda>_. run now p)"
| "run now (Compensated i p) = tx_bind (markCompensated now i) (\<lambda>_. run now p)"

lemma run_statement: "statement now p s = Inr (p', t) \<Longrightarrow> run now p s = run now p' t"
  by (cases p) (auto simp: tx_bind_def split: sum.splits option.splits)

subsection \<open>The four transactions\<close>

fun append_entries :: "domain_error + ledger_entry list \<Rightarrow> prog \<Rightarrow> prog" where
  "append_entries (Inl e) p = Throw (Domain e)"
| "append_entries (Inr es) p = foldr Append es p"

datatype task =
    LocalTransfer transfer string
  | InterbankDebit "bank_error + string" transfer string interbank_params
  | Seeding string string money
  | Compensation transfer string

definition local_program :: "transfer \<Rightarrow> string \<Rightarrow> prog" where
  "local_program tr key = foldr Lock (sort [tr_payerAccountId tr, tr_payeeAccountId tr])
     (Insert tr key (Afford tr (append_entries (Transfer_entries tr) Commit)) Rollback)"

definition debit_program :: "bank_error + string \<Rightarrow> transfer \<Rightarrow> string \<Rightarrow> interbank_params \<Rightarrow> prog" where
  "debit_program bankId tr key ps = Lock (tr_payerAccountId tr)
     (Insert tr key (Afford tr (append_entries (Transfer_entries tr)
        (OpenSaga (tr_id tr) (ip_payeeBankId ps) (ip_payeeAccountRef ps)
           (case bankId of Inl e \<Rightarrow> Throw e
            | Inr b \<Rightarrow> Emit (tr_id tr) ''settlement.requested'' SETTLEMENT_REQUESTED_ROUTING_KEY
                         (settlement_request (tr_id tr) b ps) Commit)))) Rollback)"

definition seed_program :: "string \<Rightarrow> string \<Rightarrow> money \<Rightarrow> prog" where
  "seed_program i a m = InsertSeed i (''dev-seed-'' @ i) a m
     (Append \<lparr>entry_transferId = i, entry_accountId = DEV_TREASURY_ACCOUNT_ID, entry_amount = Money (- cents m)\<rparr>
       (Append \<lparr>entry_transferId = i, entry_accountId = a, entry_amount = m\<rparr> Commit))"

definition compensation_program :: "transfer \<Rightarrow> string \<Rightarrow> prog" where
  "compensation_program tr i =
     Insert tr (compensation_key i) (append_entries (Transfer_entries tr) (Compensated i Commit)) (Compensated i Commit)"

fun code :: "task \<Rightarrow> prog" where
  "code (LocalTransfer tr key) = local_program tr key"
| "code (InterbankDebit bankId tr key ps) = debit_program bankId tr key ps"
| "code (Seeding i a m) = seed_program i a m"
| "code (Compensation tr i) = compensation_program tr i"

lemmas program_defs = local_program_def debit_program_def seed_program_def compensation_program_def

lemma run_locks: "run now (foldr Lock ids p) s = tx_bind (lock_loop ids) (\<lambda>_. run now p) s"
  by (induction ids arbitrary: s) (auto simp: tx_bind_def lock_row_def split: sum.splits)

lemma run_append: "run now (foldr Append es p) s = tx_bind (ledger_append now es) (\<lambda>_. run now p) s"
  by (induction es arbitrary: s) (auto simp: tx_bind_def split: sum.splits)

lemma run_entries:
  "run now (append_entries r p) s = tx_bind (tx_check (lift_domain r)) (\<lambda>es. tx_bind (ledger_append now es) (\<lambda>_. run now p)) s"
  by (cases r) (simp_all add: run_append tx_bind_def)

text \<open>Each program, run alone, is the transaction of its service.\<close>

definition committed :: "'e + ('a option \<times> 's) \<Rightarrow> 'e + (bool \<times> 's)" where
  "committed r = (case r of Inl e \<Rightarrow> Inl e | Inr (res, t) \<Rightarrow> Inr (res \<noteq> None, t))"

lemma run_local: "run now (code (LocalTransfer tr key)) s = committed (execute_tx now tr key s)"
proof -
  have "run now (local_program tr key) s = tx_bind (lockAccounts tr)
      (\<lambda>_. run now (Insert tr key (Afford tr (append_entries (Transfer_entries tr) Commit)) Rollback)) s"
    unfolding local_program_def lockAccounts_def by (rule run_locks)
  then show ?thesis
    by (auto simp: execute_tx_def run_entries committed_def tx_bind_def afford_def split: sum.splits option.splits)
qed

lemma run_debit: "run now (code (InterbankDebit bankId tr key ps)) s = committed (interbank_tx bankId now tr key ps s)"
  by (auto simp: debit_program_def interbank_tx_def run_entries committed_def tx_bind_def tx_check_def afford_def lock_row_def
      split: sum.splits option.splits)

lemma run_seeding: "run now (code (Seeding i a m)) s = committed (map_sum id (map_prod Some id) (devSeed_tx i now a m s))"
  by (auto simp: seed_program_def devSeed_tx_def committed_def tx_bind_def split: sum.splits)

lemma run_compensation:
  "run now (code (Compensation tr i)) s = committed (map_sum id (map_prod Some id) (compensate_tx now tr i s))"
  by (auto simp: compensation_program_def compensate_tx_def run_entries committed_def tx_bind_def split: sum.splits option.splits)

lemmas run_code = run_local run_debit run_seeding run_compensation

text \<open>What a service has established when it begins its transaction.\<close>

fun begun :: "task \<Rightarrow> bank_db \<Rightarrow> bool" where
  "begun (LocalTransfer tr key) s \<longleftrightarrow> (\<exists>uuid p q m. uuid_ok uuid \<and> money_ok m \<and> Transfer_create uuid p q m = Inr tr)"
| "begun (InterbankDebit bankId tr key ps) s \<longleftrightarrow> (\<exists>uuid. uuid_ok uuid \<and> money_ok (ip_amount ps) \<and>
     Transfer_create uuid (ip_payerAccountId ps) SUSPENSE_ACCOUNT_ID (ip_amount ps) = Inr tr)"
| "begun (Seeding i a m) s \<longleftrightarrow> uuid_ok i \<and> money_ok m"
| "begun (Compensation tr i) s \<longleftrightarrow> (\<exists>uuid interbank original. uuid_ok uuid \<and>
     InterbankRepository_findById i s = Inr (Some interbank) \<and> TransferRepository_findById i s = Inr (Some original) \<and>
     Transfer_create uuid SUSPENSE_ACCOUNT_ID (rec_payerAccountId original) (rec_amount original) = Inr tr)"

lemma committed_Inr: "committed r = Inr (b, t) \<longleftrightarrow> (\<exists>res. r = Inr (res, t) \<and> b = (res \<noteq> None))"
  by (auto simp: committed_def split: sum.splits)

lemma committed_unit: "committed (map_sum id (map_prod Some id) r) = Inr (b, t) \<longleftrightarrow> b \<and> r = Inr ((), t)"
  by (cases r) (auto simp: committed_def)

lemma run_is_step:
  assumes "begun k s" "run now (code k) s = Inr (True, t)"
  shows "bank_step s t"
proof (cases k)
  case (LocalTransfer tr key)
  with assms show ?thesis by (auto simp: run_code committed_Inr simp del: code.simps intro: bank_step.local_transfer)
next
  case (InterbankDebit bankId tr key ps)
  with assms show ?thesis by (auto simp: run_code committed_Inr simp del: code.simps intro: bank_step.interbank_debit)
next
  case (Seeding i a m)
  with assms show ?thesis by (auto simp: run_code committed_unit simp del: code.simps intro: bank_step.seed)
next
  case (Compensation tr i)
  with assms show ?thesis by (auto simp: run_code committed_unit simp del: code.simps intro: bank_step.compensation)
qed

lemma begun_grows: "begun k s \<Longrightarrow> bank_inv s \<Longrightarrow> bank_inv t \<Longrightarrow> grows s t \<Longrightarrow> begun k t"
  by (cases k) (auto, meson findById_grows)

subsection \<open>What a transaction has written\<close>

datatype effect =
    AddTransfer transfer_row
  | AddEntry ledger_row
  | AddSaga interbank_row
  | AddEvent int string string string json
  | Settle int string

fun play1 :: "effect \<Rightarrow> bank_db \<Rightarrow> bank_db" where
  "play1 (AddTransfer r) s = add_transfer r s"
| "play1 (AddEntry e) s = add_entries [e] s"
| "play1 (AddSaga r) s = s\<lparr>interbank_transfers := interbank_transfers s @ [r]\<rparr>"
| "play1 (AddEvent now a ty key j) s = s\<lparr>outbox := outbox_add now a ty key j (outbox s)\<rparr>"
| "play1 (Settle now k) s = update_debited COMPENSATED now k s"

text \<open>The database as a transaction sees it: what is committed, and its own writes.\<close>

definition play :: "effect list \<Rightarrow> bank_db \<Rightarrow> bank_db" where
  "play w s = fold play1 w s"

lemma play_simps [simp]: "play [] s = s" "play (e # w) s = play w (play1 e s)" "play (v @ w) s = play w (play v s)"
  by (simp_all add: play_def)

text \<open>What a statement adds to them, from the databases before and after it.\<close>

fun written :: "int \<Rightarrow> prog \<Rightarrow> bank_db \<Rightarrow> bank_db \<Rightarrow> effect list" where
  "written now (Emit i ty key j p) s t = [AddEvent now (the (uuid_in i)) ty key j]"
| "written now (Compensated i p) s t = [Settle now (the (uuid_in i))]"
| "written now _ s t =
     map AddTransfer (drop (length (transfers s)) (transfers t)) @
     map AddEntry (drop (length (ledger_entries s)) (ledger_entries t)) @
     map AddSaga (drop (length (interbank_transfers s)) (interbank_transfers t))"

subsection \<open>Locks\<close>

datatype resource = AccountRow string | KeyEntry string | IdEntry string | SagaRow string

text \<open>What a write occupies alone, and what it shares with other writes.\<close>

fun claims :: "effect \<Rightarrow> resource set" where
  "claims (AddTransfer r) = {KeyEntry (trow_idempotency_key r), IdEntry (trow_id r)}"
| "claims (Settle now k) = {SagaRow k}"
| "claims _ = {}"

fun references :: "effect \<Rightarrow> resource set" where
  "references (AddTransfer r) = {AccountRow (trow_payer_account_id r), AccountRow (trow_payee_account_id r)}"
| "references (AddEntry e) = {AccountRow (led_account_id e)}"
| "references _ = {}"

text \<open>The rows that a statement locks FOR UPDATE.\<close>

fun row_locks :: "prog \<Rightarrow> string list" where
  "row_locks (Lock i p) = (case uuid_in i of None \<Rightarrow> [] | Some k \<Rightarrow> [k])"
| "row_locks _ = []"

record session =
  ses_task :: task
  ses_now :: int
  ses_rest :: prog
  ses_locks :: "string list"
  ses_log :: "effect list"

definition fresh_session :: "int \<Rightarrow> task \<Rightarrow> session" where
  "fresh_session now k = \<lparr>ses_task = k, ses_now = now, ses_rest = code k, ses_locks = [], ses_log = []\<rparr>"

definition exclusive :: "string list \<Rightarrow> effect list \<Rightarrow> resource set" where
  "exclusive ls w = AccountRow ` set ls \<union> \<Union> (claims ` set w)"

definition shared :: "effect list \<Rightarrow> resource set" where
  "shared w = \<Union> (references ` set w)"

text \<open>Whether locks and writes can be had while the session \<open>b\<close> holds its own.\<close>

definition compatible :: "string list \<Rightarrow> effect list \<Rightarrow> session \<Rightarrow> bool" where
  "compatible ls w b \<longleftrightarrow>
     exclusive ls w \<inter> (exclusive (ses_locks b) (ses_log b) \<union> shared (ses_log b)) = {} \<and>
     shared w \<inter> exclusive (ses_locks b) (ses_log b) = {}"

subsection \<open>The steps\<close>

type_synonym server = "bank_db \<times> (nat \<Rightarrow> session option)"

definition the_view :: "bank_db \<Rightarrow> session \<Rightarrow> bank_db" where
  "the_view s a = play (ses_log a) s"

text \<open>
  A session runs its next statement once no other session is in its way, commits when it is
  through, and may end without a trace at any time: by a ROLLBACK, an error, or a lost
  connection. Beside these sessions accounts are opened, sagas confirmed and events relayed,
  each in one statement or on rows the sessions do not touch.
\<close>

inductive server_step :: "server \<Rightarrow> server \<Rightarrow> bool" where
  start: "S a = None \<Longrightarrow> begun k s \<Longrightarrow> server_step (s, S) (s, S(a \<mapsto> fresh_session now k))"
| advance: "S a = Some x \<Longrightarrow> statement (ses_now x) (ses_rest x) (the_view s x) = Inr (p, t) \<Longrightarrow>
    w = written (ses_now x) (ses_rest x) (the_view s x) t \<Longrightarrow>
    (\<forall>b y. b \<noteq> a \<longrightarrow> S b = Some y \<longrightarrow> compatible (row_locks (ses_rest x)) w y) \<Longrightarrow>
    server_step (s, S)
      (s, S(a \<mapsto> x\<lparr>ses_rest := p, ses_locks := row_locks (ses_rest x) @ ses_locks x, ses_log := ses_log x @ w\<rparr>))"
| commit: "S a = Some x \<Longrightarrow> ses_rest x = Commit \<Longrightarrow> server_step (s, S) (the_view s x, S(a := None))"
| abort: "server_step (s, S) (s, S(a := None))"
| open_account: "uuid_ok uuid \<Longrightarrow> AccountRepository_create uuid now name s = Inr (r, t) \<Longrightarrow> server_step (s, S) (t, S)"
| confirm: "markConfirmed now i s = Inr (u, t) \<Longrightarrow>
    (\<forall>b y. S b = Some y \<longrightarrow> compatible [] [Settle now (the (uuid_in i))] y) \<Longrightarrow> server_step (s, S) (t, S)"
| relay: "tick publish commit locked now (outbox s) = (res, ob, sent) \<Longrightarrow> server_step (s, S) (s\<lparr>outbox := ob\<rparr>, S)"

subsection \<open>A statement is what it writes\<close>

lemma insert_Inr:
  "TransferRepository_insert now tr key s = Inr (r, t) \<Longrightarrow>
   (r = None \<and> t = s \<and> key_taken key s \<and> (\<forall>s'. key_taken key s' \<longrightarrow> TransferRepository_insert now tr key s' = Inr (None, s'))) \<or>
   (\<exists>row. r \<noteq> None \<and> t = add_transfer row s \<and> trow_idempotency_key row = key \<and> uuid_in (tr_id tr) = Some (trow_id row) \<and>
      uuid_in (tr_payerAccountId tr) = Some (trow_payer_account_id row) \<and>
      uuid_in (tr_payeeAccountId tr) = Some (trow_payee_account_id row) \<and>
      \<not> key_taken key s \<and> \<not> transfer_exists (trow_id row) s \<and>
      account_exists (trow_payer_account_id row) s \<and> account_exists (trow_payee_account_id row) s \<and>
      (\<forall>s'. \<not> key_taken key s' \<longrightarrow> \<not> transfer_exists (trow_id row) s' \<longrightarrow> account_exists (trow_payer_account_id row) s' \<longrightarrow>
         account_exists (trow_payee_account_id row) s' \<longrightarrow> TransferRepository_insert now tr key s' = Inr (r, add_transfer row s')))"
proof -
  assume run: "TransferRepository_insert now tr key s = Inr (r, t)"
  then obtain k p q n where row: "uuid_in (tr_id tr) = Some k" "uuid_in (tr_payerAccountId tr) = Some p"
      "uuid_in (tr_payeeAccountId tr) = Some q" "bind_bigint (js_of_int (cents (tr_amount tr))) = (Inr n :: bank_error + int)"
      "1 \<le> length key \<and> length key \<le> 255 \<and> 0 < n \<and> p \<noteq> q"
    by (auto simp: TransferRepository_insert_def insert_transfer_row_def tx_bind_Inr_eq tx_check_Inr_eq bind_uuid_Inr db_guard_Inr)
  let ?row = "\<lparr>trow_id = k, trow_idempotency_key = key, trow_payer_account_id = p, trow_payee_account_id = q,
    trow_amount = n, trow_created_at = now\<rparr>"
  have "TransferRepository_insert now tr key s' =
      (if key_taken key s' then Inr (None, s')
       else if transfer_exists k s' then Inl (Db (UniqueViolation ''transfers_pkey''))
       else if \<not> account_exists p s' \<or> \<not> account_exists q s' then Inl (Db (ForeignKeyViolation ''transfers''))
       else case toRecord ?row of Inl e \<Rightarrow> Inl (Domain e) | Inr rec \<Rightarrow> Inr (Some rec, add_transfer ?row s'))" for s'
    using row by (auto simp: TransferRepository_insert_def insert_transfer_row_def tx_bind_def tx_check_def db_guard_def
        bind_uuid_def add_transfer_def split: sum.splits)
  note this [of s, unfolded run] and this
  then show ?thesis using row(1,2,3)
    by (cases "key_taken key s") (auto intro!: exI [of _ ?row] split: if_splits sum.splits)
qed

lemma seed_insert_Inr:
  "seed_insert now i key a m s = Inr (u, t) \<Longrightarrow>
   \<exists>row. t = add_transfer row s \<and> trow_idempotency_key row = key \<and> uuid_in i = Some (trow_id row) \<and>
      \<not> key_taken key s \<and> \<not> transfer_exists (trow_id row) s \<and>
      account_exists (trow_payer_account_id row) s \<and> account_exists (trow_payee_account_id row) s \<and>
      (\<forall>s'. \<not> key_taken key s' \<longrightarrow> \<not> transfer_exists (trow_id row) s' \<longrightarrow> account_exists (trow_payer_account_id row) s' \<longrightarrow>
         account_exists (trow_payee_account_id row) s' \<longrightarrow> seed_insert now i key a m s' = Inr ((), add_transfer row s'))"
proof -
  assume run: "seed_insert now i key a m s = Inr (u, t)"
  then obtain k p q n where row: "uuid_in i = Some k" "uuid_in DEV_TREASURY_ACCOUNT_ID = Some p" "uuid_in a = Some q"
      "bind_bigint (js_of_int (cents m)) = (Inr n :: bank_error + int)"
      "1 \<le> length key \<and> length key \<le> 255 \<and> 0 < n \<and> p \<noteq> q"
    by (auto simp: seed_insert_def tx_bind_Inr_eq tx_check_Inr_eq bind_uuid_Inr db_guard_Inr)
  let ?row = "\<lparr>trow_id = k, trow_idempotency_key = key, trow_payer_account_id = p, trow_payee_account_id = q,
    trow_amount = n, trow_created_at = now\<rparr>"
  have "seed_insert now i key a m s' =
      (if transfer_exists k s' then Inl (Db (UniqueViolation ''transfers_pkey''))
       else if key_taken key s' then Inl (Db (UniqueViolation ''transfers_idempotency_key_key''))
       else if \<not> account_exists p s' \<or> \<not> account_exists q s' then Inl (Db (ForeignKeyViolation ''transfers''))
       else Inr ((), add_transfer ?row s'))" for s'
    using row by (simp add: seed_insert_def tx_bind_def tx_check_def db_guard_def bind_uuid_def)
  with run row(1) show ?thesis by (intro exI [of _ ?row]) (auto split: if_splits)
qed

lemma ledger_insert_Inr:
  "ledger_insert now e s = Inr (u, t) \<Longrightarrow>
   \<exists>row. t = add_entries [row] s \<and> uuid_in (entry_accountId e) = Some (led_account_id row) \<and>
      account_exists (led_account_id row) s \<and> transfer_exists (led_transfer_id row) s \<and>
      (\<forall>s'. account_exists (led_account_id row) s' \<longrightarrow> transfer_exists (led_transfer_id row) s' \<longrightarrow>
         ledger_insert now e s' = Inr ((), add_entries [row] s'))"
proof -
  assume run: "ledger_insert now e s = Inr (u, t)"
  then obtain k a n where row: "uuid_in (entry_transferId e) = Some k" "uuid_in (entry_accountId e) = Some a"
      "bind_bigint (js_of_int (cents (entry_amount e))) = (Inr n :: bank_error + int)" "n \<noteq> 0"
    by (auto simp: ledger_insert_def tx_bind_Inr_eq tx_check_Inr_eq bind_uuid_Inr db_guard_Inr)
  let ?row = "\<lparr>led_transfer_id = k, led_account_id = a, led_amount = n, led_created_at = now\<rparr>"
  have "ledger_insert now e s' =
      (if \<not> account_exists a s' then Inl (Db (ForeignKeyViolation ''ledger_entries''))
       else if \<not> transfer_exists k s' then Inl (Db (ForeignKeyViolation ''ledger_entries''))
       else Inr ((), add_entries [?row] s'))" for s'
    using row by (simp add: ledger_insert_def tx_bind_def tx_check_def db_guard_def bind_uuid_def add_entries_def)
  with run row(2) show ?thesis by (intro exI [of _ ?row]) (auto split: if_splits)
qed

lemma saga_insert_Inr:
  "InterbankRepository_insert now i bank ref s = Inr (u, t) \<Longrightarrow>
   \<exists>row. t = play1 (AddSaga row) s \<and> uuid_in i = Some (ib_transfer_id row) \<and> transfer_exists (ib_transfer_id row) s \<and>
      \<not> list_ex (\<lambda>r. ib_transfer_id r = ib_transfer_id row) (interbank_transfers s) \<and>
      (\<forall>s'. transfer_exists (ib_transfer_id row) s' \<longrightarrow>
         \<not> list_ex (\<lambda>r. ib_transfer_id r = ib_transfer_id row) (interbank_transfers s') \<longrightarrow>
         InterbankRepository_insert now i bank ref s' = Inr (u, play1 (AddSaga row) s'))"
proof -
  assume run: "InterbankRepository_insert now i bank ref s = Inr (u, t)"
  then obtain k where row: "uuid_in i = Some k" "1 \<le> length ref \<and> length ref \<le> 255"
    by (auto simp: InterbankRepository_insert_def tx_bind_Inr_eq tx_check_Inr_eq bind_uuid_Inr db_guard_Inr)
  let ?row = "\<lparr>ib_transfer_id = k, ib_payee_bank_id = bank, ib_payee_account_ref = ref, ib_status = DEBITED,
    ib_created_at = now, ib_updated_at = now\<rparr>"
  have "InterbankRepository_insert now i bank ref s' =
      (if list_ex (\<lambda>r. ib_transfer_id r = k) (interbank_transfers s')
         then Inl (Db (UniqueViolation ''interbank_transfers_pkey''))
       else if \<not> transfer_exists k s' then Inl (Db (ForeignKeyViolation ''interbank_transfers''))
       else Inr (toInterbankRecord ?row, play1 (AddSaga ?row) s'))" for s'
    using row by (simp add: InterbankRepository_insert_def tx_bind_def tx_check_def db_guard_def bind_uuid_def Let_def)
  with run row(1) show ?thesis by (intro exI [of _ ?row]) (auto split: if_splits)
qed

lemma written_play:
  assumes st: "statement now p s = Inr (p', t)"
  shows "t = play (written now p s t) s"
proof (cases p)
  case (Insert tr key q1 q2)
  with st obtain r where r: "TransferRepository_insert now tr key s = Inr (r, t)" by (auto simp: tx_simps)
  from insert_Inr [OF r] show ?thesis by (auto simp: Insert)
next
  case (InsertSeed i key a m q)
  with st have r: "seed_insert now i key a m s = Inr ((), t)" by (auto simp: tx_simps)
  from seed_insert_Inr [OF r] show ?thesis by (auto simp: InsertSeed)
next
  case (Append e q)
  with st have r: "ledger_insert now e s = Inr ((), t)" by (auto simp: tx_simps)
  from ledger_insert_Inr [OF r] show ?thesis by (auto simp: Append add_entries_def)
next
  case (OpenSaga x b ref q)
  with st obtain u where r: "InterbankRepository_insert now x b ref s = Inr (u, t)" by (auto simp: tx_simps)
  from saga_insert_Inr [OF r] show ?thesis by (auto simp: OpenSaga)
qed (use st in \<open>auto simp: tx_simps lock_row_def afford_def OutboxRepository_insert_def markCompensated_def split: if_splits\<close>)

text \<open>A statement does the same on another database, if what it found there is still so.\<close>

lemma statement_stable:
  assumes st: "statement now p s = Inr (p', t)" and w: "w = written now p s t"
    and mono: "\<And>k. account_exists k s \<Longrightarrow> account_exists k s'" "\<And>k. transfer_exists k s \<Longrightarrow> transfer_exists k s'"
      "\<And>key. key_taken key s \<Longrightarrow> key_taken key s'"
    and new: "\<And>r. AddTransfer r \<in> set w \<Longrightarrow> \<not> key_taken (trow_idempotency_key r) s' \<and> \<not> transfer_exists (trow_id r) s'"
    and saga: "\<And>r. AddSaga r \<in> set w \<Longrightarrow> \<not> list_ex (\<lambda>i. ib_transfer_id i = ib_transfer_id r) (interbank_transfers s')"
    and sum: "\<And>tr q k. p = Afford tr q \<Longrightarrow> uuid_in (tr_payerAccountId tr) = Some k \<Longrightarrow> ledger_sum k s' = ledger_sum k s"
  shows "statement now p s' = Inr (p', play w s')"
proof (cases p)
  case (Insert tr key q1 q2)
  with st obtain r where r: "TransferRepository_insert now tr key s = Inr (r, t)" and p': "p' = (case r of None \<Rightarrow> q2 | Some _ \<Rightarrow> q1)"
    by (auto simp: tx_simps)
  from insert_Inr [OF r] show ?thesis
    using mono new w p' Insert by (auto simp: tx_simps add_transfer_def [symmetric])
next
  case (InsertSeed i key a m q)
  with st have r: "seed_insert now i key a m s = Inr ((), t)" and p': "p' = q" by (auto simp: tx_simps)
  from seed_insert_Inr [OF r] show ?thesis using mono new w p' InsertSeed by (auto simp: tx_simps)
next
  case (Append e q)
  with st have r: "ledger_insert now e s = Inr ((), t)" and p': "p' = q" by (auto simp: tx_simps)
  from ledger_insert_Inr [OF r] show ?thesis using mono w p' Append by (auto simp: tx_simps add_entries_def)
next
  case (OpenSaga i bank ref q)
  with st obtain u where r: "InterbankRepository_insert now i bank ref s = Inr (u, t)" and p': "p' = q" by (auto simp: tx_simps)
  from saga_insert_Inr [OF r] show ?thesis using mono saga w p' OpenSaga by (auto simp: tx_simps)
next
  case (Afford tr q)
  with st w sum show ?thesis by (auto simp: tx_simps afford_def balanceOf_def bind_uuid_def split: option.splits)
next
  case (Lock i q)
  with st w mono(1) show ?thesis by (auto simp: tx_simps lock_row_def AccountRepository_lockById_def bind_uuid_def
      split: option.splits if_splits)
qed (use st w in \<open>auto simp: tx_simps OutboxRepository_insert_def markCompensated_def\<close>)

lemma written_cases:
  assumes st: "statement now p s = Inr (p', t)"
  obtains (quiet) "written now p s t = []" "t = s"
  | (transfer) r where "written now p s t = [AddTransfer r]"
      "\<not> key_taken (trow_idempotency_key r) s \<and> \<not> transfer_exists (trow_id r) s"
  | (entry) e where "written now p s t = [AddEntry e]"
  | (saga) i x b r q where "written now p s t = [AddSaga i]" "p = OpenSaga x b r q" "uuid_in x = Some (ib_transfer_id i)"
      "\<not> list_ex (\<lambda>j. ib_transfer_id j = ib_transfer_id i) (interbank_transfers s)"
  | (other) e where "written now p s t = [e]" "\<forall>r. e \<noteq> AddTransfer r" "\<forall>i. e \<noteq> AddSaga i" "\<forall>r. e \<noteq> AddEntry r"
proof (cases p)
  case (Insert tr key q1 q2)
  with st obtain r where r: "TransferRepository_insert now tr key s = Inr (r, t)" by (auto simp: tx_simps)
  from insert_Inr [OF r] consider "t = s" | row where "t = add_transfer row s" "\<not> key_taken (trow_idempotency_key row) s"
      "\<not> transfer_exists (trow_id row) s" by blast
  then show thesis by cases (simp add: quiet Insert, simp add: transfer Insert)
next
  case (InsertSeed i key a m q)
  with st have r: "seed_insert now i key a m s = Inr ((), t)" by (auto simp: tx_simps)
  from seed_insert_Inr [OF r] show thesis by (auto simp: InsertSeed intro: transfer)
next
  case (Append e q)
  with st have r: "ledger_insert now e s = Inr ((), t)" by (auto simp: tx_simps)
  from ledger_insert_Inr [OF r] show thesis by (auto simp: Append add_entries_def intro: entry)
next
  case (OpenSaga x b ref q)
  with st obtain u where r: "InterbankRepository_insert now x b ref s = Inr (u, t)" by (auto simp: tx_simps)
  from saga_insert_Inr [OF r] show thesis by (auto simp: OpenSaga intro: saga)
next
  case (Emit i ty key j q)
  show thesis by (rule other [of "AddEvent now (the (uuid_in i)) ty key j"]) (simp_all add: Emit)
next
  case (Compensated i q)
  show thesis by (rule other [of "Settle now (the (uuid_in i))"]) (simp_all add: Compensated)
qed (use st in \<open>auto simp: tx_simps lock_row_def afford_def split: if_splits intro: quiet\<close>)

lemma statement_new:
  assumes "statement now p s = Inr (p', t)"
  shows "AddTransfer r \<in> set (written now p s t) \<Longrightarrow> \<not> key_taken (trow_idempotency_key r) s \<and> \<not> transfer_exists (trow_id r) s"
    and "AddSaga i \<in> set (written now p s t) \<Longrightarrow>
      \<not> list_ex (\<lambda>j. ib_transfer_id j = ib_transfer_id i) (interbank_transfers s) \<and>
      (\<exists>x b r q. p = OpenSaga x b r q \<and> uuid_in x = Some (ib_transfer_id i))"
proof -
  assume r: "AddTransfer r \<in> set (written now p s t)"
  from assms show "\<not> key_taken (trow_idempotency_key r) s \<and> \<not> transfer_exists (trow_id r) s"
    by (cases rule: written_cases) (use r in \<open>simp_all, blast\<close>)
next
  assume i: "AddSaga i \<in> set (written now p s t)"
  from assms show "\<not> list_ex (\<lambda>j. ib_transfer_id j = ib_transfer_id i) (interbank_transfers s) \<and>
      (\<exists>x b r q. p = OpenSaga x b r q \<and> uuid_in x = Some (ib_transfer_id i))"
    by (cases rule: written_cases) (use i in \<open>simp_all, blast\<close>)
qed

subsection \<open>What a transaction sees\<close>

definition own_rows :: "effect list \<Rightarrow> transfer_row set" where
  "own_rows w = {r. AddTransfer r \<in> set w}"

definition own_sum :: "string \<Rightarrow> effect list \<Rightarrow> int" where
  "own_sum k w = (\<Sum>e \<leftarrow> w. case e of AddEntry r \<Rightarrow> if led_account_id r = k then led_amount r else 0 | _ \<Rightarrow> 0)"

lemma own_rows_simps [simp]: "own_rows [] = {}" "own_rows (v @ w) = own_rows v \<union> own_rows w"
  by (auto simp: own_rows_def)

lemma view_accounts [simp]: "accounts (play w s) = accounts s" "account_exists k (play w s) = account_exists k s"
proof -
  have "accounts (play1 e s) = accounts s" for e s by (cases e) (simp_all add: add_entries_def update_debited_def)
  then show "accounts (play w s) = accounts s" by (induction w arbitrary: s) simp_all
  then show "account_exists k (play w s) = account_exists k s" by (simp add: account_exists_def)
qed

lemma view_transfers: "set (transfers (play w s)) = set (transfers s) \<union> own_rows w"
proof (induction w arbitrary: s)
  case (Cons e w)
  have "set (transfers (play1 e s)) = set (transfers s) \<union> own_rows [e]"
    by (cases e) (auto simp: add_entries_def update_debited_def own_rows_def)
  with Cons own_rows_simps(2) [of "[e]" w] show ?case by auto
qed simp

lemma view_keys:
  "transfer_exists k (play w s) \<longleftrightarrow> transfer_exists k s \<or> (\<exists>r \<in> own_rows w. trow_id r = k)"
  "key_taken key (play w s) \<longleftrightarrow> key_taken key s \<or> (\<exists>r \<in> own_rows w. trow_idempotency_key r = key)"
  by (auto simp: transfer_exists_def key_taken_def list_ex_iff view_transfers)

lemma view_sum: "ledger_sum k (play w s) = ledger_sum k s + own_sum k w"
proof (induction w arbitrary: s)
  case (Cons e w)
  have "ledger_sum k (play1 e s) = ledger_sum k s + own_sum k [e]"
    by (cases e) (auto simp: own_sum_def ledger_sum_def add_entries_def update_debited_def)
  with Cons show ?case by (simp add: own_sum_def)
qed (simp add: own_sum_def)

lemma view_sagas: "ib_transfer_id ` set (interbank_transfers (play w s)) =
    ib_transfer_id ` (set (interbank_transfers s) \<union> {i. AddSaga i \<in> set w})"
proof (induction w arbitrary: s)
  case (Cons e w)
  have upd: "ib_transfer_id ` set (interbank_transfers (update_debited st now k s)) = ib_transfer_id ` set (interbank_transfers s)"
    for st now k s
  proof -
    have "map ib_transfer_id (interbank_transfers (update_debited st now k s)) = map ib_transfer_id (interbank_transfers s)"
      by (simp add: update_debited_def)
    from arg_cong [OF this, of set] show ?thesis by simp
  qed
  have "ib_transfer_id ` set (interbank_transfers (play1 e s)) = ib_transfer_id ` (set (interbank_transfers s) \<union> {i. e = AddSaga i})"
    by (cases e) (auto simp: add_entries_def upd)
  with Cons show ?case by (auto simp: image_Un)
qed simp

subsection \<open>Programs that hold what they rely on\<close>

text \<open>
  A balance is only checked under the lock of its account, and a saga only opened for a
  transfer of the same transaction.
\<close>

fun guarded :: "string set \<Rightarrow> string set \<Rightarrow> prog \<Rightarrow> bool" where
  "guarded L T (Lock i p) \<longleftrightarrow> (\<forall>k. uuid_in i = Some k \<longrightarrow> guarded (insert k L) T p)"
| "guarded L T (Insert tr key p q) \<longleftrightarrow> (\<forall>k. uuid_in (tr_id tr) = Some k \<longrightarrow> guarded L (insert k T) p) \<and> guarded L T q"
| "guarded L T (InsertSeed i key a m p) \<longleftrightarrow> (\<forall>k. uuid_in i = Some k \<longrightarrow> guarded L (insert k T) p)"
| "guarded L T (Afford tr p) \<longleftrightarrow> (\<forall>k. uuid_in (tr_payerAccountId tr) = Some k \<longrightarrow> k \<in> L) \<and> guarded L T p"
| "guarded L T (Append e p) \<longleftrightarrow> guarded L T p"
| "guarded L T (OpenSaga i bank ref p) \<longleftrightarrow> (\<forall>k. uuid_in i = Some k \<longrightarrow> k \<in> T) \<and> guarded L T p"
| "guarded L T (Emit i ty key j p) \<longleftrightarrow> guarded L T p"
| "guarded L T (Compensated i p) \<longleftrightarrow> guarded L T p"
| "guarded L T _ \<longleftrightarrow> True"

lemma guarded_append: "guarded L T (append_entries r p) \<longleftrightarrow> (\<forall>es. r = Inr es \<longrightarrow> guarded L T p)"
proof -
  have "guarded L T (foldr Append es p) = guarded L T p" for es by (induction es) auto
  then show ?thesis by (cases r) simp_all
qed

lemma guarded_code: "guarded {} {} (code k)"
  by (cases k) (auto simp: program_defs guarded_append split: sum.splits)

lemma guarded_step:
  assumes "guarded L T p" "statement now p s = Inr (p', t)"
  shows "guarded (set (row_locks p) \<union> L) (T \<union> trow_id ` own_rows (written now p s t)) p'"
proof (cases p)
  case (Insert tr key q1 q2)
  with assms(2) obtain r where r: "TransferRepository_insert now tr key s = Inr (r, t)"
    and p': "p' = (case r of None \<Rightarrow> q2 | Some _ \<Rightarrow> q1)" by (auto simp: tx_simps)
  from insert_Inr [OF r] p' assms(1) Insert show ?thesis by (auto simp: own_rows_def)
next
  case (InsertSeed i key a m q)
  with assms(2) have r: "seed_insert now i key a m s = Inr ((), t)" and p': "p' = q" by (auto simp: tx_simps)
  from seed_insert_Inr [OF r] p' assms(1) InsertSeed show ?thesis by (auto simp: own_rows_def)
next
  case (Append e q)
  with assms(2) have r: "ledger_insert now e s = Inr ((), t)" and p': "p' = q" by (auto simp: tx_simps)
  from ledger_insert_Inr [OF r] p' assms(1) Append show ?thesis by (auto simp: own_rows_def add_entries_def)
next
  case (OpenSaga x b ref q)
  with assms(2) obtain u where r: "InterbankRepository_insert now x b ref s = Inr (u, t)" and p': "p' = q" by (auto simp: tx_simps)
  from saga_insert_Inr [OF r] p' assms(1) OpenSaga show ?thesis by (auto simp: own_rows_def)
next
  case (Lock i q)
  with assms show ?thesis
    by (auto simp: tx_simps lock_row_def AccountRepository_lockById_def bind_uuid_def own_rows_def split: if_splits option.splits)
qed (use assms in \<open>auto simp: tx_simps afford_def own_rows_def\<close>)

subsection \<open>The invariant of the server\<close>

text \<open>What others may do to the committed database while a session holds its locks.\<close>

definition keeps :: "session \<Rightarrow> bank_db \<Rightarrow> bank_db \<Rightarrow> bool" where
  "keeps x s t \<longleftrightarrow> bank_inv t \<and> grows s t \<and> (\<forall>k \<in> set (ses_locks x). ledger_sum k t = ledger_sum k s) \<and>
     (\<forall>r \<in> own_rows (ses_log x). \<not> key_taken (trow_idempotency_key r) t \<and> \<not> transfer_exists (trow_id r) t)"

text \<open>
  A session is where its program, run alone on what is committed, would be by now; and that
  stays so whatever others commit.
\<close>

definition session_ok :: "bank_db \<Rightarrow> session \<Rightarrow> bool" where
  "session_ok s x \<longleftrightarrow> begun (ses_task x) s \<and>
     guarded (set (ses_locks x)) (trow_id ` own_rows (ses_log x)) (ses_rest x) \<and>
     (\<forall>r \<in> own_rows (ses_log x). \<not> key_taken (trow_idempotency_key r) s \<and> \<not> transfer_exists (trow_id r) s) \<and>
     (\<forall>t. keeps x s t \<longrightarrow> run (ses_now x) (code (ses_task x)) t = run (ses_now x) (ses_rest x) (the_view t x))"

definition server_ok :: "bank_db \<Rightarrow> (nat \<Rightarrow> session option) \<Rightarrow> bool" where
  "server_ok s S \<longleftrightarrow> bank_inv s \<and> (\<forall>a x. S a = Some x \<longrightarrow> session_ok s x) \<and>
     (\<forall>a b x y. a \<noteq> b \<longrightarrow> S a = Some x \<longrightarrow> S b = Some y \<longrightarrow> compatible (ses_locks x) (ses_log x) y)"

lemma keeps_trans: "keeps x s t \<Longrightarrow> keeps x t u \<Longrightarrow> keeps x s u"
  by (auto simp: keeps_def intro: grows_trans)

lemma session_keeps: "session_ok s x \<Longrightarrow> bank_inv s \<Longrightarrow> keeps x s t \<Longrightarrow> session_ok t x"
  unfolding session_ok_def using keeps_trans [of x s t] begun_grows [of "ses_task x" s t] by (auto simp: keeps_def)

lemma session_refl: "session_ok s x \<Longrightarrow> bank_inv s \<Longrightarrow> keeps x s s"
  by (auto simp: session_ok_def keeps_def)

lemma fresh_ok: "begun k s \<Longrightarrow> session_ok s (fresh_session now k)"
  by (simp add: session_ok_def fresh_session_def guarded_code the_view_def)

lemma grows_exists:
  "grows s t \<Longrightarrow> transfer_exists k s \<Longrightarrow> transfer_exists k t" "grows s t \<Longrightarrow> key_taken key s \<Longrightarrow> key_taken key t"
  by (auto simp: transfer_exists_def key_taken_def list_ex_iff dest: grows_transfer)

text \<open>The next statement.\<close>

lemma advance_ok:
  assumes x: "session_ok s x" and inv: "bank_inv s"
    and st: "statement (ses_now x) (ses_rest x) (the_view s x) = Inr (p, u)"
    and w: "w = written (ses_now x) (ses_rest x) (the_view s x) u"
    and y: "y = x\<lparr>ses_rest := p, ses_locks := row_locks (ses_rest x) @ ses_locks x, ses_log := ses_log x @ w\<rparr>"
  shows "session_ok s y"
proof -
  let ?now = "ses_now x" and ?p = "ses_rest x" and ?v = "the_view s x"
  have new: "\<not> key_taken (trow_idempotency_key r) ?v \<and> \<not> transfer_exists (trow_id r) ?v" if "r \<in> own_rows w" for r
    using that statement_new(1) [OF st, of r] unfolding w own_rows_def by simp
  have guard: "guarded (set (ses_locks x)) (trow_id ` own_rows (ses_log x)) ?p" using x by (simp add: session_ok_def)
  have run: "run ?now (code (ses_task y)) t = run (ses_now y) (ses_rest y) (the_view t y)" if keep: "keeps y s t" for t
  proof -
    have old: "keeps x s t" using keep by (auto simp: keeps_def y)
    have fresh: "\<not> key_taken (trow_idempotency_key r) t \<and> \<not> transfer_exists (trow_id r) t"
      if "r \<in> own_rows (ses_log x) \<union> own_rows w" for r using keep that by (auto simp: keeps_def y)
    have inv': "bank_inv t" and grow: "grows s t" using keep by (auto simp: keeps_def)
    have "statement ?now ?p (the_view t x) = Inr (p, play w (the_view t x))"
    proof (rule statement_stable [OF st w])
      show "account_exists k (the_view t x)" if "account_exists k ?v" for k
        using that grows_account [OF grow] by (simp add: the_view_def)
      show "transfer_exists k (the_view t x)" if "transfer_exists k ?v" for k
        using that grows_exists(1) [OF grow] by (auto simp: the_view_def view_keys)
      show "key_taken key (the_view t x)" if "key_taken key ?v" for key
        using that grows_exists(2) [OF grow] by (auto simp: the_view_def view_keys)
      show "\<not> key_taken (trow_idempotency_key r) (the_view t x) \<and> \<not> transfer_exists (trow_id r) (the_view t x)"
        if "AddTransfer r \<in> set w" for r
        using new [of r] fresh [of r] that by (auto simp: the_view_def view_keys own_rows_def)
      show "ledger_sum k (the_view t x) = ledger_sum k ?v"
        if "?p = Afford tr q" "uuid_in (tr_payerAccountId tr) = Some k" for tr q k
        using guard that old by (simp add: the_view_def view_sum keeps_def)
      show "\<not> list_ex (\<lambda>j. ib_transfer_id j = ib_transfer_id i) (interbank_transfers (the_view t x))"
        if "AddSaga i \<in> set w" for i
      proof -
        from that statement_new(2) [OF st, of i] have none: "ib_transfer_id i \<notin> ib_transfer_id ` set (interbank_transfers ?v)"
          and "ib_transfer_id i \<in> trow_id ` own_rows (ses_log x)"
          using guard by (auto simp: w list_ex_iff)
        then have "\<not> transfer_exists (ib_transfer_id i) t" using fresh by auto
        then have "ib_transfer_id i \<notin> ib_transfer_id ` set (interbank_transfers t)"
          using inv' by (force simp: bank_inv_def interbank_ok_def transfer_exists_def list_ex_iff)
        with none have "ib_transfer_id i \<notin> ib_transfer_id ` set (interbank_transfers (the_view t x))"
          by (auto simp: the_view_def view_sagas)
        then show ?thesis unfolding list_ex_iff by (metis image_eqI)
      qed
    qed
    from run_statement [OF this] x old show ?thesis by (simp add: session_ok_def y the_view_def)
  qed
  have "\<not> key_taken (trow_idempotency_key r) s \<and> \<not> transfer_exists (trow_id r) s" if "r \<in> own_rows w" for r
    using new [OF that] by (auto simp: the_view_def view_keys)
  then show ?thesis
    using x run guarded_step [OF guard st, folded w] by (auto simp: session_ok_def y image_Un)
qed

lemma compatible_sym: "compatible (ses_locks x) (ses_log x) y = compatible (ses_locks y) (ses_log y) x"
  by (auto simp: compatible_def)

lemma compatible_append:
  "compatible (l @ ls) (w @ v) y \<longleftrightarrow> compatible l v y \<and> compatible ls w y"
proof -
  have "exclusive (l @ ls) (w @ v) = exclusive l v \<union> exclusive ls w" "shared (w @ v) = shared v \<union> shared w"
    by (auto simp: exclusive_def shared_def)
  then show ?thesis by (simp add: compatible_def Int_Un_distrib2) blast
qed

lemma own_sum_unshared: "AccountRow k \<notin> shared w \<Longrightarrow> own_sum k w = 0"
proof (induction w)
  case (Cons e w)
  then show ?case by (cases e) (auto simp: own_sum_def shared_def)
qed (simp add: own_sum_def)

text \<open>What a session commits leaves to the others what they rely on.\<close>

lemma compatible_keeps:
  assumes inv: "bank_inv t" "grows s t" and t: "t = the_view s x"
    and y: "session_ok s y" and xy: "compatible (ses_locks x) (ses_log x) y"
  shows "keeps y s t"
proof -
  have "ledger_sum k t = ledger_sum k s" if "k \<in> set (ses_locks y)" for k
  proof -
    have "AccountRow k \<notin> shared (ses_log x)" using xy that by (auto simp: compatible_def exclusive_def)
    then show ?thesis by (simp add: t the_view_def view_sum own_sum_unshared)
  qed
  moreover have "\<not> key_taken (trow_idempotency_key r) t \<and> \<not> transfer_exists (trow_id r) t"
    if r: "r \<in> own_rows (ses_log y)" for r
  proof -
    have disj: "exclusive (ses_locks x) (ses_log x) \<inter> exclusive (ses_locks y) (ses_log y) = {}"
      using xy by (auto simp: compatible_def)
    have claim: "KeyEntry (trow_idempotency_key q) \<in> exclusive (ses_locks z) (ses_log z)"
      "IdEntry (trow_id q) \<in> exclusive (ses_locks z) (ses_log z)" if "q \<in> own_rows (ses_log z)" for q and z :: session
      using that by (force simp: exclusive_def own_rows_def)+
    have "trow_idempotency_key q \<noteq> trow_idempotency_key r \<and> trow_id q \<noteq> trow_id r" if q: "q \<in> own_rows (ses_log x)" for q
      using claim [OF q] claim [OF r] disj by (metis IntI empty_iff)
    moreover have "\<not> key_taken (trow_idempotency_key r) s \<and> \<not> transfer_exists (trow_id r) s"
      using y r by (simp add: session_ok_def)
    ultimately show ?thesis by (auto simp: t the_view_def view_keys)
  qed
  ultimately show ?thesis using inv by (simp add: keeps_def)
qed

lemma server_ok_update:
  assumes ok: "server_ok s S" and y: "session_ok s y"
    and others: "\<And>b z. b \<noteq> a \<Longrightarrow> S b = Some z \<Longrightarrow> compatible (ses_locks y) (ses_log y) z"
  shows "server_ok s (S(a \<mapsto> y))"
proof -
  have "compatible (ses_locks z) (ses_log z) y" if "b \<noteq> a" "S b = Some z" for b z
    using others [OF that] by (simp add: compatible_sym [of z])
  with others have "compatible (ses_locks x) (ses_log x) z"
    if "b \<noteq> c" "(S(a \<mapsto> y)) b = Some x" "(S(a \<mapsto> y)) c = Some z" for b c x z
    using that ok unfolding server_ok_def by (cases "b = a"; cases "c = a") auto
  with ok y show ?thesis unfolding server_ok_def by auto
qed

lemma server_ok_remove: "server_ok s S \<Longrightarrow> server_ok s (S(a := None))"
  unfolding server_ok_def by (auto split: if_splits)

lemma commit_ok:
  assumes ok: "server_ok s S" and x: "S a = Some x" "ses_rest x = Commit"
  shows "bank_step s (the_view s x) \<and> server_ok (the_view s x) (S(a := None))"
proof -
  have sx: "session_ok s x" and inv: "bank_inv s" using ok x by (auto simp: server_ok_def)
  with x(2) session_refl [OF sx inv] have "run (ses_now x) (code (ses_task x)) s = Inr (True, the_view s x)"
    by (simp add: session_ok_def)
  with sx have step: "bank_step s (the_view s x)" by (auto simp: session_ok_def intro: run_is_step)
  note good = bank_step_ok [OF step inv]
  have "session_ok (the_view s x) y" if b: "b \<noteq> a" "S b = Some y" for b y
  proof -
    have y: "session_ok s y" using ok b by (simp add: server_ok_def)
    have "compatible (ses_locks x) (ses_log x) y" using ok x(1) b unfolding server_ok_def by metis
    from session_keeps [OF y inv compatible_keeps [OF _ _ refl y this]] good show ?thesis by blast
  qed
  then have "server_ok (the_view s x) (S(a := None))"
    using ok good unfolding server_ok_def by (auto split: if_splits)
  with step show ?thesis by blast
qed

lemma quiet_ok:
  assumes ok: "server_ok s S" and step: "bank_step s t" and same: "transfers t = transfers s" "ledger_entries t = ledger_entries s"
  shows "server_ok t S"
proof -
  have inv: "bank_inv s" using ok by (simp add: server_ok_def)
  note good = bank_step_ok [OF step inv]
  have "keeps x s t" if "S a = Some x" for a x
    using that ok good by (auto simp: keeps_def server_ok_def session_ok_def ledger_sum_def key_taken_def transfer_exists_def same)
  then have "session_ok t x" if "S a = Some x" for a x
    using session_keeps [OF _ inv] that ok unfolding server_ok_def by blast
  with ok good show ?thesis unfolding server_ok_def by blast
qed

lemma server_step_ok:
  assumes "server_step (s, S) (t, T)" "server_ok s S"
  shows "(t = s \<or> bank_step s t) \<and> server_ok t T"
  using assms(1)
proof cases
  case (start a k now)
  have "compatible (ses_locks (fresh_session now k)) (ses_log (fresh_session now k)) y" for y
    by (simp add: compatible_def exclusive_def shared_def fresh_session_def)
  with start server_ok_update [OF assms(2) fresh_ok] show ?thesis by simp
next
  case (advance a x p u w)
  let ?y = "x\<lparr>ses_rest := p, ses_locks := row_locks (ses_rest x) @ ses_locks x, ses_log := ses_log x @ w\<rparr>"
  have x: "session_ok s x" "bank_inv s" using assms(2) advance(3) by (auto simp: server_ok_def)
  have "server_ok s (S(a \<mapsto> ?y))"
  proof (rule server_ok_update [OF assms(2) advance_ok [OF x advance(4,5) refl]])
    fix b z assume b: "b \<noteq> a" "S b = Some z"
    then have "compatible (ses_locks x) (ses_log x) z" using assms(2) advance(3) unfolding server_ok_def by metis
    moreover have "compatible (row_locks (ses_rest x)) w z" using advance(6) b by blast
    ultimately show "compatible (ses_locks ?y) (ses_log ?y) z" by (simp add: compatible_append)
  qed
  with advance(1,2) show ?thesis by simp
next
  case (commit a x)
  with commit_ok [OF assms(2)] show ?thesis by blast
next
  case (abort a)
  with server_ok_remove [OF assms(2)] show ?thesis by simp
next
  case (open_account uuid now name r)
  then have "bank_step s t" by (auto intro: bank_step.open_account)
  moreover have "transfers t = transfers s" "ledger_entries t = ledger_entries s"
    using open_account by (auto simp: AccountRepository_create_Inr)
  ultimately show ?thesis using quiet_ok [OF assms(2)] open_account by simp
next
  case (confirm now i u)
  then have "bank_step s t" by (auto intro: bank_step.confirm)
  moreover have "transfers t = transfers s" "ledger_entries t = ledger_entries s"
    using confirm by (auto simp: markConfirmed_Inr update_debited_def)
  ultimately show ?thesis using quiet_ok [OF assms(2)] confirm by simp
next
  case (relay publish commit locked now res ob sent)
  then have "bank_step s t" by (auto intro: bank_step.relay)
  then show ?thesis using quiet_ok [OF assms(2)] relay by simp
qed

lemma server_steps_ok:
  "server_step\<^sup>*\<^sup>* (s, S) (t, T) \<Longrightarrow> server_ok s S \<Longrightarrow> bank_step\<^sup>*\<^sup>* s t \<and> server_ok t T"
proof (induction "(t, T)" arbitrary: t T rule: rtranclp_induct)
  case (step u)
  obtain v V where u: "u = (v, V)" by fastforce
  with step have "bank_step\<^sup>*\<^sup>* s v" "server_ok v V" by auto
  with server_step_ok [of v V t T] step(2) u show ?case by (auto intro: rtranclp.rtrancl_into_rtrancl)
qed simp

definition no_sessions :: "nat \<Rightarrow> session option" where
  "no_sessions = (\<lambda>_. None)"

lemma migrated_ok: "server_ok migrated_bank no_sessions"
  by (simp add: server_ok_def bank_inv_migrated no_sessions_def)

text \<open>What the transaction of the service does, run by itself.\<close>

definition in_one_piece :: "task \<Rightarrow> int \<Rightarrow> bank_db \<Rightarrow> bank_db \<Rightarrow> bool" where
  "in_one_piece k now s t = (case k of
     LocalTransfer tr key \<Rightarrow> (\<exists>r. execute_tx now tr key s = Inr (Some r, t))
   | InterbankDebit bankId tr key ps \<Rightarrow> (\<exists>r. interbank_tx bankId now tr key ps s = Inr (Some r, t))
   | Seeding i acc m \<Rightarrow> devSeed_tx i now acc m s = Inr ((), t)
   | Compensation tr i \<Rightarrow> compensate_tx now tr i s = Inr ((), t))"

lemma run_in_one_piece: "run now (code k) s = Inr (True, t) \<Longrightarrow> in_one_piece k now s t"
  by (cases k; simp add: in_one_piece_def run_code committed_unit del: code.simps; auto simp: committed_Inr)

text \<open>A transaction that is alone gets to its commit, so nothing is lost in the statements either.\<close>

lemma run_progress:
  assumes "run now p s = Inr (True, t)"
  shows "p = Commit \<and> t = s \<or> (\<exists>q u. statement now p s = Inr (q, u) \<and> run now q u = Inr (True, t) \<and> size q < size p)"
  using assms by (cases p) (auto simp: tx_bind_def split: sum.splits option.splits)

lemma alone_gets_through:
  assumes "run (ses_now x) (ses_rest x) (the_view s x) = Inr (True, t)"
  shows "\<exists>y. server_step\<^sup>*\<^sup>* (s, no_sessions(a \<mapsto> x)) (s, no_sessions(a \<mapsto> y)) \<and> ses_rest y = Commit \<and>
    the_view s y = t \<and> ses_task y = ses_task x"
  using assms
proof (induction "size (ses_rest x)" arbitrary: x rule: less_induct)
  case less
  from run_progress [OF less.prems] show ?case
  proof (elim disjE exE conjE)
    assume "ses_rest x = Commit" "t = the_view s x"
    then show ?thesis by blast
  next
    fix q u
    assume st: "statement (ses_now x) (ses_rest x) (the_view s x) = Inr (q, u)" and q: "run (ses_now x) q u = Inr (True, t)"
      "size q < size (ses_rest x)"
    let ?y = "x\<lparr>ses_rest := q, ses_locks := row_locks (ses_rest x) @ ses_locks x,
      ses_log := ses_log x @ written (ses_now x) (ses_rest x) (the_view s x) u\<rparr>"
    have "server_step (s, no_sessions(a \<mapsto> x)) (s, (no_sessions(a \<mapsto> x))(a \<mapsto> ?y))"
      by (rule server_step.advance [OF _ st refl]) (simp_all add: no_sessions_def)
    then have first: "server_step (s, no_sessions(a \<mapsto> x)) (s, no_sessions(a \<mapsto> ?y))" by simp
    have "the_view s ?y = u" using written_play [OF st] by (simp add: the_view_def)
    then obtain z where "server_step\<^sup>*\<^sup>* (s, no_sessions(a \<mapsto> ?y)) (s, no_sessions(a \<mapsto> z))" "ses_rest z = Commit"
      "the_view s z = t" "ses_task z = ses_task x"
      using less.hyps [of ?y] q by auto
    with converse_rtranclp_into_rtranclp [of server_step, OF first] show ?thesis by blast
  qed
qed

lemma alone_started:
  assumes "begun k s" "run now (code k) s = Inr (True, t)"
  shows "\<exists>y. server_step\<^sup>*\<^sup>* (s, no_sessions) (s, no_sessions(0 \<mapsto> y)) \<and> ses_rest y = Commit \<and> the_view s y = t \<and> ses_task y = k"
proof -
  have first: "server_step (s, no_sessions) (s, no_sessions(0 \<mapsto> fresh_session now k))"
    by (rule server_step.start) (simp_all add: assms no_sessions_def)
  have "run (ses_now (fresh_session now k)) (ses_rest (fresh_session now k)) (the_view s (fresh_session now k)) = Inr (True, t)"
    by (simp add: assms fresh_session_def the_view_def)
  from alone_gets_through [OF this, of 0]
  obtain y where "server_step\<^sup>*\<^sup>* (s, no_sessions(0 \<mapsto> fresh_session now k)) (s, no_sessions(0 \<mapsto> y))" "ses_rest y = Commit"
    "the_view s y = t" "ses_task y = k" by (auto simp: fresh_session_def)
  with converse_rtranclp_into_rtranclp [of server_step, OF first] show ?thesis by blast
qed

lemma alone_runs:
  assumes "begun k s" "run now (code k) s = Inr (True, t)"
  shows "server_step\<^sup>*\<^sup>* (s, no_sessions) (t, no_sessions)"
proof -
  obtain y where y: "server_step\<^sup>*\<^sup>* (s, no_sessions) (s, no_sessions(0 \<mapsto> y))" "ses_rest y = Commit" "the_view s y = t"
    using alone_started [OF assms] by blast
  have "server_step (s, no_sessions(0 \<mapsto> y)) (the_view s y, (no_sessions(0 \<mapsto> y))(0 := None))"
    by (rule server_step.commit) (simp_all add: y)
  then have "server_step (s, no_sessions(0 \<mapsto> y)) (t, no_sessions)" by (simp add: y no_sessions_def fun_upd_idem)
  with y(1) show ?thesis by simp
qed

lemma step_is_run:
  assumes "bank_step s t"
  shows "server_step\<^sup>*\<^sup>* (s, no_sessions) (t, no_sessions)"
  using assms
proof cases
  case (local_transfer uuid m p q tr now key r)
  then have "t = s \<or> run now (code (LocalTransfer tr key)) s = Inr (True, t)"
    using execute_tx_Inr [OF created_ok [OF local_transfer(3,1,2)] local_transfer(4)]
    by (auto simp: run_code committed_Inr simp del: code.simps)
  moreover have "begun (LocalTransfer tr key) s" using local_transfer by auto
  ultimately show ?thesis using alone_runs [of "LocalTransfer tr key" s now t] by blast
next
  case (interbank_debit uuid ps tr bankId now key r)
  have "tr_payeeAccountId tr = SUSPENSE_ACCOUNT_ID" using interbank_debit by (auto simp: Transfer_create_Inr)
  show ?thesis
  proof (cases r)
    case None
    with interbank_debit(4) have "t = s"
      by (auto simp: interbank_tx_def tx_simps split: option.splits if_splits dest!: insert_Inr)
    then show ?thesis by simp
  next
    case (Some x)
    with interbank_debit(4) have "run now (code (InterbankDebit bankId tr key ps)) s = Inr (True, t)"
      by (auto simp: run_code committed_Inr simp del: code.simps)
    moreover have "begun (InterbankDebit bankId tr key ps) s" using interbank_debit by auto
    ultimately show ?thesis by (intro alone_runs)
  qed
next
  case (seed uuid m now a u)
  then have "run now (code (Seeding uuid a m)) s = Inr (True, t)"
    by (simp add: run_code committed_def del: code.simps)
  moreover have "begun (Seeding uuid a m) s" using seed by simp
  ultimately show ?thesis by (intro alone_runs)
next
  case (compensation uuid i interbank original tr now u)
  then have "run now (code (Compensation tr i)) s = Inr (True, t)"
    by (simp add: run_code committed_def del: code.simps)
  moreover have "begun (Compensation tr i) s" using compensation by auto
  ultimately show ?thesis by (intro alone_runs)
next
  case (open_account uuid now name a)
  then show ?thesis by (blast intro: server_step.open_account)
next
  case (confirm now i u)
  then have "server_step (s, no_sessions) (t, no_sessions)" by (intro server_step.confirm) (auto simp: no_sessions_def)
  then show ?thesis by blast
next
  case (relay publish commit locked now res ob sent)
  then show ?thesis by (blast intro: server_step.relay)
qed

lemma steps_are_runs: "bank_step\<^sup>*\<^sup>* s t \<Longrightarrow> server_step\<^sup>*\<^sup>* (s, no_sessions) (t, no_sessions)"
  by (induction rule: rtranclp_induct) (auto dest: step_is_run)

subsection \<open>Properties\<close>

text \<open>
  C7. The transactions are serializable. The committed databases that the statements of any
  number of transactions can lead to, in whatever way they interleave, are exactly those that
  whole transactions reach one after the other.
\<close>
theorem transactions_serialize:
  "(\<exists>S. server_step\<^sup>*\<^sup>* (migrated_bank, no_sessions) (s, S)) \<longleftrightarrow> bank_step\<^sup>*\<^sup>* migrated_bank s"
  using server_steps_ok [OF _ migrated_ok] steps_are_runs by blast

text \<open>
  No decision of a transaction becomes stale before it commits: whatever ran in between
  its statements, a transaction that is about to commit has done exactly what the transaction of
  its service does, in one piece, to the committed database of that moment; and no customer is
  overdrawn before or after.
\<close>
theorem commits_are_in_one_piece:
  assumes "server_step\<^sup>*\<^sup>* (migrated_bank, no_sessions) (s, S)" and "S a = Some x" "ses_rest x = Commit"
  shows "in_one_piece (ses_task x) (ses_now x) s (the_view s x) \<and>
    (\<forall>k. \<not> system_account k \<longrightarrow> 0 \<le> balances s k \<and> 0 \<le> balances (the_view s x) k)"
proof -
  have ok: "server_ok s S" using server_steps_ok [OF assms(1) migrated_ok] by blast
  have "in_one_piece (ses_task x) (ses_now x) s (the_view s x)"
    using ok assms(2,3) session_refl [of s x] by (intro run_in_one_piece) (auto simp: server_ok_def session_ok_def)
  moreover have "solvent s" "solvent (the_view s x)"
    using ok commit_ok [OF ok assms(2,3)] by (auto simp: server_ok_def bank_inv_def)
  ultimately show ?thesis by (simp add: solvent_def balances_def)
qed

text \<open>Alice's account is seeded: just before the commit the seeding is the one of the service.\<close>

theorem commits_are_in_one_piece_witness:
  "\<exists>y. ses_task y = Seeding (trow_id seed_row) alice (Money 1000) \<and>
     in_one_piece (ses_task y) (ses_now y) opened_bank (the_view opened_bank y) \<and> balances (the_view opened_bank y) alice = 1000"
proof -
  let ?k = "Seeding (trow_id seed_row) alice (Money 1000)"
  have begun: "begun ?k opened_bank" using sample_uuids by (simp add: money_small)
  have tx: "devSeed_tx (trow_id seed_row) 1 alice (Money 1000) opened_bank = Inr ((), sample_bank)"
  proof -
    have none: "\<not> transfer_exists i opened_bank" "\<not> key_taken key opened_bank" for i key
      by (simp_all add: transfer_exists_def key_taken_def opened_bank_def migrated_bank_def)
    have "alice \<noteq> DEV_TREASURY_ACCOUNT_ID" using sample_distinct by auto
    moreover have "seed_row_for (trow_id seed_row) 1 alice 1000 = seed_row" by (simp add: seed_row_for_def seed_row_def)
    ultimately show ?thesis
      using devSeed_tx_ok [OF opened_inv sample_uuids(3) _ uuid_ok_in [OF sample_uuids(1)] opened_accounts(1), of "Money 1000" 1]
      by (simp add: none sample_bank_def money_small)
  qed
  then have run: "run 1 (code ?k) opened_bank = Inr (True, sample_bank)" by (simp add: run_code committed_def del: code.simps)
  obtain y where y: "server_step\<^sup>*\<^sup>* (opened_bank, no_sessions) (opened_bank, no_sessions(0 \<mapsto> y))" "ses_rest y = Commit"
      "the_view opened_bank y = sample_bank" "ses_task y = ?k" using alone_started [OF begun run] by blast
  have "server_step\<^sup>*\<^sup>* (migrated_bank, no_sessions) (opened_bank, no_sessions(0 \<mapsto> y))"
    using steps_are_runs [OF opened_step] y(1) by (rule rtranclp_trans)
  from commits_are_in_one_piece [OF this, of 0 y] y sample_balance show ?thesis by (auto simp: balances_def)
qed

end
