(* ===== verification/BankDeadlock.thy ===== *)
theory BankDeadlock
  imports BankIsolation
begin

text \<open>
  Whether transfers can wait for each other for ever. \<open>lockAccounts\<close> sorts the two account
  texts of a request and locks them in that order, so that opposing transfers cannot deadlock;
  an interbank transfer locks its payer only, since nobody locks the suspense account. Both hold
  of requests that name customers as PostgreSQL prints their ids, and the first fails for
  others: the order is the one of the texts, the locks are on the rows.
\<close>

subsection \<open>Waiting\<close>

text \<open>The next statement of \<open>a\<close> would go on, but needs something that \<open>b\<close> holds.\<close>

definition waits_for :: "bank_db \<Rightarrow> (nat \<Rightarrow> session option) \<Rightarrow> nat \<Rightarrow> nat \<Rightarrow> bool" where
  "waits_for s S a b \<longleftrightarrow> a \<noteq> b \<and> (\<exists>x y p t. S a = Some x \<and> S b = Some y \<and>
     statement (ses_now x) (ses_rest x) (the_view s x) = Inr (p, t) \<and>
     \<not> compatible (row_locks (ses_rest x)) (written (ses_now x) (ses_rest x) (the_view s x) t) y)"

text \<open>
  A local transfer between customers whose accounts are named as PostgreSQL prints them, or an
  interbank transfer of such a payer.
\<close>

definition canonical :: "session \<Rightarrow> bool" where
  "canonical x \<longleftrightarrow> (case ses_task x of
     LocalTransfer tr key \<Rightarrow> uuid_ok (tr_payerAccountId tr) \<and> uuid_ok (tr_payeeAccountId tr) \<and>
       SUSPENSE_ACCOUNT_ID \<notin> {tr_payerAccountId tr, tr_payeeAccountId tr}
   | InterbankDebit bankId tr key ps \<Rightarrow> uuid_ok (tr_payerAccountId tr)
   | _ \<Rightarrow> False)"

subsection \<open>Where such a transfer is\<close>

text \<open>No lock and no insertion is left.\<close>

fun past :: "prog \<Rightarrow> bool" where
  "past (Afford tr p) \<longleftrightarrow> past p"
| "past (Append e p) \<longleftrightarrow> past p"
| "past (OpenSaga i bank ref p) \<longleftrightarrow> past p"
| "past (Emit i ty key j p) \<longleftrightarrow> past p"
| "past Commit \<longleftrightarrow> True" | "past Rollback \<longleftrightarrow> True" | "past (Throw e) \<longleftrightarrow> True"
| "past _ \<longleftrightarrow> False"

text \<open>
  The locks come in rising order, and what is written afterwards names no other accounts, but
  for the suspense account, which none of them locks.
\<close>

fun orderly :: "string set \<Rightarrow> prog \<Rightarrow> bool" where
  "orderly L (Lock i p) \<longleftrightarrow> uuid_ok i \<and> i \<noteq> SUSPENSE_ACCOUNT_ID \<and> (\<forall>k \<in> L. k < i) \<and> orderly (insert i L) p"
| "orderly L (Insert tr key p q) \<longleftrightarrow> {tr_payerAccountId tr, tr_payeeAccountId tr} \<subseteq> insert SUSPENSE_ACCOUNT_ID L \<and>
     uuid_ok (tr_payerAccountId tr) \<and> uuid_ok (tr_payeeAccountId tr) \<and> past p \<and> orderly L p \<and> q = Rollback"
| "orderly L (Afford tr p) \<longleftrightarrow> orderly L p"
| "orderly L (Append e p) \<longleftrightarrow> entry_accountId e \<in> insert SUSPENSE_ACCOUNT_ID L \<and> uuid_ok (entry_accountId e) \<and> past p \<and> orderly L p"
| "orderly L (OpenSaga i bank ref p) \<longleftrightarrow> past p \<and> orderly L p"
| "orderly L (Emit i ty key j p) \<longleftrightarrow> past p \<and> orderly L p"
| "orderly L Commit \<longleftrightarrow> True" | "orderly L Rollback \<longleftrightarrow> True" | "orderly L (Throw e) \<longleftrightarrow> True"
| "orderly L _ \<longleftrightarrow> False"

definition rows_of :: "string set \<Rightarrow> resource set" where
  "rows_of L = AccountRow ` insert SUSPENSE_ACCOUNT_ID L"

definition session_orderly :: "session \<Rightarrow> bool" where
  "session_orderly x \<longleftrightarrow> orderly (set (ses_locks x)) (ses_rest x) \<and> SUSPENSE_ACCOUNT_ID \<notin> set (ses_locks x) \<and>
     shared (ses_log x) \<subseteq> rows_of (set (ses_locks x)) \<and> (ses_log x \<noteq> [] \<longrightarrow> past (ses_rest x))"

lemma past_entries: "past p \<Longrightarrow> past (append_entries (Transfer_entries tr) p)"
  by (auto simp: Transfer_entries_def split: sum.splits)

lemma orderly_entries:
  "uuid_ok (tr_payerAccountId tr) \<Longrightarrow> uuid_ok (tr_payeeAccountId tr) \<Longrightarrow>
   {tr_payerAccountId tr, tr_payeeAccountId tr} \<subseteq> insert SUSPENSE_ACCOUNT_ID L \<Longrightarrow> past p \<Longrightarrow> orderly L p \<Longrightarrow>
   orderly L (append_entries (Transfer_entries tr) p)"
  by (auto simp: Transfer_entries_def split: sum.splits)

lemma orderly_code:
  assumes "begun (ses_task x) s" "canonical x"
  shows "orderly {} (code (ses_task x))"
proof (cases "ses_task x")
  case (LocalTransfer tr key)
  moreover from this have "tr_payerAccountId tr \<noteq> tr_payeeAccountId tr" using assms(1) by (auto simp: Transfer_create_Inr)
  ultimately show ?thesis
    using assms(2) by (auto simp: canonical_def local_program_def orderly_entries past_entries)
next
  case (InterbankDebit bankId tr key ps)
  moreover from this have "tr_payeeAccountId tr = SUSPENSE_ACCOUNT_ID" "tr_payerAccountId tr \<noteq> SUSPENSE_ACCOUNT_ID"
    using assms(1) by (auto simp: Transfer_create_Inr)
  ultimately show ?thesis
    using assms(2) suspense_ok
    by (auto simp: canonical_def debit_program_def intro!: orderly_entries past_entries split: sum.splits)
qed (use assms(2) in \<open>simp_all add: canonical_def\<close>)

lemma orderly_step:
  assumes ord: "orderly L p" and st: "statement now p s = Inr (p', t)"
  shows "orderly (set (row_locks p) \<union> L) p' \<and> shared (written now p s t) \<subseteq> rows_of L \<and>
    (written now p s t \<noteq> [] \<longrightarrow> past p') \<and> (past p \<longrightarrow> past p')"
proof (cases p)
  case (Insert tr key q1 q2)
  with st obtain r where r: "TransferRepository_insert now tr key s = Inr (r, t)"
    and p': "p' = (case r of None \<Rightarrow> q2 | Some _ \<Rightarrow> q1)" by (auto simp: tx_simps)
  from insert_Inr [OF r] p' ord Insert show ?thesis by (auto simp: shared_def rows_of_def)
next
  case (Append e q)
  with st have r: "ledger_insert now e s = Inr ((), t)" and p': "p' = q" by (auto simp: tx_simps)
  from ledger_insert_Inr [OF r] p' ord Append show ?thesis by (auto simp: shared_def add_entries_def rows_of_def)
next
  case (Lock i q)
  with ord st show ?thesis by (auto simp: tx_simps lock_row_def shared_def split: if_splits)
next
  case (Afford tr q)
  with ord st show ?thesis by (auto simp: tx_simps afford_def shared_def)
next
  case (OpenSaga x b ref q)
  with st obtain u where r: "InterbankRepository_insert now x b ref s = Inr (u, t)" and p': "p' = q" by (auto simp: tx_simps)
  from saga_insert_Inr [OF r] p' ord OpenSaga show ?thesis by (auto simp: shared_def)
next
  case (Emit i ty key j q)
  with ord st show ?thesis by (auto simp: tx_simps shared_def)
qed (use ord st in auto)

lemma session_advances:
  assumes x: "session_orderly x" and st: "statement now (ses_rest x) v = Inr (p, t)"
  shows "session_orderly (x\<lparr>ses_rest := p, ses_locks := row_locks (ses_rest x) @ ses_locks x,
    ses_log := ses_log x @ written now (ses_rest x) v t\<rparr>)"
proof -
  have "orderly (set (ses_locks x)) (ses_rest x)" using x by (simp add: session_orderly_def)
  moreover have "SUSPENSE_ACCOUNT_ID \<notin> set (row_locks (ses_rest x))"
    using x by (cases "ses_rest x") (auto simp: session_orderly_def)
  ultimately show ?thesis using orderly_step [OF _ st] x
    by (auto simp: session_orderly_def shared_def rows_of_def)
qed

definition all_orderly :: "(nat \<Rightarrow> session option) \<Rightarrow> bool" where
  "all_orderly S \<longleftrightarrow> (\<forall>a x. S a = Some x \<longrightarrow> canonical x \<longrightarrow> session_orderly x)"

lemma all_orderly_step:
  assumes "server_step (s, S) (t, T)" "all_orderly S"
  shows "all_orderly T"
  using assms(1)
proof cases
  case (start a k now)
  have "session_orderly (fresh_session now k)" if "canonical (fresh_session now k)"
    using orderly_code [OF _ that] start(4) by (auto simp: session_orderly_def fresh_session_def shared_def)
  with start assms(2) show ?thesis by (auto simp: all_orderly_def)
next
  case (advance a x p u w)
  let ?y = "x\<lparr>ses_rest := p, ses_locks := row_locks (ses_rest x) @ ses_locks x, ses_log := ses_log x @ w\<rparr>"
  have "session_orderly ?y" if "canonical ?y"
  proof -
    have "session_orderly x" using that assms(2) advance(3) by (auto simp: all_orderly_def canonical_def)
    from session_advances [OF this advance(4)] show ?thesis by (simp add: advance(5))
  qed
  with advance assms(2) show ?thesis by (auto simp: all_orderly_def)
qed (use assms(2) in \<open>auto simp: all_orderly_def\<close>)

lemma all_orderly_steps: "server_step\<^sup>*\<^sup>* (s, S) (t, T) \<Longrightarrow> all_orderly S \<Longrightarrow> all_orderly T"
  by (induction "(t, T)" arbitrary: t T rule: rtranclp_induct) (auto intro: all_orderly_step)

subsection \<open>Who waits for whom\<close>

lemma row_unclaimed [simp]: "AccountRow i \<notin> claims e"
  by (cases e) auto

lemma rows_apart:
  assumes "compatible (ses_locks x) (ses_log x) y" "SUSPENSE_ACCOUNT_ID \<notin> set (ses_locks y)" "R \<subseteq> rows_of (set (ses_locks x))"
  shows "R \<inter> AccountRow ` set (ses_locks y) = {}"
proof -
  have "AccountRow ` set (ses_locks x) \<inter> AccountRow ` set (ses_locks y) = {}"
    using assms(1) by (auto simp: compatible_def exclusive_def)
  with assms(2,3) show ?thesis by (auto simp: rows_of_def)
qed

lemma no_clash_within_locks:
  assumes "compatible (ses_locks x) (ses_log x) y" "SUSPENSE_ACCOUNT_ID \<notin> set (ses_locks y)"
    and "shared w \<subseteq> rows_of (set (ses_locks x))" "\<Union> (claims ` set w) = {}"
  shows "compatible [] w y"
proof -
  have "AccountRow i \<notin> \<Union> (claims ` set v)" for i v by simp
  then show ?thesis
    using rows_apart [OF assms(1-3)] assms(3,4) by (fastforce simp: compatible_def exclusive_def rows_of_def)
qed

text \<open>Such a transfer waits for a row another one has locked, or for one that has inserted its row.\<close>

lemma waits_cases:
  assumes w: "waits_for s S a b" and ok: "server_ok s S"
    and x: "S a = Some x" "session_orderly x" and y: "S b = Some y" "session_orderly y"
  obtains (row) i p where "ses_rest x = Lock i p" "i \<in> set (ses_locks y)"
  | (inserted) tr key p q where "ses_rest x = Insert tr key p q" "ses_log y \<noteq> []"
proof -
  let ?p = "ses_rest x" and ?v = "the_view s x"
  obtain p' t where ab: "a \<noteq> b" and st: "statement (ses_now x) ?p ?v = Inr (p', t)"
    and clash: "\<not> compatible (row_locks ?p) (written (ses_now x) ?p ?v t) y"
    using w x(1) y(1) by (auto simp: waits_for_def)
  have xy: "compatible (ses_locks x) (ses_log x) y" using ok ab x(1) y(1) unfolding server_ok_def by metis
  have ord: "orderly (set (ses_locks x)) ?p" using x(2) by (simp add: session_orderly_def)
  note sh = orderly_step [OF ord st, THEN conjunct2, THEN conjunct1]
  show thesis
  proof (cases ?p)
    case (Lock i q)
    then have "uuid_ok i" "written (ses_now x) ?p ?v t = []"
      using ord st by (auto simp: tx_simps lock_row_def split: if_splits)
    with clash Lock have "AccountRow i \<in> exclusive (ses_locks y) (ses_log y) \<union> shared (ses_log y)"
      by (auto simp: compatible_def exclusive_def shared_def)
    then have "AccountRow i \<in> rows_of (set (ses_locks y))"
      using y(2) by (auto simp: exclusive_def session_orderly_def rows_of_def)
    then have "i \<in> set (ses_locks y)" using ord Lock by (auto simp: rows_of_def)
    with Lock show thesis by (rule row)
  next
    case (Insert tr key q1 q2)
    have "ses_log y \<noteq> []"
    proof
      assume "ses_log y = []"
      then have "compatible [] (written (ses_now x) ?p ?v t) y"
        using rows_apart [OF xy _ sh] y(2) by (auto simp: compatible_def exclusive_def shared_def session_orderly_def)
      with clash Insert show False by simp
    qed
    with Insert show thesis by (rule inserted)
  next
    case (Append e q)
    with st have "ledger_insert (ses_now x) e ?v = Inr ((), t)" by (auto simp: tx_simps)
    from ledger_insert_Inr [OF this] have "\<Union> (claims ` set (written (ses_now x) ?p ?v t)) = {}"
      by (auto simp: Append add_entries_def)
    with no_clash_within_locks [OF xy _ sh] y(2) clash Append show thesis by (simp add: session_orderly_def)
  next
    case (OpenSaga i b ref q)
    with st obtain u where r: "InterbankRepository_insert (ses_now x) i b ref ?v = Inr (u, t)" by (auto simp: tx_simps)
    from saga_insert_Inr [OF r] have "exclusive [] (written (ses_now x) ?p ?v t) = {}" "shared (written (ses_now x) ?p ?v t) = {}"
      by (auto simp: OpenSaga exclusive_def shared_def)
    with clash OpenSaga show thesis by (simp add: compatible_def)
  next
    case (Emit i ty key j q)
    with clash show thesis by (simp add: compatible_def exclusive_def shared_def)
  next
    case (Afford tr q)
    then have "written (ses_now x) ?p ?v t = []" using st by (auto simp: tx_simps afford_def)
    with clash Afford show thesis by (simp add: compatible_def exclusive_def shared_def)
  qed (use st ord in auto)
qed

text \<open>Alice and Bob pay each other at the same time.\<close>

definition alice_to_bob :: transfer where
  "alice_to_bob = \<lparr>tr_id = sample_id, tr_payerAccountId = alice, tr_payeeAccountId = bob, tr_amount = Money 300\<rparr>"

definition bob_to_alice :: transfer where
  "bob_to_alice = \<lparr>tr_id = sample_id2, tr_payerAccountId = bob, tr_payeeAccountId = alice, tr_amount = Money 300\<rparr>"

definition shouting_bob :: string where
  "shouting_bob = ''BBBBBBBB-0000-4000-8000-000000000002''"

lemma shouting_bob_in: "uuid_in shouting_bob = Some bob" "shouting_bob < alice" "alice < bob"
  by code_simp+

lemma opposing_begun:
  "begun (LocalTransfer alice_to_bob ''k1'') s" "begun (LocalTransfer bob_to_alice ''k2'') s"
  "begun (LocalTransfer (alice_to_bob\<lparr>tr_payeeAccountId := shouting_bob\<rparr>) ''k1'') s"
proof -
  have "shouting_bob \<noteq> alice" "alice \<noteq> bob" using shouting_bob_in(2,3) by auto
  then show "begun (LocalTransfer alice_to_bob ''k1'') s" "begun (LocalTransfer bob_to_alice ''k2'') s"
    "begun (LocalTransfer (alice_to_bob\<lparr>tr_payeeAccountId := shouting_bob\<rparr>) ''k1'') s"
    using sample_id_ok sample_id2_ok
    by (auto simp: Transfer_create_Inr alice_to_bob_def bob_to_alice_def money_small)
qed

subsection \<open>Properties\<close>

text \<open>
  C8. Transfers whose accounts are named as PostgreSQL prints them, local ones between
  customers and interbank ones, never deadlock among themselves: in every state the server can
  reach, whatever else is running, in every set of them there is one that waits for none of the
  others.
\<close>
theorem canonical_transfers_never_deadlock:
  assumes reach: "server_step\<^sup>*\<^sup>* (migrated_bank, no_sessions) (s, S)"
    and D: "finite D" "D \<noteq> {}" "\<forall>a \<in> D. \<exists>x. S a = Some x \<and> canonical x"
  shows "\<exists>a \<in> D. \<forall>b \<in> D. \<not> waits_for s S a b"
proof (rule ccontr)
  assume "\<not> (\<exists>a \<in> D. \<forall>b \<in> D. \<not> waits_for s S a b)"
  then have waits: "\<exists>b \<in> D. waits_for s S a b" if "a \<in> D" for a using that by blast
  have ok: "server_ok s S" using server_steps_ok [OF reach migrated_ok] by blast
  have "all_orderly S" using all_orderly_steps [OF reach] by (simp add: all_orderly_def no_sessions_def)
  then have ord: "\<exists>x. S a = Some x \<and> session_orderly x" if "a \<in> D" for a
    using D(3) that by (auto simp: all_orderly_def)
  define next_row where "next_row a = (case S a of Some x \<Rightarrow> (case ses_rest x of Lock i p \<Rightarrow> i | _ \<Rightarrow> []) | None \<Rightarrow> [])" for a
  have inserted_moves: "ses_log x = []" if a: "a \<in> D" and x: "S a = Some x" "session_orderly x" for a x
  proof (rule ccontr)
    assume "ses_log x \<noteq> []"
    with x(2) have "past (ses_rest x)" by (simp add: session_orderly_def)
    moreover obtain b y where b: "waits_for s S a b" and y: "S b = Some y" "session_orderly y" using waits [OF a] ord by blast
    ultimately show False by (cases rule: waits_cases [OF b ok x y]) simp_all
  qed
  have step: "\<exists>b \<in> D. next_row a < next_row b" if a: "a \<in> D" for a
  proof -
    obtain b x y where b: "b \<in> D" "waits_for s S a b" and x: "S a = Some x" "session_orderly x"
      and y: "S b = Some y" "session_orderly y" using waits [OF a] ord a by blast
    obtain c z where c: "c \<in> D" "waits_for s S b c" and z: "S c = Some z" "session_orderly z"
      using waits [OF b(1)] ord by blast
    obtain i p where i: "ses_rest x = Lock i p" "i \<in> set (ses_locks y)"
      using waits_cases [OF b(2) ok x y] inserted_moves [OF b(1) y] by metis
    obtain j q where j: "ses_rest y = Lock j q"
      using waits_cases [OF c(2) ok y z] inserted_moves [OF c(1) z] by metis
    have "i < j" using y(2) i(2) j by (simp add: session_orderly_def)
    then have "next_row a < next_row b" using i(1) j x(1) y(1) by (simp add: next_row_def)
    with b(1) show ?thesis by blast
  qed
  have "Max (next_row ` D) \<in> next_row ` D" using D by (intro Max_in) auto
  then obtain a where "a \<in> D" "next_row a = Max (next_row ` D)" by auto
  with step [of a] Max_ge [of "next_row ` D"] D(1) show False by (metis finite_imageI image_eqI not_less)
qed

theorem canonical_transfers_never_deadlock_witness:
  "\<exists>S. server_step\<^sup>*\<^sup>* (migrated_bank, no_sessions) (opened_bank, S) \<and>
     S 0 = Some (fresh_session 7 (LocalTransfer alice_to_bob ''k1'')) \<and>
     S 1 = Some (fresh_session 8 (LocalTransfer bob_to_alice ''k2'')) \<and> (\<exists>a \<in> {0, 1}. \<forall>b \<in> {0, 1}. \<not> waits_for opened_bank S a b)"
proof -
  let ?x = "fresh_session 7 (LocalTransfer alice_to_bob ''k1'')" and ?y = "fresh_session 8 (LocalTransfer bob_to_alice ''k2'')"
  let ?S = "no_sessions(0 \<mapsto> ?x, 1 \<mapsto> ?y)"
  have "server_step (opened_bank, no_sessions) (opened_bank, no_sessions(0 \<mapsto> ?x))"
    by (rule server_step.start [OF _ opposing_begun(1)]) (simp add: no_sessions_def)
  moreover have "server_step (opened_bank, no_sessions(0 \<mapsto> ?x)) (opened_bank, ?S)"
    by (rule server_step.start [OF _ opposing_begun(2)]) (simp add: no_sessions_def)
  ultimately have reach: "server_step\<^sup>*\<^sup>* (migrated_bank, no_sessions) (opened_bank, ?S)"
    using steps_are_runs [OF opened_step] by (meson rtranclp.rtrancl_into_rtrancl)
  have "canonical ?x" "canonical ?y"
    using sample_distinct by (simp_all add: canonical_def fresh_session_def alice_to_bob_def bob_to_alice_def sample_uuids)
  then have "\<forall>a \<in> {0, 1}. \<exists>x. ?S a = Some x \<and> canonical x" by simp
  from canonical_transfers_never_deadlock [OF reach _ _ this] have "\<exists>a \<in> {0, 1}. \<forall>b \<in> {0, 1}. \<not> waits_for opened_bank ?S a b"
    by blast
  with reach show ?thesis by (intro exI [of _ ?S]) simp
qed

text \<open>
  C9. The order is the one of the texts. Two transfers in opposite directions deadlock when
  one of them names its accounts by texts that sort the other way round, as capital letters do:
  each takes the lock of one account and waits for the other's.
\<close>
theorem opposite_texts_deadlock:
  assumes begun: "begun (LocalTransfer tr1 key1) s" "begun (LocalTransfer tr2 key2) s"
    and p: "uuid_in (tr_payerAccountId tr1) = Some p" "uuid_in (tr_payeeAccountId tr2) = Some p" "account_exists p s"
    and q: "uuid_in (tr_payeeAccountId tr1) = Some q" "uuid_in (tr_payerAccountId tr2) = Some q" "account_exists q s"
    and texts: "tr_payeeAccountId tr1 < tr_payerAccountId tr1" "tr_payeeAccountId tr2 < tr_payerAccountId tr2" "p \<noteq> q"
  shows "\<exists>S. server_step\<^sup>*\<^sup>* (s, no_sessions) (s, S) \<and> waits_for s S 0 1 \<and> waits_for s S 1 0"
proof -
  define x1 where "x1 = fresh_session now (LocalTransfer tr1 key1)"
  define x2 where "x2 = fresh_session now (LocalTransfer tr2 key2)"
  define r1 where "r1 = Insert tr1 key1 (Afford tr1 (append_entries (Transfer_entries tr1) Commit)) Rollback"
  define r2 where "r2 = Insert tr2 key2 (Afford tr2 (append_entries (Transfer_entries tr2) Commit)) Rollback"
  have code1: "ses_rest x1 = Lock (tr_payeeAccountId tr1) (Lock (tr_payerAccountId tr1) r1)"
    and code2: "ses_rest x2 = Lock (tr_payeeAccountId tr2) (Lock (tr_payerAccountId tr2) r2)"
    using texts(1,2) by (auto simp: x1_def x2_def r1_def r2_def fresh_session_def local_program_def)
  have empty: "ses_locks x1 = []" "ses_log x1 = []" "ses_locks x2 = []" "ses_log x2 = []"
    by (simp_all add: x1_def x2_def fresh_session_def)
  have lock: "statement now' (Lock i r) s = Inr (r, s)" if "uuid_in i = Some k" "account_exists k s" for now' i r k
    using that by (simp add: lock_row_def tx_bind_def tx_read_def AccountRepository_lockById_def bind_uuid_def)
  define y1 where "y1 = x1\<lparr>ses_rest := Lock (tr_payerAccountId tr1) r1, ses_locks := [q], ses_log := []\<rparr>"
  define y2 where "y2 = x2\<lparr>ses_rest := Lock (tr_payerAccountId tr2) r2, ses_locks := [p], ses_log := []\<rparr>"
  let ?S0 = "no_sessions(0 \<mapsto> x1)" and ?S1 = "no_sessions(0 \<mapsto> x1, 1 \<mapsto> x2)"
    and ?S2 = "no_sessions(0 \<mapsto> y1, 1 \<mapsto> x2)" and ?S3 = "no_sessions(0 \<mapsto> y1, 1 \<mapsto> y2)"
  have "server_step (s, no_sessions) (s, ?S0)"
    unfolding x1_def by (rule server_step.start [OF _ begun(1)]) (simp add: no_sessions_def)
  moreover have "server_step (s, ?S0) (s, ?S1)"
    unfolding x2_def by (rule server_step.start [OF _ begun(2)]) (simp add: no_sessions_def)
  moreover have "server_step (s, ?S1) (s, ?S1(0 \<mapsto> x1\<lparr>ses_rest := Lock (tr_payerAccountId tr1) r1,
      ses_locks := row_locks (ses_rest x1) @ ses_locks x1, ses_log := ses_log x1 @ []\<rparr>))"
    by (rule server_step.advance [where t = s])
      (auto simp: code1 the_view_def empty lock [OF q(1,3)] compatible_def exclusive_def shared_def no_sessions_def
        simp del: statement.simps split: if_splits)
  then have "server_step (s, ?S1) (s, ?S2)" by (simp add: y1_def code1 q empty fun_upd_twist)
  moreover have "server_step (s, ?S2) (s, ?S2(1 \<mapsto> x2\<lparr>ses_rest := Lock (tr_payerAccountId tr2) r2,
      ses_locks := row_locks (ses_rest x2) @ ses_locks x2, ses_log := ses_log x2 @ []\<rparr>))"
    using texts(3)
    by (intro server_step.advance [where t = s])
      (auto simp: code2 the_view_def empty lock [OF p(2,3)] p compatible_def exclusive_def shared_def no_sessions_def y1_def
        simp del: statement.simps split: if_splits)
  then have "server_step (s, ?S2) (s, ?S3)" by (simp add: y2_def code2 p empty)
  ultimately have "server_step\<^sup>*\<^sup>* (s, no_sessions) (s, ?S3)" by (meson converse_rtranclp_into_rtranclp rtranclp.rtrancl_refl)
  moreover have "waits_for s ?S3 0 1" "waits_for s ?S3 1 0"
    by (auto simp: waits_for_def y1_def y2_def the_view_def lock [OF p(1,3)] lock [OF q(2,3)] p q compatible_def exclusive_def
        simp del: statement.simps)
  ultimately show ?thesis by blast
qed

theorem opposite_texts_deadlock_witness:
  "\<exists>S. server_step\<^sup>*\<^sup>* (opened_bank, no_sessions) (opened_bank, S) \<and> waits_for opened_bank S 0 1 \<and> waits_for opened_bank S 1 0"
  by (rule opposite_texts_deadlock [OF opposing_begun(3) opposing_begun(2), where p = alice and q = bob])
    (use shouting_bob_in in \<open>auto simp: alice_to_bob_def bob_to_alice_def sample_uuids\<close>)

end
