(* ===== verification/HubDomain.thy ===== *)
theory HubDomain
  imports BankDomain
begin

text \<open>
  The domain layer of the Hub (hub/src/domain): its errors and their HTTP statuses, its copy of
  the money class, and the settlement with its two double entries. Amounts are the \<open>money\<close> of
  BankDomain; the operations throw the Hub's own errors.
\<close>

datatype hub_error =
    HubInvalidAmountError js_number
  | BankNotFoundError string
  | DuplicateBankError string
  | SameBankSettlementError
  | SettlementNotFoundError string

type_synonym hub_service_error = "hub_error service_error"

subsection \<open>Money\<close>

definition HubMoney_fromCents :: "js_number \<Rightarrow> hub_error + money" where
  "HubMoney_fromCents n =
     (if \<not> isSafeInteger n then Inl (HubInvalidAmountError n) else Inr (Money (the (js_integer n))))"

definition HubMoney_zero :: money where
  "HubMoney_zero = Money 0"

definition HubMoney_negated :: "money \<Rightarrow> hub_error + money" where
  "HubMoney_negated this = HubMoney_fromCents (js_of_int (- cents this))"

definition HubMoney_isPositive :: "money \<Rightarrow> bool" where
  "HubMoney_isPositive this \<longleftrightarrow> cents this > 0"

definition HubMoney_equals :: "money \<Rightarrow> money \<Rightarrow> bool" where
  "HubMoney_equals this other \<longleftrightarrow> cents this = cents other"

lemma HubMoney_fromCents_of_int:
  "HubMoney_fromCents (js_of_int n) =
     (if safe_int n then Inr (Money n) else Inl (HubInvalidAmountError (js_of_int n)))"
  by (simp add: HubMoney_fromCents_def isSafeInteger_of_int js_integer_of_int)

lemma HubMoney_fromCents_ok: "HubMoney_fromCents x = Inr m \<Longrightarrow> money_ok m \<and> js_integer x = Some (cents m)"
  by (auto simp: HubMoney_fromCents_def isSafeInteger_def money_ok_def split: if_splits option.splits)

lemma HubMoney_negated_ok: "money_ok m \<Longrightarrow> HubMoney_negated m = Inr (Money (- cents m))"
  by (simp add: HubMoney_negated_def HubMoney_fromCents_of_int money_ok_def)

subsection \<open>Settlements\<close>

record hub_bank =
  bank_id :: string
  bank_name :: string
  bank_baseUrl :: string
  bank_createdAt :: int

record reserve_entry =
  re_settlementId :: string
  re_bankId :: string
  re_amount :: money

record settlement =
  stl_id :: string
  stl_payerBankId :: string
  stl_payeeBankId :: string
  stl_payeeAccountRef :: string
  stl_amount :: money

definition Settlement_create ::
  "string \<Rightarrow> string \<Rightarrow> string \<Rightarrow> string \<Rightarrow> money \<Rightarrow> hub_error + settlement" where
  "Settlement_create i payerBankId payeeBankId payeeAccountRef amount =
     (if \<not> HubMoney_isPositive amount then Inl (HubInvalidAmountError (js_of_int (cents amount)))
      else if payerBankId = payeeBankId then Inl SameBankSettlementError
      else Inr \<lparr>stl_id = i, stl_payerBankId = payerBankId, stl_payeeBankId = payeeBankId,
                stl_payeeAccountRef = payeeAccountRef, stl_amount = amount\<rparr>)"

definition Settlement_entries :: "settlement \<Rightarrow> hub_error + reserve_entry list" where
  "Settlement_entries this = (case HubMoney_negated (stl_amount this) of
     Inl e \<Rightarrow> Inl e
   | Inr neg \<Rightarrow> Inr
      [\<lparr>re_settlementId = stl_id this, re_bankId = stl_payerBankId this, re_amount = neg\<rparr>,
       \<lparr>re_settlementId = stl_id this, re_bankId = stl_payeeBankId this, re_amount = stl_amount this\<rparr>])"

definition Settlement_reversalEntries :: "settlement \<Rightarrow> hub_error + reserve_entry list" where
  "Settlement_reversalEntries this = (case HubMoney_negated (stl_amount this) of
     Inl e \<Rightarrow> Inl e
   | Inr neg \<Rightarrow> Inr
      [\<lparr>re_settlementId = stl_id this, re_bankId = stl_payerBankId this, re_amount = stl_amount this\<rparr>,
       \<lparr>re_settlementId = stl_id this, re_bankId = stl_payeeBankId this, re_amount = neg\<rparr>])"

lemma Settlement_create_Inr:
  "Settlement_create i payer payee ref amount = Inr t \<longleftrightarrow>
     0 < cents amount \<and> payer \<noteq> payee \<and>
     t = \<lparr>stl_id = i, stl_payerBankId = payer, stl_payeeBankId = payee, stl_payeeAccountRef = ref, stl_amount = amount\<rparr>"
  by (auto simp: Settlement_create_def HubMoney_isPositive_def)

lemma Settlement_entries_ok:
  "money_ok (stl_amount t) \<Longrightarrow> Settlement_entries t = Inr
     [\<lparr>re_settlementId = stl_id t, re_bankId = stl_payerBankId t, re_amount = Money (- cents (stl_amount t))\<rparr>,
      \<lparr>re_settlementId = stl_id t, re_bankId = stl_payeeBankId t, re_amount = stl_amount t\<rparr>]"
  by (simp add: Settlement_entries_def HubMoney_negated_ok)

lemma Settlement_reversalEntries_ok:
  "money_ok (stl_amount t) \<Longrightarrow> Settlement_reversalEntries t = Inr
     [\<lparr>re_settlementId = stl_id t, re_bankId = stl_payerBankId t, re_amount = stl_amount t\<rparr>,
      \<lparr>re_settlementId = stl_id t, re_bankId = stl_payeeBankId t, re_amount = Money (- cents (stl_amount t))\<rparr>]"
  by (simp add: Settlement_reversalEntries_def HubMoney_negated_ok)

subsection \<open>The exception filter\<close>

definition hub_error_name :: "hub_error \<Rightarrow> string" where
  "hub_error_name e = (case e of
     HubInvalidAmountError _ \<Rightarrow> ''InvalidAmountError''
   | BankNotFoundError _ \<Rightarrow> ''BankNotFoundError''
   | DuplicateBankError _ \<Rightarrow> ''DuplicateBankError''
   | SameBankSettlementError \<Rightarrow> ''SameBankSettlementError''
   | SettlementNotFoundError _ \<Rightarrow> ''SettlementNotFoundError'')"

text \<open>\<open>show\<close> is the text \<open>String(value)\<close> of a JavaScript number.\<close>

definition hub_error_message :: "(js_number \<Rightarrow> string) \<Rightarrow> hub_error \<Rightarrow> string" where
  "hub_error_message show e = (case e of
     HubInvalidAmountError v \<Rightarrow> ''Amount must be a positive integer number of cents, got '' @ show v @ ''.''
   | BankNotFoundError b \<Rightarrow> ''Bank '' @ b @ '' not found.''
   | DuplicateBankError b \<Rightarrow> ''Bank '' @ b @ '' is already registered.''
   | SameBankSettlementError \<Rightarrow> ''Payer bank and payee bank must be different.''
   | SettlementNotFoundError i \<Rightarrow> ''Settlement '' @ i @ '' not found.'')"

definition HUB_STATUS_BY_ERROR :: "(string \<times> nat) list" where
  "HUB_STATUS_BY_ERROR =
    [(''BankNotFoundError'', 404),
     (''SettlementNotFoundError'', 404),
     (''DuplicateBankError'', 409),
     (''InvalidAmountError'', 400),
     (''SameBankSettlementError'', 400)]"

definition hub_exception_status :: "hub_error \<Rightarrow> nat" where
  "hub_exception_status e = (case find (\<lambda>(n, _). n = hub_error_name e) HUB_STATUS_BY_ERROR of
     Some (_, st) \<Rightarrow> st | None \<Rightarrow> 500)"

text \<open>
  A settlement and its reversal cancel: both are defined whenever the settlement was created
  from a valid amount, each is a non-zero debit of one bank and credit of the other that sum to
  zero, and the reversal gives every bank back exactly what the settlement took from it.
\<close>
theorem reversal_cancels_settlement:
  assumes "Settlement_create i payer payee ref amount = Inr t" and "money_ok amount"
  shows "\<exists>d c d' c'. Settlement_entries t = Inr [d, c] \<and> Settlement_reversalEntries t = Inr [d', c'] \<and>
    re_bankId d = payer \<and> re_bankId d' = payer \<and> re_bankId c = payee \<and> re_bankId c' = payee \<and>
    cents (re_amount d) = - cents amount \<and> cents (re_amount c) = cents amount \<and> 0 < cents amount \<and>
    cents (re_amount d) + cents (re_amount d') = 0 \<and> cents (re_amount c) + cents (re_amount c') = 0"
proof -
  from assms have t: "t = \<lparr>stl_id = i, stl_payerBankId = payer, stl_payeeBankId = payee, stl_payeeAccountRef = ref,
      stl_amount = amount\<rparr>" and "0 < cents amount" by (simp_all add: Settlement_create_Inr)
  with assms(2) show ?thesis by (simp add: Settlement_entries_ok Settlement_reversalEntries_ok)
qed

theorem reversal_cancels_settlement_witness:
  "\<exists>d c. Settlement_entries \<lparr>stl_id = ''s'', stl_payerBankId = ''bank-a'', stl_payeeBankId = ''bank-b'',
     stl_payeeAccountRef = ''r'', stl_amount = Money 5\<rparr> = Inr [d, c] \<and> cents (re_amount d) = - 5"
  using reversal_cancels_settlement [of "''s''" "''bank-a''" "''bank-b''" "''r''" "Money 5"]
  by (auto simp: Settlement_create_Inr money_ok_def safe_int_def MAX_SAFE_INTEGER_def)

end
