(* ===== verification/HubDb.thy ===== *)
theory HubDb
  imports HubDomain Interfaces Outbox
begin

text \<open>
  The Hub's database (hub/migrations) and the repositories over it, in the manner of BankDb:
  the directory of banks, the reserve ledger, the settlements and the outbox.
\<close>

subsection \<open>Tables\<close>

record bank_row =
  bk_id :: string
  bk_name :: string
  bk_base_url :: string
  bk_created_at :: int

record reserve_row =
  rs_settlement_id :: string
  rs_bank_id :: string
  rs_amount :: int
  rs_created_at :: int

datatype settlement_status = HPENDING | HCONFIRMED | HREVERSED | HREJECTED

record settlement_row =
  st_id :: string
  st_payer_bank_id :: string
  st_payee_bank_id :: string
  st_payee_account_ref :: string
  st_amount :: int
  st_status :: settlement_status
  st_reject_reason :: "string option"
  st_created_at :: int
  st_updated_at :: int

record hub_db =
  hub_banks :: "bank_row list"
  hub_ledger :: "reserve_row list"
  settlements :: "settlement_row list"
  hub_outbox :: outbox_table

type_synonym 'a hub_tx = "(hub_db, hub_service_error, 'a) tx"

definition migrated_hub :: hub_db where
  "migrated_hub = \<lparr>hub_banks = [], hub_ledger = [], settlements = [], hub_outbox = empty_outbox\<rparr>"

definition bank_exists :: "string \<Rightarrow> hub_db \<Rightarrow> bool" where
  "bank_exists b s \<longleftrightarrow> list_ex (\<lambda>r. bk_id r = b) (hub_banks s)"

subsection \<open>BankRepository\<close>

definition toBank :: "bank_row \<Rightarrow> hub_bank" where
  "toBank row = \<lparr>bank_id = bk_id row, bank_name = bk_name row, bank_baseUrl = bk_base_url row,
     bank_createdAt = bk_created_at row\<rparr>"

definition BankRepository_create :: "int \<Rightarrow> string \<Rightarrow> string \<Rightarrow> string \<Rightarrow> hub_bank option hub_tx" where
  "BankRepository_create now i name baseUrl =
     tx_bind (db_guard (1 \<le> length i \<and> length i \<le> 64 \<and> 1 \<le> length name \<and> length name \<le> 120
                 \<and> 1 \<le> length baseUrl \<and> length baseUrl \<le> 255) (CheckViolation ''banks''))
       (\<lambda>_ s. if bank_exists i s then Inr (None, s)
              else let row = \<lparr>bk_id = i, bk_name = name, bk_base_url = baseUrl, bk_created_at = now\<rparr>
                   in Inr (Some (toBank row), s\<lparr>hub_banks := hub_banks s @ [row]\<rparr>))"

definition BankRepository_findById :: "string \<Rightarrow> hub_db \<Rightarrow> hub_bank option" where
  "BankRepository_findById i s = map_option toBank (find (\<lambda>r. bk_id r = i) (hub_banks s))"

definition BankRepository_findAll :: "hub_db \<Rightarrow> hub_bank list" where
  "BankRepository_findAll s = map toBank (sort_key bk_created_at (hub_banks s))"

subsection \<open>LedgerRepository\<close>

definition reserve_sum :: "string \<Rightarrow> hub_db \<Rightarrow> int" where
  "reserve_sum b s = sum_list (map rs_amount (filter (\<lambda>r. rs_bank_id r = b) (hub_ledger s)))"

definition reserveBalanceOf :: "string \<Rightarrow> hub_db \<Rightarrow> hub_service_error + money" where
  "reserveBalanceOf bankId s = lift_domain (HubMoney_fromCents (js_of_int (reserve_sum bankId s)))"

definition hub_ledger_insert :: "int \<Rightarrow> reserve_entry \<Rightarrow> unit hub_tx" where
  "hub_ledger_insert now entry =
     tx_bind (tx_check (bind_uuid (re_settlementId entry))) (\<lambda>i.
     tx_bind (tx_check (bind_bigint (js_of_int (cents (re_amount entry))))) (\<lambda>n.
     tx_bind (db_guard (n \<noteq> 0) (CheckViolation ''hub_ledger_entries'')) (\<lambda>_ s.
       if \<not> bank_exists (re_bankId entry) s then Inl (Db (ForeignKeyViolation ''hub_ledger_entries''))
       else Inr ((), s\<lparr>hub_ledger := hub_ledger s @
              [\<lparr>rs_settlement_id = i, rs_bank_id = re_bankId entry, rs_amount = n, rs_created_at = now\<rparr>]\<rparr>))))"

fun hub_ledger_append :: "int \<Rightarrow> reserve_entry list \<Rightarrow> unit hub_tx" where
  "hub_ledger_append now [] = tx_return ()"
| "hub_ledger_append now (entry # entries) =
     tx_bind (hub_ledger_insert now entry) (\<lambda>_. hub_ledger_append now entries)"

subsection \<open>SettlementRepository\<close>

record settlement_record =
  sr_id :: string
  sr_payerBankId :: string
  sr_payeeBankId :: string
  sr_payeeAccountRef :: string
  sr_amountCents :: js_number
  sr_status :: settlement_status
  sr_rejectReason :: "string option"
  sr_createdAt :: int
  sr_updatedAt :: int

definition toSettlementRecord :: "settlement_row \<Rightarrow> settlement_record" where
  "toSettlementRecord row = \<lparr>sr_id = st_id row, sr_payerBankId = st_payer_bank_id row,
     sr_payeeBankId = st_payee_bank_id row, sr_payeeAccountRef = st_payee_account_ref row,
     sr_amountCents = js_of_int (st_amount row), sr_status = st_status row,
     sr_rejectReason = st_reject_reason row, sr_createdAt = st_created_at row, sr_updatedAt = st_updated_at row\<rparr>"

definition find_settlement :: "string \<Rightarrow> hub_db \<Rightarrow> settlement_row option" where
  "find_settlement i s = find (\<lambda>r. st_id r = i) (settlements s)"

definition rejecting :: "settlement_status \<Rightarrow> bool" where
  "rejecting st \<longleftrightarrow> st = HREJECTED \<or> st = HREVERSED"

definition insert_settlement_row :: "settlement_row \<Rightarrow> settlement_record option hub_tx" where
  "insert_settlement_row row =
     tx_bind (db_guard (1 \<le> length (st_payee_bank_id row) \<and> length (st_payee_bank_id row) \<le> 64
                \<and> 1 \<le> length (st_payee_account_ref row) \<and> length (st_payee_account_ref row) \<le> 255
                \<and> 0 < st_amount row \<and> st_payer_bank_id row \<noteq> st_payee_bank_id row
                \<and> (rejecting (st_status row) \<longleftrightarrow> st_reject_reason row \<noteq> None))
               (CheckViolation ''settlements''))
       (\<lambda>_ s.
         if find_settlement (st_id row) s \<noteq> None then Inr (None, s)
         else if \<not> bank_exists (st_payer_bank_id row) s then Inl (Db (ForeignKeyViolation ''settlements''))
         else Inr (Some (toSettlementRecord row), s\<lparr>settlements := settlements s @ [row]\<rparr>))"

definition SettlementRepository_insert ::
  "int \<Rightarrow> string \<Rightarrow> string \<Rightarrow> string \<Rightarrow> string \<Rightarrow> js_number \<Rightarrow> settlement_status \<Rightarrow> string option \<Rightarrow>
   settlement_record option hub_tx" where
  "SettlementRepository_insert now i payerBankId payeeBankId payeeAccountRef amountCents status rejectReason =
     tx_bind (tx_check (bind_uuid i)) (\<lambda>k.
     tx_bind (tx_check (bind_bigint amountCents)) (\<lambda>n.
       insert_settlement_row
         \<lparr>st_id = k, st_payer_bank_id = payerBankId, st_payee_bank_id = payeeBankId,
          st_payee_account_ref = payeeAccountRef, st_amount = n, st_status = status,
          st_reject_reason = rejectReason, st_created_at = now, st_updated_at = now\<rparr>))"

definition SettlementRepository_findById :: "string \<Rightarrow> hub_db \<Rightarrow> hub_service_error + settlement_record option" where
  "SettlementRepository_findById i s = (case bind_uuid i of
     Inl e \<Rightarrow> Inl e | Inr k \<Rightarrow> Inr (map_option toSettlementRecord (find_settlement k s)))"

text \<open>\<open>UPDATE .. WHERE id AND status = 'PENDING'\<close>; a confirmation leaves the reason as it was.\<close>

definition update_pending :: "settlement_status \<Rightarrow> int \<times> string option \<Rightarrow> string \<Rightarrow> hub_db \<Rightarrow> hub_db" where
  "update_pending st w k s = s\<lparr>settlements :=
     map (\<lambda>r. if st_id r = k \<and> st_status r = HPENDING
              then r\<lparr>st_status := st, st_updated_at := fst w,
                     st_reject_reason := (case snd w of None \<Rightarrow> st_reject_reason r | Some reason \<Rightarrow> Some reason)\<rparr>
              else r) (settlements s)\<rparr>"

definition hub_markConfirmed :: "int \<Rightarrow> string \<Rightarrow> unit hub_tx" where
  "hub_markConfirmed now i =
     tx_bind (tx_check (bind_uuid i)) (\<lambda>k s. Inr ((), update_pending HCONFIRMED (now, None) k s))"

definition hub_markReversed :: "int \<Rightarrow> string \<Rightarrow> string \<Rightarrow> unit hub_tx" where
  "hub_markReversed now i rejectReason =
     tx_bind (tx_check (bind_uuid i)) (\<lambda>k s. Inr ((), update_pending HREVERSED (now, Some rejectReason) k s))"

definition findStalePending :: "int \<Rightarrow> hub_db \<Rightarrow> settlement_record list" where
  "findStalePending olderThan s = map toSettlementRecord
     (sort_key st_updated_at
       (filter (\<lambda>r. st_status r = HPENDING \<and> st_updated_at r < olderThan) (settlements s)))"

subsection \<open>OutboxRepository\<close>

definition hub_outbox_insert :: "int \<Rightarrow> string \<Rightarrow> string \<Rightarrow> string \<Rightarrow> json \<Rightarrow> unit hub_tx" where
  "hub_outbox_insert now aggregateId eventType routingKey payload =
     tx_bind (tx_check (bind_uuid aggregateId)) (\<lambda>a s.
       Inr ((), s\<lparr>hub_outbox := outbox_add now a eventType routingKey payload (hub_outbox s)\<rparr>))"

subsection \<open>The status of a settlement\<close>

definition settlement_status_of :: "string \<Rightarrow> hub_db \<Rightarrow> settlement_status option" where
  "settlement_status_of k s = map_option st_status (find_settlement k s)"

lemma find_update_pending:
  "find_settlement k' (update_pending st w k s) =
   map_option (\<lambda>r. if st_id r = k \<and> st_status r = HPENDING
      then r\<lparr>st_status := st, st_updated_at := fst w,
             st_reject_reason := (case snd w of None \<Rightarrow> st_reject_reason r | Some reason \<Rightarrow> Some reason)\<rparr>
      else r) (find_settlement k' s)"
proof -
  have "find (\<lambda>r. st_id r = k') (map (\<lambda>r. if P r then f r else r) rs) =
      map_option (\<lambda>r. if P r then f r else r) (find (\<lambda>r. st_id r = k') rs)"
    if "\<And>r. st_id (f r) = st_id r" for P f and rs :: "settlement_row list"
    using that by (induction rs) auto
  then show ?thesis by (simp add: find_settlement_def update_pending_def)
qed

lemma status_update_pending:
  "settlement_status_of k' (update_pending st w k s) =
   (if k' = k \<and> settlement_status_of k s = Some HPENDING then Some st else settlement_status_of k' s)"
proof (cases "find_settlement k' s")
  case None
  then show ?thesis by (auto simp: settlement_status_of_def find_update_pending)
next
  case (Some r)
  then have "st_id r = k'" using find_Some_in by (fastforce simp: find_settlement_def)
  with Some show ?thesis by (auto simp: settlement_status_of_def find_update_pending)
qed

text \<open>\<open>markConfirmed\<close> and \<open>markReversed\<close> are guarded updates of one row.\<close>

interpretation settling: guarded_status settlement_status_of update_pending HPENDING
  by unfold_locales (simp_all add: status_update_pending)

lemma update_pending_frame [simp]:
  "hub_banks (update_pending st w k s) = hub_banks s" "hub_ledger (update_pending st w k s) = hub_ledger s"
  "hub_outbox (update_pending st w k s) = hub_outbox s"
  by (simp_all add: update_pending_def)

subsection \<open>Movements of reserves\<close>

text \<open>The two ledger rows a settlement (a positive amount) or its reversal (a negative one) appends.\<close>

record movement =
  mv_settlement :: string
  mv_payer :: string
  mv_payee :: string
  mv_amount :: int
  mv_at :: int

definition movement_rows :: "movement \<Rightarrow> reserve_row list" where
  "movement_rows m =
     [\<lparr>rs_settlement_id = mv_settlement m, rs_bank_id = mv_payer m, rs_amount = - mv_amount m, rs_created_at = mv_at m\<rparr>,
      \<lparr>rs_settlement_id = mv_settlement m, rs_bank_id = mv_payee m, rs_amount = mv_amount m, rs_created_at = mv_at m\<rparr>]"

definition add_reserves :: "reserve_row list \<Rightarrow> hub_db \<Rightarrow> hub_db" where
  "add_reserves rows s = s\<lparr>hub_ledger := hub_ledger s @ rows\<rparr>"

interpretation reserves: double_entry hub_ledger rs_bank_id rs_amount add_reserves reserve_sum movement_rows
  by unfold_locales (auto simp: add_reserves_def reserve_sum_def movement_rows_def)

lemma add_reserves_frame [simp]:
  "hub_banks (add_reserves rows s) = hub_banks s" "settlements (add_reserves rows s) = settlements s"
  "hub_outbox (add_reserves rows s) = hub_outbox s" "hub_ledger (add_reserves rows s) = hub_ledger s @ rows"
  by (simp_all add: add_reserves_def)

lemma reserve_sum_movement:
  "mv_payer m \<noteq> mv_payee m \<Longrightarrow> reserve_sum b (add_reserves (movement_rows m) s) =
     (if b = mv_payer m then reserve_sum b s - mv_amount m
      else if b = mv_payee m then reserve_sum b s + mv_amount m else reserve_sum b s)"
  by (simp add: reserves.balance_append movement_rows_def)

text \<open>Appending the two entries of a movement between registered banks never fails.\<close>

lemma hub_append_ok:
  assumes i: "uuid_in i = Some (mv_settlement m)" and n: "safe_int (mv_amount m)" "mv_amount m \<noteq> 0"
    and ex: "bank_exists (mv_payer m) s" "bank_exists (mv_payee m) s"
  shows "hub_ledger_append (mv_at m)
      [\<lparr>re_settlementId = i, re_bankId = mv_payer m, re_amount = Money (- mv_amount m)\<rparr>,
       \<lparr>re_settlementId = i, re_bankId = mv_payee m, re_amount = Money (mv_amount m)\<rparr>] s =
    Inr ((), add_reserves (movement_rows m) s)"
proof -
  have "bind_bigint (js_of_int (mv_amount m)) = (Inr (mv_amount m) :: hub_service_error + int)"
    "bind_bigint (js_of_int (- mv_amount m)) = (Inr (- mv_amount m) :: hub_service_error + int)"
    using n by (simp_all add: bind_bigint_safe)
  then have "hub_ledger_insert (mv_at m)
        \<lparr>re_settlementId = i, re_bankId = mv_payer m, re_amount = Money (- mv_amount m)\<rparr> s =
      Inr ((), add_reserves [hd (movement_rows m)] s)"
    and "hub_ledger_insert (mv_at m)
        \<lparr>re_settlementId = i, re_bankId = mv_payee m, re_amount = Money (mv_amount m)\<rparr>
        (add_reserves [hd (movement_rows m)] s) =
      Inr ((), add_reserves [hd (movement_rows m), movement_rows m ! 1] s)"
    using ex n by (simp_all add: hub_ledger_insert_def bind_uuid_def i add_reserves_def movement_rows_def bank_exists_def)
  then show ?thesis by (simp add: movement_rows_def)
qed

end
