(* ===== verification/HubBanks.thy ===== *)
theory HubBanks
  imports HubDb
begin

text \<open>
  The directory of participants and their reserve balances (hub/src/banks/banks.service.ts).
\<close>

definition registerBank ::
  "int \<Rightarrow> string \<Rightarrow> string \<Rightarrow> string \<Rightarrow> hub_db \<Rightarrow> (hub_service_error + hub_bank) \<times> hub_db" where
  "registerBank now i name baseUrl s =
     (case with_tx (BankRepository_create now i name baseUrl) s of
        (Inl e, t) \<Rightarrow> (Inl e, t)
      | (Inr None, t) \<Rightarrow> (Inl (Domain (DuplicateBankError i)), t)
      | (Inr (Some bank), t) \<Rightarrow> (Inr bank, t))"

definition getBank :: "string \<Rightarrow> hub_db \<Rightarrow> hub_service_error + hub_bank" where
  "getBank i s = (case BankRepository_findById i s of
     None \<Rightarrow> Inl (Domain (BankNotFoundError i)) | Some bank \<Rightarrow> Inr bank)"

definition listBanks :: "hub_db \<Rightarrow> hub_bank list" where
  "listBanks s = BankRepository_findAll s"

text \<open>Two reads; \<open>s'\<close> is the database at the second one.\<close>

definition getReserveBalance :: "string \<Rightarrow> hub_db \<Rightarrow> hub_db \<Rightarrow> hub_service_error + money" where
  "getReserveBalance i s s' = (case getBank i s of Inl e \<Rightarrow> Inl e | Inr _ \<Rightarrow> reserveBalanceOf i s')"

lemma bank_exists_find: "bank_exists b s \<longleftrightarrow> find (\<lambda>r. bk_id r = b) (hub_banks s) \<noteq> None"
  by (auto simp: bank_exists_def find_None list_ex_iff)

lemma registerBank_eq:
  "registerBank now i name url s =
    (if \<not> (1 \<le> length i \<and> length i \<le> 64 \<and> 1 \<le> length name \<and> length name \<le> 120 \<and> 1 \<le> length url \<and> length url \<le> 255)
       then (Inl (Db (CheckViolation ''banks'')), s)
     else if bank_exists i s then (Inl (Domain (DuplicateBankError i)), s)
     else (Inr \<lparr>bank_id = i, bank_name = name, bank_baseUrl = url, bank_createdAt = now\<rparr>,
           s\<lparr>hub_banks := hub_banks s @ [\<lparr>bk_id = i, bk_name = name, bk_base_url = url, bk_created_at = now\<rparr>]\<rparr>))"
  by (auto simp: registerBank_def BankRepository_create_def with_tx_def tx_bind_def db_guard_def toBank_def Let_def)

text \<open>
  Registering a bank is the only thing that makes it known, and does so once: afterwards the
  directory answers for it with the data of the first registration, whatever is registered
  later, a second registration of the id is refused without changing anything, and a new bank
  starts with no reserves of its own.
\<close>
theorem first_registration_wins:
  assumes "registerBank now i name url s = (Inr bank, t)"
  shows "bank = \<lparr>bank_id = i, bank_name = name, bank_baseUrl = url, bank_createdAt = now\<rparr> \<and>
    getBank i t = Inr bank \<and> hub_ledger t = hub_ledger s \<and>
    (\<forall>now' name' url'. snd (registerBank now' i name' url' t) = t \<and> (\<exists>e. fst (registerBank now' i name' url' t) = Inl e)) \<and>
    (\<forall>now' j name' url'. getBank i (snd (registerBank now' j name' url' t)) = Inr bank)"
proof -
  let ?row = "\<lparr>bk_id = i, bk_name = name, bk_base_url = url, bk_created_at = now\<rparr>"
  from assms have free: "\<not> bank_exists i s" and t: "t = s\<lparr>hub_banks := hub_banks s @ [?row]\<rparr>"
    and bank: "bank = \<lparr>bank_id = i, bank_name = name, bank_baseUrl = url, bank_createdAt = now\<rparr>"
    by (auto simp: registerBank_eq split: if_splits)
  from free have f: "find (\<lambda>r. bk_id r = i) (hub_banks s) = None" by (simp add: bank_exists_find)
  then have found: "find (\<lambda>r. bk_id r = i) (hub_banks t) = Some ?row" by (simp add: t find_append)
  then have ex: "bank_exists i t" by (simp add: bank_exists_find)
  have "getBank i (snd (registerBank now' j name' url' t)) = Inr bank" for now' j name' url'
    using found by (simp add: registerBank_eq getBank_def BankRepository_findById_def find_append toBank_def bank)
  then show ?thesis
    using found ex by (auto simp: bank t registerBank_eq getBank_def BankRepository_findById_def toBank_def)
qed

theorem first_registration_wins_witness:
  "getBank ''bank-b'' (snd (registerBank 3 ''bank-b'' ''Bank B'' ''http://b'' migrated_hub)) =
     Inr \<lparr>bank_id = ''bank-b'', bank_name = ''Bank B'', bank_baseUrl = ''http://b'', bank_createdAt = 3\<rparr>"
  using first_registration_wins [of 3 "''bank-b''" "''Bank B''" "''http://b''" migrated_hub]
  by (simp add: registerBank_eq migrated_hub_def bank_exists_def)

end
