(* ===== verification/HubSettlements.thy ===== *)
theory HubSettlements
  imports HubBanks
begin

text \<open>
  Settlements between banks (hub/src/settlements/settlements.service.ts): a request moves
  reserves at once and notifies the payee bank, or is rejected when that bank is unknown; the
  payee bank's reply confirms it or reverses it, and the payer bank is told the outcome. The
  function argument of a handler is what others commit between its read and its transaction.
\<close>

subsection \<open>SettlementsService\<close>

record requested_event =
  rq_settlementId :: string
  rq_payerBankId :: string
  rq_payeeBankId :: string
  rq_payeeAccountRef :: string
  rq_amountCents :: js_number

record reply_event =
  rp_settlementId :: string
  rp_outcome :: "json option"
  rp_reason :: "json option"

definition UNKNOWN_PAYEE_BANK :: string where
  "UNKNOWN_PAYEE_BANK = ''UNKNOWN_PAYEE_BANK''"

definition getSettlement :: "string \<Rightarrow> hub_db \<Rightarrow> hub_service_error + settlement_record" where
  "getSettlement i s = (case SettlementRepository_findById i s of
     Inl e \<Rightarrow> Inl e
   | Inr None \<Rightarrow> Inl (Domain (SettlementNotFoundError i))
   | Inr (Some settlement) \<Rightarrow> Inr settlement)"

definition outcome_payload :: "string \<Rightarrow> json option \<Rightarrow> json option \<Rightarrow> json" where
  "outcome_payload settlementId outcome reason =
     JObj ((''settlementId'', JStr settlementId) # opt_field ''outcome'' outcome @ opt_field ''reason'' reason)"

definition reject_tx :: "int \<Rightarrow> requested_event \<Rightarrow> unit hub_tx" where
  "reject_tx now event =
     tx_bind (SettlementRepository_insert now (rq_settlementId event) (rq_payerBankId event) (rq_payeeBankId event)
                (rq_payeeAccountRef event) (rq_amountCents event) HREJECTED (Some UNKNOWN_PAYEE_BANK)) (\<lambda>record.
       case record of
         None \<Rightarrow> tx_return ()
       | Some r \<Rightarrow> hub_outbox_insert now (sr_id r) ''settlement.outcome''
           (hub_settlementOutcomeRoutingKey (rq_payerBankId event))
           (outcome_payload (sr_id r) (Some (JStr ''REJECTED'')) (Some (JStr UNKNOWN_PAYEE_BANK))))"

definition notify_payload :: "settlement \<Rightarrow> string \<Rightarrow> json" where
  "notify_payload settlement occurredAt = JObj
     [(''settlementId'', JStr (stl_id settlement)),
      (''payerBankId'', JStr (stl_payerBankId settlement)),
      (''payeeAccountRef'', JStr (stl_payeeAccountRef settlement)),
      (''amountCents'', JNum (of_int (cents (stl_amount settlement)))),
      (''occurredAt'', JStr occurredAt)]"

definition accept_tx :: "int \<Rightarrow> string \<Rightarrow> requested_event \<Rightarrow> unit hub_tx" where
  "accept_tx now occurredAt event =
     tx_bind (tx_check (lift_domain (HubMoney_fromCents (rq_amountCents event)))) (\<lambda>amount.
     tx_bind (tx_check (lift_domain (Settlement_create (rq_settlementId event) (rq_payerBankId event)
                (rq_payeeBankId event) (rq_payeeAccountRef event) amount))) (\<lambda>settlement.
     tx_bind (SettlementRepository_insert now (stl_id settlement) (stl_payerBankId settlement)
                (stl_payeeBankId settlement) (stl_payeeAccountRef settlement)
                (js_of_int (cents (stl_amount settlement))) HPENDING None) (\<lambda>record.
       case record of
         None \<Rightarrow> tx_return ()
       | Some r \<Rightarrow>
           tx_bind (tx_check (lift_domain (Settlement_entries settlement))) (\<lambda>entries.
           tx_bind (hub_ledger_append now entries) (\<lambda>_.
             hub_outbox_insert now (stl_id settlement) ''settlement.notify''
               (hub_settlementNotifyRoutingKey (stl_payeeBankId settlement))
               (notify_payload settlement occurredAt))))))"

text \<open>\<open>occurredAt\<close> is \<open>new Date().toISOString()\<close>.\<close>

definition handleRequested ::
  "(hub_db \<Rightarrow> hub_db) \<Rightarrow> int \<Rightarrow> string \<Rightarrow> requested_event \<Rightarrow> hub_db \<Rightarrow> (hub_service_error + unit) \<times> hub_db" where
  "handleRequested i1 now occurredAt event s =
     (case BankRepository_findById (rq_payeeBankId event) s of
        None \<Rightarrow> with_tx (reject_tx now event) (i1 s)
      | Some payeeBank \<Rightarrow> with_tx (accept_tx now occurredAt event) (i1 s))"

text \<open>\<open>event.reason ?? ..\<close>; a reason that is no text is converted by the driver, \<open>pg_text\<close>.\<close>

definition reply_reason :: "(json \<Rightarrow> string) \<Rightarrow> json option \<Rightarrow> string" where
  "reply_reason pg_text reason = (case reason of
     None \<Rightarrow> ''REJECTED_BY_PAYEE_BANK''
   | Some JNull \<Rightarrow> ''REJECTED_BY_PAYEE_BANK''
   | Some (JStr r) \<Rightarrow> r
   | Some j \<Rightarrow> pg_text j)"

definition resolve_tx :: "(json \<Rightarrow> string) \<Rightarrow> int \<Rightarrow> settlement_record \<Rightarrow> reply_event \<Rightarrow> unit hub_tx" where
  "resolve_tx pg_text now settlement event =
     (if rp_outcome event = Some (JStr ''CONFIRMED'') then hub_markConfirmed now (sr_id settlement)
      else
        tx_bind (tx_check (lift_domain (HubMoney_fromCents (sr_amountCents settlement)))) (\<lambda>amount.
        tx_bind (tx_check (lift_domain (Settlement_create (sr_id settlement) (sr_payerBankId settlement)
                   (sr_payeeBankId settlement) (sr_payeeAccountRef settlement) amount))) (\<lambda>domain.
        tx_bind (tx_check (lift_domain (Settlement_reversalEntries domain))) (\<lambda>entries.
        tx_bind (hub_ledger_append now entries) (\<lambda>_.
          hub_markReversed now (sr_id settlement) (reply_reason pg_text (rp_reason event)))))))"

definition reply_tx :: "(json \<Rightarrow> string) \<Rightarrow> int \<Rightarrow> settlement_record \<Rightarrow> reply_event \<Rightarrow> unit hub_tx" where
  "reply_tx pg_text now settlement event =
     tx_bind (resolve_tx pg_text now settlement event) (\<lambda>_.
       hub_outbox_insert now (sr_id settlement) ''settlement.outcome''
         (hub_settlementOutcomeRoutingKey (sr_payerBankId settlement))
         (outcome_payload (sr_id settlement) (rp_outcome event) (rp_reason event)))"

definition handleReply ::
  "(json \<Rightarrow> string) \<Rightarrow> (hub_db \<Rightarrow> hub_db) \<Rightarrow> int \<Rightarrow> reply_event \<Rightarrow> hub_db \<Rightarrow> (hub_service_error + unit) \<times> hub_db" where
  "handleReply pg_text i1 now event s =
     (case SettlementRepository_findById (rp_settlementId event) s of
        Inl e \<Rightarrow> (Inl e, s)
      | Inr None \<Rightarrow> (Inl (Failure (''No settlement found for '' @ rp_settlementId event @ ''.'')), s)
      | Inr (Some settlement) \<Rightarrow>
          if sr_status settlement \<noteq> HPENDING then (Inr (), s)
          else with_tx (reply_tx pg_text now settlement event) (i1 s))"

subsection \<open>Well-formed databases\<close>

definition settlement_ok :: "hub_db \<Rightarrow> settlement_row \<Rightarrow> bool" where
  "settlement_ok s r \<longleftrightarrow> uuid_ok (st_id r) \<and> 0 < st_amount r \<and> st_payer_bank_id r \<noteq> st_payee_bank_id r
     \<and> bank_exists (st_payer_bank_id r) s
     \<and> (st_status r \<noteq> HREJECTED \<longrightarrow> bank_exists (st_payee_bank_id r) s \<and> safe_int (st_amount r))
     \<and> (rejecting (st_status r) \<longleftrightarrow> st_reject_reason r \<noteq> None)"

definition hub_inv :: "hub_db \<Rightarrow> bool" where
  "hub_inv s \<longleftrightarrow> distinct (map bk_id (hub_banks s)) \<and> distinct (map st_id (settlements s))
     \<and> (\<forall>r \<in> set (settlements s). settlement_ok s r) \<and> outbox_ok (hub_outbox s)
     \<and> (\<forall>e \<in> set (hub_ledger s). bank_exists (rs_bank_id e) s)
     \<and> sum_list (map rs_amount (hub_ledger s)) = 0"

lemma hub_inv_migrated: "hub_inv migrated_hub"
  by (simp add: hub_inv_def migrated_hub_def outbox_ok_empty)

lemma settlement_in_ok: "hub_inv s \<Longrightarrow> find_settlement k s = Some r \<Longrightarrow> settlement_ok s r \<and> st_id r = k"
  by (auto simp: hub_inv_def find_settlement_def dest!: find_Some_in)

lemma settlement_findById_ok:
  "uuid_in i = Some k \<Longrightarrow> SettlementRepository_findById i s = Inr (map_option toSettlementRecord (find_settlement k s))"
  by (simp add: SettlementRepository_findById_def bind_uuid_def)

lemma toSettlementRecord_sel [simp]:
  "sr_id (toSettlementRecord r) = st_id r" "sr_payerBankId (toSettlementRecord r) = st_payer_bank_id r"
  "sr_payeeBankId (toSettlementRecord r) = st_payee_bank_id r"
  "sr_payeeAccountRef (toSettlementRecord r) = st_payee_account_ref r"
  "sr_amountCents (toSettlementRecord r) = js_of_int (st_amount r)"
  "sr_status (toSettlementRecord r) = st_status r" "sr_rejectReason (toSettlementRecord r) = st_reject_reason r"
  by (simp_all add: toSettlementRecord_def)

subsection \<open>The transactions\<close>

definition requested_row :: "int \<Rightarrow> string \<Rightarrow> int \<Rightarrow> settlement_status \<Rightarrow> string option \<Rightarrow> requested_event \<Rightarrow> settlement_row" where
  "requested_row now k n st reason ev = \<lparr>st_id = k, st_payer_bank_id = rq_payerBankId ev,
     st_payee_bank_id = rq_payeeBankId ev, st_payee_account_ref = rq_payeeAccountRef ev, st_amount = n,
     st_status = st, st_reject_reason = reason, st_created_at = now, st_updated_at = now\<rparr>"

lemma requested_row_sel [simp]:
  "st_id (requested_row now k n st reason ev) = k" "st_status (requested_row now k n st reason ev) = st"
  "st_payer_bank_id (requested_row now k n st reason ev) = rq_payerBankId ev"
  "st_payee_bank_id (requested_row now k n st reason ev) = rq_payeeBankId ev"
  "st_payee_account_ref (requested_row now k n st reason ev) = rq_payeeAccountRef ev"
  "st_amount (requested_row now k n st reason ev) = n"
  "st_reject_reason (requested_row now k n st reason ev) = reason"
  by (simp_all add: requested_row_def)

text \<open>The database constraints on what a request asks for.\<close>

definition request_fits :: "requested_event \<Rightarrow> int \<Rightarrow> bool" where
  "request_fits ev n \<longleftrightarrow> 1 \<le> length (rq_payeeBankId ev) \<and> length (rq_payeeBankId ev) \<le> 64
     \<and> 1 \<le> length (rq_payeeAccountRef ev) \<and> length (rq_payeeAccountRef ev) \<le> 255
     \<and> 0 < n \<and> rq_payerBankId ev \<noteq> rq_payeeBankId ev"

lemma settlement_insert_ok:
  assumes "uuid_in i = Some k" and "js_integer x = Some n" and "bigint n"
    and "rejecting st \<longleftrightarrow> reason \<noteq> None"
  shows "SettlementRepository_insert now i (rq_payerBankId ev) (rq_payeeBankId ev) (rq_payeeAccountRef ev) x st reason s =
    (if \<not> request_fits ev n then Inl (Db (CheckViolation ''settlements''))
     else if find_settlement k s \<noteq> None then Inr (None, s)
     else if \<not> bank_exists (rq_payerBankId ev) s then Inl (Db (ForeignKeyViolation ''settlements''))
     else Inr (Some (toSettlementRecord (requested_row now k n st reason ev)),
               s\<lparr>settlements := settlements s @ [requested_row now k n st reason ev]\<rparr>))"
  using assms by (simp add: SettlementRepository_insert_def bind_uuid_def bind_bigint_def insert_settlement_row_def
      tx_bind_def tx_check_def db_guard_def request_fits_def requested_row_def)

definition reject_settlement :: "settlement_row \<Rightarrow> hub_db \<Rightarrow> hub_db" where
  "reject_settlement r s = s\<lparr>settlements := settlements s @ [r],
     hub_outbox := outbox_add (st_created_at r) (st_id r) ''settlement.outcome''
       (settlementOutcomeRoutingKey (st_payer_bank_id r))
       (outcome_payload (st_id r) (Some (JStr ''REJECTED'')) (Some (JStr UNKNOWN_PAYEE_BANK))) (hub_outbox s)\<rparr>"

lemma reject_tx_ok:
  assumes i: "uuid_in (rq_settlementId ev) = Some k" and n: "js_integer (rq_amountCents ev) = Some n" "bigint n"
  shows "reject_tx now ev s =
    (if \<not> request_fits ev n then Inl (Db (CheckViolation ''settlements''))
     else if find_settlement k s \<noteq> None then Inr ((), s)
     else if \<not> bank_exists (rq_payerBankId ev) s then Inl (Db (ForeignKeyViolation ''settlements''))
     else Inr ((), reject_settlement (requested_row now k n HREJECTED (Some UNKNOWN_PAYEE_BANK) ev) s))"
proof -
  have k: "uuid_in k = Some k" using i uuid_in_idem by blast
  have at: "st_created_at (requested_row now k n HREJECTED (Some UNKNOWN_PAYEE_BANK) ev) = now"
    by (simp add: requested_row_def)
  note ins = settlement_insert_ok [OF i n, of HREJECTED "Some UNKNOWN_PAYEE_BANK" now ev s]
  show ?thesis
    by (simp add: reject_tx_def ins rejecting_def tx_bind_def hub_outbox_insert_def bind_uuid_def k tx_check_def
        reject_settlement_def at)
qed

definition settlement_movement :: "settlement_row \<Rightarrow> movement" where
  "settlement_movement r = \<lparr>mv_settlement = st_id r, mv_payer = st_payer_bank_id r, mv_payee = st_payee_bank_id r,
     mv_amount = st_amount r, mv_at = st_created_at r\<rparr>"

definition accept_settlement :: "string \<Rightarrow> string \<Rightarrow> settlement_row \<Rightarrow> hub_db \<Rightarrow> hub_db" where
  "accept_settlement i occurredAt r s = (add_reserves (movement_rows (settlement_movement r)) s)
     \<lparr>settlements := settlements s @ [r],
      hub_outbox := outbox_add (st_created_at r) (st_id r) ''settlement.notify''
        (settlementNotifyRoutingKey (st_payee_bank_id r))
        (notify_payload \<lparr>stl_id = i, stl_payerBankId = st_payer_bank_id r, stl_payeeBankId = st_payee_bank_id r,
           stl_payeeAccountRef = st_payee_account_ref r, stl_amount = Money (st_amount r)\<rparr> occurredAt)
        (hub_outbox s)\<rparr>"

lemma accept_tx_ok:
  assumes i: "uuid_in (rq_settlementId ev) = Some k" and n: "isSafeInteger (rq_amountCents ev)"
      "js_integer (rq_amountCents ev) = Some n"
    and ex: "bank_exists (rq_payeeBankId ev) s"
  shows "accept_tx now occurredAt ev s =
    (if n \<le> 0 then Inl (Domain (HubInvalidAmountError (js_of_int n)))
     else if rq_payerBankId ev = rq_payeeBankId ev then Inl (Domain SameBankSettlementError)
     else if \<not> request_fits ev n then Inl (Db (CheckViolation ''settlements''))
     else if find_settlement k s \<noteq> None then Inr ((), s)
     else if \<not> bank_exists (rq_payerBankId ev) s then Inl (Db (ForeignKeyViolation ''settlements''))
     else Inr ((), accept_settlement (rq_settlementId ev) occurredAt (requested_row now k n HPENDING None ev) s))"
proof (cases "n \<le> 0 \<or> rq_payerBankId ev = rq_payeeBankId ev")
  case True
  with n show ?thesis
    by (auto simp: accept_tx_def HubMoney_fromCents_def tx_bind_def tx_check_def Settlement_create_def
        HubMoney_isPositive_def)
next
  case False
  let ?stl = "\<lparr>stl_id = rq_settlementId ev, stl_payerBankId = rq_payerBankId ev, stl_payeeBankId = rq_payeeBankId ev,
      stl_payeeAccountRef = rq_payeeAccountRef ev, stl_amount = Money n\<rparr>"
  let ?r = "requested_row now k n HPENDING None ev"
  have safe: "safe_int n" using n by (simp add: isSafeInteger_def)
  then have js: "js_integer (js_of_int n) = Some n" and big: "bigint n" by (simp_all add: js_integer_of_int safe_int_bigint)
  have create: "HubMoney_fromCents (rq_amountCents ev) = Inr (Money n)"
    "Settlement_create (rq_settlementId ev) (rq_payerBankId ev) (rq_payeeBankId ev) (rq_payeeAccountRef ev) (Money n) = Inr ?stl"
    using False n by (simp_all add: HubMoney_fromCents_def Settlement_create_Inr)
  have mv: "mv_settlement (settlement_movement ?r) = k" "mv_payer (settlement_movement ?r) = rq_payerBankId ev"
    "mv_payee (settlement_movement ?r) = rq_payeeBankId ev" "mv_amount (settlement_movement ?r) = n"
    "mv_at (settlement_movement ?r) = now" by (simp_all add: settlement_movement_def requested_row_def)
  let ?s = "s\<lparr>settlements := settlements s @ [?r]\<rparr>"
  have ex': "bank_exists b ?s = bank_exists b s" for b by (simp add: bank_exists_def)
  note app = hub_append_ok [of "rq_settlementId ev" "settlement_movement ?r" ?s, unfolded mv ex', OF i safe]
  note ins = settlement_insert_ok [OF i js big, of HPENDING None now ev s]
  have at: "st_created_at ?r = now" by (simp add: requested_row_def)
  show ?thesis
    using False ex safe app
    by (simp add: accept_tx_def create ins rejecting_def Settlement_entries_ok money_ok_def tx_bind_def tx_check_def
        hub_outbox_insert_def bind_uuid_def i accept_settlement_def at add_reserves_def)
qed

definition reversal_movement :: "int \<Rightarrow> settlement_row \<Rightarrow> movement" where
  "reversal_movement now r = \<lparr>mv_settlement = st_id r, mv_payer = st_payer_bank_id r, mv_payee = st_payee_bank_id r,
     mv_amount = - st_amount r, mv_at = now\<rparr>"

lemma reversal_movement_sel [simp]:
  "mv_settlement (reversal_movement now r) = st_id r" "mv_payer (reversal_movement now r) = st_payer_bank_id r"
  "mv_payee (reversal_movement now r) = st_payee_bank_id r" "mv_amount (reversal_movement now r) = - st_amount r"
  "mv_at (reversal_movement now r) = now"
  by (simp_all add: reversal_movement_def)

lemma settlement_movement_sel [simp]:
  "mv_settlement (settlement_movement r) = st_id r" "mv_payer (settlement_movement r) = st_payer_bank_id r"
  "mv_payee (settlement_movement r) = st_payee_bank_id r" "mv_amount (settlement_movement r) = st_amount r"
  by (simp_all add: settlement_movement_def)

definition tell_payer :: "int \<Rightarrow> settlement_row \<Rightarrow> reply_event \<Rightarrow> hub_db \<Rightarrow> hub_db" where
  "tell_payer now r ev s = s\<lparr>hub_outbox := outbox_add now (st_id r) ''settlement.outcome''
     (settlementOutcomeRoutingKey (st_payer_bank_id r)) (outcome_payload (st_id r) (rp_outcome ev) (rp_reason ev))
     (hub_outbox s)\<rparr>"

definition confirm_settlement :: "int \<Rightarrow> settlement_row \<Rightarrow> reply_event \<Rightarrow> hub_db \<Rightarrow> hub_db" where
  "confirm_settlement now r ev s = tell_payer now r ev (update_pending HCONFIRMED (now, None) (st_id r) s)"

definition reverse_settlement :: "(json \<Rightarrow> string) \<Rightarrow> int \<Rightarrow> settlement_row \<Rightarrow> reply_event \<Rightarrow> hub_db \<Rightarrow> hub_db" where
  "reverse_settlement pg_text now r ev s = tell_payer now r ev
     (update_pending HREVERSED (now, Some (reply_reason pg_text (rp_reason ev))) (st_id r)
        (add_reserves (movement_rows (reversal_movement now r)) s))"

text \<open>The row a reply was read from stays usable: banks are never removed.\<close>

definition reversible :: "settlement_row \<Rightarrow> hub_db \<Rightarrow> bool" where
  "reversible r s \<longleftrightarrow> uuid_ok (st_id r) \<and> 0 < st_amount r \<and> safe_int (st_amount r)
     \<and> st_payer_bank_id r \<noteq> st_payee_bank_id r
     \<and> bank_exists (st_payer_bank_id r) s \<and> bank_exists (st_payee_bank_id r) s"

lemma pending_reversible:
  "hub_inv s \<Longrightarrow> find_settlement k s = Some r \<Longrightarrow> st_status r \<noteq> HREJECTED \<Longrightarrow> reversible r s"
  using settlement_in_ok [of s k r] by (auto simp: settlement_ok_def reversible_def)

lemma reply_tx_ok:
  assumes r: "reversible r s"
  shows "reply_tx pg_text now (toSettlementRecord r) ev s = Inr ((),
    if rp_outcome ev = Some (JStr ''CONFIRMED'') then confirm_settlement now r ev s
    else reverse_settlement pg_text now r ev s)"
proof -
  have id: "uuid_in (st_id r) = Some (st_id r)" using r by (simp add: reversible_def)
  have out: "hub_outbox_insert now (st_id r) a b c =
      (\<lambda>u. Inr ((), u\<lparr>hub_outbox := outbox_add now (st_id r) a b c (hub_outbox u)\<rparr>))" for a b c
    using id by (simp add: hub_outbox_insert_def bind_uuid_def tx_bind_def fun_eq_iff)
  show ?thesis
  proof (cases "rp_outcome ev = Some (JStr ''CONFIRMED'')")
    case True
    then show ?thesis
      by (simp add: reply_tx_def resolve_tx_def hub_markConfirmed_def bind_uuid_def id out tx_bind_def
          confirm_settlement_def tell_payer_def)
  next
    case False
    let ?stl = "\<lparr>stl_id = st_id r, stl_payerBankId = st_payer_bank_id r, stl_payeeBankId = st_payee_bank_id r,
        stl_payeeAccountRef = st_payee_account_ref r, stl_amount = Money (st_amount r)\<rparr>"
    have create: "HubMoney_fromCents (js_of_int (st_amount r)) = Inr (Money (st_amount r))"
      "Settlement_create (st_id r) (st_payer_bank_id r) (st_payee_bank_id r) (st_payee_account_ref r) (Money (st_amount r)) = Inr ?stl"
      using r by (simp_all add: HubMoney_fromCents_of_int Settlement_create_Inr reversible_def)
    have "hub_ledger_append now
        [\<lparr>re_settlementId = st_id r, re_bankId = st_payer_bank_id r, re_amount = Money (st_amount r)\<rparr>,
         \<lparr>re_settlementId = st_id r, re_bankId = st_payee_bank_id r, re_amount = Money (- st_amount r)\<rparr>] s =
      Inr ((), add_reserves (movement_rows (reversal_movement now r)) s)"
      using hub_append_ok [of "st_id r" "reversal_movement now r" s] r id by (simp add: reversible_def)
    then show ?thesis
      using False r by (simp add: reply_tx_def resolve_tx_def create Settlement_reversalEntries_ok money_ok_def
          reversible_def tx_bind_def tx_check_def hub_markReversed_def bind_uuid_def id out
          reverse_settlement_def tell_payer_def)
  qed
qed

lemma tell_payer_frame [simp]:
  "hub_banks (tell_payer now r ev s) = hub_banks s" "hub_ledger (tell_payer now r ev s) = hub_ledger s"
  "settlements (tell_payer now r ev s) = settlements s"
  by (simp_all add: tell_payer_def)

lemma find_settlement_cong: "settlements s = settlements t \<Longrightarrow> find_settlement k s = find_settlement k t"
  by (simp add: find_settlement_def)

lemma status_frame [simp]:
  "settlement_status_of k (tell_payer now r ev s) = settlement_status_of k s"
  "settlement_status_of k (add_reserves rows s) = settlement_status_of k s"
  by (simp_all add: settlement_status_of_def find_settlement_def)

lemma reserve_sum_frame [simp]:
  "reserve_sum b (tell_payer now r ev s) = reserve_sum b s"
  "reserve_sum b (update_pending st w k s) = reserve_sum b s"
  by (simp_all add: reserve_sum_def)

lemma status_confirm: "settlement_status_of k (confirm_settlement now r ev s) =
    (if k = st_id r \<and> settlement_status_of k s = Some HPENDING then Some HCONFIRMED else settlement_status_of k s)"
  by (auto simp: confirm_settlement_def status_update_pending)

lemma status_reverse: "settlement_status_of k (reverse_settlement pg_text now r ev s) =
    (if k = st_id r \<and> settlement_status_of k s = Some HPENDING then Some HREVERSED else settlement_status_of k s)"
  by (auto simp: reverse_settlement_def status_update_pending)

lemma reserves_confirm: "reserve_sum b (confirm_settlement now r ev s) = reserve_sum b s"
  by (simp add: confirm_settlement_def)

lemma reserves_reverse:
  "st_payer_bank_id r \<noteq> st_payee_bank_id r \<Longrightarrow> reserve_sum b (reverse_settlement pg_text now r ev s) =
     (if b = st_payer_bank_id r then reserve_sum b s + st_amount r
      else if b = st_payee_bank_id r then reserve_sum b s - st_amount r else reserve_sum b s)"
  by (simp add: reverse_settlement_def reserve_sum_movement)

lemma handleReply_pending:
  assumes "uuid_in (rp_settlementId ev) = Some k" and "find_settlement k s = Some r" and "st_status r = HPENDING"
    and "reversible r (i1 s)"
  shows "handleReply pg_text i1 now ev s = (Inr (),
    if rp_outcome ev = Some (JStr ''CONFIRMED'') then confirm_settlement now r ev (i1 s)
    else reverse_settlement pg_text now r ev (i1 s))"
  using assms by (simp add: handleReply_def settlement_findById_ok with_tx_def reply_tx_ok)

lemma handleReply_resolved:
  assumes "uuid_in (rp_settlementId ev) = Some k" and "settlement_status_of k s \<noteq> Some HPENDING"
  shows "snd (handleReply pg_text i1 now ev s) = s \<and>
    (fst (handleReply pg_text i1 now ev s) = Inr () \<longrightarrow> settlement_status_of k s \<noteq> None)"
  using assms by (cases "find_settlement k s") (auto simp: handleReply_def settlement_findById_ok settlement_status_of_def)

end
