(* ===== verification/HubDeliveries.thy ===== *)
theory HubDeliveries
  imports HubSettlements
begin

text \<open>
  The Hub as a consumer of at-least-once messages (hub/src/settlements/settlements.consumer.ts):
  requests and replies are idempotent under redelivery, what each handler does on every branch,
  and what goes wrong when two replies to one settlement overlap.
\<close>

subsection \<open>Requests\<close>

text \<open>A delivery with the time and the ISO text its handling would use.\<close>

type_synonym request_delivery = "int \<times> string \<times> requested_event"

definition deliver_request :: "request_delivery \<Rightarrow> hub_db \<Rightarrow> (hub_service_error + unit) \<times> hub_db" where
  "deliver_request d s = (case d of (now, occurredAt, event) \<Rightarrow> handleRequested id now occurredAt event s)"

definition request_key :: "request_delivery \<Rightarrow> string option" where
  "request_key d = uuid_in (rq_settlementId (snd (snd d)))"

definition settlement_known :: "string option \<Rightarrow> hub_db \<Rightarrow> bool" where
  "settlement_known i s \<longleftrightarrow> (case i of None \<Rightarrow> False | Some k \<Rightarrow> find_settlement k s \<noteq> None)"

lemma SettlementRepository_insert_cases:
  assumes "SettlementRepository_insert now i a b c x st reason s = Inr (res, t)"
  obtains k where "uuid_in i = Some k" "res = None" "t = s" "find_settlement k s \<noteq> None"
  | k row where "uuid_in i = Some k" "res = Some (toSettlementRecord row)" "find_settlement k s = None" "st_id row = k"
      "t = s\<lparr>settlements := settlements s @ [row]\<rparr>"
  using assms by (auto simp: SettlementRepository_insert_def insert_settlement_row_def tx_simps split: if_splits)

lemma hub_ledger_append_settlements:
  "hub_ledger_append now es s = Inr (u, t) \<Longrightarrow> settlements t = settlements s"
  by (induction es arbitrary: s) (fastforce simp: hub_ledger_insert_def tx_simps split: if_splits)+

lemma hub_outbox_insert_settlements:
  "hub_outbox_insert now a b c d s = Inr (u, t) \<Longrightarrow> settlements t = settlements s"
  by (auto simp: hub_outbox_insert_def tx_simps)

text \<open>A request either finds its settlement, or appends one row for it, or fails.\<close>

definition request_recorded :: "string option \<Rightarrow> hub_db \<Rightarrow> hub_db \<Rightarrow> bool" where
  "request_recorded i s t \<longleftrightarrow> (\<exists>k. i = Some k \<and>
     (find_settlement k s \<noteq> None \<and> t = s \<or>
      (\<exists>row. st_id row = k \<and> find_settlement k s = None \<and> settlements t = settlements s @ [row])))"

lemma reject_tx_recorded:
  assumes "reject_tx now ev s = Inr (u, t)"
  shows "request_recorded (uuid_in (rq_settlementId ev)) s t"
proof -
  from assms obtain rec s1 where ins: "SettlementRepository_insert now (rq_settlementId ev) (rq_payerBankId ev)
      (rq_payeeBankId ev) (rq_payeeAccountRef ev) (rq_amountCents ev) HREJECTED (Some UNKNOWN_PAYEE_BANK) s = Inr (rec, s1)"
    and rest: "(case rec of None \<Rightarrow> tx_return () | Some r \<Rightarrow> hub_outbox_insert now (sr_id r) ''settlement.outcome''
           (hub_settlementOutcomeRoutingKey (rq_payerBankId ev))
           (outcome_payload (sr_id r) (Some (JStr ''REJECTED'')) (Some (JStr UNKNOWN_PAYEE_BANK)))) s1 = Inr (u, t)"
    unfolding reject_tx_def by (auto simp only: tx_bind_Inr_eq)
  from ins show ?thesis
    by (rule SettlementRepository_insert_cases)
      (use rest in \<open>auto simp: request_recorded_def dest!: hub_outbox_insert_settlements\<close>)
qed

lemma accept_tx_recorded:
  assumes "accept_tx now occurredAt ev s = Inr (u, t)"
  shows "request_recorded (uuid_in (rq_settlementId ev)) s t"
proof -
  from assms obtain amount stl rec s1 where "Settlement_create (rq_settlementId ev) (rq_payerBankId ev)
      (rq_payeeBankId ev) (rq_payeeAccountRef ev) amount = Inr stl"
    and ins: "SettlementRepository_insert now (stl_id stl) (stl_payerBankId stl) (stl_payeeBankId stl)
      (stl_payeeAccountRef stl) (js_of_int (cents (stl_amount stl))) HPENDING None s = Inr (rec, s1)"
    and rest: "(case rec of None \<Rightarrow> tx_return ()
       | Some r \<Rightarrow>
           tx_bind (tx_check (lift_domain (Settlement_entries stl))) (\<lambda>entries.
           tx_bind (hub_ledger_append now entries) (\<lambda>_.
             hub_outbox_insert now (stl_id stl) ''settlement.notify''
               (hub_settlementNotifyRoutingKey (stl_payeeBankId stl)) (notify_payload stl occurredAt)))) s1 = Inr (u, t)"
    unfolding accept_tx_def by (auto simp only: tx_bind_Inr_eq tx_check_Inr_eq lift_domain_Inr)
  from this(1) have create: "stl_id stl = rq_settlementId ev" by (auto simp: Settlement_create_Inr)
  from ins show ?thesis
    by (rule SettlementRepository_insert_cases)
      (use rest create in \<open>auto simp: request_recorded_def tx_simps
         dest!: hub_outbox_insert_settlements hub_ledger_append_settlements\<close>)
qed

lemma deliver_request_cases:
  "(\<exists>e. fst (deliver_request d s) = Inl e) \<and> snd (deliver_request d s) = s \<or>
   fst (deliver_request d s) = Inr () \<and> request_recorded (request_key d) s (snd (deliver_request d s))"
proof (cases d)
  case (fields now at_iso ev)
  have tx: "(\<exists>e. fst (with_tx m s) = Inl e) \<and> snd (with_tx m s) = s \<or>
      fst (with_tx m s) = Inr () \<and> request_recorded (uuid_in (rq_settlementId ev)) s (snd (with_tx m s))"
    if "\<And>u t. m s = Inr (u, t) \<Longrightarrow> request_recorded (uuid_in (rq_settlementId ev)) s t" for m :: "unit hub_tx"
    using that by (cases rule: with_tx_cases [of m s]) auto
  show ?thesis
    using tx [of "reject_tx now ev", OF reject_tx_recorded] tx [of "accept_tx now at_iso ev", OF accept_tx_recorded]
    by (cases "BankRepository_findById (rq_payeeBankId ev) s")
      (simp_all add: fields deliver_request_def handleRequested_def request_key_def)
qed

lemma request_recorded_known: "request_recorded i s t \<Longrightarrow> settlement_known i t"
  by (auto simp: request_recorded_def settlement_known_def find_settlement_def find_append split: option.splits)

lemma request_recorded_stays: "request_recorded i s t \<Longrightarrow> settlement_known j s \<Longrightarrow> settlement_known j t"
  by (auto simp: request_recorded_def settlement_known_def find_settlement_def find_append split: option.splits)

lemma request_recorded_same: "request_recorded i s t \<Longrightarrow> settlement_known i s \<Longrightarrow> t = s"
  by (auto simp: request_recorded_def settlement_known_def)

interpretation requests: idempotent_consumer deliver_request request_key settlement_known
proof
  fix d s a k
  show "settlement_known (request_key d) s \<Longrightarrow> snd (deliver_request d s) = s"
    using deliver_request_cases [of d s] request_recorded_same by blast
  show "fst (deliver_request d s) = Inr a \<Longrightarrow> settlement_known (request_key d) (snd (deliver_request d s))"
    using deliver_request_cases [of d s] request_recorded_known by fastforce
  show "settlement_known k s \<Longrightarrow> settlement_known k (snd (deliver_request d s))"
    using deliver_request_cases [of d s] request_recorded_stays by fastforce
qed

subsection \<open>Replies\<close>

text \<open>A delivery with the driver's text conversion and the time.\<close>

type_synonym reply_delivery = "(json \<Rightarrow> string) \<times> int \<times> reply_event"

definition deliver_reply :: "reply_delivery \<Rightarrow> hub_db \<Rightarrow> (hub_service_error + unit) \<times> hub_db" where
  "deliver_reply d s = (case d of (pg_text, now, event) \<Rightarrow> handleReply pg_text id now event s)"

definition reply_key :: "reply_delivery \<Rightarrow> string option" where
  "reply_key d = uuid_in (rp_settlementId (snd (snd d)))"

definition resolved :: "string option \<Rightarrow> hub_db \<Rightarrow> bool" where
  "resolved i s \<longleftrightarrow> (case i of None \<Rightarrow> False | Some k \<Rightarrow>
     (case settlement_status_of k s of None \<Rightarrow> False | Some st \<Rightarrow> st \<noteq> HPENDING))"

lemma resolved_iff: "resolved i s \<longleftrightarrow> (\<exists>k st. i = Some k \<and> settlement_status_of k s = Some st \<and> st \<noteq> HPENDING)"
  by (auto simp: resolved_def split: option.splits)

lemma hub_status_cong: "settlements t = settlements s \<Longrightarrow> settlement_status_of k t = settlement_status_of k s"
  by (simp add: settlement_status_of_def find_settlement_def)

lemma settlements_update_cong:
  "settlements t = settlements s \<Longrightarrow> settlements (update_pending st w k t) = settlements (update_pending st w k s)"
  by (simp add: update_pending_def)

lemma reply_tx_settlements:
  assumes run: "reply_tx pg_text now (toSettlementRecord r) ev s = Inr (u, t)" and id: "uuid_in (st_id r) = Some (st_id r)"
  shows "\<exists>st w. st \<noteq> HPENDING \<and> settlements t = settlements (update_pending st w (st_id r) s)"
proof -
  from run obtain s1 where res: "resolve_tx pg_text now (toSettlementRecord r) ev s = Inr ((), s1)"
    and t: "settlements t = settlements s1"
    by (auto simp: reply_tx_def tx_bind_Inr_eq dest!: hub_outbox_insert_settlements)
  show ?thesis
  proof (cases "rp_outcome ev = Some (JStr ''CONFIRMED'')")
    case True
    then have "s1 = update_pending HCONFIRMED (now, None) (st_id r) s"
      using res id by (auto simp: resolve_tx_def hub_markConfirmed_def tx_simps)
    then show ?thesis unfolding t by (intro exI [of _ HCONFIRMED] exI) auto
  next
    case False
    with res obtain s0 reason where "settlements s0 = settlements s"
      and s1: "s1 = update_pending HREVERSED (now, Some reason) (st_id r) s0"
      using id by (auto simp: resolve_tx_def hub_markReversed_def tx_simps dest!: hub_ledger_append_settlements)
    from settlements_update_cong [OF this(1)]
    have "settlements s1 = settlements (update_pending HREVERSED (now, Some reason) (st_id r) s)" unfolding s1 .
    then show ?thesis unfolding t by blast
  qed
qed

lemma deliver_reply_cases:
  "snd (deliver_reply d s) = s \<and> (fst (deliver_reply d s) = Inr () \<longrightarrow> resolved (reply_key d) s) \<or>
   (\<exists>k st w. reply_key d = Some k \<and> settlement_status_of k s = Some HPENDING \<and> st \<noteq> HPENDING \<and>
      settlements (snd (deliver_reply d s)) = settlements (update_pending st w k s))"
proof (cases d)
  case (fields pg_text now ev)
  then have d: "deliver_reply d s = handleReply pg_text id now ev s" "reply_key d = uuid_in (rp_settlementId ev)"
    by (simp_all add: deliver_reply_def reply_key_def)
  show ?thesis
  proof (cases "uuid_in (rp_settlementId ev)")
    case None
    then show ?thesis by (simp add: d handleReply_def SettlementRepository_findById_def bind_uuid_def)
  next
    case k: (Some k)
    show ?thesis
    proof (cases "settlement_status_of k s = Some HPENDING")
      case False
      with handleReply_resolved [OF k False, of pg_text id now] k show ?thesis
        by (auto simp: d resolved_iff)
    next
      case True
      then obtain r where r: "find_settlement k s = Some r" "st_status r = HPENDING"
        by (auto simp: settlement_status_of_def)
      then have id: "st_id r = k" by (auto simp: find_settlement_def dest: find_Some_in)
      have run: "handleReply pg_text id now ev s = with_tx (reply_tx pg_text now (toSettlementRecord r) ev) s"
        using r by (simp add: handleReply_def settlement_findById_ok [OF k])
      show ?thesis
      proof (cases rule: with_tx_cases [of "reply_tx pg_text now (toSettlementRecord r) ev" s])
        case (rolled_back e)
        then show ?thesis by (simp add: d run)
      next
        case (committed u t)
        have "uuid_in (st_id r) = Some (st_id r)" unfolding id by (rule uuid_in_idem [OF k])
        from reply_tx_settlements [OF committed(1) this] committed(2) True k id show ?thesis
          by (auto simp: d run)
      qed
    qed
  qed
qed

lemma resolved_updated:
  assumes "settlement_status_of k s = Some HPENDING" and "st \<noteq> HPENDING"
    and "settlements t = settlements (update_pending st w k s)"
  shows "resolved i t \<longleftrightarrow> i = Some k \<or> resolved i s"
  using assms(1,2) hub_status_cong [OF assms(3)] by (auto simp: resolved_iff status_update_pending)

interpretation hub_replies: idempotent_consumer deliver_reply reply_key resolved
proof
  fix d s a k
  show "resolved (reply_key d) s \<Longrightarrow> snd (deliver_reply d s) = s"
    using deliver_reply_cases [of d s] by (auto simp: resolved_iff)
  show "fst (deliver_reply d s) = Inr a \<Longrightarrow> resolved (reply_key d) (snd (deliver_reply d s))"
    using deliver_reply_cases [of d s] by (auto simp: resolved_updated)
  show "resolved k s \<Longrightarrow> resolved k (snd (deliver_reply d s))"
    using deliver_reply_cases [of d s] by (auto simp: resolved_updated)
qed

subsection \<open>Properties\<close>

lemma status_reject: "find_settlement (st_id r) s = None \<Longrightarrow>
    settlement_status_of k (reject_settlement r s) = (if k = st_id r then Some (st_status r) else settlement_status_of k s)"
  by (auto simp: settlement_status_of_def find_settlement_def reject_settlement_def find_append split: option.splits)

lemma status_accept: "find_settlement (st_id r) s = None \<Longrightarrow>
    settlement_status_of k (accept_settlement i at_iso r s) = (if k = st_id r then Some (st_status r) else settlement_status_of k s)"
  by (auto simp: settlement_status_of_def find_settlement_def accept_settlement_def find_append split: option.splits)

lemma reserves_reject [simp]: "reserve_sum b (reject_settlement r s) = reserve_sum b s"
  by (simp add: reserve_sum_def reject_settlement_def)

lemma reserves_accept: "st_payer_bank_id r \<noteq> st_payee_bank_id r \<Longrightarrow>
    reserve_sum b (accept_settlement i at_iso r s) =
      (if b = st_payer_bank_id r then reserve_sum b s - st_amount r
       else if b = st_payee_bank_id r then reserve_sum b s + st_amount r else reserve_sum b s)"
proof -
  assume ne: "st_payer_bank_id r \<noteq> st_payee_bank_id r"
  have "reserve_sum b (accept_settlement i at_iso r s) = reserve_sum b (add_reserves (movement_rows (settlement_movement r)) s)"
    by (simp add: reserve_sum_def accept_settlement_def)
  with ne show ?thesis by (simp add: reserve_sum_movement)
qed

text \<open>
  C18. A settlement request is routed by its payee bank. For a new, well-formed request of a
  registered payer bank: if the payee bank is registered, the settlement is PENDING, its amount
  has moved from the payer's reserves to the payee's, and exactly one event is left for the
  payee bank with the settlement, the payer bank, the account and the cents; otherwise it is
  REJECTED, no reserve moves, and exactly one event tells the payer bank so. No other reserve
  changes.
\<close>
theorem request_routed:
  assumes i: "uuid_in (rq_settlementId ev) = Some k" and n: "rq_amountCents ev = js_of_int n" "safe_int n"
    and fits: "request_fits ev n" and payer: "bank_exists (rq_payerBankId ev) s"
    and new: "find_settlement k s = None"
  shows "\<exists>t e. handleRequested id now at_iso ev s = (Inr (), t) \<and>
    unpublished (hub_outbox t) = unpublished (hub_outbox s) @ [e] \<and>
    (if bank_exists (rq_payeeBankId ev) s
     then settlement_status_of k t = Some HPENDING \<and>
       reserve_sum (rq_payerBankId ev) t = reserve_sum (rq_payerBankId ev) s - n \<and>
       reserve_sum (rq_payeeBankId ev) t = reserve_sum (rq_payeeBankId ev) s + n \<and>
       (\<forall>b. b \<notin> {rq_payerBankId ev, rq_payeeBankId ev} \<longrightarrow> reserve_sum b t = reserve_sum b s) \<and>
       ob_routing_key e = ''settlement.notify.'' @ rq_payeeBankId ev \<and>
       json_string ''settlementId'' (ob_payload e) = Some (rq_settlementId ev) \<and>
       json_string ''payerBankId'' (ob_payload e) = Some (rq_payerBankId ev) \<and>
       json_string ''payeeAccountRef'' (ob_payload e) = Some (rq_payeeAccountRef ev) \<and>
       json_number ''amountCents'' (ob_payload e) = Some (JsNum (of_int n))
     else settlement_status_of k t = Some HREJECTED \<and> (\<forall>b. reserve_sum b t = reserve_sum b s) \<and>
       ob_routing_key e = ''settlement.outcome.'' @ rq_payerBankId ev \<and>
       json_string ''settlementId'' (ob_payload e) = Some k \<and>
       json_string ''outcome'' (ob_payload e) = Some ''REJECTED'')"
proof -
  have js: "js_integer (rq_amountCents ev) = Some n" "isSafeInteger (rq_amountCents ev)"
    using n by (simp_all add: js_integer_of_int isSafeInteger_of_int)
  have pos: "0 < n" "rq_payerBankId ev \<noteq> rq_payeeBankId ev" using fits by (simp_all add: request_fits_def)
  show ?thesis
  proof (cases "bank_exists (rq_payeeBankId ev) s")
    case True
    let ?r = "requested_row now k n HPENDING None ev"
    let ?t = "accept_settlement (rq_settlementId ev) at_iso ?r s"
    obtain b where b: "BankRepository_findById (rq_payeeBankId ev) s = Some b"
      using True by (auto simp: BankRepository_findById_def bank_exists_find)
    have run: "handleRequested id now at_iso ev s = (Inr (), ?t)"
      using pos fits payer new
      by (simp add: handleRequested_def b with_tx_def accept_tx_ok [OF i js(2,1) True])
    have "settlement_status_of k ?t = Some HPENDING" using new by (simp add: status_accept)
    moreover have "reserve_sum (rq_payerBankId ev) ?t = reserve_sum (rq_payerBankId ev) s - n"
      "reserve_sum (rq_payeeBankId ev) ?t = reserve_sum (rq_payeeBankId ev) s + n"
      "\<forall>b. b \<notin> {rq_payerBankId ev, rq_payeeBankId ev} \<longrightarrow> reserve_sum b ?t = reserve_sum b s"
      using pos(2) by (simp_all add: reserves_accept)
    moreover obtain e where "unpublished (hub_outbox ?t) = unpublished (hub_outbox s) @ [e]"
      "ob_routing_key e = ''settlement.notify.'' @ rq_payeeBankId ev"
      and e: "ob_payload e = notify_payload \<lparr>stl_id = rq_settlementId ev, stl_payerBankId = rq_payerBankId ev,
        stl_payeeBankId = rq_payeeBankId ev, stl_payeeAccountRef = rq_payeeAccountRef ev, stl_amount = Money n\<rparr> at_iso"
      by (simp add: accept_settlement_def unpublished_add settlementNotifyRoutingKey_def)
    moreover from e have "json_string ''settlementId'' (ob_payload e) = Some (rq_settlementId ev)"
      "json_string ''payerBankId'' (ob_payload e) = Some (rq_payerBankId ev)"
      "json_string ''payeeAccountRef'' (ob_payload e) = Some (rq_payeeAccountRef ev)"
      "json_number ''amountCents'' (ob_payload e) = Some (JsNum (of_int n))"
      by (simp_all add: notify_payload_def json_string_def json_number_def)
    ultimately show ?thesis
      using run unfolding if_P [OF True] by blast
  next
    case False
    let ?r = "requested_row now k n HREJECTED (Some UNKNOWN_PAYEE_BANK) ev"
    let ?t = "reject_settlement ?r s"
    have b: "BankRepository_findById (rq_payeeBankId ev) s = None"
      using False by (simp add: BankRepository_findById_def bank_exists_find)
    have run: "handleRequested id now at_iso ev s = (Inr (), ?t)"
      using fits payer new
      by (simp add: handleRequested_def b with_tx_def reject_tx_ok [OF i js(1) safe_int_bigint [OF n(2)]])
    have "settlement_status_of k ?t = Some HREJECTED" using new by (simp add: status_reject)
    moreover have "\<forall>b. reserve_sum b ?t = reserve_sum b s" by simp
    moreover obtain e where "unpublished (hub_outbox ?t) = unpublished (hub_outbox s) @ [e]"
      "ob_routing_key e = ''settlement.outcome.'' @ rq_payerBankId ev"
      "json_string ''settlementId'' (ob_payload e) = Some k" "json_string ''outcome'' (ob_payload e) = Some ''REJECTED''"
      by (simp add: reject_settlement_def unpublished_add settlementOutcomeRoutingKey_def outcome_payload_def json_string_def)
    ultimately show ?thesis
      using run unfolding if_not_P [OF False] by blast
  qed
qed

definition sample_hub :: hub_db where
  "sample_hub = migrated_hub\<lparr>hub_banks :=
     [\<lparr>bk_id = ''bank-a'', bk_name = ''Bank A'', bk_base_url = ''http://a'', bk_created_at = 1\<rparr>,
      \<lparr>bk_id = ''bank-b'', bk_name = ''Bank B'', bk_base_url = ''http://b'', bk_created_at = 2\<rparr>]\<rparr>"

definition sample_settlement_id :: string where
  "sample_settlement_id = ''dddddddd-0000-4000-8000-000000000004''"

definition sample_request :: requested_event where
  "sample_request = \<lparr>rq_settlementId = sample_settlement_id, rq_payerBankId = ''bank-a'', rq_payeeBankId = ''bank-b'',
     rq_payeeAccountRef = ''acc-7'', rq_amountCents = js_of_int 400\<rparr>"

lemma sample_settlement_uuid: "uuid_in sample_settlement_id = Some sample_settlement_id"
  by code_simp

lemma sample_hub_facts:
  "hub_inv sample_hub" "bank_exists ''bank-a'' sample_hub" "bank_exists ''bank-b'' sample_hub"
  "find_settlement k sample_hub = None" "safe_int 400" "request_fits sample_request 400"
  "reserve_sum b sample_hub = 0"
  by (auto simp: sample_hub_def hub_inv_def migrated_hub_def outbox_ok_empty bank_exists_def find_settlement_def
      safe_int_def MAX_SAFE_INTEGER_def request_fits_def sample_request_def reserve_sum_def)

theorem request_routed_witness:
  "\<exists>t. handleRequested id 5 ''now'' sample_request sample_hub = (Inr (), t) \<and>
     settlement_status_of sample_settlement_id t = Some HPENDING \<and> reserve_sum ''bank-b'' t = 400"
  using request_routed [of sample_request sample_settlement_id 400 sample_hub 5 "''now''"]
    sample_hub_facts sample_settlement_uuid
  by (auto simp: sample_request_def)

text \<open>
  A redelivered settlement request is ignored. Once a request has been processed, every
  later delivery with the same settlement id, even one that names another amount or bank, and
  whatever requests come between, leaves reserves, settlements and outbox exactly as they are.
\<close>
theorem redelivered_request_ignored:
  assumes "fst (deliver_request d s) = Inr ()" and "request_key d' = request_key d"
  shows "fold (\<lambda>d s. snd (deliver_request d s)) (d # between @ d' # later) s =
         fold (\<lambda>d s. snd (deliver_request d s)) (d # between @ later) s"
  by (rule requests.redelivery_ignored [OF assms])

definition sample_pending_row :: settlement_row where
  "sample_pending_row = requested_row 5 sample_settlement_id 400 HPENDING None sample_request"

definition sample_pending_hub :: hub_db where
  "sample_pending_hub = accept_settlement sample_settlement_id ''now'' sample_pending_row sample_hub"

lemma sample_request_run: "handleRequested id 5 ''now'' sample_request sample_hub = (Inr (), sample_pending_hub)"
proof -
  have sel: "rq_settlementId sample_request = sample_settlement_id" "rq_payerBankId sample_request = ''bank-a''"
    "rq_payeeBankId sample_request = ''bank-b''" "rq_amountCents sample_request = js_of_int 400"
    by (simp_all add: sample_request_def)
  obtain b where b: "BankRepository_findById ''bank-b'' sample_hub = Some b"
    using sample_hub_facts(3) by (auto simp: BankRepository_findById_def bank_exists_find)
  have "accept_tx 5 ''now'' sample_request sample_hub = Inr ((), sample_pending_hub)"
    using accept_tx_ok [of sample_request sample_settlement_id 400 sample_hub 5 "''now''"]
      sample_hub_facts sample_settlement_uuid
    by (simp add: sel js_integer_of_int isSafeInteger_of_int sample_pending_hub_def sample_pending_row_def)
  then show ?thesis by (simp add: handleRequested_def sel b with_tx_def)
qed

theorem redelivered_request_ignored_witness:
  "fold (\<lambda>d s. snd (deliver_request d s)) ((5, ''now'', sample_request) # [] @
      (6, ''later'', sample_request\<lparr>rq_amountCents := js_of_int 999\<rparr>) # []) sample_hub =
   fold (\<lambda>d s. snd (deliver_request d s)) ((5, ''now'', sample_request) # [] @ []) sample_hub"
  by (rule redelivered_request_ignored) (simp_all add: deliver_request_def sample_request_run request_key_def)

text \<open>
  A redelivered reply is ignored: once a reply to a settlement has been processed, every
  later reply to it, contradicting ones included, changes nothing, as long as the deliveries do
  not overlap.
\<close>
theorem redelivered_reply_ignored:
  assumes "fst (deliver_reply d s) = Inr ()" and "reply_key d' = reply_key d"
  shows "fold (\<lambda>d s. snd (deliver_reply d s)) (d # between @ d' # later) s =
         fold (\<lambda>d s. snd (deliver_reply d s)) (d # between @ later) s"
  by (rule hub_replies.redelivery_ignored [OF assms])

definition sample_reversed :: reply_event where
  "sample_reversed = \<lparr>rp_settlementId = sample_settlement_id, rp_outcome = Some (JStr ''REVERSED''), rp_reason = None\<rparr>"

lemma sample_pending_facts:
  "find_settlement sample_settlement_id sample_pending_hub = Some sample_pending_row"
  "reversible sample_pending_row sample_pending_hub" "st_status sample_pending_row = HPENDING"
  using sample_hub_facts(4) sample_hub_facts(2,3,5) sample_settlement_uuid
  by (simp_all add: sample_pending_hub_def accept_settlement_def find_settlement_def find_append reversible_def
      sample_pending_row_def sample_request_def uuid_ok_def bank_exists_def)

lemma sample_pending_inv: "hub_inv sample_pending_hub"
  using sample_hub_facts(1-3,5) sample_settlement_uuid
  by (auto simp: hub_inv_def sample_pending_hub_def accept_settlement_def sample_hub_def migrated_hub_def
        settlement_ok_def sample_pending_row_def sample_request_def uuid_ok_def rejecting_def outbox_ok_add outbox_ok_empty
        bank_exists_def movement_rows_def)

lemma sample_reversed_run: "handleReply pg id 9 sample_reversed sample_pending_hub =
    (Inr (), reverse_settlement pg 9 sample_pending_row sample_reversed sample_pending_hub)"
  using handleReply_pending [of sample_reversed sample_settlement_id sample_pending_hub sample_pending_row id pg 9]
    sample_pending_facts sample_settlement_uuid by (simp add: sample_reversed_def)

theorem redelivered_reply_ignored_witness:
  "fold (\<lambda>d s. snd (deliver_reply d s)) ((\<lambda>_. [], 9, sample_reversed) # [] @ (\<lambda>_. [], 10, sample_reversed) # [])
     sample_pending_hub =
   fold (\<lambda>d s. snd (deliver_reply d s)) ((\<lambda>_. [], 9, sample_reversed) # [] @ []) sample_pending_hub"
  by (rule redelivered_reply_ignored) (simp_all add: deliver_reply_def sample_reversed_run reply_key_def)



text \<open>
  C37. Overlapping replies break the reserves. The status is read before the transaction and not
  checked in it, and only the status update is guarded. If a reversing reply is processed in
  full while another non-confirming one is between its read and its transaction (a redelivery to a
  second Hub instance, say), both append the reversal: the payer bank's reserves end up higher
  by the amount than before the settlement, at the cost of the payee bank.
\<close>
theorem overlapping_reversals_pay_twice:
  assumes inv: "hub_inv s" and i: "uuid_in (rp_settlementId ev) = Some k" "uuid_in (rp_settlementId ev') = Some k"
    and r: "find_settlement k s = Some r" "st_status r = HPENDING"
    and neg: "rp_outcome ev \<noteq> Some (JStr ''CONFIRMED'')" "rp_outcome ev' \<noteq> Some (JStr ''CONFIRMED'')"
  shows "\<exists>t. handleReply pg_text (\<lambda>s. snd (handleReply pg_text id now' ev' s)) now ev s = (Inr (), t) \<and>
    settlement_status_of k t = Some HREVERSED \<and>
    reserve_sum (st_payer_bank_id r) t = reserve_sum (st_payer_bank_id r) s + 2 * st_amount r \<and>
    reserve_sum (st_payee_bank_id r) t = reserve_sum (st_payee_bank_id r) s - 2 * st_amount r"
proof -
  let ?s1 = "reverse_settlement pg_text now' r ev' s"
  have rev: "reversible r s" using pending_reversible [OF inv r(1)] r(2) by simp
  then have ne: "st_payer_bank_id r \<noteq> st_payee_bank_id r" by (simp add: reversible_def)
  have first: "snd (handleReply pg_text id now' ev' s) = ?s1"
    using handleReply_pending [OF i(2) r, of id pg_text now'] rev neg by simp
  have "bank_exists b ?s1 = bank_exists b s" for b by (simp add: bank_exists_def reverse_settlement_def)
  then have "reversible r ?s1" using rev by (simp add: reversible_def)
  then have "handleReply pg_text (\<lambda>s. snd (handleReply pg_text id now' ev' s)) now ev s =
      (Inr (), reverse_settlement pg_text now r ev ?s1)"
    using handleReply_pending [OF i(1) r, of "\<lambda>s. snd (handleReply pg_text id now' ev' s)" pg_text now] first neg by simp
  moreover have "st_id r = k" "settlement_status_of k s = Some HPENDING"
    using settlement_in_ok [OF inv r(1)] r by (simp_all add: settlement_status_of_def)
  ultimately show ?thesis using ne by (auto simp: status_reverse reserves_reverse)
qed

theorem overlapping_reversals_pay_twice_witness:
  "\<exists>t. handleReply (\<lambda>_. []) (\<lambda>s. snd (handleReply (\<lambda>_. []) id 8 sample_reversed s)) 9 sample_reversed sample_pending_hub
       = (Inr (), t) \<and>
     reserve_sum ''bank-a'' t = reserve_sum ''bank-a'' sample_pending_hub + 800"
proof -
  from overlapping_reversals_pay_twice [OF sample_pending_inv, of sample_reversed sample_settlement_id sample_reversed
      sample_pending_row "\<lambda>_. []" 8 9]
  show ?thesis using sample_pending_facts sample_settlement_uuid
    by (auto simp: sample_reversed_def) (auto simp: sample_pending_row_def sample_request_def)
qed

end
