(* ===== verification/HubSteps.thy ===== *)
theory HubSteps
  imports HubDeliveries
begin

text \<open>
  The Hub as a transition system of committed transactions. A reply's transaction uses the row
  its handler read before; whether that row may have been resolved in between is the parameter
  of the relation, so the two cases can be compared: what holds of all interleavings, and what
  holds only while the replies to a settlement do not overlap.
\<close>

definition same_terms :: "settlement_row \<Rightarrow> settlement_row \<Rightarrow> bool" where
  "same_terms r r' \<longleftrightarrow> st_id r = st_id r' \<and> st_payer_bank_id r = st_payer_bank_id r'
     \<and> st_payee_bank_id r = st_payee_bank_id r' \<and> st_payee_account_ref r = st_payee_account_ref r'
     \<and> st_amount r = st_amount r'"

inductive hub_step :: "bool \<Rightarrow> hub_db \<Rightarrow> hub_db \<Rightarrow> bool" for overlap where
  register: "BankRepository_create now i name url s = Inr (b, t) \<Longrightarrow> hub_step overlap s t"
| reject: "reject_tx now ev s = Inr (u, t) \<Longrightarrow> hub_step overlap s t"
| accept: "bank_exists (rq_payeeBankId ev) s \<Longrightarrow> accept_tx now occurredAt ev s = Inr (u, t) \<Longrightarrow> hub_step overlap s t"
| reply: "st_status r = HPENDING \<Longrightarrow> find_settlement (st_id r) s = Some r' \<Longrightarrow> same_terms r r' \<Longrightarrow>
    st_status r' \<noteq> HREJECTED \<Longrightarrow> overlap \<or> st_status r' = HPENDING \<Longrightarrow>
    reply_tx pg_text now (toSettlementRecord r) ev s = Inr (u, t) \<Longrightarrow> hub_step overlap s t"
| relay: "tick publish commit locked now (hub_outbox s) = (res, ob, sent) \<Longrightarrow> hub_step overlap s (s\<lparr>hub_outbox := ob\<rparr>)"

text \<open>The six ways a transaction changes the tables, with what the code has checked by then.\<close>

inductive hub_change :: "bool \<Rightarrow> hub_db \<Rightarrow> hub_db \<Rightarrow> bool" for overlap where
  nothing: "hub_change overlap s s"
| registered: "\<not> bank_exists i s \<Longrightarrow> 1 \<le> length i \<Longrightarrow>
    hub_change overlap s (s\<lparr>hub_banks := hub_banks s @ [\<lparr>bk_id = i, bk_name = name, bk_base_url = url, bk_created_at = now\<rparr>]\<rparr>)"
| rejected: "settlement_ok s r \<Longrightarrow> st_status r = HREJECTED \<Longrightarrow> find_settlement (st_id r) s = None \<Longrightarrow>
    hub_change overlap s (reject_settlement r s)"
| accepted: "settlement_ok s r \<Longrightarrow> st_status r = HPENDING \<Longrightarrow> find_settlement (st_id r) s = None \<Longrightarrow>
    hub_change overlap s (accept_settlement i occurredAt r s)"
| confirmed: "reversible r s \<Longrightarrow> find_settlement (st_id r) s = Some r' \<Longrightarrow> same_terms r r' \<Longrightarrow>
    overlap \<or> st_status r' = HPENDING \<Longrightarrow> hub_change overlap s (confirm_settlement now r ev s)"
| reversed: "reversible r s \<Longrightarrow> find_settlement (st_id r) s = Some r' \<Longrightarrow> same_terms r r' \<Longrightarrow>
    overlap \<or> st_status r' = HPENDING \<Longrightarrow> hub_change overlap s (reverse_settlement pg_text now r ev s)"
| relayed: "outbox_ok ob \<Longrightarrow> hub_change overlap s (s\<lparr>hub_outbox := ob\<rparr>)"

lemma same_terms_reversible: "same_terms r r' \<Longrightarrow> reversible r' s \<Longrightarrow> reversible r s"
  by (auto simp: same_terms_def reversible_def)

lemma reject_tx_Inr:
  assumes run: "reject_tx now ev s = Inr (u, t)"
  obtains (known) k where "uuid_in (rq_settlementId ev) = Some k" "find_settlement k s \<noteq> None" "t = s"
  | (fresh) k n r where "uuid_in (rq_settlementId ev) = Some k" "js_integer (rq_amountCents ev) = Some n"
      "r = requested_row now k n HREJECTED (Some UNKNOWN_PAYEE_BANK) ev" "find_settlement k s = None"
      "settlement_ok s r" "t = reject_settlement r s"
proof -
  obtain k where k: "uuid_in (rq_settlementId ev) = Some k"
    using run by (auto simp: reject_tx_def SettlementRepository_insert_def tx_simps)
  obtain n where n: "js_integer (rq_amountCents ev) = Some n" "bigint n"
    using run by (auto simp: reject_tx_def SettlementRepository_insert_def tx_simps bind_bigint_def
        split: option.splits if_splits)
  let ?r = "requested_row now k n HREJECTED (Some UNKNOWN_PAYEE_BANK) ev"
  show thesis
  proof (cases "find_settlement k s = None")
    case True
    have "settlement_ok s ?r" "t = reject_settlement ?r s"
      using run True uuid_in_ok [OF k]
      by (auto simp: reject_tx_ok [OF k n] settlement_ok_def request_fits_def rejecting_def split: if_splits)
    with True k n show thesis by (intro fresh) auto
  next
    case False
    with run k show thesis by (intro known) (auto simp: reject_tx_ok [OF k n] split: if_splits)
  qed
qed

lemma accept_tx_Inr:
  assumes ex: "bank_exists (rq_payeeBankId ev) s" and run: "accept_tx now occurredAt ev s = Inr (u, t)"
  obtains (known) k where "uuid_in (rq_settlementId ev) = Some k" "find_settlement k s \<noteq> None" "t = s"
  | (fresh) k n r where "uuid_in (rq_settlementId ev) = Some k" "js_integer (rq_amountCents ev) = Some n"
      "r = requested_row now k n HPENDING None ev" "find_settlement k s = None"
      "settlement_ok s r" "t = accept_settlement (rq_settlementId ev) occurredAt r s"
proof -
  have safe: "isSafeInteger (rq_amountCents ev)"
    using run by (cases "isSafeInteger (rq_amountCents ev)") (simp_all add: accept_tx_def HubMoney_fromCents_def)
  then obtain n where n: "js_integer (rq_amountCents ev) = Some n" "safe_int n"
    by (auto simp: isSafeInteger_def split: option.splits)
  obtain k where k: "uuid_in (rq_settlementId ev) = Some k"
    using run n safe by (auto simp: accept_tx_def SettlementRepository_insert_def tx_simps Settlement_create_Inr)
  let ?r = "requested_row now k n HPENDING None ev"
  show thesis
  proof (cases "find_settlement k s = None")
    case True
    have "settlement_ok s ?r" "t = accept_settlement (rq_settlementId ev) occurredAt ?r s"
      using run True uuid_in_ok [OF k] ex n
      by (auto simp: accept_tx_ok [OF k safe n(1) ex] settlement_ok_def rejecting_def split: if_splits)
    with True k n show thesis by (intro fresh) auto
  next
    case False
    with run k show thesis by (intro known) (auto simp: accept_tx_ok [OF k safe n(1) ex] split: if_splits)
  qed
qed

lemma reject_tx_change:
  assumes "reject_tx now ev s = Inr (u, t)"
  shows "hub_change ov s t"
  using assms
proof (cases rule: reject_tx_Inr)
  case (fresh k n r)
  then show ?thesis using hub_change.rejected [of s r ov] by simp
qed (simp add: hub_change.nothing)

lemma accept_tx_change:
  assumes "bank_exists (rq_payeeBankId ev) s" and "accept_tx now occurredAt ev s = Inr (u, t)"
  shows "hub_change ov s t"
  using assms
proof (cases rule: accept_tx_Inr)
  case (fresh k n r)
  then show ?thesis using hub_change.accepted [of s r ov] by simp
qed (simp add: hub_change.nothing)

lemma hub_step_change:
  assumes step: "hub_step ov s t" and inv: "hub_inv s"
  shows "hub_change ov s t"
  using step
proof cases
  case (register now i name url b)
  then show ?thesis
    by (auto simp: BankRepository_create_def tx_simps Let_def split: if_splits intro: hub_change.nothing hub_change.registered)
next
  case (reject now ev u)
  then show ?thesis by (rule reject_tx_change)
next
  case (accept ev now occurredAt u)
  then show ?thesis by (rule accept_tx_change)
next
  case (reply r r' pg_text now ev u)
  have rev: "reversible r s"
    by (rule same_terms_reversible [OF reply(3) pending_reversible [OF inv reply(2,4)]])
  then show ?thesis
    using reply by (auto simp: reply_tx_ok [OF rev] intro: hub_change.confirmed hub_change.reversed split: if_splits)
next
  case (relay publish commit locked now res ob sent)
  have "outbox_ok ob" using tick_ok [of "hub_outbox s" publish commit locked now] relay(2) inv by (simp add: hub_inv_def)
  then show ?thesis using relay(1) by (simp add: hub_change.relayed)
qed

subsection \<open>The invariant\<close>

lemma settlement_ok_mono:
  "settlement_ok s r \<Longrightarrow> (\<And>b. bank_exists b s \<Longrightarrow> bank_exists b t) \<Longrightarrow> settlement_ok t r"
  by (auto simp: settlement_ok_def)

lemma find_settlement_None: "find_settlement k s = None \<longleftrightarrow> k \<notin> st_id ` set (settlements s)"
  by (auto simp: find_settlement_def find_None)

lemma hub_inv_new_settlement:
  assumes "hub_inv s" and "settlement_ok s r" and "find_settlement (st_id r) s = None" and "outbox_ok ob"
    and "\<forall>e \<in> set es. bank_exists (rs_bank_id e) s" and "sum_list (map rs_amount es) = 0"
  shows "hub_inv (s\<lparr>settlements := settlements s @ [r], hub_outbox := ob, hub_ledger := hub_ledger s @ es\<rparr>)"
  using assms by (auto simp: hub_inv_def find_settlement_None bank_exists_def settlement_ok_def)

lemma settlement_ok_marked:
  "settlement_ok s r \<Longrightarrow> st_status r = HPENDING \<Longrightarrow> st \<noteq> HREJECTED \<Longrightarrow> (rejecting st \<longleftrightarrow> snd w \<noteq> None) \<Longrightarrow>
   settlement_ok s (r\<lparr>st_status := st, st_updated_at := fst w,
     st_reject_reason := (case snd w of None \<Rightarrow> st_reject_reason r | Some x \<Rightarrow> Some x)\<rparr>)"
  by (auto simp: settlement_ok_def rejecting_def split: option.splits)

lemma hub_inv_update:
  assumes inv: "hub_inv s" and st: "st \<noteq> HREJECTED" "rejecting st \<longleftrightarrow> snd w \<noteq> None"
  shows "hub_inv (update_pending st w k s)"
proof -
  let ?t = "update_pending st w k s"
  have ex: "bank_exists b ?t = bank_exists b s" for b by (simp add: bank_exists_def)
  have ids: "map st_id (settlements ?t) = map st_id (settlements s)" by (simp add: update_pending_def)
  have "settlement_ok ?t r" if "r \<in> set (settlements ?t)" for r
  proof -
    from that obtain r0 where r0: "r0 \<in> set (settlements s)"
      and r: "r = r0 \<or> st_status r0 = HPENDING \<and> r = r0\<lparr>st_status := st, st_updated_at := fst w,
         st_reject_reason := (case snd w of None \<Rightarrow> st_reject_reason r0 | Some x \<Rightarrow> Some x)\<rparr>"
      by (auto simp: update_pending_def split: if_splits)
    from inv r0 have "settlement_ok s r0" by (simp add: hub_inv_def)
    then have "settlement_ok s r" using r settlement_ok_marked [OF _ _ st] by blast
    then show ?thesis by (rule settlement_ok_mono) (simp add: ex)
  qed
  with inv ids ex show ?thesis by (simp add: hub_inv_def)
qed

lemma hub_inv_outbox: "hub_inv s \<Longrightarrow> outbox_ok ob \<Longrightarrow> hub_inv (s\<lparr>hub_outbox := ob\<rparr>)"
  by (auto simp: hub_inv_def bank_exists_def settlement_ok_def)

lemma hub_inv_tell: "hub_inv s \<Longrightarrow> hub_inv (tell_payer now r ev s)"
  unfolding tell_payer_def by (rule hub_inv_outbox) (simp_all add: hub_inv_def outbox_ok_add)

lemma hub_inv_move:
  "hub_inv s \<Longrightarrow> bank_exists (mv_payer m) s \<Longrightarrow> bank_exists (mv_payee m) s \<Longrightarrow> hub_inv (add_reserves (movement_rows m) s)"
  by (auto simp: hub_inv_def bank_exists_def settlement_ok_def movement_rows_def)

lemma accept_settlement_eq: "accept_settlement i iso_at r s =
    s\<lparr>settlements := settlements s @ [r], hub_outbox := hub_outbox (accept_settlement i iso_at r s),
      hub_ledger := hub_ledger s @ movement_rows (settlement_movement r)\<rparr>"
  by (simp add: accept_settlement_def add_reserves_def)

lemma reject_settlement_eq: "reject_settlement r s =
    s\<lparr>settlements := settlements s @ [r], hub_outbox := hub_outbox (reject_settlement r s), hub_ledger := hub_ledger s @ []\<rparr>"
  by (simp add: reject_settlement_def)

lemma hub_change_inv:
  assumes "hub_change ov s t" and inv: "hub_inv s"
  shows "hub_inv t"
  using assms(1)
proof cases
  case nothing
  with inv show ?thesis by simp
next
  case (registered i name url now)
  then have "bank_exists b s \<Longrightarrow> bank_exists b t" for b by (auto simp: bank_exists_def)
  with registered inv show ?thesis
    by (auto simp: hub_inv_def intro: settlement_ok_mono) (auto simp: bank_exists_def list_ex_iff)
next
  case (rejected r)
  have "outbox_ok (hub_outbox (reject_settlement r s))"
    using inv by (simp add: hub_inv_def reject_settlement_def outbox_ok_add)
  from hub_inv_new_settlement [OF inv rejected(2,4) this, of "[]"] show ?thesis
    unfolding rejected(1) by (subst reject_settlement_eq) simp
next
  case (accepted r i occurredAt)
  have "outbox_ok (hub_outbox (accept_settlement i occurredAt r s))"
    using inv by (simp add: hub_inv_def accept_settlement_def outbox_ok_add)
  from hub_inv_new_settlement [OF inv accepted(2,4) this, of "movement_rows (settlement_movement r)"] accepted(2,3)
  show ?thesis unfolding accepted(1) by (subst accept_settlement_eq) (simp add: movement_rows_def settlement_ok_def)
next
  case (confirmed r r' now ev)
  show ?thesis unfolding confirmed(1) confirm_settlement_def
    by (intro hub_inv_tell hub_inv_update [OF inv]) (simp_all add: rejecting_def)
next
  case (reversed r r' pg_text now ev)
  then have "bank_exists (st_payer_bank_id r) s" "bank_exists (st_payee_bank_id r) s" by (simp_all add: reversible_def)
  then show ?thesis unfolding reversed(1) reverse_settlement_def
    by (intro hub_inv_tell hub_inv_update hub_inv_move inv) (simp_all add: rejecting_def)
next
  case (relayed ob)
  with inv show ?thesis by (simp add: hub_inv_outbox)
qed

lemma hub_steps_inv: "(hub_step ov)\<^sup>*\<^sup>* s t \<Longrightarrow> hub_inv s \<Longrightarrow> hub_inv t"
  by (induction rule: rtranclp_induct) (auto intro: hub_change_inv hub_step_change)

subsection \<open>What a change keeps\<close>

definition hub_grows :: "hub_db \<Rightarrow> hub_db \<Rightarrow> bool" where
  "hub_grows s t \<longleftrightarrow> prefix (hub_banks s) (hub_banks t) \<and> prefix (hub_ledger s) (hub_ledger t)
     \<and> (\<forall>k r. find_settlement k s = Some r \<longrightarrow> (\<exists>r'. find_settlement k t = Some r' \<and> same_terms r r'
          \<and> (st_status r' = HREJECTED \<longleftrightarrow> st_status r = HREJECTED)
          \<and> (st_status r \<noteq> HPENDING \<longrightarrow> st_status r' = st_status r)))"

lemma same_terms_refl [simp]: "same_terms r r"
  by (simp add: same_terms_def)

lemma same_terms_trans: "same_terms r r' \<Longrightarrow> same_terms r' r'' \<Longrightarrow> same_terms r r''"
  by (simp add: same_terms_def)

lemma hub_grows_refl [simp]: "hub_grows s s"
  by (auto simp: hub_grows_def)

lemma hub_grows_row:
  assumes "hub_grows s t" and "find_settlement k s = Some r"
  obtains r' where "find_settlement k t = Some r'" "same_terms r r'" "st_status r' = HREJECTED \<longleftrightarrow> st_status r = HREJECTED"
    "st_status r \<noteq> HPENDING \<Longrightarrow> st_status r' = st_status r"
  using assms unfolding hub_grows_def by blast

lemma hub_grows_trans:
  assumes g: "hub_grows s t" "hub_grows t u"
  shows "hub_grows s u"
  unfolding hub_grows_def
proof (intro conjI allI impI)
  show "prefix (hub_banks s) (hub_banks u)" "prefix (hub_ledger s) (hub_ledger u)"
    using g by (auto simp: hub_grows_def)
next
  fix k r
  assume "find_settlement k s = Some r"
  with g(1) obtain r' where 1: "find_settlement k t = Some r'" "same_terms r r'"
    "st_status r' = HREJECTED \<longleftrightarrow> st_status r = HREJECTED" "st_status r \<noteq> HPENDING \<Longrightarrow> st_status r' = st_status r"
    by (rule hub_grows_row) blast
  from g(2) 1(1) obtain r'' where 2: "find_settlement k u = Some r''" "same_terms r' r''"
    "st_status r'' = HREJECTED \<longleftrightarrow> st_status r' = HREJECTED" "st_status r' \<noteq> HPENDING \<Longrightarrow> st_status r'' = st_status r'"
    by (rule hub_grows_row) blast
  from 1 2 show "\<exists>r'. find_settlement k u = Some r' \<and> same_terms r r'
      \<and> (st_status r' = HREJECTED \<longleftrightarrow> st_status r = HREJECTED)
      \<and> (st_status r \<noteq> HPENDING \<longrightarrow> st_status r' = st_status r)"
    by (intro exI [of _ r'']) (auto intro: same_terms_trans)
qed

lemma hub_grows_append:
  "hub_grows s (s\<lparr>settlements := settlements s @ rs, hub_outbox := ob, hub_ledger := hub_ledger s @ es\<rparr>)"
  by (auto simp: hub_grows_def find_settlement_def find_append)

lemma hub_grows_frame:
  "hub_grows s (s\<lparr>hub_outbox := ob\<rparr>)" "hub_grows s (s\<lparr>hub_banks := hub_banks s @ bs\<rparr>)"
  "hub_grows s (tell_payer now r ev s)" "hub_grows s (add_reserves es s)"
  by (auto simp: hub_grows_def find_settlement_def tell_payer_def)

lemma hub_grows_update: "st \<noteq> HREJECTED \<Longrightarrow> hub_grows s (update_pending st w k s)"
  by (auto simp: hub_grows_def find_update_pending same_terms_def)

lemma hub_change_grows: "hub_change ov s t \<Longrightarrow> hub_grows s t"
proof (induction rule: hub_change.induct)
  case (rejected s r)
  show ?case by (subst reject_settlement_eq) (rule hub_grows_append)
next
  case (accepted s r i occurredAt)
  show ?case by (subst accept_settlement_eq) (rule hub_grows_append)
next
  case (confirmed r s r' now ev)
  show ?case unfolding confirm_settlement_def
    by (rule hub_grows_trans [OF hub_grows_update hub_grows_frame(3)]) simp
next
  case (reversed r s r' pg_text now ev)
  show ?case unfolding reverse_settlement_def
    by (rule hub_grows_trans [OF hub_grows_trans [OF hub_grows_frame(4) hub_grows_update] hub_grows_frame(3)]) simp
qed (simp_all add: hub_grows_frame)

lemma hub_steps_grow: "(hub_step ov)\<^sup>*\<^sup>* s t \<Longrightarrow> hub_inv s \<Longrightarrow> hub_grows s t"
proof (induction rule: rtranclp_induct)
  case base
  show ?case by simp
next
  case (step t u)
  have "hub_inv t" by (rule hub_steps_inv [OF step(1) step(4)])
  from hub_change_grows [OF hub_step_change [OF step(2) this]] step show ?case
    by (blast intro: hub_grows_trans)
qed

subsection \<open>Reserves and settlements\<close>

text \<open>What a settlement counts for in a bank's reserves: nothing once it is reversed or rejected.\<close>

definition in_force :: "settlement_status \<Rightarrow> bool" where
  "in_force st \<longleftrightarrow> st = HPENDING \<or> st = HCONFIRMED"

definition position :: "string \<Rightarrow> settlement_row \<Rightarrow> int" where
  "position b r = (if \<not> in_force (st_status r) then 0
     else (if st_payee_bank_id r = b then st_amount r else 0) - (if st_payer_bank_id r = b then st_amount r else 0))"

definition reserves_explained :: "hub_db \<Rightarrow> bool" where
  "reserves_explained s \<longleftrightarrow> (\<forall>b. reserve_sum b s = (\<Sum>r\<leftarrow>settlements s. position b r))"

lemma sum_update_one:
  fixes f :: "'a \<Rightarrow> int"
  assumes "distinct (map key xs)" and "x \<in> set xs" and "P x" and "\<And>y. y \<in> set xs \<Longrightarrow> P y \<Longrightarrow> key y = key x"
  shows "(\<Sum>y\<leftarrow>map (\<lambda>y. if P y then g y else y) xs. f y) = (\<Sum>y\<leftarrow>xs. f y) - f x + f (g x)"
  using assms
proof (induction xs)
  case Nil
  then show ?case by simp
next
  case (Cons y ys)
  show ?case
  proof (cases "y = x")
    case True
    have "\<not> P z" if z: "z \<in> set ys" for z
    proof
      assume "P z"
      then have "key z = key y" using Cons.prems(4) [of z] z True by simp
      then show False using Cons.prems(1) imageI [OF z, of key] by simp
    qed
    then have "map (\<lambda>y. if P y then g y else y) ys = ys" by (auto intro: map_idI)
    with True Cons.prems(3) show ?thesis by simp
  next
    case False
    then have x: "x \<in> set ys" using Cons.prems(2) by simp
    have "\<not> P y"
    proof
      assume "P y"
      then have "key y = key x" using Cons.prems(4) [of y] by simp
      then show False using Cons.prems(1) imageI [OF x, of key] by simp
    qed
    with Cons.IH [OF _ x Cons.prems(3)] Cons.prems(1,4) show ?thesis by simp
  qed
qed

lemma position_sum_update:
  assumes inv: "hub_inv s" and f: "find_settlement k s = Some r" and p: "st_status r = HPENDING"
  shows "(\<Sum>r\<leftarrow>settlements (update_pending st w k s). position b r) =
    (\<Sum>r\<leftarrow>settlements s. position b r) - position b r + position b (r\<lparr>st_status := st\<rparr>)"
proof -
  let ?g = "\<lambda>r. r\<lparr>st_status := st, st_updated_at := fst w,
       st_reject_reason := (case snd w of None \<Rightarrow> st_reject_reason r | Some x \<Rightarrow> Some x)\<rparr>"
  have r: "r \<in> set (settlements s)" "st_id r = k"
    using find_Some_in [OF f [unfolded find_settlement_def]] by auto
  have "distinct (map st_id (settlements s))" using inv by (simp add: hub_inv_def)
  from sum_update_one [OF this r(1), of "\<lambda>r. st_id r = k \<and> st_status r = HPENDING" "position b" ?g] r(2) p
  show ?thesis by (simp add: update_pending_def position_def)
qed

lemma reserves_explained_change:
  assumes "hub_change False s t" and inv: "hub_inv s" and ex: "reserves_explained s"
  shows "reserves_explained t"
  using assms(1)
proof cases
  case (rejected r)
  then show ?thesis using ex
    by (simp add: reserves_explained_def position_def in_force_def) (simp add: reject_settlement_def)
next
  case (accepted r i occurredAt)
  then have "reserve_sum b t = reserve_sum b s + position b r" for b
    by (auto simp: reserves_accept settlement_ok_def position_def in_force_def)
  with accepted(1) ex show ?thesis by (simp add: reserves_explained_def accept_settlement_def)
next
  case (confirmed r r' now ev)
  have "position b (r'\<lparr>st_status := HCONFIRMED\<rparr>) = position b r'" for b
    using confirmed by (simp add: position_def in_force_def)
  then show ?thesis
    using ex position_sum_update [OF inv confirmed(3)] confirmed
    by (simp add: reserves_explained_def reserves_confirm) (simp add: confirm_settlement_def)
next
  case (reversed r r' pg_text now ev)
  have pos: "position b r' = (if st_payee_bank_id r = b then st_amount r else 0) - (if st_payer_bank_id r = b then st_amount r else 0)"
    "position b (r'\<lparr>st_status := HREVERSED\<rparr>) = 0" for b
    using reversed by (auto simp: position_def in_force_def same_terms_def)
  have "settlements t = settlements (update_pending HREVERSED (now, Some (reply_reason pg_text (rp_reason ev))) (st_id r) s)"
    using reversed(1) by (simp add: reverse_settlement_def update_pending_def)
  moreover have "reserve_sum b t = reserve_sum b s - position b r'" for b
    using reversed by (auto simp: reserves_reverse reversible_def pos)
  ultimately show ?thesis
    using ex position_sum_update [OF inv reversed(3)] reversed(5) by (simp add: reserves_explained_def pos(2))
qed (use ex in \<open>simp_all add: reserves_explained_def reserve_sum_def\<close>)

lemma serial_reserves: "(hub_step False)\<^sup>*\<^sup>* s t \<Longrightarrow> hub_inv s \<Longrightarrow> reserves_explained s \<Longrightarrow> reserves_explained t"
proof (induction rule: rtranclp_induct)
  case (step t u)
  have "hub_inv t" by (rule hub_steps_inv [OF step(1) step(4)])
  with reserves_explained_change [OF hub_step_change [OF step(2) this] this] step show ?case by blast
qed simp

subsection \<open>Properties\<close>


lemma sample_hub_steps: "(hub_step ov)\<^sup>*\<^sup>* migrated_hub sample_hub"
proof -
  let ?a = "\<lparr>bk_id = ''bank-a'', bk_name = ''Bank A'', bk_base_url = ''http://a'', bk_created_at = 1\<rparr>"
  let ?s = "migrated_hub\<lparr>hub_banks := [?a]\<rparr>"
  have "hub_step ov migrated_hub ?s"
    by (rule hub_step.register [of 1 "''bank-a''" "''Bank A''" "''http://a''"])
      (simp add: BankRepository_create_def bank_exists_def migrated_hub_def Let_def)
  moreover have "hub_step ov ?s sample_hub"
    by (rule hub_step.register [of 2 "''bank-b''" "''Bank B''" "''http://b''"])
      (simp add: BankRepository_create_def bank_exists_def migrated_hub_def sample_hub_def Let_def)
  ultimately show ?thesis by (meson converse_rtranclp_into_rtranclp rtranclp.rtrancl_refl)
qed

lemma sample_pending_steps: "(hub_step ov)\<^sup>*\<^sup>* migrated_hub sample_pending_hub"
proof -
  have "accept_tx 5 ''now'' sample_request sample_hub = Inr ((), sample_pending_hub)"
    using sample_request_run sample_hub_facts(3)
    by (auto simp: handleRequested_def with_tx_def sample_request_def BankRepository_findById_def bank_exists_find
        split: sum.splits)
  then have "hub_step ov sample_hub sample_pending_hub"
    by (rule hub_step.accept [rotated]) (simp add: sample_request_def sample_hub_facts)
  with sample_hub_steps show ?thesis by (rule rtranclp.rtrancl_into_rtrancl)
qed


text \<open>
  While the replies to a settlement do not overlap, the reserves are fully explained by the
  settlements: in every reachable database each bank's reserve balance is the sum of what it
  received minus what it paid in the settlements that are PENDING or CONFIRMED; reversed and
  rejected ones count for nothing.
\<close>
theorem serial_reserves_explained:
  assumes "(hub_step False)\<^sup>*\<^sup>* migrated_hub s"
  shows "reserve_sum b s = (\<Sum>r\<leftarrow>settlements s. position b r)"
proof -
  have "reserves_explained migrated_hub"
    by (simp add: reserves_explained_def migrated_hub_def reserve_sum_def)
  from serial_reserves [OF assms hub_inv_migrated this] show ?thesis by (simp add: reserves_explained_def)
qed

theorem serial_reserves_explained_witness:
  "reserve_sum ''bank-b'' sample_pending_hub = (\<Sum>r\<leftarrow>settlements sample_pending_hub. position ''bank-b'' r) \<and>
   position ''bank-b'' sample_pending_row = 400"
  using serial_reserves_explained [OF sample_pending_steps, of "''bank-b''"]
  by (simp add: position_def in_force_def sample_pending_row_def sample_request_def)

text \<open>
  C24. Settlement history is final under every interleaving: the reserve ledger only grows at its
  end, no settlement disappears or changes its banks or its amount, and a settlement that is
  CONFIRMED, REVERSED or REJECTED stays so.
\<close>
theorem settlements_are_final:
  assumes "(hub_step True)\<^sup>*\<^sup>* migrated_hub s" and "(hub_step True)\<^sup>*\<^sup>* s t"
    and r: "find_settlement k s = Some r"
  shows "prefix (hub_ledger s) (hub_ledger t) \<and>
    (\<exists>r'. find_settlement k t = Some r' \<and> same_terms r r' \<and> (st_status r = HPENDING \<or> st_status r' = st_status r))"
proof -
  have "hub_grows s t" by (rule hub_steps_grow [OF assms(2) hub_steps_inv [OF assms(1) hub_inv_migrated]])
  with r show ?thesis unfolding hub_grows_def by metis
qed

theorem settlements_are_final_witness:
  "\<exists>r'. find_settlement sample_settlement_id sample_pending_hub = Some r' \<and> same_terms sample_pending_row r'"
  using settlements_are_final [OF sample_pending_steps rtranclp.rtrancl_refl sample_pending_facts(1)] by blast

end
