(* ===== verification/HubIsolation.thy ===== *)
theory HubIsolation
  imports HubSteps
begin

text \<open>
  The transactions of the Hub (settlements.service.ts), statement by statement, with any number
  of them running at once at READ COMMITTED, in the manner of \<open>BankIsolation\<close>. The Hub never locks
  a row to read it, and no row of banks is ever updated, so the locks of foreign keys make nobody
  wait; a transaction waits only for another one that has inserted the settlement it inserts, or
  has updated the settlement it updates.
\<close>

subsection \<open>Transactions as programs of statements\<close>

datatype hub_prog =
    HDone
  | HThrow hub_service_error
  | HInsert string string string string js_number settlement_status "string option"
      "settlement_record \<Rightarrow> hub_prog" hub_prog       \<comment> \<open>\<open>insert\<close>: inserted, or the id was taken\<close>
  | HAppend reserve_entry hub_prog
  | HMark "string option" string hub_prog             \<comment> \<open>\<open>markConfirmed\<close>, or \<open>markReversed\<close> with its reason\<close>
  | HEmit string string string json hub_prog

definition hub_mark :: "int \<Rightarrow> string option \<Rightarrow> string \<Rightarrow> unit hub_tx" where
  "hub_mark now reason i = (case reason of None \<Rightarrow> hub_markConfirmed now i | Some r \<Rightarrow> hub_markReversed now i r)"

text \<open>One statement: the rest of the program, and the database as the transaction sees it then.\<close>

fun hub_statement :: "int \<Rightarrow> hub_prog \<Rightarrow> hub_prog hub_tx" where
  "hub_statement now (HInsert i payer payee ref n st reason p q) =
     tx_bind (SettlementRepository_insert now i payer payee ref n st reason)
       (\<lambda>r. tx_return (case r of None \<Rightarrow> q | Some record \<Rightarrow> p record))"
| "hub_statement now (HAppend e p) = tx_bind (hub_ledger_insert now e) (\<lambda>_. tx_return p)"
| "hub_statement now (HMark reason i p) = tx_bind (hub_mark now reason i) (\<lambda>_. tx_return p)"
| "hub_statement now (HEmit i ty key j p) = tx_bind (hub_outbox_insert now i ty key j) (\<lambda>_. tx_return p)"
| "hub_statement now (HThrow e) = tx_throw e"
| "hub_statement now HDone = tx_throw (Failure [])"

text \<open>The program run with nothing in between.\<close>

primrec hub_run :: "int \<Rightarrow> hub_prog \<Rightarrow> unit hub_tx" where
  "hub_run now HDone = tx_return ()"
| "hub_run now (HThrow e) = tx_throw e"
| "hub_run now (HInsert i payer payee ref n st reason p q) =
     tx_bind (SettlementRepository_insert now i payer payee ref n st reason)
       (\<lambda>r. case r of None \<Rightarrow> hub_run now q | Some record \<Rightarrow> hub_run now (p record))"
| "hub_run now (HAppend e p) = tx_bind (hub_ledger_insert now e) (\<lambda>_. hub_run now p)"
| "hub_run now (HMark reason i p) = tx_bind (hub_mark now reason i) (\<lambda>_. hub_run now p)"
| "hub_run now (HEmit i ty key j p) = tx_bind (hub_outbox_insert now i ty key j) (\<lambda>_. hub_run now p)"

lemma hub_run_statement: "hub_statement now p s = Inr (p', t) \<Longrightarrow> hub_run now p s = hub_run now p' t"
  by (cases p) (auto simp: tx_bind_def split: sum.splits option.splits)

subsection \<open>The three transactions\<close>

definition hub_append_entries :: "hub_error + reserve_entry list \<Rightarrow> hub_prog \<Rightarrow> hub_prog" where
  "hub_append_entries r p = (case r of Inl e \<Rightarrow> HThrow (Domain e) | Inr es \<Rightarrow> foldr HAppend es p)"

definition reject_program :: "requested_event \<Rightarrow> hub_prog" where
  "reject_program event = HInsert (rq_settlementId event) (rq_payerBankId event) (rq_payeeBankId event)
     (rq_payeeAccountRef event) (rq_amountCents event) HREJECTED (Some UNKNOWN_PAYEE_BANK)
     (\<lambda>r. HEmit (sr_id r) ''settlement.outcome'' (hub_settlementOutcomeRoutingKey (rq_payerBankId event))
        (outcome_payload (sr_id r) (Some (JStr ''REJECTED'')) (Some (JStr UNKNOWN_PAYEE_BANK))) HDone)
     HDone"

definition accept_program :: "string \<Rightarrow> requested_event \<Rightarrow> hub_prog" where
  "accept_program occurredAt event =
     (case HubMoney_fromCents (rq_amountCents event) of
        Inl e \<Rightarrow> HThrow (Domain e)
      | Inr amount \<Rightarrow>
          (case Settlement_create (rq_settlementId event) (rq_payerBankId event) (rq_payeeBankId event)
                  (rq_payeeAccountRef event) amount of
             Inl e \<Rightarrow> HThrow (Domain e)
           | Inr settlement \<Rightarrow>
               HInsert (stl_id settlement) (stl_payerBankId settlement) (stl_payeeBankId settlement)
                 (stl_payeeAccountRef settlement) (js_of_int (cents (stl_amount settlement))) HPENDING None
                 (\<lambda>_. hub_append_entries (Settlement_entries settlement)
                    (HEmit (stl_id settlement) ''settlement.notify'' (hub_settlementNotifyRoutingKey (stl_payeeBankId settlement))
                       (notify_payload settlement occurredAt) HDone))
                 HDone))"

definition reply_program :: "(json \<Rightarrow> string) \<Rightarrow> settlement_record \<Rightarrow> reply_event \<Rightarrow> hub_prog" where
  "reply_program pg_text settlement event =
     (let tell = HEmit (sr_id settlement) ''settlement.outcome'' (hub_settlementOutcomeRoutingKey (sr_payerBankId settlement))
            (outcome_payload (sr_id settlement) (rp_outcome event) (rp_reason event)) HDone
      in if rp_outcome event = Some (JStr ''CONFIRMED'') then HMark None (sr_id settlement) tell
         else (case HubMoney_fromCents (sr_amountCents settlement) of
             Inl e \<Rightarrow> HThrow (Domain e)
           | Inr amount \<Rightarrow>
               (case Settlement_create (sr_id settlement) (sr_payerBankId settlement) (sr_payeeBankId settlement)
                       (sr_payeeAccountRef settlement) amount of
                  Inl e \<Rightarrow> HThrow (Domain e)
                | Inr domain \<Rightarrow> hub_append_entries (Settlement_reversalEntries domain)
                    (HMark (Some (reply_reason pg_text (rp_reason event))) (sr_id settlement) tell))))"

datatype hub_task =
    Rejecting requested_event
  | Accepting string requested_event
  | Replying "json \<Rightarrow> string" settlement_row reply_event

fun hub_code :: "hub_task \<Rightarrow> hub_prog" where
  "hub_code (Rejecting ev) = reject_program ev"
| "hub_code (Accepting occurredAt ev) = accept_program occurredAt ev"
| "hub_code (Replying pg_text r ev) = reply_program pg_text (toSettlementRecord r) ev"

lemma hub_run_append: "hub_run now (foldr HAppend es p) s = tx_bind (hub_ledger_append now es) (\<lambda>_. hub_run now p) s"
  by (induction es arbitrary: s) (auto simp: tx_bind_def split: sum.splits)

lemma hub_run_entries: "hub_run now (hub_append_entries r p) s =
    tx_bind (tx_check (lift_domain r)) (\<lambda>es. tx_bind (hub_ledger_append now es) (\<lambda>_. hub_run now p)) s"
  by (cases r) (simp_all add: hub_append_entries_def hub_run_append tx_bind_def)

text \<open>Each program, run alone, is the transaction of its service.\<close>

lemma hub_run_last: "hub_run now (HEmit i ty key j HDone) s = hub_outbox_insert now i ty key j s"
  by (simp add: tx_bind_def split: sum.splits)

lemma hub_run_reject: "hub_run now (hub_code (Rejecting ev)) s = reject_tx now ev s"
  by (auto simp: reject_program_def reject_tx_def tx_bind_def split: sum.splits option.splits)

lemma hub_run_accept: "hub_run now (hub_code (Accepting occurredAt ev)) s = accept_tx now occurredAt ev s"
  by (auto simp: accept_program_def accept_tx_def hub_run_entries tx_bind_def tx_check_def split: sum.splits option.splits)

lemma hub_run_reply: "hub_run now (hub_code (Replying pg_text r ev)) s = reply_tx pg_text now (toSettlementRecord r) ev s"
  by (auto simp: reply_program_def reply_tx_def resolve_tx_def hub_mark_def hub_run_entries tx_bind_def tx_check_def Let_def
      split: sum.splits option.splits)

lemmas hub_run_code = hub_run_reject hub_run_accept hub_run_reply

text \<open>What a handler has established when it begins its transaction: what it read may be old.\<close>

fun hub_begun :: "hub_task \<Rightarrow> hub_db \<Rightarrow> bool" where
  "hub_begun (Rejecting ev) s \<longleftrightarrow> True"
| "hub_begun (Accepting occurredAt ev) s \<longleftrightarrow> bank_exists (rq_payeeBankId ev) s"
| "hub_begun (Replying pg_text r ev) s \<longleftrightarrow> st_status r = HPENDING \<and>
     (\<exists>r'. find_settlement (st_id r) s = Some r' \<and> same_terms r r' \<and> st_status r' \<noteq> HREJECTED)"

lemma hub_run_is_step:
  assumes "hub_begun k s" "hub_run now (hub_code k) s = Inr (u, t)"
  shows "hub_step True s t"
  using assms
  by (cases k) (auto simp: hub_run_code simp del: hub_code.simps intro: hub_step.reject hub_step.accept hub_step.reply)

lemma hub_grows_bank: "hub_grows s t \<Longrightarrow> bank_exists b s \<Longrightarrow> bank_exists b t"
  by (auto simp: hub_grows_def bank_exists_def prefix_def)

lemma hub_begun_grows:
  assumes "hub_begun k s" "hub_grows s t"
  shows "hub_begun k t"
proof (cases k)
  case (Accepting occurredAt ev)
  with assms show ?thesis by (auto intro: hub_grows_bank)
next
  case (Replying pg_text r ev)
  with assms(1) obtain r' where r': "find_settlement (st_id r) s = Some r'" "same_terms r r'" "st_status r' \<noteq> HREJECTED"
    "st_status r = HPENDING" by auto
  from assms(2) r'(1) obtain r'' where "find_settlement (st_id r) t = Some r''" "same_terms r' r''"
    "st_status r'' = HREJECTED \<longleftrightarrow> st_status r' = HREJECTED" by (rule hub_grows_row)
  with r' Replying same_terms_trans [OF r'(2)] show ?thesis by auto
qed simp

subsection \<open>What a transaction has written\<close>

datatype hub_effect =
    HAddSettlement settlement_row
  | HAddReserve reserve_row
  | HSettle int "string option" string
  | HAddEvent int string string string json

fun hub_play1 :: "hub_effect \<Rightarrow> hub_db \<Rightarrow> hub_db" where
  "hub_play1 (HAddSettlement r) s = s\<lparr>settlements := settlements s @ [r]\<rparr>"
| "hub_play1 (HAddReserve r) s = add_reserves [r] s"
| "hub_play1 (HSettle now reason k) s = update_pending (case reason of None \<Rightarrow> HCONFIRMED | Some _ \<Rightarrow> HREVERSED) (now, reason) k s"
| "hub_play1 (HAddEvent now a ty key j) s = s\<lparr>hub_outbox := outbox_add now a ty key j (hub_outbox s)\<rparr>"

text \<open>The database as a transaction sees it: what is committed, and its own writes.\<close>

definition hub_play :: "hub_effect list \<Rightarrow> hub_db \<Rightarrow> hub_db" where
  "hub_play w s = fold hub_play1 w s"

lemma hub_play_simps [simp]: "hub_play [] s = s" "hub_play (e # w) s = hub_play w (hub_play1 e s)"
  "hub_play (v @ w) s = hub_play w (hub_play v s)"
  by (simp_all add: hub_play_def)

text \<open>A settlement that an UPDATE .. WHERE status = 'PENDING' passes over, and does not lock.\<close>

definition hub_closed :: "string \<Rightarrow> hub_db \<Rightarrow> bool" where
  "hub_closed k s \<longleftrightarrow> find_settlement k s \<noteq> None \<and> (\<forall>r \<in> set (settlements s). st_id r = k \<longrightarrow> st_status r \<noteq> HPENDING)"

fun hub_written :: "int \<Rightarrow> hub_prog \<Rightarrow> hub_db \<Rightarrow> hub_db \<Rightarrow> hub_effect list" where
  "hub_written now (HEmit i ty key j p) s t = [HAddEvent now (the (uuid_in i)) ty key j]"
| "hub_written now (HMark reason i p) s t = (if hub_closed (the (uuid_in i)) s then [] else [HSettle now reason (the (uuid_in i))])"
| "hub_written now _ s t =
     map HAddSettlement (drop (length (settlements s)) (settlements t)) @
     map HAddReserve (drop (length (hub_ledger s)) (hub_ledger t))"

text \<open>The settlements a write occupies until the end of its transaction.\<close>

fun hub_claims1 :: "hub_effect \<Rightarrow> string set" where
  "hub_claims1 (HAddSettlement r) = {st_id r}"
| "hub_claims1 (HSettle now reason k) = {k}"
| "hub_claims1 _ = {}"

definition hub_claims :: "hub_effect list \<Rightarrow> string set" where
  "hub_claims w = \<Union> (hub_claims1 ` set w)"

lemma hub_claims_append [simp]: "hub_claims (v @ w) = hub_claims v \<union> hub_claims w" "hub_claims [] = {}"
  by (simp_all add: hub_claims_def)

subsection \<open>The steps\<close>

record hub_session =
  hs_task :: hub_task
  hs_now :: int
  hs_rest :: hub_prog
  hs_log :: "hub_effect list"

definition fresh_hub_session :: "int \<Rightarrow> hub_task \<Rightarrow> hub_session" where
  "fresh_hub_session now k = \<lparr>hs_task = k, hs_now = now, hs_rest = hub_code k, hs_log = []\<rparr>"

definition hub_view :: "hub_db \<Rightarrow> hub_session \<Rightarrow> hub_db" where
  "hub_view s x = hub_play (hs_log x) s"

type_synonym hub_server = "hub_db \<times> (nat \<Rightarrow> hub_session option)"

text \<open>Banks are registered, and events relayed, in one statement or on rows no session touches.\<close>

inductive hub_server_step :: "hub_server \<Rightarrow> hub_server \<Rightarrow> bool" where
  start: "S a = None \<Longrightarrow> hub_begun k s \<Longrightarrow> hub_server_step (s, S) (s, S(a \<mapsto> fresh_hub_session now k))"
| advance: "S a = Some x \<Longrightarrow> hub_statement (hs_now x) (hs_rest x) (hub_view s x) = Inr (p, t) \<Longrightarrow>
    w = hub_written (hs_now x) (hs_rest x) (hub_view s x) t \<Longrightarrow>
    (\<forall>b y. b \<noteq> a \<longrightarrow> S b = Some y \<longrightarrow> hub_claims w \<inter> hub_claims (hs_log y) = {}) \<Longrightarrow>
    hub_server_step (s, S) (s, S(a \<mapsto> x\<lparr>hs_rest := p, hs_log := hs_log x @ w\<rparr>))"
| commit: "S a = Some x \<Longrightarrow> hs_rest x = HDone \<Longrightarrow> hub_server_step (s, S) (hub_view s x, S(a := None))"
| abort: "hub_server_step (s, S) (s, S(a := None))"
| register: "BankRepository_create now i name url s = Inr (b, t) \<Longrightarrow> hub_server_step (s, S) (t, S)"
| relay: "tick publish commit locked now (hub_outbox s) = (res, ob, sent) \<Longrightarrow> hub_server_step (s, S) (s\<lparr>hub_outbox := ob\<rparr>, S)"

subsection \<open>A statement is what it writes\<close>

lemma settlement_insert_Inr:
  assumes run: "SettlementRepository_insert now i payer payee ref n st reason s = Inr (r, t)"
  obtains (known) k where "r = None" "t = s" "find_settlement k s \<noteq> None"
      "\<And>s'. find_settlement k s' \<noteq> None \<Longrightarrow> SettlementRepository_insert now i payer payee ref n st reason s' = Inr (None, s')"
  | (fresh) row where "r = Some (toSettlementRecord row)" "t = s\<lparr>settlements := settlements s @ [row]\<rparr>"
      "find_settlement (st_id row) s = None" "bank_exists (st_payer_bank_id row) s"
      "\<And>s'. find_settlement (st_id row) s' = None \<Longrightarrow> bank_exists (st_payer_bank_id row) s' \<Longrightarrow>
         SettlementRepository_insert now i payer payee ref n st reason s' = Inr (r, s'\<lparr>settlements := settlements s' @ [row]\<rparr>)"
proof -
  obtain k m where k: "uuid_in i = Some k" "bind_bigint n = (Inr m :: hub_service_error + int)"
    using run by (auto simp: SettlementRepository_insert_def tx_bind_Inr_eq tx_check_Inr_eq bind_uuid_Inr)
  let ?row = "\<lparr>st_id = k, st_payer_bank_id = payer, st_payee_bank_id = payee, st_payee_account_ref = ref, st_amount = m,
    st_status = st, st_reject_reason = reason, st_created_at = now, st_updated_at = now\<rparr>"
  have eq: "SettlementRepository_insert now i payer payee ref n st reason s' = insert_settlement_row ?row s'" for s'
    using k by (simp add: SettlementRepository_insert_def bind_uuid_def tx_bind_def tx_check_def)
  have ins: "insert_settlement_row ?row s' =
      (if find_settlement k s' \<noteq> None then Inr (None, s')
       else if \<not> bank_exists payer s' then Inl (Db (ForeignKeyViolation ''settlements''))
       else Inr (Some (toSettlementRecord ?row), s'\<lparr>settlements := settlements s' @ [?row]\<rparr>))" for s'
    using run unfolding eq by (auto simp: insert_settlement_row_def tx_bind_def db_guard_def split: if_splits)
  show thesis
  proof (cases "find_settlement k s = None")
    case True
    with run have "bank_exists payer s" "r = Some (toSettlementRecord ?row)" "t = s\<lparr>settlements := settlements s @ [?row]\<rparr>"
      unfolding eq ins by (auto split: if_splits)
    with True show thesis by (intro fresh [of ?row]) (simp_all add: eq ins)
  next
    case False
    with run show thesis unfolding eq ins by (intro known [of k]) (simp_all add: eq ins)
  qed
qed

lemma hub_ledger_insert_Inr:
  "hub_ledger_insert now e s = Inr (u, t) \<Longrightarrow>
   \<exists>row. t = add_reserves [row] s \<and> bank_exists (rs_bank_id row) s \<and>
      (\<forall>s'. bank_exists (rs_bank_id row) s' \<longrightarrow> hub_ledger_insert now e s' = Inr ((), add_reserves [row] s'))"
proof -
  assume run: "hub_ledger_insert now e s = Inr (u, t)"
  then obtain k n where row: "uuid_in (re_settlementId e) = Some k"
      "bind_bigint (js_of_int (cents (re_amount e))) = (Inr n :: hub_service_error + int)" "n \<noteq> 0"
    by (auto simp: hub_ledger_insert_def tx_bind_Inr_eq tx_check_Inr_eq bind_uuid_Inr db_guard_Inr)
  let ?row = "\<lparr>rs_settlement_id = k, rs_bank_id = re_bankId e, rs_amount = n, rs_created_at = now\<rparr>"
  have "hub_ledger_insert now e s' =
      (if \<not> bank_exists (re_bankId e) s' then Inl (Db (ForeignKeyViolation ''hub_ledger_entries''))
       else Inr ((), add_reserves [?row] s'))" for s'
    using row by (simp add: hub_ledger_insert_def tx_bind_def tx_check_def db_guard_def bind_uuid_def add_reserves_def)
  with run show ?thesis by (intro exI [of _ ?row]) (auto split: if_splits)
qed

lemma hub_mark_Inr:
  "hub_mark now reason i s = Inr (u, t) \<longleftrightarrow> (\<exists>k. uuid_in i = Some k \<and> t = hub_play1 (HSettle now reason k) s)"
  by (auto simp: hub_mark_def hub_markConfirmed_def hub_markReversed_def tx_simps bind_uuid_Inr split: option.splits)

lemma closed_unchanged:
  assumes "hub_closed k s"
  shows "hub_play1 (HSettle now reason k) s = s"
proof -
  have "settlements (hub_play1 (HSettle now reason k) s) = settlements s"
    using assms by (auto simp: hub_closed_def update_pending_def intro!: map_idI)
  then show ?thesis by (simp add: update_pending_def)
qed

lemma hub_written_play:
  assumes st: "hub_statement now p s = Inr (p', t)"
  shows "t = hub_play (hub_written now p s t) s"
proof (cases p)
  case (HInsert i payer payee ref n state reason f q)
  with st obtain r where "SettlementRepository_insert now i payer payee ref n state reason s = Inr (r, t)" by (auto simp: tx_simps)
  then show ?thesis by (cases rule: settlement_insert_Inr) (simp_all add: HInsert)
next
  case (HAppend e q)
  with st have "hub_ledger_insert now e s = Inr ((), t)" by (auto simp: tx_simps)
  from hub_ledger_insert_Inr [OF this] show ?thesis by (auto simp: HAppend)
next
  case (HMark reason i q)
  with st have "hub_mark now reason i s = Inr ((), t)" by (auto simp: tx_simps)
  with HMark closed_unchanged show ?thesis by (auto simp: hub_mark_Inr)
qed (use st in \<open>auto simp: tx_simps hub_outbox_insert_def bind_uuid_Inr\<close>)

text \<open>The two statements that look at settlements, and may have to wait.\<close>

fun occupies :: "hub_prog \<Rightarrow> bool" where
  "occupies (HInsert i payer payee ref n st reason p q) \<longleftrightarrow> True"
| "occupies (HMark reason i p) \<longleftrightarrow> True"
| "occupies _ \<longleftrightarrow> False"

text \<open>A statement does the same on another database, if what it found there is still so.\<close>

lemma hub_statement_stable:
  assumes st: "hub_statement now p s = Inr (p', t)" and w: "w = hub_written now p s t"
    and banks: "\<And>b. bank_exists b s \<Longrightarrow> bank_exists b s'"
    and known: "\<And>k. occupies p \<Longrightarrow> find_settlement k s \<noteq> None \<Longrightarrow> find_settlement k s' \<noteq> None"
    and new: "\<And>r. HAddSettlement r \<in> set w \<Longrightarrow> find_settlement (st_id r) s' = None"
    and closed: "\<And>k. occupies p \<Longrightarrow> hub_closed k s \<Longrightarrow> hub_closed k s'"
  shows "hub_statement now p s' = Inr (p', hub_play w s')"
proof (cases p)
  case (HInsert i payer payee ref n state reason f q)
  with st obtain r where r: "SettlementRepository_insert now i payer payee ref n state reason s = Inr (r, t)"
    and p': "p' = (case r of None \<Rightarrow> q | Some record \<Rightarrow> f record)" by (auto simp: tx_simps)
  from r show ?thesis
  proof (cases rule: settlement_insert_Inr)
    case (known k)
    have "find_settlement k s' \<noteq> None" by (rule assms(4)) (simp_all add: HInsert known)
    from known(4) [OF this] known show ?thesis by (simp add: HInsert p' w)
  next
    case (fresh row)
    have "find_settlement (st_id row) s' = None" by (rule new) (simp add: w HInsert fresh)
    from fresh(5) [OF this banks [OF fresh(4)]] fresh show ?thesis by (simp add: HInsert p' w)
  qed
next
  case (HAppend e q)
  with st have "hub_ledger_insert now e s = Inr ((), t)" "p' = q" by (auto simp: tx_simps)
  with hub_ledger_insert_Inr [OF this(1)] banks show ?thesis by (auto simp: HAppend w tx_simps)
next
  case (HMark reason i q)
  with st have "hub_mark now reason i s = Inr ((), t)" "p' = q" by (auto simp: tx_simps)
  then obtain k where k: "uuid_in i = Some k" by (auto simp: hub_mark_Inr)
  have "hub_play w s' = hub_play1 (HSettle now reason k) s'"
  proof (cases "hub_closed k s")
    case True
    with closed have "hub_closed k s'" by (simp add: HMark)
    from closed_unchanged [OF this] True show ?thesis by (simp add: w HMark k)
  qed (simp add: w HMark k)
  moreover have "hub_mark now reason i s' = Inr ((), hub_play1 (HSettle now reason k) s')" by (simp add: hub_mark_Inr k)
  ultimately show ?thesis by (simp add: HMark \<open>p' = q\<close> tx_simps)
qed (use st w in \<open>auto simp: tx_simps hub_outbox_insert_def bind_uuid_Inr\<close>)

lemma hub_statement_new:
  assumes st: "hub_statement now p s = Inr (p', t)" and r: "HAddSettlement r \<in> set (hub_written now p s t)"
  shows "find_settlement (st_id r) s = None"
proof (cases p)
  case (HInsert i payer payee ref n state reason f q)
  with st obtain x where "SettlementRepository_insert now i payer payee ref n state reason s = Inr (x, t)" by (auto simp: tx_simps)
  then show ?thesis by (cases rule: settlement_insert_Inr) (use r HInsert in auto)
next
  case (HAppend e q)
  with st have "hub_ledger_insert now e s = Inr ((), t)" by (auto simp: tx_simps)
  from hub_ledger_insert_Inr [OF this] r show ?thesis by (auto simp: HAppend)
qed (use st r in \<open>auto simp: tx_simps split: if_splits\<close>)

subsection \<open>Programs that wait once\<close>

text \<open>After the statement that may have to wait none other does.\<close>

primrec waitless :: "hub_prog \<Rightarrow> bool" where
  "waitless HDone \<longleftrightarrow> True"
| "waitless (HThrow e) \<longleftrightarrow> True"
| "waitless (HInsert i payer payee ref n st reason p q) \<longleftrightarrow> False"
| "waitless (HAppend e p) \<longleftrightarrow> waitless p"
| "waitless (HMark reason i p) \<longleftrightarrow> False"
| "waitless (HEmit i ty key j p) \<longleftrightarrow> waitless p"

primrec waits_once :: "hub_prog \<Rightarrow> bool" where
  "waits_once HDone \<longleftrightarrow> True"
| "waits_once (HThrow e) \<longleftrightarrow> True"
| "waits_once (HInsert i payer payee ref n st reason p q) \<longleftrightarrow> (\<forall>r. waitless (p r)) \<and> waitless q"
| "waits_once (HAppend e p) \<longleftrightarrow> waits_once p"
| "waits_once (HMark reason i p) \<longleftrightarrow> waitless p"
| "waits_once (HEmit i ty key j p) \<longleftrightarrow> waits_once p"

lemma entries_wait:
  "waitless p \<Longrightarrow> waitless (hub_append_entries r p)" "waits_once p \<Longrightarrow> waits_once (hub_append_entries r p)"
proof -
  have "waitless p \<Longrightarrow> waitless (foldr HAppend es p)" "waits_once p \<Longrightarrow> waits_once (foldr HAppend es p)" for es
    by (induction es) auto
  then show "waitless p \<Longrightarrow> waitless (hub_append_entries r p)" "waits_once p \<Longrightarrow> waits_once (hub_append_entries r p)"
    by (auto simp: hub_append_entries_def split: sum.splits)
qed

lemma code_waits_once: "waits_once (hub_code k)"
  by (cases k) (auto simp: reject_program_def accept_program_def reply_program_def Let_def entries_wait split: sum.splits)

lemma waitless_once: "waitless p \<Longrightarrow> waits_once p \<and> \<not> occupies p"
  by (induction p) auto

text \<open>Where a session is: nothing occupied yet, or nothing left to wait for.\<close>

definition hub_tidy :: "hub_session \<Rightarrow> bool" where
  "hub_tidy x \<longleftrightarrow> waits_once (hs_rest x) \<and> (hub_claims (hs_log x) \<noteq> {} \<longrightarrow> waitless (hs_rest x))"

lemma hub_statement_tidy:
  assumes st: "hub_statement now p s = Inr (p', t)" and once: "waits_once p"
  shows "waits_once p' \<and> (occupies p \<longrightarrow> waitless p') \<and> (waitless p \<longrightarrow> waitless p') \<and>
    (hub_claims (hub_written now p s t) \<noteq> {} \<longrightarrow> occupies p)"
proof (cases p)
  case (HInsert i payer payee ref n state reason f q)
  with st once have "waitless p'" by (auto simp: tx_simps split: option.splits)
  with HInsert waitless_once show ?thesis by auto
next
  case (HAppend e q)
  with st have "hub_ledger_insert now e s = Inr ((), t)" "p' = q" by (auto simp: tx_simps)
  with hub_ledger_insert_Inr [OF this(1)] once show ?thesis by (auto simp: HAppend hub_claims_def)
next
  case (HMark reason i q)
  with st once have "waitless p'" by (auto simp: tx_simps)
  with HMark waitless_once show ?thesis by auto
qed (use st once in \<open>auto simp: tx_simps hub_claims_def\<close>)

lemma tidy_advance:
  assumes "hub_tidy x" "hub_statement now (hs_rest x) v = Inr (p, t)" "w = hub_written now (hs_rest x) v t"
  shows "hub_tidy (x\<lparr>hs_rest := p, hs_log := hs_log x @ w\<rparr>)"
  using assms hub_statement_tidy [OF assms(2)] by (auto simp: hub_tidy_def)

subsection \<open>What a transaction sees\<close>

lemma view_banks [simp]: "hub_banks (hub_play w s) = hub_banks s" "bank_exists b (hub_play w s) = bank_exists b s"
proof -
  have "hub_banks (hub_play1 e s) = hub_banks s" for e s by (cases e) simp_all
  then show "hub_banks (hub_play w s) = hub_banks s" by (induction w arbitrary: s) simp_all
  then show "bank_exists b (hub_play w s) = bank_exists b s" by (simp add: bank_exists_def)
qed

lemma view_settlements: "hub_claims w = {} \<Longrightarrow> settlements (hub_play w s) = settlements s"
proof (induction w arbitrary: s)
  case (Cons e w)
  then have "hub_claims w = {}" "hub_claims1 e = {}" by (auto simp: hub_claims_def)
  with Cons show ?case by (cases e) simp_all
qed simp

lemma view_ids: "st_id ` set (settlements (hub_play w s)) = st_id ` set (settlements s) \<union> {st_id r | r. HAddSettlement r \<in> set w}"
proof (induction w arbitrary: s)
  case (Cons e w)
  have upd: "st_id ` set (settlements (update_pending st x k s)) = st_id ` set (settlements s)" for st x k s
  proof -
    have "map st_id (settlements (update_pending st x k s)) = map st_id (settlements s)" by (simp add: update_pending_def)
    from arg_cong [OF this, of set] show ?thesis by simp
  qed
  have "st_id ` set (settlements (hub_play1 e s)) = st_id ` set (settlements s) \<union> {st_id r | r. e = HAddSettlement r}"
    by (cases e) (auto simp: upd)
  with Cons show ?case by auto
qed simp

subsection \<open>The invariant of the server\<close>

text \<open>What others may do to the committed database meanwhile.\<close>

definition hub_keeps :: "hub_session \<Rightarrow> hub_db \<Rightarrow> hub_db \<Rightarrow> bool" where
  "hub_keeps x s t \<longleftrightarrow> hub_inv t \<and> hub_grows s t \<and> (\<forall>r. HAddSettlement r \<in> set (hs_log x) \<longrightarrow> find_settlement (st_id r) t = None)"

text \<open>
  A session is where its program, run alone on what is committed, would be by now; and that
  stays so whatever others commit.
\<close>

definition hub_session_ok :: "hub_db \<Rightarrow> hub_session \<Rightarrow> bool" where
  "hub_session_ok s x \<longleftrightarrow> hub_begun (hs_task x) s \<and> hub_tidy x \<and>
     (\<forall>r. HAddSettlement r \<in> set (hs_log x) \<longrightarrow> find_settlement (st_id r) s = None) \<and>
     (\<forall>t. hub_keeps x s t \<longrightarrow> hub_run (hs_now x) (hub_code (hs_task x)) t = hub_run (hs_now x) (hs_rest x) (hub_view t x))"

definition hub_server_ok :: "hub_db \<Rightarrow> (nat \<Rightarrow> hub_session option) \<Rightarrow> bool" where
  "hub_server_ok s S \<longleftrightarrow> hub_inv s \<and> (\<forall>a x. S a = Some x \<longrightarrow> hub_session_ok s x) \<and>
     (\<forall>a b x y. a \<noteq> b \<longrightarrow> S a = Some x \<longrightarrow> S b = Some y \<longrightarrow> hub_claims (hs_log x) \<inter> hub_claims (hs_log y) = {})"

lemma hub_keeps_trans: "hub_keeps x s t \<Longrightarrow> hub_keeps x t u \<Longrightarrow> hub_keeps x s u"
  by (auto simp: hub_keeps_def intro: hub_grows_trans)

lemma hub_session_keeps: "hub_session_ok s x \<Longrightarrow> hub_keeps x s t \<Longrightarrow> hub_session_ok t x"
  unfolding hub_session_ok_def using hub_keeps_trans [of x s t] hub_begun_grows [of "hs_task x" s t] by (auto simp: hub_keeps_def)

lemma hub_fresh_ok: "hub_begun k s \<Longrightarrow> hub_session_ok s (fresh_hub_session now k)"
  by (simp add: hub_session_ok_def fresh_hub_session_def hub_tidy_def code_waits_once hub_view_def)

lemma closed_grows:
  assumes "hub_closed k s" "hub_grows s t" "hub_inv s" "hub_inv t"
  shows "hub_closed k t"
proof -
  obtain r where r: "find_settlement k s = Some r" using assms(1) by (auto simp: hub_closed_def)
  then have "r \<in> set (settlements s)" "st_id r = k" using find_Some_in by (fastforce simp: find_settlement_def)+
  with assms(1) have "st_status r \<noteq> HPENDING" by (auto simp: hub_closed_def)
  then obtain r' where r': "find_settlement k t = Some r'" "st_status r' = st_status r"
    using hub_grows_row [OF assms(2) r] by metis
  have "x = r'" if "x \<in> set (settlements t)" "st_id x = k" for x
  proof -
    have "r' \<in> set (settlements t)" "st_id r' = k" using r'(1) find_Some_in by (fastforce simp: find_settlement_def)+
    with that assms(4) show ?thesis by (auto simp: hub_inv_def inj_on_def dest!: distinct_map [THEN iffD1])
  qed
  with r' \<open>st_status r \<noteq> HPENDING\<close> show ?thesis by (auto simp: hub_closed_def)
qed

text \<open>The next statement.\<close>

lemma hub_advance_ok:
  assumes x: "hub_session_ok s x" and inv: "hub_inv s"
    and st: "hub_statement (hs_now x) (hs_rest x) (hub_view s x) = Inr (p, u)"
    and w: "w = hub_written (hs_now x) (hs_rest x) (hub_view s x) u"
    and y: "y = x\<lparr>hs_rest := p, hs_log := hs_log x @ w\<rparr>"
  shows "hub_session_ok s y"
proof -
  have tidy: "hub_tidy x" using x by (simp add: hub_session_ok_def)
  have untouched: "settlements (hub_view t x) = settlements t" if "occupies (hs_rest x)" for t
    using tidy waitless_once that unfolding hub_tidy_def hub_view_def by (metis view_settlements)
  have new: "find_settlement (st_id r) s = None" if "HAddSettlement r \<in> set w" for r
  proof -
    have "find_settlement (st_id r) (hub_view s x) = None" using hub_statement_new [OF st] that by (simp add: w)
    then have "st_id r \<notin> st_id ` set (settlements (hub_view s x))" by (simp add: find_settlement_None)
    then show ?thesis unfolding hub_view_def view_ids find_settlement_None by blast
  qed
  have "hub_run (hs_now y) (hub_code (hs_task y)) t = hub_run (hs_now y) (hs_rest y) (hub_view t y)" if "hub_keeps y s t" for t
  proof -
    have keeps: "hub_keeps x s t" using that by (auto simp: hub_keeps_def y)
    have "hub_statement (hs_now x) (hs_rest x) (hub_view t x) = Inr (p, hub_play w (hub_view t x))"
    proof (rule hub_statement_stable [OF st w])
      show "bank_exists b (hub_view s x) \<Longrightarrow> bank_exists b (hub_view t x)" for b
        using keeps by (auto simp: hub_view_def hub_keeps_def intro: hub_grows_bank)
      show "find_settlement k (hub_view t x) \<noteq> None" if "occupies (hs_rest x)" "find_settlement k (hub_view s x) \<noteq> None" for k
        using that keeps untouched [OF that(1)] find_settlement_cong [of "hub_view s x" s] find_settlement_cong [of "hub_view t x" t]
        by (auto simp: hub_keeps_def elim: hub_grows_row)
      show "hub_closed k (hub_view t x)" if "occupies (hs_rest x)" "hub_closed k (hub_view s x)" for k
        using that keeps untouched [OF that(1)] find_settlement_cong [of "hub_view s x" s] find_settlement_cong [of "hub_view t x" t]
          closed_grows [of k s t] inv by (auto simp: hub_keeps_def hub_closed_def)
      show "find_settlement (st_id r) (hub_view t x) = None" if r: "HAddSettlement r \<in> set w" for r
      proof -
        have "hub_claims w \<noteq> {}" using r by (force simp: hub_claims_def)
        then have "occupies (hs_rest x)" using hub_statement_tidy [OF st] tidy w by (auto simp: hub_tidy_def)
        from untouched [OF this, of t] find_settlement_cong [of "hub_view t x" t]
        have "find_settlement (st_id r) (hub_view t x) = find_settlement (st_id r) t" by blast
        moreover have "find_settlement (st_id r) t = None" using \<open>hub_keeps y s t\<close> r by (auto simp: hub_keeps_def y)
        ultimately show ?thesis by simp
      qed
    qed
    from hub_run_statement [OF this] x keeps show ?thesis by (simp add: hub_session_ok_def y hub_view_def)
  qed
  with x new tidy_advance [OF tidy st w] show ?thesis by (auto simp: hub_session_ok_def y)
qed

lemma hub_server_ok_update:
  assumes ok: "hub_server_ok s S" and x: "hub_session_ok s x"
    and apart: "\<And>b y. b \<noteq> a \<Longrightarrow> S b = Some y \<Longrightarrow> hub_claims (hs_log x) \<inter> hub_claims (hs_log y) = {}"
  shows "hub_server_ok s (S(a \<mapsto> x))"
proof -
  have "hub_claims (hs_log y) \<inter> hub_claims (hs_log z) = {}"
    if "b \<noteq> c" "(S(a \<mapsto> x)) b = Some y" "(S(a \<mapsto> x)) c = Some z" for b c y z
    using that apart [of b y] apart [of c z] ok unfolding hub_server_ok_def
    by (cases "b = a"; cases "c = a") (simp_all, blast+)
  with ok x show ?thesis unfolding hub_server_ok_def by (auto split: if_splits)
qed

lemma hub_server_ok_remove: "hub_server_ok s S \<Longrightarrow> hub_server_ok s (S(a := None))"
  unfolding hub_server_ok_def by (auto split: if_splits)

lemma hub_step_good: "hub_step True s t \<Longrightarrow> hub_inv s \<Longrightarrow> hub_inv t \<and> hub_grows s t"
  using hub_step_change hub_change_inv hub_change_grows by blast

lemma claims_added: "{st_id r | r. HAddSettlement r \<in> set w} \<subseteq> hub_claims w"
  by (force simp: hub_claims_def)

text \<open>The commit.\<close>

lemma hub_commit_ok:
  assumes ok: "hub_server_ok s S" and x: "S a = Some x" "hs_rest x = HDone"
  shows "hub_step True s (hub_view s x) \<and> hub_server_ok (hub_view s x) (S(a := None))"
proof -
  have inv: "hub_inv s" and sx: "hub_session_ok s x" using ok x by (auto simp: hub_server_ok_def)
  have "hub_keeps x s s" using inv sx by (auto simp: hub_keeps_def hub_session_ok_def)
  then have "hub_run (hs_now x) (hub_code (hs_task x)) s = Inr ((), hub_view s x)" using sx x(2) by (simp add: hub_session_ok_def)
  with sx have step: "hub_step True s (hub_view s x)" by (auto simp: hub_session_ok_def intro: hub_run_is_step)
  note good = hub_step_good [OF step inv]
  have "hub_session_ok (hub_view s x) y" if b: "b \<noteq> a" "S b = Some y" for b y
  proof -
    have y: "hub_session_ok s y" using ok b by (simp add: hub_server_ok_def)
    have apart: "hub_claims (hs_log x) \<inter> hub_claims (hs_log y) = {}" using ok x(1) b unfolding hub_server_ok_def by metis
    have "find_settlement (st_id r) (hub_view s x) = None" if r: "HAddSettlement r \<in> set (hs_log y)" for r
    proof -
      have "st_id r \<notin> {st_id r' | r'. HAddSettlement r' \<in> set (hs_log x)}" using claims_added r apart by blast
      moreover have "st_id r \<notin> st_id ` set (settlements s)"
        using y r unfolding hub_session_ok_def find_settlement_None by blast
      ultimately show ?thesis unfolding find_settlement_None hub_view_def view_ids by simp
    qed
    with good have "hub_keeps y s (hub_view s x)" by (auto simp: hub_keeps_def)
    from hub_session_keeps [OF y this] show ?thesis .
  qed
  then have "hub_server_ok (hub_view s x) (S(a := None))"
    using ok good unfolding hub_server_ok_def by (auto split: if_splits)
  with step show ?thesis by blast
qed

lemma hub_quiet_ok:
  assumes ok: "hub_server_ok s S" and step: "hub_step True s t" and same: "settlements t = settlements s"
  shows "hub_server_ok t S"
proof -
  have inv: "hub_inv s" using ok by (simp add: hub_server_ok_def)
  note good = hub_step_good [OF step inv]
  have "hub_session_ok t x" if x: "S a = Some x" for a x
  proof -
    have sx: "hub_session_ok s x" using ok x by (auto simp: hub_server_ok_def)
    have "hub_keeps x s t" using good sx find_settlement_cong [OF same] by (auto simp: hub_keeps_def hub_session_ok_def)
    from hub_session_keeps [OF sx this] show ?thesis .
  qed
  with ok good show ?thesis unfolding hub_server_ok_def by blast
qed

lemma hub_server_step_ok:
  assumes "hub_server_step (s, S) (t, T)" "hub_server_ok s S"
  shows "(t = s \<or> hub_step True s t) \<and> hub_server_ok t T"
  using assms(1)
proof cases
  case (start a k now)
  have "hub_claims (hs_log (fresh_hub_session now k)) = {}" by (simp add: fresh_hub_session_def)
  with start hub_server_ok_update [OF assms(2) hub_fresh_ok] show ?thesis by simp
next
  case (advance a x p u w)
  let ?y = "x\<lparr>hs_rest := p, hs_log := hs_log x @ w\<rparr>"
  have x: "hub_session_ok s x" "hub_inv s" using assms(2) advance(3) by (auto simp: hub_server_ok_def)
  have "hub_server_ok s (S(a \<mapsto> ?y))"
  proof (rule hub_server_ok_update [OF assms(2) hub_advance_ok [OF x advance(4,5) refl]])
    fix b z assume b: "b \<noteq> a" "S b = Some z"
    then have "hub_claims (hs_log x) \<inter> hub_claims (hs_log z) = {}" using assms(2) advance(3) unfolding hub_server_ok_def by metis
    moreover have "hub_claims w \<inter> hub_claims (hs_log z) = {}" using advance(6) b by blast
    ultimately show "hub_claims (hs_log ?y) \<inter> hub_claims (hs_log z) = {}" by auto
  qed
  with advance(1,2) show ?thesis by simp
next
  case (commit a x)
  with hub_commit_ok [OF assms(2)] show ?thesis by blast
next
  case (abort a)
  with hub_server_ok_remove [OF assms(2)] show ?thesis by simp
next
  case (register now i name url b)
  then have "hub_step True s t" by (auto intro: hub_step.register)
  moreover have "settlements t = settlements s"
    using register by (auto simp: BankRepository_create_def tx_simps Let_def split: if_splits)
  ultimately show ?thesis using hub_quiet_ok [OF assms(2)] register by simp
next
  case (relay publish commit locked now res ob sent)
  then have "hub_step True s t" by (auto intro: hub_step.relay)
  then show ?thesis using hub_quiet_ok [OF assms(2)] relay by simp
qed

lemma hub_server_steps_ok:
  "hub_server_step\<^sup>*\<^sup>* (s, S) (t, T) \<Longrightarrow> hub_server_ok s S \<Longrightarrow> (hub_step True)\<^sup>*\<^sup>* s t \<and> hub_server_ok t T"
proof (induction "(t, T)" arbitrary: t T rule: rtranclp_induct)
  case (step u)
  obtain v V where u: "u = (v, V)" by fastforce
  with step have "(hub_step True)\<^sup>*\<^sup>* s v" "hub_server_ok v V" by auto
  with hub_server_step_ok [of v V t T] step(2) u show ?case by (auto intro: rtranclp.rtrancl_into_rtrancl)
qed simp

definition no_hub_sessions :: "nat \<Rightarrow> hub_session option" where
  "no_hub_sessions = (\<lambda>_. None)"

lemma hub_migrated_ok: "hub_server_ok migrated_hub no_hub_sessions"
  by (simp add: hub_server_ok_def hub_inv_migrated no_hub_sessions_def)

subsection \<open>Every transaction can run\<close>

text \<open>A transaction that is alone gets through, if its program does.\<close>

lemma hub_alone_statement:
  assumes "hub_statement (hs_now x) (hs_rest x) (hub_view s x) = Inr (q, u)"
  shows "\<exists>y. hub_server_step (s, no_hub_sessions(a \<mapsto> x)) (s, no_hub_sessions(a \<mapsto> y)) \<and> hs_rest y = q \<and>
    hs_now y = hs_now x \<and> hub_view s y = u"
proof -
  let ?y = "x\<lparr>hs_rest := q, hs_log := hs_log x @ hub_written (hs_now x) (hs_rest x) (hub_view s x) u\<rparr>"
  have "hub_server_step (s, no_hub_sessions(a \<mapsto> x)) (s, (no_hub_sessions(a \<mapsto> x))(a \<mapsto> ?y))"
    by (rule hub_server_step.advance [OF _ assms refl]) (simp_all add: no_hub_sessions_def)
  moreover have "hub_view s ?y = u" using hub_written_play [OF assms] by (simp add: hub_view_def)
  ultimately show ?thesis by (intro exI [of _ ?y]) simp
qed

definition gets_through :: "hub_db \<Rightarrow> hub_db \<Rightarrow> nat \<Rightarrow> hub_session \<Rightarrow> bool" where
  "gets_through s t a x \<longleftrightarrow> (\<exists>y. hub_server_step\<^sup>*\<^sup>* (s, no_hub_sessions(a \<mapsto> x)) (s, no_hub_sessions(a \<mapsto> y)) \<and>
     hs_rest y = HDone \<and> hub_view s y = t)"

lemma gets_through_next:
  assumes st: "hub_statement (hs_now x) (hs_rest x) (hub_view s x) = Inr (q, u)"
    and rest: "\<And>y. hs_rest y = q \<Longrightarrow> hs_now y = hs_now x \<Longrightarrow> hub_view s y = u \<Longrightarrow> gets_through s t a y"
  shows "gets_through s t a x"
proof -
  obtain y where y: "hub_server_step (s, no_hub_sessions(a \<mapsto> x)) (s, no_hub_sessions(a \<mapsto> y))"
    "hs_rest y = q" "hs_now y = hs_now x" "hub_view s y = u"
    using hub_alone_statement [OF st, of a] by blast
  from rest [OF y(2-4)] show ?thesis
    unfolding gets_through_def using converse_rtranclp_into_rtranclp [of hub_server_step, OF y(1)] by blast
qed

lemma hub_alone_gets_through:
  "hub_run (hs_now x) p (hub_view s x) = Inr ((), t) \<Longrightarrow> hs_rest x = p \<Longrightarrow> gets_through s t a x"
proof (induction p arbitrary: x)
  case HDone
  then show ?case by (auto simp: gets_through_def)
next
  case (HThrow e)
  then show ?case by simp
next
  case (HInsert i payer payee ref n st reason f q)
  then obtain r u where r: "SettlementRepository_insert (hs_now x) i payer payee ref n st reason (hub_view s x) = Inr (r, u)"
    and rest: "(case r of None \<Rightarrow> hub_run (hs_now x) q | Some record \<Rightarrow> hub_run (hs_now x) (f record)) u = Inr ((), t)"
    by (auto simp: tx_bind_Inr_eq)
  show ?case
  proof (rule gets_through_next)
    show "hub_statement (hs_now x) (hs_rest x) (hub_view s x) = Inr (case r of None \<Rightarrow> q | Some record \<Rightarrow> f record, u)"
      using r HInsert.prems(2) by simp
  next
    fix y
    assume y: "hs_rest y = (case r of None \<Rightarrow> q | Some record \<Rightarrow> f record)" "hs_now y = hs_now x" "hub_view s y = u"
    show "gets_through s t a y"
    proof (cases r)
      case None
      with y rest show ?thesis by (intro HInsert.IH(2)) simp_all
    next
      case (Some rec)
      with y rest show ?thesis by (intro HInsert.IH(1) [of "f rec"]) simp_all
    qed
  qed
next
  case (HAppend e p)
  then obtain u where "hub_ledger_insert (hs_now x) e (hub_view s x) = Inr ((), u)" "hub_run (hs_now x) p u = Inr ((), t)"
    by (auto simp: tx_bind_Inr_eq)
  with HAppend show ?case by (intro gets_through_next [of x s p u]) auto
next
  case (HMark reason i p)
  then obtain u where "hub_mark (hs_now x) reason i (hub_view s x) = Inr ((), u)" "hub_run (hs_now x) p u = Inr ((), t)"
    by (auto simp: tx_bind_Inr_eq)
  with HMark show ?case by (intro gets_through_next [of x s p u]) auto
next
  case (HEmit i ty key j p)
  then obtain u where "hub_outbox_insert (hs_now x) i ty key j (hub_view s x) = Inr ((), u)" "hub_run (hs_now x) p u = Inr ((), t)"
    by (auto simp: tx_bind_Inr_eq)
  with HEmit show ?case by (intro gets_through_next [of x s p u]) auto
qed

lemma hub_alone_runs:
  assumes "hub_begun k s" "hub_run now (hub_code k) s = Inr ((), t)"
  shows "hub_server_step\<^sup>*\<^sup>* (s, no_hub_sessions) (t, no_hub_sessions)"
proof -
  let ?x = "fresh_hub_session now k"
  have first: "hub_server_step (s, no_hub_sessions) (s, no_hub_sessions(0 \<mapsto> ?x))"
    by (rule hub_server_step.start) (simp_all add: assms no_hub_sessions_def)
  have "gets_through s t 0 ?x"
    by (rule hub_alone_gets_through [of _ "hub_code k"]) (simp_all add: assms fresh_hub_session_def hub_view_def)
  then obtain y where y: "hub_server_step\<^sup>*\<^sup>* (s, no_hub_sessions(0 \<mapsto> ?x)) (s, no_hub_sessions(0 \<mapsto> y))"
    "hs_rest y = HDone" "hub_view s y = t" by (auto simp: gets_through_def)
  have "hub_server_step (s, no_hub_sessions(0 \<mapsto> y)) (hub_view s y, (no_hub_sessions(0 \<mapsto> y))(0 := None))"
    by (rule hub_server_step.commit) (simp_all add: y)
  then have "hub_server_step (s, no_hub_sessions(0 \<mapsto> y)) (t, no_hub_sessions)"
    by (simp add: y no_hub_sessions_def fun_upd_idem)
  with first y(1) show ?thesis by (meson converse_rtranclp_into_rtranclp rtranclp.rtrancl_into_rtrancl)
qed

lemma hub_step_is_run:
  assumes "hub_step True s t"
  shows "hub_server_step\<^sup>*\<^sup>* (s, no_hub_sessions) (t, no_hub_sessions)"
  using assms
proof cases
  case (register now i name url b)
  then show ?thesis by (blast intro: hub_server_step.register)
next
  case (reject now ev u)
  then show ?thesis using hub_alone_runs [of "Rejecting ev" s now t] by (simp add: hub_run_code del: hub_code.simps)
next
  case (accept ev now occurredAt u)
  then show ?thesis using hub_alone_runs [of "Accepting occurredAt ev" s now t] by (simp add: hub_run_code del: hub_code.simps)
next
  case (reply r r' pg_text now ev u)
  then show ?thesis using hub_alone_runs [of "Replying pg_text r ev" s now t] by (simp add: hub_run_code del: hub_code.simps)
next
  case (relay publish commit locked now res ob sent)
  then show ?thesis by (blast intro: hub_server_step.relay)
qed

lemma hub_steps_are_runs: "(hub_step True)\<^sup>*\<^sup>* s t \<Longrightarrow> hub_server_step\<^sup>*\<^sup>* (s, no_hub_sessions) (t, no_hub_sessions)"
  by (induction rule: rtranclp_induct) (auto dest: hub_step_is_run)

subsection \<open>Properties\<close>

text \<open>
  C10. The Hub's transactions are serializable too: the committed databases that the statements
  of any number of requests and replies can lead to are exactly those that whole transactions
  reach one after the other, on rows their handlers may have read earlier.
\<close>
theorem hub_transactions_serialize:
  "(\<exists>S. hub_server_step\<^sup>*\<^sup>* (migrated_hub, no_hub_sessions) (s, S)) \<longleftrightarrow> (hub_step True)\<^sup>*\<^sup>* migrated_hub s"
  using hub_server_steps_ok [OF _ hub_migrated_ok] hub_steps_are_runs by blast

text \<open>The next statement of \<open>a\<close> would go on, but for something that \<open>b\<close> occupies.\<close>

definition hub_waits_for :: "hub_db \<Rightarrow> (nat \<Rightarrow> hub_session option) \<Rightarrow> nat \<Rightarrow> nat \<Rightarrow> bool" where
  "hub_waits_for s S a b \<longleftrightarrow> a \<noteq> b \<and> (\<exists>x y p t. S a = Some x \<and> S b = Some y \<and>
     hub_statement (hs_now x) (hs_rest x) (hub_view s x) = Inr (p, t) \<and>
     hub_claims (hub_written (hs_now x) (hs_rest x) (hub_view s x) t) \<inter> hub_claims (hs_log y) \<noteq> {})"

text \<open>
  C11. The Hub cannot deadlock. Whoever waits waits for a transaction that itself waits for
  nobody, whatever requests and replies are under way; so no circle of transactions waits for
  each other.
\<close>
theorem hub_never_deadlocks:
  assumes run: "hub_server_step\<^sup>*\<^sup>* (migrated_hub, no_hub_sessions) (s, S)"
  shows "(hub_waits_for s S a b \<longrightarrow> (\<forall>c. \<not> hub_waits_for s S b c)) \<and> \<not> (hub_waits_for s S)\<^sup>+\<^sup>+ a a"
proof -
  have ok: "hub_server_ok s S" using hub_server_steps_ok [OF run hub_migrated_ok] by blast
  have free: "\<not> hub_waits_for s S b c" if "hub_waits_for s S a b" for a b c
  proof
    assume "hub_waits_for s S b c"
    then obtain y p t where y: "S b = Some y" and st: "hub_statement (hs_now y) (hs_rest y) (hub_view s y) = Inr (p, t)"
      and w: "hub_claims (hub_written (hs_now y) (hs_rest y) (hub_view s y) t) \<noteq> {}"
      by (auto simp: hub_waits_for_def)
    have tidy: "hub_tidy y" using ok y by (auto simp: hub_server_ok_def hub_session_ok_def)
    have "hub_claims (hs_log y) \<noteq> {}" using that y by (auto simp: hub_waits_for_def)
    with tidy have "\<not> occupies (hs_rest y)" using waitless_once by (simp add: hub_tidy_def)
    with hub_statement_tidy [OF st] tidy w show False by (simp add: hub_tidy_def)
  qed
  have "\<not> (hub_waits_for s S)\<^sup>+\<^sup>+ a a"
  proof
    assume "(hub_waits_for s S)\<^sup>+\<^sup>+ a a"
    then obtain b where b: "hub_waits_for s S a b" "(hub_waits_for s S)\<^sup>*\<^sup>* b a" by (meson tranclpD)
    then have "b = a" using free [OF b(1)] by (meson converse_rtranclpE)
    with b(1) show False by (simp add: hub_waits_for_def)
  qed
  with free show ?thesis by blast
qed

text \<open>Two confirmations of one settlement: the second waits for the first.\<close>

theorem hub_never_deadlocks_witness:
  "\<exists>S. hub_server_step\<^sup>*\<^sup>* (migrated_hub, no_hub_sessions) (sample_pending_hub, S) \<and>
     hub_waits_for sample_pending_hub S 1 0 \<and> (\<forall>c. \<not> hub_waits_for sample_pending_hub S 0 c) \<and>
     \<not> (hub_waits_for sample_pending_hub S)\<^sup>+\<^sup>+ 1 1"
proof -
  let ?s = sample_pending_hub and ?id = "st_id sample_pending_row"
  let ?ev = "sample_reversed\<lparr>rp_outcome := Some (JStr ''CONFIRMED'')\<rparr>"
  let ?x = "fresh_hub_session 9 (Replying (\<lambda>_. []) sample_pending_row ?ev)"
  let ?S = "no_hub_sessions(0 \<mapsto> ?x, 1 \<mapsto> ?x)"
  have id: "?id = sample_settlement_id" by (simp add: sample_pending_row_def)
  have code: "\<exists>p. hs_rest ?x = HMark None ?id p" by (simp add: fresh_hub_session_def reply_program_def Let_def)
  then obtain p where p: "hs_rest ?x = HMark None ?id p" by blast
  let ?t = "hub_play1 (HSettle 9 None ?id) ?s" and ?w = "[HSettle 9 None ?id]"
  let ?y = "?x\<lparr>hs_rest := p, hs_log := ?w\<rparr>"
  let ?T = "?S(0 \<mapsto> ?y)"
  have start: "hs_now ?x = 9" "hub_view ?s ?x = ?s" "hs_log ?x = []" by (simp_all add: fresh_hub_session_def hub_view_def)
  have st: "hub_statement 9 (hs_rest ?x) ?s = Inr (p, ?t)"
  proof -
    have "hub_mark 9 None ?id ?s = Inr ((), ?t)" using sample_settlement_uuid id by (auto simp only: hub_mark_Inr)
    then show ?thesis unfolding p by simp
  qed
  have w: "hub_written 9 (hs_rest ?x) ?s ?t = ?w"
  proof -
    have "sample_pending_row \<in> set (settlements ?s)"
      using sample_pending_facts(1) find_Some_in by (fastforce simp: find_settlement_def)
    then have "\<not> hub_closed ?id ?s" using sample_pending_facts(3) by (auto simp: hub_closed_def)
    then show ?thesis using sample_settlement_uuid by (simp add: p id)
  qed
  have begun: "hub_begun (Replying (\<lambda>_. []) sample_pending_row ?ev) ?s" using sample_pending_facts id by simp
  have "hub_server_step (?s, no_hub_sessions) (?s, no_hub_sessions(0 \<mapsto> ?x))"
    by (rule hub_server_step.start [OF _ begun]) (simp add: no_hub_sessions_def)
  moreover have "hub_server_step (?s, no_hub_sessions(0 \<mapsto> ?x)) (?s, ?S)"
    by (rule hub_server_step.start [OF _ begun]) (simp add: no_hub_sessions_def)
  moreover have "hub_server_step (?s, ?S) (?s, ?S(0 \<mapsto> ?x\<lparr>hs_rest := p, hs_log := hs_log ?x @ ?w\<rparr>))"
  proof (rule hub_server_step.advance)
    show "?S 0 = Some ?x" by simp
    show "hub_statement (hs_now ?x) (hs_rest ?x) (hub_view ?s ?x) = Inr (p, ?t)" unfolding start by (rule st)
    show "?w = hub_written (hs_now ?x) (hs_rest ?x) (hub_view ?s ?x) ?t" unfolding start by (rule w [symmetric])
    show "\<forall>b y. b \<noteq> 0 \<longrightarrow> ?S b = Some y \<longrightarrow> hub_claims ?w \<inter> hub_claims (hs_log y) = {}"
      by (auto simp: no_hub_sessions_def start split: if_splits)
  qed
  ultimately have run: "hub_server_step\<^sup>*\<^sup>* (migrated_hub, no_hub_sessions) (?s, ?T)"
    using hub_steps_are_runs [OF sample_pending_steps] unfolding start append_Nil
    by (meson rtranclp.rtrancl_into_rtrancl)
  have "hub_waits_for ?s ?T 1 0"
    unfolding hub_waits_for_def
  proof (intro conjI exI)
    show "?T 1 = Some ?x" "?T 0 = Some ?y" by simp_all
    show "hub_statement (hs_now ?x) (hs_rest ?x) (hub_view ?s ?x) = Inr (p, ?t)" unfolding start by (rule st)
    show "hub_claims (hub_written (hs_now ?x) (hs_rest ?x) (hub_view ?s ?x) ?t) \<inter> hub_claims (hs_log ?y) \<noteq> {}"
      unfolding start w by (simp add: hub_claims_def)
  qed simp
  with run hub_never_deadlocks [OF run, of 1 0] show ?thesis by blast
qed

end
