(* ===== verification/HubConsumer.thy ===== *)
theory HubConsumer
  imports HubDeliveries
begin

text \<open>
  The message handlers of the Hub (hub/src/settlements/settlements.consumer.ts). The contents of
  a message is what \<open>JSON.parse\<close> makes of it, None when it throws. The code casts it to the
  event's interface without looking at it: \<open>decode_request\<close> and \<open>decode_reply\<close> say which JSON
  values have that interface.
\<close>

subsection \<open>Reading a message\<close>

definition decode_request :: "json \<Rightarrow> requested_event option" where
  "decode_request j =
     (case (json_string ''settlementId'' j, json_string ''payerBankId'' j, json_string ''payeeBankId'' j,
            json_string ''payeeAccountRef'' j, json_number ''amountCents'' j) of
        (Some i, Some payer, Some payee, Some ref, Some n) \<Rightarrow>
          Some \<lparr>rq_settlementId = i, rq_payerBankId = payer, rq_payeeBankId = payee,
                rq_payeeAccountRef = ref, rq_amountCents = n\<rparr>
      | _ \<Rightarrow> None)"

text \<open>
  As in Bank A's consumer, a settlement id that is no text reaches PostgreSQL as no UUID or as
  NULL, and the handler throws.
\<close>

definition decode_reply :: "json option \<Rightarrow> hub_service_error + reply_event" where
  "decode_reply content = (case content of
     None \<Rightarrow> Inl (Failure ''SyntaxError'')
   | Some j \<Rightarrow> (case json_string ''settlementId'' j of
       None \<Rightarrow> Inl (Failure ''settlementId'')
     | Some i \<Rightarrow> Inr \<lparr>rp_settlementId = i, rp_outcome = json_field ''outcome'' j, rp_reason = json_field ''reason'' j\<rparr>))"

subsection \<open>The handlers\<close>

text \<open>
  \<open>untyped\<close> is what the handler makes of a request whose fields have other JSON types, which
  JavaScript and the driver coerce one by one; no producer of the repository sends one.
\<close>

definition onRequested ::
  "(json \<Rightarrow> hub_db \<Rightarrow> ack \<times> hub_db) \<Rightarrow> (hub_db \<Rightarrow> hub_db) \<Rightarrow> int \<Rightarrow> string \<Rightarrow> json option \<Rightarrow> hub_db \<Rightarrow> ack \<times> hub_db" where
  "onRequested untyped i1 now occurredAt content s =
     (case content of
        None \<Rightarrow> (Nack, s)
      | Some j \<Rightarrow> (case decode_request j of
          None \<Rightarrow> untyped j s
        | Some event \<Rightarrow> (case handleRequested i1 now occurredAt event s of
            (Inl e, t) \<Rightarrow> (Nack, t) | (Inr _, t) \<Rightarrow> (Ack, t))))"

definition onReply ::
  "(json \<Rightarrow> string) \<Rightarrow> (hub_db \<Rightarrow> hub_db) \<Rightarrow> int \<Rightarrow> json option \<Rightarrow> hub_db \<Rightarrow> ack \<times> hub_db" where
  "onReply pg_text i1 now content s =
     (case decode_reply content of
        Inl e \<Rightarrow> (Nack, s)
      | Inr event \<Rightarrow> (case handleReply pg_text i1 now event s of
          (Inl e, t) \<Rightarrow> (Nack, t) | (Inr _, t) \<Rightarrow> (Ack, t)))"

lemma handleReply_failed:
  assumes "handleReply pg_text id now event s = (Inl e, t)"
  shows "t = s"
proof (rule ccontr)
  assume ne: "t \<noteq> s"
  with assms obtain r where run: "with_tx (reply_tx pg_text now r event) s = (Inl e, t)"
    by (auto simp: handleReply_def split: sum.splits option.splits if_splits)
  then have "t = s" by (cases rule: with_tx_cases [of "reply_tx pg_text now r event" s]) auto
  with ne show False by blast
qed

subsection \<open>Properties\<close>

text \<open>
  The Hub's queues drain in one of two ways. A reply, whatever its content, is acknowledged
  with its settlement resolved, or dead-lettered with nothing changed; a request whose fields
  have the types of the interface is acknowledged with its settlement recorded, or dead-lettered
  with nothing changed.
\<close>
theorem hub_message_settles_or_changes_nothing:
  "(case onReply pg_text id now content s of
     (Ack, t) \<Rightarrow> \<exists>event. decode_reply content = Inr event \<and> resolved (uuid_in (rp_settlementId event)) t
   | (Nack, t) \<Rightarrow> t = s) \<and>
   (case onRequested untyped id now occurredAt content s of (a, t) \<Rightarrow>
      (\<exists>j. content = Some j \<and> decode_request j = None \<and> (a, t) = untyped j s) \<or>
      (\<exists>j event. content = Some j \<and> decode_request j = Some event \<and> a = Ack \<and>
         settlement_known (uuid_in (rq_settlementId event)) t) \<or>
      a = Nack \<and> t = s)"
  (is "?reply \<and> ?request")
proof
  show ?reply
  proof (cases "decode_reply content")
    case (Inl e)
    then show ?thesis by (simp add: onReply_def)
  next
    case ev: (Inr event)
    obtain res t where run: "handleReply pg_text id now event s = (res, t)" by fastforce
    show ?thesis
    proof (cases res)
      case Inl
      with run handleReply_failed show ?thesis by (auto simp: onReply_def ev)
    next
      case (Inr u)
      with run hub_replies.handle_marks [of "(pg_text, now, event)" s u]
      show ?thesis by (simp add: onReply_def ev deliver_reply_def reply_key_def)
    qed
  qed
  show ?request
  proof (cases "\<exists>j event. content = Some j \<and> decode_request j = Some event")
    case False
    then show ?thesis by (auto simp: onRequested_def split: option.splits prod.splits)
  next
    case True
    then obtain j event where c: "content = Some j" "decode_request j = Some event" by blast
    obtain res t where run: "handleRequested id now occurredAt event s = (res, t)" by fastforce
    from deliver_request_cases [of "(now, occurredAt, event)" s] run show ?thesis
      by (auto simp: onRequested_def c deliver_request_def request_key_def dest: request_recorded_known)
  qed
qed

end
