(* ===== verification/HubHttp.thy ===== *)
theory HubHttp
  imports HubConsumer HubBanks
begin

text \<open>
  The HTTP side of the Hub (hub/src/banks/banks.controller.ts, hub/src/settlements/
  settlements.controller.ts and hub/src/http/domain-exception.filter.ts). An answer is a status
  and a body, None where the framework writes the body itself: a failed validation is 400, and
  an error the filter does not catch is 500. A handler that returns gets the framework's default
  status, 201 for POST and 200 for GET. \<open>isUrl\<close> is the validator behind \<open>@IsUrl\<close>, \<open>to_iso\<close> the
  text \<open>JSON.stringify\<close> makes of a Date, \<open>show\<close> the one \<open>String\<close> makes of a number.
\<close>

subsection \<open>Answers\<close>

definition hub_error_body :: "(js_number \<Rightarrow> string) \<Rightarrow> hub_error \<Rightarrow> json" where
  "hub_error_body show e = JObj
     [(''statusCode'', JNum (of_nat (hub_exception_status e))),
      (''error'', JStr (hub_error_name e)),
      (''message'', JStr (hub_error_message show e))]"

definition hub_error_answer :: "(js_number \<Rightarrow> string) \<Rightarrow> hub_service_error \<Rightarrow> http_answer" where
  "hub_error_answer show e = (case e of
     Domain d \<Rightarrow> (hub_exception_status d, Some (hub_error_body show d))
   | BadRequest \<Rightarrow> (400, None)
   | _ \<Rightarrow> (500, None))"

definition hub_answer ::
  "(js_number \<Rightarrow> string) \<Rightarrow> nat \<Rightarrow> ('a \<Rightarrow> json) \<Rightarrow> hub_service_error + 'a \<Rightarrow> http_answer" where
  "hub_answer show ok body r = (case r of Inl e \<Rightarrow> hub_error_answer show e | Inr a \<Rightarrow> (ok, Some (body a)))"

subsection \<open>BanksController\<close>

record create_bank_dto =
  cb_id :: string
  cb_name :: string
  cb_baseUrl :: string

definition CreateBankDto :: "(string \<Rightarrow> bool) \<Rightarrow> json \<Rightarrow> hub_service_error + create_bank_dto" where
  "CreateBankDto isUrl body =
     (case (json_string ''id'' body, json_string ''name'' body, json_string ''baseUrl'' body) of
        (Some i, Some name, Some url) \<Rightarrow>
          if 1 \<le> length i \<and> length i \<le> 64 \<and> 1 \<le> length name \<and> length name \<le> 120 \<and> isUrl url
          then Inr \<lparr>cb_id = i, cb_name = name, cb_baseUrl = url\<rparr> else Inl BadRequest
      | _ \<Rightarrow> Inl BadRequest)"

definition bank_json :: "(int \<Rightarrow> string) \<Rightarrow> hub_bank \<Rightarrow> json" where
  "bank_json to_iso b = JObj
     [(''id'', JStr (bank_id b)), (''name'', JStr (bank_name b)), (''baseUrl'', JStr (bank_baseUrl b)),
      (''createdAt'', JStr (to_iso (bank_createdAt b)))]"

definition BanksController_create ::
  "(string \<Rightarrow> bool) \<Rightarrow> int \<Rightarrow> json \<Rightarrow> hub_db \<Rightarrow> (hub_service_error + hub_bank) \<times> hub_db" where
  "BanksController_create isUrl now body s =
     (case CreateBankDto isUrl body of
        Inl e \<Rightarrow> (Inl e, s)
      | Inr dto \<Rightarrow> registerBank now (cb_id dto) (cb_name dto) (cb_baseUrl dto) s)"

definition BanksController_list :: "hub_db \<Rightarrow> hub_bank list" where
  "BanksController_list s = listBanks s"

definition BanksController_get :: "string \<Rightarrow> hub_db \<Rightarrow> hub_service_error + hub_bank" where
  "BanksController_get i s = getBank i s"

text \<open>The answer holds the id of the URL and the cents; \<open>s'\<close> is the database at the second read.\<close>

definition BanksController_reserveBalance ::
  "string \<Rightarrow> hub_db \<Rightarrow> hub_db \<Rightarrow> hub_service_error + (string \<times> int)" where
  "BanksController_reserveBalance i s s' =
     (case getReserveBalance i s s' of Inl e \<Rightarrow> Inl e | Inr balance \<Rightarrow> Inr (i, cents balance))"

subsection \<open>SettlementsController\<close>

definition status_text :: "settlement_status \<Rightarrow> string" where
  "status_text st = (case st of HPENDING \<Rightarrow> ''PENDING'' | HCONFIRMED \<Rightarrow> ''CONFIRMED''
     | HREVERSED \<Rightarrow> ''REVERSED'' | HREJECTED \<Rightarrow> ''REJECTED'')"

definition number_json :: "js_number \<Rightarrow> json" where
  "number_json x = (case x of JsNum q \<Rightarrow> JNum q | _ \<Rightarrow> JNull)"

definition settlement_json :: "(int \<Rightarrow> string) \<Rightarrow> settlement_record \<Rightarrow> json" where
  "settlement_json to_iso r = JObj
     [(''id'', JStr (sr_id r)), (''payerBankId'', JStr (sr_payerBankId r)), (''payeeBankId'', JStr (sr_payeeBankId r)),
      (''payeeAccountRef'', JStr (sr_payeeAccountRef r)), (''amountCents'', number_json (sr_amountCents r)),
      (''status'', JStr (status_text (sr_status r))),
      (''rejectReason'', case sr_rejectReason r of None \<Rightarrow> JNull | Some t \<Rightarrow> JStr t),
      (''createdAt'', JStr (to_iso (sr_createdAt r))), (''updatedAt'', JStr (to_iso (sr_updatedAt r)))]"

definition SettlementsController_get ::
  "(js_number \<Rightarrow> string) \<Rightarrow> (int \<Rightarrow> string) \<Rightarrow> string \<Rightarrow> hub_db \<Rightarrow> http_answer" where
  "SettlementsController_get show to_iso i s = hub_answer show 200 (settlement_json to_iso) (getSettlement i s)"

lemma settlement_get_known:
  "uuid_in i = Some k \<Longrightarrow> find_settlement k s = Some r \<Longrightarrow>
   SettlementsController_get show to_iso i s = (200, Some (settlement_json to_iso (toSettlementRecord r)))"
  by (simp add: SettlementsController_get_def hub_answer_def getSettlement_def settlement_findById_ok)

lemma settlement_get_unknown:
  "uuid_in i = Some k \<Longrightarrow> find_settlement k s = None \<Longrightarrow> fst (SettlementsController_get show to_iso i s) = 404"
  by (simp add: SettlementsController_get_def hub_answer_def getSettlement_def settlement_findById_ok
      hub_error_answer_def hub_exception_status_def hub_error_name_def HUB_STATUS_BY_ERROR_def)

lemma settlement_json_fields:
  "json_field ''status'' (settlement_json to_iso r) = Some (JStr (status_text (sr_status r)))"
  "json_field ''id'' (settlement_json to_iso r) = Some (JStr (sr_id r))"
  by (simp_all add: settlement_json_def)

lemma status_text_PENDING [simp]: "status_text st = ''PENDING'' \<longleftrightarrow> st = HPENDING"
  by (cases st) (simp_all add: status_text_def)

lemma status_text_CONFIRMED [simp]: "status_text st = ''CONFIRMED'' \<longleftrightarrow> st = HCONFIRMED"
  by (cases st) (simp_all add: status_text_def)

subsection \<open>Properties\<close>

lemma registration_status: "hub_exception_status (DuplicateBankError i) = 409"
  by (simp add: hub_exception_status_def hub_error_name_def HUB_STATUS_BY_ERROR_def)

text \<open>
  What POST /banks answers, and a gap between the validation and the table: a body the DTO
  refuses is 400 and a bank that is already registered 409, both change nothing; a new bank is
  201 and registered. But the DTO does not bound the length of the URL and the table does: a
  valid URL of more than 255 characters is answered 500.
\<close>
theorem bank_registration_answers:
  assumes "hub_answer show 201 (bank_json to_iso) (fst (BanksController_create isUrl now body s)) = (status, answer)"
    and t: "snd (BanksController_create isUrl now body s) = t"
  shows "case CreateBankDto isUrl body of
      Inl _ \<Rightarrow> status = 400 \<and> t = s
    | Inr dto \<Rightarrow>
        if cb_baseUrl dto = [] \<or> 255 < length (cb_baseUrl dto) then status = 500 \<and> t = s
        else if bank_exists (cb_id dto) s then status = 409 \<and> t = s
        else status = 201 \<and> getBank (cb_id dto) t = Inr \<lparr>bank_id = cb_id dto, bank_name = cb_name dto,
               bank_baseUrl = cb_baseUrl dto, bank_createdAt = now\<rparr>"
proof (cases "CreateBankDto isUrl body")
  case (Inl e)
  then have "e = BadRequest" by (auto simp: CreateBankDto_def split: option.splits if_splits)
  with Inl assms show ?thesis by (simp add: BanksController_create_def hub_answer_def hub_error_answer_def)
next
  case (Inr dto)
  then have len: "1 \<le> length (cb_id dto)" "length (cb_id dto) \<le> 64" "1 \<le> length (cb_name dto)" "length (cb_name dto) \<le> 120"
    by (auto simp: CreateBankDto_def split: option.splits if_splits)
  show ?thesis
    using assms Inr len
    by (auto simp: BanksController_create_def registerBank_eq Suc_le_eq hub_answer_def hub_error_answer_def registration_status
        getBank_def BankRepository_findById_def find_append toBank_def bank_exists_find split: if_splits)
qed

theorem bank_registration_answers_witness:
  "fst (hub_answer (\<lambda>_. []) 201 (bank_json (\<lambda>_. [])) (fst (BanksController_create (\<lambda>_. True) 3
     (JObj [(''id'', JStr ''b''), (''name'', JStr ''B''), (''baseUrl'', JStr (replicate 256 CHR ''u''))]) migrated_hub))) = 500"
  using bank_registration_answers [of "\<lambda>_. []" "\<lambda>_. []" "\<lambda>_. True" 3
      "JObj [(''id'', JStr ''b''), (''name'', JStr ''B''), (''baseUrl'', JStr (replicate 256 CHR ''u''))]" migrated_hub]
  by (cases "hub_answer (\<lambda>_. []) 201 (bank_json (\<lambda>_. [])) (fst (BanksController_create (\<lambda>_. True) 3
     (JObj [(''id'', JStr ''b''), (''name'', JStr ''B''), (''baseUrl'', JStr (replicate 256 CHR ''u''))]) migrated_hub))")
    (simp add: CreateBankDto_def json_string_def)

end
