(* ===== verification/Saga.thy ===== *)
theory Saga
  imports BankSteps HubSteps HubHttp
begin

text \<open>
  The saga across both services: Bank A, the Hub and the broker between them as one transition
  system. Each service takes the steps of its own committed transactions; a letter (routing key
  and payload) that a relay hands over may be delivered any number of times, late, in any order,
  or be lost. Bank A also learns outcomes by asking the Hub over HTTP.
\<close>

subsection \<open>The world\<close>

record world =
  w_bank :: bank_db
  w_hub :: hub_db
  w_mail :: "(string \<times> json) list"

definition initial_world :: world where
  "initial_world = \<lparr>w_bank = migrated_bank, w_hub = migrated_hub, w_mail = []\<rparr>"

text \<open>No settlement request of this transfer can reach the Hub any more.\<close>

definition gone :: "string \<Rightarrow> world \<Rightarrow> bool" where
  "gone k w \<longleftrightarrow> (\<forall>l \<in> set (w_mail w) \<union> waiting (outbox (w_bank w)). \<forall>ev.
     fst l = SETTLEMENT_REQUESTED_ROUTING_KEY \<longrightarrow> decode_request (snd l) = Some ev \<longrightarrow>
     uuid_in (rq_settlementId ev) \<noteq> Some k)"

text \<open>The queue of Bank A's consumer is bound to the routing key of its own bank.\<close>

definition told_by_letter :: "string \<Rightarrow> world \<Rightarrow> string \<Rightarrow> json option \<Rightarrow> bool" where
  "told_by_letter me w i outcome \<longleftrightarrow> (\<exists>j ev. (settlementOutcomeRoutingKey me, j) \<in> set (w_mail w) \<and>
     decode_outcome (Some j) = Inr ev \<and> oe_settlementId ev = i \<and> oe_outcome ev = outcome)"

text \<open>
  A reconciliation asks GET /settlements/:id. That a request the Hub does not know of is not on
  its way any more is what the code expects of its five minutes (\<open>STALE_AFTER_MS\<close>); here it is
  a condition of the 404 branch.
\<close>

definition told_by_hub :: "world \<Rightarrow> string \<Rightarrow> json option \<Rightarrow> bool" where
  "told_by_hub w i outcome \<longleftrightarrow> (\<exists>show to_iso. case SettlementsController_get show to_iso i (w_hub w) of
     (status, body) \<Rightarrow> verdict_of (Response status body) = Settle outcome \<and>
       (status = 404 \<longrightarrow> (\<forall>k. uuid_in i = Some k \<longrightarrow> gone k w)))"

text \<open>
  What the Hub's consumer may read: a letter of Bank A, or a request of another bank. \<open>mine\<close> are
  the identifiers Bank A draws; no other bank draws one of them.
\<close>

definition requested :: "(string \<Rightarrow> bool) \<Rightarrow> world \<Rightarrow> requested_event \<Rightarrow> bool" where
  "requested mine w ev \<longleftrightarrow>
     (\<exists>j. (SETTLEMENT_REQUESTED_ROUTING_KEY, j) \<in> set (w_mail w) \<and> decode_request j = Some ev) \<or>
     (\<forall>k. uuid_in (rq_settlementId ev) = Some k \<longrightarrow> \<not> mine k)"

text \<open>
  \<open>credited k\<close> is what the payee bank of settlement \<open>k\<close> has decided: its replies, however often
  it sends them, confirm the settlement exactly if it credited the payee. A reply's transaction
  uses the row its handler read before, whose status may have changed since.
\<close>

inductive world_step :: "string \<Rightarrow> (string \<Rightarrow> bool) \<Rightarrow> (string \<Rightarrow> bool) \<Rightarrow> world \<Rightarrow> world \<Rightarrow> bool"
  for me mine credited where
  open_account: "uuid_ok uuid \<Longrightarrow> AccountRepository_create uuid now name (w_bank w) = Inr (a, b) \<Longrightarrow>
    world_step me mine credited w (w\<lparr>w_bank := b\<rparr>)"
| local_transfer: "uuid_ok uuid \<Longrightarrow> money_ok m \<Longrightarrow> Transfer_create uuid p q m = Inr tr \<Longrightarrow>
    execute_tx now tr key (w_bank w) = Inr (r, b) \<Longrightarrow> world_step me mine credited w (w\<lparr>w_bank := b\<rparr>)"
| seed: "uuid_ok uuid \<Longrightarrow> money_ok m \<Longrightarrow> devSeed_tx uuid now a m (w_bank w) = Inr (u, b) \<Longrightarrow>
    world_step me mine credited w (w\<lparr>w_bank := b\<rparr>)"
| send: "uuid_ok uuid \<Longrightarrow> mine uuid \<Longrightarrow> money_ok (ip_amount ps) \<Longrightarrow>
    Transfer_create uuid (ip_payerAccountId ps) SUSPENSE_ACCOUNT_ID (ip_amount ps) = Inr tr \<Longrightarrow>
    interbank_tx (Inr me) now tr key ps (w_bank w) = Inr (r, b) \<Longrightarrow> world_step me mine credited w (w\<lparr>w_bank := b\<rparr>)"
| bank_relay: "tick publish commit locked now (outbox (w_bank w)) = (res, ob, sent) \<Longrightarrow>
    world_step me mine credited w
      (w\<lparr>w_bank := (w_bank w)\<lparr>outbox := ob\<rparr>, w_mail := w_mail w @ map envelope sent\<rparr>)"
| mail: "set ls \<subseteq> set (w_mail w) \<Longrightarrow> world_step me mine credited w (w\<lparr>w_mail := ls\<rparr>)"
| register: "BankRepository_create now i name url (w_hub w) = Inr (x, h) \<Longrightarrow>
    world_step me mine credited w (w\<lparr>w_hub := h\<rparr>)"
| request_rejected: "requested mine w ev \<Longrightarrow> reject_tx now ev (w_hub w) = Inr (u, h) \<Longrightarrow>
    world_step me mine credited w (w\<lparr>w_hub := h\<rparr>)"
| request_accepted: "requested mine w ev \<Longrightarrow> bank_exists (rq_payeeBankId ev) (w_hub w) \<Longrightarrow>
    accept_tx now occurredAt ev (w_hub w) = Inr (u, h) \<Longrightarrow> world_step me mine credited w (w\<lparr>w_hub := h\<rparr>)"
| reply: "st_status r = HPENDING \<Longrightarrow> find_settlement (st_id r) (w_hub w) = Some r' \<Longrightarrow> same_terms r r' \<Longrightarrow>
    st_status r' \<noteq> HREJECTED \<Longrightarrow> (rp_outcome ev = Some (JStr ''CONFIRMED'') \<longleftrightarrow> credited (st_id r)) \<Longrightarrow>
    reply_tx pg_text now (toSettlementRecord r) ev (w_hub w) = Inr (u, h) \<Longrightarrow>
    world_step me mine credited w (w\<lparr>w_hub := h\<rparr>)"
| hub_relay: "tick publish commit locked now (hub_outbox (w_hub w)) = (res, ob, sent) \<Longrightarrow>
    world_step me mine credited w
      (w\<lparr>w_hub := (w_hub w)\<lparr>hub_outbox := ob\<rparr>, w_mail := w_mail w @ map envelope sent\<rparr>)"
| confirm: "told_by_letter me w i (Some (JStr ''CONFIRMED'')) \<or> told_by_hub w i (Some (JStr ''CONFIRMED'')) \<Longrightarrow>
    markConfirmed now i (w_bank w) = Inr (u, b) \<Longrightarrow> world_step me mine credited w (w\<lparr>w_bank := b\<rparr>)"
| refund: "told_by_letter me w i outcome \<or> told_by_hub w i outcome \<Longrightarrow> outcome \<noteq> Some (JStr ''CONFIRMED'') \<Longrightarrow>
    uuid_ok uuid \<Longrightarrow> InterbankRepository_findById i (w_bank w) = Inr (Some interbank) \<Longrightarrow>
    TransferRepository_findById i (w_bank w) = Inr (Some original) \<Longrightarrow>
    Transfer_create uuid SUSPENSE_ACCOUNT_ID (rec_payerAccountId original) (rec_amount original) = Inr tr \<Longrightarrow>
    compensate_tx now tr i (w_bank w) = Inr (u, b) \<Longrightarrow> world_step me mine credited w (w\<lparr>w_bank := b\<rparr>)"

subsection \<open>What the letters say\<close>

text \<open>Each service writes what the other reads.\<close>

lemma request_roundtrip:
  "decode_request (settlement_request i b ps) = Some \<lparr>rq_settlementId = i, rq_payerBankId = b,
     rq_payeeBankId = ip_payeeBankId ps, rq_payeeAccountRef = ip_payeeAccountRef ps,
     rq_amountCents = JsNum (of_int (cents (ip_amount ps)))\<rparr>"
  by (simp add: decode_request_def settlement_request_def json_string_def json_number_def)

lemma outcome_roundtrip:
  "decode_outcome (Some (outcome_payload k outcome reason)) =
     Inr \<lparr>oe_settlementId = k, oe_outcome = outcome, oe_reason = reason\<rparr>"
  by (cases outcome; cases reason)
    (simp_all add: decode_outcome_def outcome_payload_def json_string_def)

lemma routing_keys [simp]:
  "settlementOutcomeRoutingKey x \<noteq> SETTLEMENT_REQUESTED_ROUTING_KEY"
  "settlementNotifyRoutingKey x \<noteq> SETTLEMENT_REQUESTED_ROUTING_KEY"
  "settlementNotifyRoutingKey x \<noteq> settlementOutcomeRoutingKey y"
  "settlementOutcomeRoutingKey y \<noteq> settlementNotifyRoutingKey x"
  "settlementOutcomeRoutingKey x = settlementOutcomeRoutingKey y \<longleftrightarrow> x = y"
  by (simp_all add: settlementOutcomeRoutingKey_def settlementNotifyRoutingKey_def SETTLEMENT_REQUESTED_ROUTING_KEY_def)

text \<open>What a reconciliation concludes from the Hub's answer about a settlement.\<close>

lemma hub_verdict:
  "verdict_of (Response 200 (Some (settlement_json to_iso r))) =
     (if sr_status r = HPENDING then Retry else Settle (Some (JStr (status_text (sr_status r)))))"
  using settlement_json_fields [of to_iso r] by (simp add: verdict_of_def settlement_json_def)

end
