(* ===== verification/SagaAgreement.thy ===== *)
theory SagaAgreement
  imports Saga
begin

text \<open>
  The two ends of the saga never disagree: an invariant of the world of theory Saga that ties
  Bank A's saga rows, the letters on their way and the Hub's settlements to each other.
\<close>

subsection \<open>The invariant\<close>

definition decided :: "json option \<Rightarrow> settlement_status \<Rightarrow> bool" where
  "decided outcome st \<longleftrightarrow>
     (if outcome = Some (JStr ''CONFIRMED'') then st = HCONFIRMED else st = HREVERSED \<or> st = HREJECTED)"

text \<open>The terms of a settlement are those of Bank A's saga and of the transfer that opened it.\<close>

definition matches :: "string \<Rightarrow> bank_db \<Rightarrow> string \<Rightarrow> string \<Rightarrow> string \<Rightarrow> string \<Rightarrow> int \<Rightarrow> bool" where
  "matches me b k payer payee ref n \<longleftrightarrow> payer = me \<and>
     (k, payee, ref) \<in> set (map ib_ident (interbank_transfers b)) \<and> (\<exists>x. saga_leg k x b \<and> trow_amount x = n)"

definition bank_letter_ok :: "string \<Rightarrow> bank_db \<Rightarrow> string \<times> json \<Rightarrow> bool" where
  "bank_letter_ok me b l \<longleftrightarrow> fst l = SETTLEMENT_REQUESTED_ROUTING_KEY \<and>
     (\<exists>ev n. decode_request (snd l) = Some ev \<and> uuid_ok (rq_settlementId ev) \<and>
        js_integer (rq_amountCents ev) = Some n \<and>
        matches me b (rq_settlementId ev) (rq_payerBankId ev) (rq_payeeBankId ev) (rq_payeeAccountRef ev) n)"

definition hub_letter_ok :: "hub_db \<Rightarrow> string \<times> json \<Rightarrow> bool" where
  "hub_letter_ok h l \<longleftrightarrow> (\<exists>bank. fst l = settlementNotifyRoutingKey bank) \<or>
     (\<exists>k outcome reason r. l = (settlementOutcomeRoutingKey (st_payer_bank_id r), outcome_payload k outcome reason) \<and>
        find_settlement k h = Some r \<and> uuid_ok k \<and> decided outcome (st_status r))"

definition settlement_agrees :: "string \<Rightarrow> (string \<Rightarrow> bool) \<Rightarrow> (string \<Rightarrow> bool) \<Rightarrow> bank_db \<Rightarrow> settlement_row \<Rightarrow> bool" where
  "settlement_agrees me mine credited b r \<longleftrightarrow>
     (mine (st_id r) \<longrightarrow> matches me b (st_id r) (st_payer_bank_id r) (st_payee_bank_id r) (st_payee_account_ref r) (st_amount r)) \<and>
     (st_status r = HCONFIRMED \<longrightarrow> credited (st_id r)) \<and> (st_status r = HREVERSED \<longrightarrow> \<not> credited (st_id r))"

definition saga_agrees :: "world \<Rightarrow> string \<Rightarrow> interbank_status \<Rightarrow> bool" where
  "saga_agrees w k st \<longleftrightarrow> (case st of
     DEBITED \<Rightarrow> True
   | CONFIRMED \<Rightarrow> (\<exists>r. find_settlement k (w_hub w) = Some r \<and> st_status r = HCONFIRMED)
   | COMPENSATED \<Rightarrow> (\<exists>r. find_settlement k (w_hub w) = Some r \<and> (st_status r = HREVERSED \<or> st_status r = HREJECTED)) \<or>
       find_settlement k (w_hub w) = None \<and> gone k w)"

definition world_inv :: "string \<Rightarrow> (string \<Rightarrow> bool) \<Rightarrow> (string \<Rightarrow> bool) \<Rightarrow> world \<Rightarrow> bool" where
  "world_inv me mine credited w \<longleftrightarrow> bank_inv (w_bank w) \<and> hub_inv (w_hub w) \<and>
     set (w_mail w) \<subseteq> letters (outbox (w_bank w)) \<union> letters (hub_outbox (w_hub w)) \<and>
     (\<forall>l \<in> letters (outbox (w_bank w)). bank_letter_ok me (w_bank w) l) \<and>
     (\<forall>l \<in> letters (hub_outbox (w_hub w)). hub_letter_ok (w_hub w) l) \<and>
     (\<forall>k r. find_settlement k (w_hub w) = Some r \<longrightarrow> settlement_agrees me mine credited (w_bank w) r) \<and>
     (\<forall>k st. interbank_status_of k (w_bank w) = Some st \<longrightarrow> mine k \<and> saga_agrees w k st)"

lemma world_invD:
  assumes "world_inv me mine credited w"
  shows "bank_inv (w_bank w)" and "hub_inv (w_hub w)"
    and "set (w_mail w) \<subseteq> letters (outbox (w_bank w)) \<union> letters (hub_outbox (w_hub w))"
    and "l \<in> letters (outbox (w_bank w)) \<Longrightarrow> bank_letter_ok me (w_bank w) l"
    and "l \<in> letters (hub_outbox (w_hub w)) \<Longrightarrow> hub_letter_ok (w_hub w) l"
    and "find_settlement k (w_hub w) = Some r \<Longrightarrow> settlement_agrees me mine credited (w_bank w) r"
    and "interbank_status_of k (w_bank w) = Some st \<Longrightarrow> mine k \<and> saga_agrees w k st"
  using assms unfolding world_inv_def by blast+

lemma world_inv_initial: "world_inv me mine credited initial_world"
  by (simp add: world_inv_def initial_world_def bank_inv_migrated hub_inv_migrated)
    (simp add: migrated_bank_def migrated_hub_def find_settlement_def interbank_status_of_def)

lemma matches_grows: "grows b b' \<Longrightarrow> matches me b k p q ref n \<Longrightarrow> matches me b' k p q ref n"
proof -
  assume g: "grows b b'" and m: "matches me b k p q ref n"
  have "set (map ib_ident (interbank_transfers b)) \<subseteq> set (map ib_ident (interbank_transfers b'))"
    using g unfolding grows_def by (blast dest: prefix_set_subset)
  with m saga_leg_grows [OF g] show ?thesis unfolding matches_def by blast
qed

lemma bank_letter_grows: "grows b b' \<Longrightarrow> bank_letter_ok me b l \<Longrightarrow> bank_letter_ok me b' l"
  unfolding bank_letter_ok_def using matches_grows by blast

lemma settlement_agrees_grows:
  "grows b b' \<Longrightarrow> settlement_agrees me mine credited b r \<Longrightarrow> settlement_agrees me mine credited b' r"
  unfolding settlement_agrees_def using matches_grows by blast

lemma hub_letter_outcome:
  assumes "find_settlement k h = Some r" and "uuid_ok k" and "decided outcome (st_status r)"
    and "p = st_payer_bank_id r"
  shows "hub_letter_ok h (settlementOutcomeRoutingKey p, outcome_payload k outcome reason)"
  unfolding hub_letter_ok_def using assms by blast

lemma hub_letter_key: "hub_letter_ok h l \<Longrightarrow> fst l \<noteq> SETTLEMENT_REQUESTED_ROUTING_KEY"
  by (auto simp: hub_letter_ok_def)

lemma decided_final: "decided outcome st \<Longrightarrow> st \<noteq> HPENDING"
  by (auto simp: decided_def split: if_splits)

lemma hub_letter_grows:
  assumes g: "hub_grows h h'" and ok: "hub_letter_ok h l"
  shows "hub_letter_ok h' l"
  using ok unfolding hub_letter_ok_def
proof (elim disjE exE conjE)
  fix k outcome reason r
  assume l: "l = (settlementOutcomeRoutingKey (st_payer_bank_id r), outcome_payload k outcome reason)"
    and r: "find_settlement k h = Some r" "uuid_ok k" "decided outcome (st_status r)"
  from hub_grows_row [OF g r(1)] decided_final [OF r(3)] obtain r' where
    "find_settlement k h' = Some r'" "same_terms r r'" "st_status r' = st_status r" by metis
  with l r show "(\<exists>bank. fst l = settlementNotifyRoutingKey bank) \<or>
     (\<exists>k outcome reason r. l = (settlementOutcomeRoutingKey (st_payer_bank_id r), outcome_payload k outcome reason) \<and>
        find_settlement k h' = Some r \<and> uuid_ok k \<and> decided outcome (st_status r))"
    by (intro disjI2 exI [of _ k] exI [of _ outcome] exI [of _ reason] exI [of _ r']) (simp add: same_terms_def)
qed blast

subsection \<open>Outcomes that reach Bank A\<close>

text \<open>Whatever Bank A is told, the Hub has decided, or knows nothing of it and never will.\<close>

lemma letter_decided:
  assumes inv: "world_inv me mine credited w" and told: "told_by_letter me w i outcome"
  shows "\<exists>r. uuid_ok i \<and> find_settlement i (w_hub w) = Some r \<and> decided outcome (st_status r)"
proof -
  from told obtain j ev where l: "(settlementOutcomeRoutingKey me, j) \<in> set (w_mail w)"
    and ev: "decode_outcome (Some j) = Inr ev" "oe_settlementId ev = i" "oe_outcome ev = outcome"
    by (auto simp: told_by_letter_def)
  have "(settlementOutcomeRoutingKey me, j) \<notin> letters (outbox (w_bank w))"
    using inv by (auto simp: world_inv_def bank_letter_ok_def)
  then have "hub_letter_ok (w_hub w) (settlementOutcomeRoutingKey me, j)"
    using inv l by (auto simp: world_inv_def)
  with ev show ?thesis by (auto simp: hub_letter_ok_def outcome_roundtrip)
qed

lemma hub_decided:
  assumes told: "told_by_hub w i outcome" and k: "uuid_in i = Some k"
  shows "(\<exists>r. find_settlement k (w_hub w) = Some r \<and> decided outcome (st_status r)) \<or>
    find_settlement k (w_hub w) = None \<and> gone k w \<and> outcome = Some (JStr ''REJECTED'')"
proof -
  from told obtain show_no to_iso st body where
    get: "SettlementsController_get show_no to_iso i (w_hub w) = (st, body)"
    and v: "verdict_of (Response st body) = Settle outcome" and lost: "st = 404 \<longrightarrow> gone k w"
    using k by (auto simp: told_by_hub_def)
  show ?thesis
  proof (cases "find_settlement k (w_hub w)")
    case None
    with settlement_get_unknown [OF k None, of show_no to_iso] get v lost show ?thesis
      by (simp add: verdict_of_def)
  next
    case (Some r)
    have "st = 200" "body = Some (settlement_json to_iso (toSettlementRecord r))"
      using settlement_get_known [OF k Some, of show_no to_iso] get by simp_all
    with v have st: "st_status r \<noteq> HPENDING" "outcome = Some (JStr (status_text (st_status r)))"
      by (auto simp: hub_verdict split: if_splits)
    then have "decided outcome (st_status r)"
      by (cases "st_status r") (auto simp: decided_def status_text_def)
    with Some show ?thesis by blast
  qed
qed

lemma told_agrees:
  assumes inv: "world_inv me mine credited w" and k: "uuid_in i = Some k"
    and told: "told_by_letter me w i outcome \<or> told_by_hub w i outcome"
  shows "saga_agrees w k (if outcome = Some (JStr ''CONFIRMED'') then CONFIRMED else COMPENSATED)"
  using told
proof
  assume "told_by_letter me w i outcome"
  from letter_decided [OF inv this] k show ?thesis by (auto simp: saga_agrees_def decided_def)
next
  assume "told_by_hub w i outcome"
  from hub_decided [OF this k] show ?thesis by (auto simp: saga_agrees_def decided_def split: if_splits)
qed

subsection \<open>Steps of Bank A\<close>

lemma inv_bank:
  assumes inv: "world_inv me mine credited w" and b: "bank_inv b" "grows (w_bank w) b"
    and old: "letters (outbox (w_bank w)) \<subseteq> letters (outbox b)"
    and fresh: "\<And>l. l \<in> letters (outbox b) \<Longrightarrow> l \<in> letters (outbox (w_bank w)) \<or> bank_letter_ok me b l"
    and st: "\<And>k st. interbank_status_of k b = Some st \<Longrightarrow> mine k \<and> saga_agrees (w\<lparr>w_bank := b\<rparr>) k st"
  shows "world_inv me mine credited (w\<lparr>w_bank := b\<rparr>)"
proof -
  have "bank_letter_ok me b l" if "l \<in> letters (outbox b)" for l
    using fresh [OF that] world_invD(4) [OF inv] bank_letter_grows [OF b(2)] by blast
  moreover have "settlement_agrees me mine credited b r" if "find_settlement k (w_hub w) = Some r" for k r
    using world_invD(6) [OF inv that] settlement_agrees_grows [OF b(2)] by blast
  ultimately show ?thesis
    using inv b(1) old st by (auto simp: world_inv_def)
qed

text \<open>Most transactions leave the outbox alone and open no saga.\<close>

lemma saga_agrees_outbox:
  "outbox b = outbox (w_bank w) \<Longrightarrow> saga_agrees (w\<lparr>w_bank := b\<rparr>) k st = saga_agrees w k st"
  by (simp add: saga_agrees_def gone_def split: interbank_status.splits)

lemma inv_bank_quiet:
  assumes inv: "world_inv me mine credited w" and b: "bank_inv b" "grows (w_bank w) b"
    and same: "outbox b = outbox (w_bank w)"
    and st: "\<And>k st. interbank_status_of k b = Some st \<Longrightarrow>
      interbank_status_of k (w_bank w) = Some st \<or> interbank_status_of k (w_bank w) \<noteq> None \<and> saga_agrees w k st"
  shows "world_inv me mine credited (w\<lparr>w_bank := b\<rparr>)"
proof (rule inv_bank [OF inv b])
  fix k st assume "interbank_status_of k b = Some st"
  with st inv have "mine k \<and> saga_agrees w k st" unfolding world_inv_def by blast
  then show "mine k \<and> saga_agrees (w\<lparr>w_bank := b\<rparr>) k st" by (simp add: saga_agrees_outbox [OF same])
qed (simp_all add: same)

lemma inv_bank_marked:
  assumes inv: "world_inv me mine credited w" and b: "bank_inv b" "grows (w_bank w) b"
    and same: "outbox b = outbox (w_bank w)" "interbank_transfers b = interbank_transfers (w_bank w)"
    and ok: "saga_agrees w k st"
  shows "world_inv me mine credited (w\<lparr>w_bank := update_debited st now k b\<rparr>)"
proof (rule inv_bank_quiet [OF inv])
  show "bank_inv (update_debited st now k b)" by (rule bank_inv_update [OF b(1)])
  show "grows (w_bank w) (update_debited st now k b)" by (rule grows_trans [OF b(2) grows_update])
  fix k' st' assume "interbank_status_of k' (update_debited st now k b) = Some st'"
  with ok status_cong [OF same(2)] show "interbank_status_of k' (w_bank w) = Some st' \<or>
      interbank_status_of k' (w_bank w) \<noteq> None \<and> saga_agrees w k' st'"
    by (auto simp: status_update_debited split: if_splits)
qed (simp add: same)

text \<open>The letter a new saga leaves in the outbox tells the Hub its terms.\<close>

lemma open_saga_letter:
  assumes "row_fits b r" and "trow_payee_account_id r = SUSPENSE_ACCOUNT_ID" and "trow_amount r = cents (ip_amount ps)"
  shows "bank_letter_ok me (open_saga me r ps b)
    (SETTLEMENT_REQUESTED_ROUTING_KEY, settlement_request (trow_id r) me ps)"
  using assms
  by (auto simp: bank_letter_ok_def request_roundtrip matches_def row_fits_def row_ok_def ib_ident_def saga_row_def
      saga_leg_def)

lemma inv_send:
  assumes inv: "world_inv me mine credited w" and mine: "mine (trow_id r)" and fits: "row_fits (w_bank w) r"
    and b: "bank_inv (open_saga me r ps (w_bank w))"
    and sus: "trow_payee_account_id r = SUSPENSE_ACCOUNT_ID" "trow_amount r = cents (ip_amount ps)"
  shows "world_inv me mine credited (w\<lparr>w_bank := open_saga me r ps (w_bank w)\<rparr>)"
proof (rule inv_bank [OF inv b])
  let ?b = "open_saga me r ps (w_bank w)"
  have binv: "bank_inv (w_bank w)" using inv by (simp add: world_inv_def)
  have new: "\<not> transfer_exists (trow_id r) (w_bank w)" using fits by (simp add: row_fits_def)
  have out: "outbox ?b = outbox_add (trow_created_at r) (trow_id r) ''settlement.requested''
      SETTLEMENT_REQUESTED_ROUTING_KEY (settlement_request (trow_id r) me ps) (outbox (w_bank w))"
    by (simp add: open_saga_def)
  show "grows (w_bank w) ?b" by (rule grows_open_saga [OF binv fits])
  show "letters (outbox (w_bank w)) \<subseteq> letters (outbox ?b)" by (auto simp: out)
  show "l \<in> letters (outbox (w_bank w)) \<or> bank_letter_ok me ?b l" if "l \<in> letters (outbox ?b)" for l
    using that open_saga_letter [OF fits sus] by (auto simp: out)
  fix k st assume st: "interbank_status_of k ?b = Some st"
  show "mine k \<and> saga_agrees (w\<lparr>w_bank := ?b\<rparr>) k st"
  proof (cases "k = trow_id r")
    case True
    with st mine show ?thesis by (simp add: status_open_saga [OF binv new] saga_agrees_def)
  next
    case False
    have "uuid_in (trow_id r) = Some (trow_id r)" using fits by (simp add: row_fits_def row_ok_def)
    with False have "gone k w \<Longrightarrow> gone k (w\<lparr>w_bank := ?b\<rparr>)"
      by (auto simp: gone_def out request_roundtrip)
    moreover have "interbank_status_of k (w_bank w) = Some st" using st False by (simp add: status_open_saga [OF binv new])
    then have "mine k \<and> saga_agrees w k st" using inv by (simp add: world_inv_def)
    ultimately show ?thesis by (auto simp: saga_agrees_def split: interbank_status.splits)
  qed
qed

subsection \<open>Steps of the broker and the relays\<close>

lemma gone_fewer:
  assumes "set (w_mail w') \<union> waiting (outbox (w_bank w')) \<subseteq> set (w_mail w) \<union> waiting (outbox (w_bank w)) \<union> L"
    and "\<And>l. l \<in> L \<Longrightarrow> fst l \<noteq> SETTLEMENT_REQUESTED_ROUTING_KEY" and "gone k w"
  shows "gone k w'"
  using assms unfolding gone_def by blast

lemma saga_agrees_gone:
  assumes "gone k w \<Longrightarrow> gone k w'" and "w_hub w' = w_hub w" and "saga_agrees w k st"
  shows "saga_agrees w' k st"
  using assms by (auto simp: saga_agrees_def split: interbank_status.splits)

lemma inv_mail: "world_inv me mine credited w \<Longrightarrow> set ls \<subseteq> set (w_mail w) \<Longrightarrow> world_inv me mine credited (w\<lparr>w_mail := ls\<rparr>)"
proof -
  assume inv: "world_inv me mine credited w" and ls: "set ls \<subseteq> set (w_mail w)"
  have "saga_agrees (w\<lparr>w_mail := ls\<rparr>) k st" if "saga_agrees w k st" for k st
    by (rule saga_agrees_gone [OF gone_fewer [of _ w "{}"] _ that]) (use ls in auto)
  with inv ls show ?thesis by (auto simp: world_inv_def)
qed

lemma inv_bank_relay:
  assumes inv: "world_inv me mine credited w"
    and t: "tick publish commit locked now (outbox (w_bank w)) = (res, ob, sent)"
  shows "world_inv me mine credited (w\<lparr>w_bank := (w_bank w)\<lparr>outbox := ob\<rparr>, w_mail := w_mail w @ map envelope sent\<rparr>)"
    (is "world_inv me mine credited ?w")
proof -
  note l = tick_letters [OF t]
  have "outbox_ok ob"
    using tick_ok [of "outbox (w_bank w)" publish commit locked now] t world_invD(1) [OF inv] by (simp add: bank_inv_def)
  then have b: "bank_inv (w_bank ?w)" using bank_inv_outbox [OF world_invD(1) [OF inv]] by simp
  have g: "grows (w_bank w) (w_bank ?w)" using grows_accounts_outbox(1) by simp
  have mail: "set (w_mail ?w) \<subseteq> letters ob \<union> letters (hub_outbox (w_hub w))"
    using world_invD(3) [OF inv] l waiting_letters [of "outbox (w_bank w)"] by auto
  have agree: "saga_agrees ?w k st" if "saga_agrees w k st" for k st
    by (rule saga_agrees_gone [OF gone_fewer [of _ w "{}"] _ that]) (use l in auto)
  show ?thesis
    unfolding world_inv_def
  proof (intro conjI allI impI ballI)
    fix k st assume "interbank_status_of k (w_bank ?w) = Some st"
    then have "interbank_status_of k (w_bank w) = Some st" by (simp add: interbank_status_of_def)
    from world_invD(7) [OF inv this] agree show "mine k" "saga_agrees ?w k st" by blast+
  next
    fix k r assume "find_settlement k (w_hub ?w) = Some r"
    then show "settlement_agrees me mine credited (w_bank ?w) r"
      using settlement_agrees_grows [OF g] world_invD(6) [OF inv] by simp
  next
    fix x assume "x \<in> letters (outbox (w_bank ?w))"
    then show "bank_letter_ok me (w_bank ?w) x"
      using bank_letter_grows [OF g] world_invD(4) [OF inv] l(1) by simp
  qed (use b mail world_invD [OF inv] in simp_all)
qed

subsection \<open>Steps of the Hub\<close>

lemma inv_hub:
  assumes inv: "world_inv me mine credited w" and h: "hub_inv h" "hub_grows (w_hub w) h"
    and old: "letters (hub_outbox (w_hub w)) \<subseteq> letters (hub_outbox h)"
    and fresh: "\<And>l. l \<in> letters (hub_outbox h) \<Longrightarrow> l \<in> letters (hub_outbox (w_hub w)) \<or> hub_letter_ok h l"
    and agree: "\<And>k r. find_settlement k h = Some r \<Longrightarrow> settlement_agrees me mine credited (w_bank w) r"
    and late: "\<And>k. find_settlement k h \<noteq> None \<Longrightarrow> find_settlement k (w_hub w) = None \<Longrightarrow> mine k \<Longrightarrow> \<not> gone k w"
  shows "world_inv me mine credited (w\<lparr>w_hub := h\<rparr>)"
proof -
  have gone: "gone k (w\<lparr>w_hub := h\<rparr>) = gone k w" for k by (simp add: gone_def)
  have "hub_letter_ok h l" if "l \<in> letters (hub_outbox h)" for l
    using fresh [OF that] world_invD(5) [OF inv] hub_letter_grows [OF h(2)] by blast
  moreover have "mine k \<and> saga_agrees (w\<lparr>w_hub := h\<rparr>) k st" if st: "interbank_status_of k (w_bank w) = Some st" for k st
  proof -
    have m: "mine k" and a: "saga_agrees w k st" using world_invD(7) [OF inv st] by auto
    have row: "\<exists>r'. find_settlement k h = Some r' \<and> st_status r' = st_status r"
      if "find_settlement k (w_hub w) = Some r" "st_status r \<noteq> HPENDING" for r
      using hub_grows_row [OF h(2) that(1)] that(2) by metis
    have "saga_agrees (w\<lparr>w_hub := h\<rparr>) k st"
    proof (cases st)
      case DEBITED
      then show ?thesis by (simp add: saga_agrees_def)
    next
      case CONFIRMED
      with a row show ?thesis by (fastforce simp: saga_agrees_def)
    next
      case COMPENSATED
      with a late [of k] m row show ?thesis by (fastforce simp: saga_agrees_def gone)
    qed
    with m show ?thesis by blast
  qed
  ultimately show ?thesis
    using world_invD(1,3,4) [OF inv] h(1) old agree by (auto simp: world_inv_def)
qed

lemma inv_hub_relay:
  assumes inv: "world_inv me mine credited w"
    and t: "tick publish commit locked now (hub_outbox (w_hub w)) = (res, ob, sent)"
  shows "world_inv me mine credited (w\<lparr>w_hub := (w_hub w)\<lparr>hub_outbox := ob\<rparr>, w_mail := w_mail w @ map envelope sent\<rparr>)"
proof -
  let ?h = "(w_hub w)\<lparr>hub_outbox := ob\<rparr>"
  note l = tick_letters [OF t]
  have "outbox_ok ob"
    using tick_ok [of "hub_outbox (w_hub w)" publish commit locked now] t world_invD(2) [OF inv] by (simp add: hub_inv_def)
  then have h: "hub_inv ?h" by (rule hub_inv_outbox [OF world_invD(2) [OF inv]])
  have same: "find_settlement k ?h = find_settlement k (w_hub w)" for k by (simp add: find_settlement_def)
  have inv': "world_inv me mine credited (w\<lparr>w_hub := ?h\<rparr>)"
    by (rule inv_hub [OF inv h hub_grows_frame(1)]) (use l(1) world_invD(6) [OF inv] same in auto)
  have sent: "envelope ` set sent \<subseteq> letters (hub_outbox (w_hub w))"
    using l(3) waiting_letters by blast
  then have key: "fst x \<noteq> SETTLEMENT_REQUESTED_ROUTING_KEY" if "x \<in> envelope ` set sent" for x
    using world_invD(5) [OF inv] that hub_letter_key by blast
  let ?w = "w\<lparr>w_hub := ?h, w_mail := w_mail w @ map envelope sent\<rparr>"
  have "saga_agrees ?w k st" if "saga_agrees (w\<lparr>w_hub := ?h\<rparr>) k st" for k st
    by (rule saga_agrees_gone [OF gone_fewer [of _ "w\<lparr>w_hub := ?h\<rparr>" "envelope ` set sent"] _ that]) (use key in auto)
  moreover have "set (w_mail ?w) \<subseteq> letters (outbox (w_bank w)) \<union> letters ob"
    using world_invD(3) [OF inv] sent l(1) by auto
  ultimately show ?thesis using inv' by (auto simp: world_inv_def)
qed

text \<open>A settlement of Bank A comes from one of its letters, and so has the terms of its saga.\<close>

lemma requested_agrees:
  assumes inv: "world_inv me mine credited w" and req: "requested mine w ev"
    and k: "uuid_in (rq_settlementId ev) = Some k" and n: "js_integer (rq_amountCents ev) = Some n" and m: "mine k"
  shows "matches me (w_bank w) k (rq_payerBankId ev) (rq_payeeBankId ev) (rq_payeeAccountRef ev) n \<and> \<not> gone k w"
proof -
  from req k m obtain j where j: "(SETTLEMENT_REQUESTED_ROUTING_KEY, j) \<in> set (w_mail w)" "decode_request j = Some ev"
    unfolding requested_def by blast
  have "(SETTLEMENT_REQUESTED_ROUTING_KEY, j) \<notin> letters (hub_outbox (w_hub w))"
    using world_invD(5) [OF inv] hub_letter_key by fastforce
  with j(1) world_invD(3) [OF inv] have "bank_letter_ok me (w_bank w) (SETTLEMENT_REQUESTED_ROUTING_KEY, j)"
    using world_invD(4) [OF inv] by blast
  with j k n have "matches me (w_bank w) k (rq_payerBankId ev) (rq_payeeBankId ev) (rq_payeeAccountRef ev) n"
    by (auto simp: bank_letter_ok_def)
  moreover have "\<not> gone k w" unfolding gone_def using j k by (metis UnI1 fst_conv snd_conv)
  ultimately show ?thesis by blast
qed

lemma inv_new_settlement:
  assumes inv: "world_inv me mine credited w" and ch: "hub_change True (w_hub w) h"
    and req: "requested mine w ev" and k: "uuid_in (rq_settlementId ev) = Some k"
    and n: "js_integer (rq_amountCents ev) = Some n" and r: "r = requested_row now k n st reason ev"
    and st: "st = HPENDING \<or> st = HREJECTED" and new: "find_settlement k (w_hub w) = None"
    and rows: "settlements h = settlements (w_hub w) @ [r]"
    and ob: "letters (hub_outbox h) = insert l (letters (hub_outbox (w_hub w)))" and l: "hub_letter_ok h l"
  shows "world_inv me mine credited (w\<lparr>w_hub := h\<rparr>)"
proof (rule inv_hub [OF inv])
  show "hub_inv h" by (rule hub_change_inv [OF ch world_invD(2) [OF inv]])
  show "hub_grows (w_hub w) h" by (rule hub_change_grows [OF ch])
  have find: "find_settlement k' h = Some r' \<Longrightarrow> find_settlement k' (w_hub w) = Some r' \<or> k' = k \<and> r' = r" for k' r'
    by (auto simp: find_settlement_def rows find_append r split: option.splits if_splits)
  fix k' assume "find_settlement k' h \<noteq> None" "find_settlement k' (w_hub w) = None" "mine k'"
  with find requested_agrees [OF inv req k n] show "\<not> gone k' w" by fastforce
next
  fix k' r' assume "find_settlement k' h = Some r'"
  then have "find_settlement k' (w_hub w) = Some r' \<or> k' = k \<and> r' = r"
    by (auto simp: find_settlement_def rows find_append r split: option.splits if_splits)
  then show "settlement_agrees me mine credited (w_bank w) r'"
    using world_invD(6) [OF inv] requested_agrees [OF inv req k n] st
    by (auto simp: settlement_agrees_def r)
qed (use ob l in auto)

lemma inv_request_rejected:
  assumes inv: "world_inv me mine credited w" and req: "requested mine w ev"
    and run: "reject_tx now ev (w_hub w) = Inr (u, h)"
  shows "world_inv me mine credited (w\<lparr>w_hub := h\<rparr>)"
  using run
proof (cases rule: reject_tx_Inr)
  case (known k)
  with inv show ?thesis by simp
next
  case (fresh k n r)
  have ch: "hub_change True (w_hub w) h" by (rule reject_tx_change [OF run])
  let ?l = "(settlementOutcomeRoutingKey (st_payer_bank_id r),
      outcome_payload k (Some (JStr ''REJECTED'')) (Some (JStr UNKNOWN_PAYEE_BANK)))"
  have ok: "uuid_ok k" using uuid_in_ok [OF fresh(1)] .
  have "find_settlement k h = Some r"
    using fresh(3,4) by (simp add: fresh(6) reject_settlement_def find_settlement_def find_append)
  then have "hub_letter_ok h (settlementOutcomeRoutingKey (st_payer_bank_id r),
      outcome_payload k (Some (JStr ''REJECTED'')) (Some (JStr UNKNOWN_PAYEE_BANK)))"
    by (rule hub_letter_outcome) (use ok in \<open>simp_all add: decided_def fresh(3)\<close>)
  moreover have "settlements h = settlements (w_hub w) @ [r]"
    "letters (hub_outbox h) = insert ?l (letters (hub_outbox (w_hub w)))"
    using fresh(3) by (simp_all add: fresh(6) reject_settlement_def)
  ultimately show ?thesis
    using inv_new_settlement [OF inv ch req fresh(1,2,3) _ fresh(4)] by blast
qed

lemma inv_request_accepted:
  assumes inv: "world_inv me mine credited w" and req: "requested mine w ev"
    and ex: "bank_exists (rq_payeeBankId ev) (w_hub w)"
    and run: "accept_tx now occurredAt ev (w_hub w) = Inr (u, h)"
  shows "world_inv me mine credited (w\<lparr>w_hub := h\<rparr>)"
  using ex run
proof (cases rule: accept_tx_Inr)
  case (known k)
  with inv show ?thesis by simp
next
  case (fresh k n r)
  have ch: "hub_change True (w_hub w) h" by (rule accept_tx_change [OF ex run])
  define l where "l = (settlementNotifyRoutingKey (st_payee_bank_id r),
      notify_payload \<lparr>stl_id = rq_settlementId ev, stl_payerBankId = st_payer_bank_id r,
        stl_payeeBankId = st_payee_bank_id r, stl_payeeAccountRef = st_payee_account_ref r,
        stl_amount = Money (st_amount r)\<rparr> occurredAt)"
  have "hub_letter_ok h l" by (auto simp: hub_letter_ok_def l_def)
  moreover have "settlements h = settlements (w_hub w) @ [r]"
    "letters (hub_outbox h) = insert l (letters (hub_outbox (w_hub w)))"
    by (simp_all add: fresh(6) accept_settlement_def l_def)
  ultimately show ?thesis
    using inv_new_settlement [OF inv ch req fresh(1,2,3) _ fresh(4)] by blast
qed

lemma find_marked:
  assumes "find_settlement k (update_pending st x i s) = Some r2"
  shows "\<exists>r1. find_settlement k s = Some r1 \<and> same_terms r1 r2 \<and>
    (st_status r2 = st_status r1 \<or> st_id r1 = i \<and> st_status r1 = HPENDING \<and> st_status r2 = st)"
  using assms by (auto simp: find_update_pending same_terms_def split: if_splits)

lemma settlement_agrees_marked:
  assumes "settlement_agrees me mine credited b r1" and "same_terms r1 r2"
    and "st_status r2 = st_status r1 \<or> st_id r1 = i \<and> st_status r2 = st"
    and "st = HCONFIRMED \<Longrightarrow> credited i" and "st = HREVERSED \<Longrightarrow> \<not> credited i"
  shows "settlement_agrees me mine credited b r2"
  using assms by (auto simp: settlement_agrees_def same_terms_def)

lemma inv_reply:
  assumes inv: "world_inv me mine credited w"
    and r: "st_status r = HPENDING" "find_settlement (st_id r) (w_hub w) = Some r'" "same_terms r r'" "st_status r' \<noteq> HREJECTED"
    and out: "rp_outcome ev = Some (JStr ''CONFIRMED'') \<longleftrightarrow> credited (st_id r)"
    and run: "reply_tx pg_text now (toSettlementRecord r) ev (w_hub w) = Inr (u, h)"
  shows "world_inv me mine credited (w\<lparr>w_hub := h\<rparr>)"
proof -
  let ?st = "if credited (st_id r) then HCONFIRMED else HREVERSED"
  have hinv: "hub_inv (w_hub w)" by (rule world_invD(2) [OF inv])
  have rev: "reversible r (w_hub w)"
    by (rule same_terms_reversible [OF r(3) pending_reversible [OF hinv r(2,4)]])
  have h: "h = (if credited (st_id r) then confirm_settlement now r ev (w_hub w)
      else reverse_settlement pg_text now r ev (w_hub w))"
    using run out by (simp add: reply_tx_ok [OF rev])
  have "hub_step True (w_hub w) h" by (rule hub_step.reply [OF r _ run]) simp
  then have ch: "hub_change True (w_hub w) h" by (rule hub_step_change [OF _ hinv])
  define x where "x = (now, if credited (st_id r) then None else Some (reply_reason pg_text (rp_reason ev)))"
  have "settlements h = settlements (update_pending ?st x (st_id r) (w_hub w))"
    by (simp add: h x_def confirm_settlement_def reverse_settlement_def update_pending_def add_reserves_def)
  then have find: "find_settlement k h = find_settlement k (update_pending ?st x (st_id r) (w_hub w))" for k
    by (simp add: find_settlement_def)
  show ?thesis
  proof (rule inv_hub [OF inv hub_change_inv [OF ch hinv] hub_change_grows [OF ch]])
    let ?l = "(settlementOutcomeRoutingKey (st_payer_bank_id r), outcome_payload (st_id r) (rp_outcome ev) (rp_reason ev))"
    have l: "letters (hub_outbox h) = insert ?l (letters (hub_outbox (w_hub w)))"
      by (simp add: h confirm_settlement_def reverse_settlement_def tell_payer_def update_pending_def add_reserves_def)
    then show "letters (hub_outbox (w_hub w)) \<subseteq> letters (hub_outbox h)" by blast
    have "st_status r' = HPENDING \<or> st_status r' = ?st"
      using world_invD(6) [OF inv r(2)] r(3,4) by (cases "st_status r'") (auto simp: settlement_agrees_def same_terms_def)
    then obtain r2 where r2: "find_settlement (st_id r) h = Some r2" "same_terms r r2" "st_status r2 = ?st"
      using r(2,3) by (auto simp: find find_update_pending same_terms_def)
    have "hub_letter_ok h ?l"
      by (rule hub_letter_outcome [OF r2(1)])
        (use r2(2,3) out rev in \<open>simp_all add: decided_def same_terms_def reversible_def\<close>)
    then show "l' \<in> letters (hub_outbox h) \<Longrightarrow> l' \<in> letters (hub_outbox (w_hub w)) \<or> hub_letter_ok h l'" for l'
      unfolding l by auto
  next
    fix k r2 assume "find_settlement k h = Some r2"
    then have "find_settlement k (update_pending ?st x (st_id r) (w_hub w)) = Some r2" by (simp only: find)
    from find_marked [OF this] obtain r1 where r1: "find_settlement k (w_hub w) = Some r1" "same_terms r1 r2"
      "st_status r2 = st_status r1 \<or> st_id r1 = st_id r \<and> st_status r2 = ?st" by blast
    show "settlement_agrees me mine credited (w_bank w) r2"
      by (rule settlement_agrees_marked [OF world_invD(6) [OF inv r1(1)] r1(2,3)]) (simp_all split: if_splits)
  next
    fix k assume "find_settlement k h \<noteq> None" "find_settlement k (w_hub w) = None"
    then show "\<not> gone k w" by (simp add: find find_update_pending)
  qed
qed

subsection \<open>All steps\<close>

lemma inv_bank_no_saga:
  assumes inv: "world_inv me mine credited w" and step: "bank_step (w_bank w) b"
    and same: "outbox b = outbox (w_bank w)" "interbank_transfers b = interbank_transfers (w_bank w)"
  shows "world_inv me mine credited (w\<lparr>w_bank := b\<rparr>)"
  using bank_step_ok [OF step world_invD(1) [OF inv]] status_cong [OF same(2)]
  by (intro inv_bank_quiet [OF inv _ _ same(1)]) simp_all

lemma inv_interbank:
  assumes inv: "world_inv me mine credited w" and uuid: "uuid_ok uuid" "mine uuid" and m: "money_ok (ip_amount ps)"
    and c: "Transfer_create uuid (ip_payerAccountId ps) SUSPENSE_ACCOUNT_ID (ip_amount ps) = Inr tr"
    and run: "interbank_tx (Inr me) now tr key ps (w_bank w) = Inr (r, b)"
  shows "world_inv me mine credited (w\<lparr>w_bank := b\<rparr>)"
proof -
  have tr: "tr_id tr = uuid" "tr_payeeAccountId tr = SUSPENSE_ACCOUNT_ID" "tr_amount tr = ip_amount ps"
    using c by (auto simp: Transfer_create_Inr)
  from interbank_tx_Inr [OF world_invD(1) [OF inv] created_ok [OF c uuid(1) m] tr(2) run] show ?thesis
  proof cases
    case 1
    with inv show ?thesis by simp
  next
    case (2 p me')
    let ?r = "new_saga_row now tr key p"
    have sel: "trow_id ?r = uuid" "trow_payee_account_id ?r = SUSPENSE_ACCOUNT_ID" "trow_amount ?r = cents (ip_amount ps)"
      "trow_payer_account_id ?r = p" by (simp_all add: new_saga_row_def tr)
    have "bank_inv (open_saga me ?r ps (w_bank w))"
      by (rule bank_inv_open_saga [OF world_invD(1) [OF inv] 2(5)])
        (use 2(6) sel in \<open>simp_all add: tr\<close>)
    with inv_send [OF inv, of ?r ps] uuid 2 sel show ?thesis by simp
  qed
qed

lemma inv_refund:
  assumes inv: "world_inv me mine credited w" and told: "told_by_letter me w i outcome \<or> told_by_hub w i outcome"
    and out: "outcome \<noteq> Some (JStr ''CONFIRMED'')" and uuid: "uuid_ok uuid"
    and ib: "InterbankRepository_findById i (w_bank w) = Inr (Some interbank)"
    and orig: "TransferRepository_findById i (w_bank w) = Inr (Some original)"
    and c: "Transfer_create uuid SUSPENSE_ACCOUNT_ID (rec_payerAccountId original) (rec_amount original) = Inr tr"
    and run: "compensate_tx now tr i (w_bank w) = Inr (u, b)"
  shows "world_inv me mine credited (w\<lparr>w_bank := b\<rparr>)"
proof -
  have binv: "bank_inv (w_bank w)" by (rule world_invD(1) [OF inv])
  from compensation_cases [OF binv uuid ib orig c run] show ?thesis
  proof cases
    case (1 k)
    from told_agrees [OF inv 1(1) told] out have "saga_agrees w k COMPENSATED" by simp
    with inv_bank_marked [OF inv binv] 1(2) show ?thesis by simp
  next
    case (2 k r)
    from told_agrees [OF inv 2(1) told] out have agree: "saga_agrees w k COMPENSATED" by simp
    have "bank_inv (post (refund_row uuid now i r) (w_bank w))"
      by (rule bank_inv_post [OF binv 2(3)]) (simp add: system_account_def)
    from inv_bank_marked [OF inv this grows_post _ _ agree] 2(4) show ?thesis by simp
  qed
qed

lemma world_step_inv:
  assumes step: "world_step me mine credited w w'" and inv: "world_inv me mine credited w"
  shows "world_inv me mine credited w'"
  using step
proof cases
  case (open_account uuid now name a b)
  have "bank_step (w_bank w) b" by (rule bank_step.open_account [OF open_account(2,3)])
  with open_account show ?thesis by (auto simp: AccountRepository_create_Inr intro: inv_bank_no_saga [OF inv])
next
  case (local_transfer uuid m p q tr now key r b)
  have "bank_step (w_bank w) b" by (rule bank_step.local_transfer [OF local_transfer(2-5)])
  moreover from execute_tx_Inr [OF created_ok [OF local_transfer(4,2,3)] local_transfer(5)]
  have "outbox b = outbox (w_bank w) \<and> interbank_transfers b = interbank_transfers (w_bank w)" by cases auto
  ultimately show ?thesis unfolding local_transfer(1) by (blast intro: inv_bank_no_saga [OF inv])
next
  case (seed uuid m now a u b)
  have "bank_step (w_bank w) b" by (rule bank_step.seed [OF seed(2-4)])
  moreover from devSeed_tx_Inr [OF world_invD(1) [OF inv] seed(2-4)]
  have "outbox b = outbox (w_bank w) \<and> interbank_transfers b = interbank_transfers (w_bank w)" by cases auto
  ultimately show ?thesis unfolding seed(1) by (blast intro: inv_bank_no_saga [OF inv])
next
  case (send uuid ps tr now key r b)
  show ?thesis unfolding send(1) by (rule inv_interbank [OF inv send(2-6)])
next
  case (bank_relay publish commit locked now res ob sent)
  show ?thesis unfolding bank_relay(1) by (rule inv_bank_relay [OF inv bank_relay(2)])
next
  case (mail ls)
  show ?thesis unfolding mail(1) by (rule inv_mail [OF inv mail(2)])
next
  case (register now i name url x h)
  then have h: "w_hub w = h \<or> (\<exists>bs. h = (w_hub w)\<lparr>hub_banks := hub_banks (w_hub w) @ bs\<rparr>)"
    by (auto simp: BankRepository_create_def tx_simps Let_def split: if_splits)
  have "hub_step True (w_hub w) h" by (rule hub_step.register [OF register(2)])
  then have ch: "hub_change True (w_hub w) h" by (rule hub_step_change [OF _ world_invD(2) [OF inv]])
  have same: "hub_outbox h = hub_outbox (w_hub w)" "\<And>k. find_settlement k h = find_settlement k (w_hub w)"
    using h by (auto simp: find_settlement_def)
  show ?thesis unfolding register(1)
    by (rule inv_hub [OF inv hub_change_inv [OF ch world_invD(2) [OF inv]] hub_change_grows [OF ch]])
      (use world_invD(6) [OF inv] in \<open>simp_all add: same\<close>)
next
  case (request_rejected ev now u h)
  show ?thesis unfolding request_rejected(1) by (rule inv_request_rejected [OF inv request_rejected(2,3)])
next
  case (request_accepted ev now occurredAt u h)
  show ?thesis unfolding request_accepted(1) by (rule inv_request_accepted [OF inv request_accepted(2-4)])
next
  case (reply r r' ev pg_text now u h)
  show ?thesis unfolding reply(1) by (rule inv_reply [OF inv reply(2-7)])
next
  case (hub_relay publish commit locked now res ob sent)
  show ?thesis unfolding hub_relay(1) by (rule inv_hub_relay [OF inv hub_relay(2)])
next
  case (confirm i now u b)
  then obtain k where k: "uuid_in i = Some k" and b: "b = update_debited CONFIRMED now k (w_bank w)"
    by (auto simp: markConfirmed_Inr)
  from told_agrees [OF inv k confirm(2)] have "saga_agrees w k CONFIRMED" by simp
  from inv_bank_marked [OF inv world_invD(1) [OF inv] _ _ _ this] show ?thesis unfolding confirm(1) b by simp
next
  case (refund i outcome uuid interbank original tr now u b)
  show ?thesis unfolding refund(1) by (rule inv_refund [OF inv refund(2-8)])
qed

lemma world_steps_inv:
  "(world_step me mine credited)\<^sup>*\<^sup>* w w' \<Longrightarrow> world_inv me mine credited w \<Longrightarrow> world_inv me mine credited w'"
  by (induction rule: rtranclp_induct) (auto intro: world_step_inv)

end
