(* ===== verification/SagaRun.thy ===== *)
theory SagaRun
  imports SagaAgreement
begin

text \<open>
  A saga from the customer's request to its end, through the code of both services: the property
  that the two ends agree, a run of the whole round trip, and what goes wrong when a
  reconciliation is too early.
\<close>

subsection \<open>A world with a confirmed saga\<close>

definition sample_event :: requested_event where
  "sample_event = \<lparr>rq_settlementId = sample_id, rq_payerBankId = ''bank-a'', rq_payeeBankId = ''bank-b'',
     rq_payeeAccountRef = ''acc-7'', rq_amountCents = JsNum 400\<rparr>"

definition sample_letter :: "string \<times> json" where
  "sample_letter = (SETTLEMENT_REQUESTED_ROUTING_KEY, settlement_request sample_id ''bank-a'' sample_ib_params)"

definition sample_row_pending :: settlement_row where
  "sample_row_pending = requested_row 9 sample_id 400 HPENDING None sample_event"

definition sample_hub_pending :: hub_db where
  "sample_hub_pending = accept_settlement sample_id ''now'' sample_row_pending sample_hub"

definition sample_reply :: reply_event where
  "sample_reply = \<lparr>rp_settlementId = sample_id, rp_outcome = Some (JStr ''CONFIRMED''), rp_reason = None\<rparr>"

definition sample_end_world :: "outbox_table \<Rightarrow> world" where
  "sample_end_world ob = \<lparr>w_bank = update_debited CONFIRMED 11 sample_id (sample_saga_bank\<lparr>outbox := ob\<rparr>),
     w_hub = confirm_settlement 10 sample_row_pending sample_reply sample_hub_pending, w_mail = [sample_letter]\<rparr>"

lemma open_world:
  "uuid_ok k \<Longrightarrow> \<not> account_exists k (w_bank w) \<Longrightarrow> 1 \<le> length name \<Longrightarrow> length name \<le> 120 \<Longrightarrow>
   world_step me mine credited w (w\<lparr>w_bank := (w_bank w)\<lparr>accounts := accounts (w_bank w) @
     [\<lparr>acc_id = k, acc_owner_name = name, acc_created_at = now\<rparr>]\<rparr>\<rparr>)"
  by (rule world_step.open_account [of k now name]) (simp_all add: AccountRepository_create_Inr)

lemma sample_world_opened: "(world_step me mine credited)\<^sup>*\<^sup>* initial_world (initial_world\<lparr>w_bank := opened_bank\<rparr>)"
proof -
  let ?b = "migrated_bank\<lparr>accounts := accounts migrated_bank @ [\<lparr>acc_id = alice, acc_owner_name = ''Alice'', acc_created_at = 1\<rparr>]\<rparr>"
  have "\<not> account_exists alice migrated_bank" "\<not> account_exists bob ?b"
    using sample_distinct by (auto simp: account_exists_def migrated_bank_def)
  with open_world [of alice initial_world "''Alice''" me mine credited 1]
    open_world [of bob "initial_world\<lparr>w_bank := ?b\<rparr>" "''Bob''" me mine credited 1]
  have "world_step me mine credited initial_world (initial_world\<lparr>w_bank := ?b\<rparr>)"
    "world_step me mine credited (initial_world\<lparr>w_bank := ?b\<rparr>) (initial_world\<lparr>w_bank := opened_bank\<rparr>)"
    by (simp_all add: sample_uuids opened_bank_def initial_world_def)
  then show ?thesis by (meson converse_rtranclp_into_rtranclp rtranclp.rtrancl_refl)
qed

lemma sample_seed_tx: "devSeed_tx (trow_id seed_row) 1 alice (Money 1000) opened_bank = Inr ((), sample_bank)"
proof -
  have "alice \<noteq> DEV_TREASURY_ACCOUNT_ID" using sample_distinct by auto
  moreover have "seed_row_for (trow_id seed_row) 1 alice 1000 = seed_row"
    by (simp add: seed_row_for_def seed_row_def)
  moreover have "transfers opened_bank = []" by (simp add: opened_bank_def migrated_bank_def)
  ultimately show ?thesis
    using devSeed_tx_ok [OF opened_inv sample_uuids(3), of "Money 1000" alice alice 1]
    by (simp add: money_ok_def safe_int_def MAX_SAFE_INTEGER_def sample_uuids sample_bank_def transfer_exists_def
        key_taken_def)
qed

lemma sample_money: "money_ok (Money 1000)"
  by (simp add: money_ok_def safe_int_def MAX_SAFE_INTEGER_def)

lemma sample_seed_create: "Transfer_create (trow_id seed_row) DEV_TREASURY_ACCOUNT_ID alice (Money 1000) = Inr
    \<lparr>tr_id = trow_id seed_row, tr_payerAccountId = DEV_TREASURY_ACCOUNT_ID, tr_payeeAccountId = alice, tr_amount = Money 1000\<rparr>"
  using sample_distinct by (auto simp: Transfer_create_Inr)

lemma sample_world_sent:
  assumes "mine sample_id"
  shows "(world_step ''bank-a'' mine credited)\<^sup>*\<^sup>* initial_world
    \<lparr>w_bank = sample_saga_bank, w_hub = sample_hub, w_mail = []\<rparr>"
proof -
  let ?S = "world_step ''bank-a'' mine credited"
  let ?w = "\<lambda>b h. \<lparr>w_bank = b, w_hub = h, w_mail = []\<rparr>"
  let ?a = "\<lparr>bk_id = ''bank-a'', bk_name = ''Bank A'', bk_base_url = ''http://a'', bk_created_at = 1\<rparr>"
  let ?h = "migrated_hub\<lparr>hub_banks := [?a]\<rparr>"
  have "?S\<^sup>*\<^sup>* initial_world (?w opened_bank migrated_hub)"
    using sample_world_opened by (simp add: initial_world_def)
  also have "?S (?w opened_bank migrated_hub) (?w sample_bank migrated_hub)"
    using world_step.seed [of "trow_id seed_row" "Money 1000" 1 alice "?w opened_bank migrated_hub" "()" sample_bank]
      sample_uuids sample_money sample_seed_tx by simp
  also have "?S (?w sample_bank migrated_hub) (?w sample_saga_bank migrated_hub)"
    using world_step.send [where uuid = sample_id and ps = sample_ib_params and tr = sample_ib_transfer and
        now = 7 and key = "''k2''" and w = "?w sample_bank migrated_hub" and me = "''bank-a''" and mine = mine]
      sample_id_ok assms sample_ib_ok sample_ib_create sample_saga_tx by simp
  also have "?S (?w sample_saga_bank migrated_hub) (?w sample_saga_bank ?h)"
    using world_step.register [of 1 "''bank-a''" "''Bank A''" "''http://a''" "?w sample_saga_bank migrated_hub" _ ?h]
    by (simp add: BankRepository_create_def bank_exists_def migrated_hub_def Let_def)
  also have "?S (?w sample_saga_bank ?h) (?w sample_saga_bank sample_hub)"
    using world_step.register [of 2 "''bank-b''" "''Bank B''" "''http://b''" "?w sample_saga_bank ?h" _ sample_hub]
    by (simp add: BankRepository_create_def bank_exists_def migrated_hub_def sample_hub_def Let_def)
  finally show ?thesis .
qed

lemma sample_request_tx: "accept_tx 9 ''now'' sample_event sample_hub = Inr ((), sample_hub_pending)"
proof -
  have id: "uuid_in (rq_settlementId sample_event) = Some sample_id" using sample_id_ok by (simp add: sample_event_def)
  have n: "isSafeInteger (rq_amountCents sample_event)" "js_integer (rq_amountCents sample_event) = Some 400"
    by (simp_all add: sample_event_def isSafeInteger_def safe_int_def MAX_SAFE_INTEGER_def)
  have ex: "bank_exists (rq_payeeBankId sample_event) sample_hub" by (simp add: sample_event_def sample_hub_facts)
  show ?thesis
    using sample_hub_facts(2,4)
    by (simp add: accept_tx_ok [OF id n ex] request_fits_def sample_hub_pending_def sample_row_pending_def)
      (simp add: sample_event_def)
qed

lemma sample_pending_row_found: "find_settlement sample_id sample_hub_pending = Some sample_row_pending"
  using sample_hub_facts(4)
  by (auto simp: sample_hub_pending_def accept_settlement_def find_settlement_def find_append sample_row_pending_def)

lemma sample_world_end:
  assumes "mine sample_id" and cred: "credited sample_id"
  obtains ob where "(world_step ''bank-a'' mine credited)\<^sup>*\<^sup>* initial_world (sample_end_world ob)"
proof -
  let ?S = "world_step ''bank-a'' mine credited"
  let ?w0 = "\<lparr>w_bank = sample_saga_bank, w_hub = sample_hub, w_mail = []\<rparr>"
  let ?h = "confirm_settlement 10 sample_row_pending sample_reply sample_hub_pending"
  obtain res ob sent where tick: "tick (\<lambda>_. True) True [] 8 (outbox sample_saga_bank) = (res, ob, sent)" by (metis prod_cases3)
  have "unpublished (outbox sample_bank) = []"
    by (simp add: sample_bank_def opened_bank_def migrated_bank_def unpublished_def empty_outbox_def)
  then have "unpublished (outbox sample_saga_bank) = unpublished (outbox_add 7 sample_id ''settlement.requested''
      SETTLEMENT_REQUESTED_ROUTING_KEY (settlement_request sample_id ''bank-a'' sample_ib_params) (outbox sample_bank))"
    by (simp add: sample_saga_bank_def open_saga_def sample_ib_row_def)
  then have "map envelope sent = [sample_letter]"
    using tick_all(2) [OF _ tick] sample_saga_facts(1) \<open>unpublished (outbox sample_bank) = []\<close>
    by (simp add: bank_inv_def unpublished_add letter_def sample_letter_def BATCH_SIZE_def)
  let ?w1 = "\<lparr>w_bank = sample_saga_bank\<lparr>outbox := ob\<rparr>, w_hub = sample_hub, w_mail = [sample_letter]\<rparr>"
  let ?w2 = "?w1\<lparr>w_hub := sample_hub_pending\<rparr>" and ?w3 = "?w1\<lparr>w_hub := ?h\<rparr>"
  from \<open>map envelope sent = [sample_letter]\<close> world_step.bank_relay [of "\<lambda>_. True" True "[]" 8 ?w0 res ob sent "''bank-a''" mine credited] tick
  have s1: "?S ?w0 ?w1"
    by simp
  have req: "requested mine ?w1 sample_event"
    by (auto simp: requested_def sample_letter_def request_roundtrip sample_event_def sample_ib_params_def)
  have s2: "?S ?w1 ?w2"
    using world_step.request_accepted [OF req] sample_request_tx sample_hub_facts
    by (simp add: sample_event_def)
  have row: "st_status sample_row_pending = HPENDING" "st_id sample_row_pending = sample_id"
    by (simp_all add: sample_row_pending_def)
  have "hub_inv sample_hub_pending"
    using hub_change_inv [OF accept_tx_change [OF _ sample_request_tx] sample_hub_facts(1)] sample_hub_facts
    by (simp add: sample_event_def)
  then have rev: "reversible sample_row_pending sample_hub_pending"
    using pending_reversible sample_pending_row_found row by simp
  have s3: "?S ?w2 ?w3"
    using world_step.reply [of sample_row_pending ?w2 sample_row_pending sample_reply credited "\<lambda>_. []" 10 "()" ?h]
      row sample_pending_row_found cred reply_tx_ok [OF rev, of "\<lambda>_. []" 10 sample_reply]
    by (simp add: sample_reply_def)
  have "settlement_status_of sample_id ?h = Some HCONFIRMED"
    using row sample_pending_row_found by (subst status_confirm) (simp add: settlement_status_of_def)
  then obtain r where "find_settlement sample_id ?h = Some r" "st_status r = HCONFIRMED"
    by (auto simp: settlement_status_of_def)
  then have told: "told_by_hub ?w3 sample_id (Some (JStr ''CONFIRMED''))"
    using sample_id_ok
    by (auto simp: told_by_hub_def settlement_get_known hub_verdict status_text_def intro!: exI)
  have s4: "?S ?w3 (sample_end_world ob)"
    using world_step.confirm [OF disjI2 [OF told], of 11 "()" "update_debited CONFIRMED 11 sample_id (w_bank ?w3)"]
      sample_id_ok by (simp add: markConfirmed_Inr sample_end_world_def)
  have "?S\<^sup>*\<^sup>* initial_world ?w0" by (rule sample_world_sent [of mine, OF assms(1)])
  with s1 s2 s3 s4 have "?S\<^sup>*\<^sup>* initial_world (sample_end_world ob)" by (meson rtranclp.rtrancl_into_rtrancl)
  then show thesis by (rule that)
qed

subsection \<open>The two ends agree\<close>

lemma world_step_bank: "world_step me mine credited w w' \<Longrightarrow> w_bank w' = w_bank w \<or> bank_step (w_bank w) (w_bank w')"
  by (induction rule: world_step.induct) (auto intro: bank_step.intros)

lemma world_steps_grow:
  assumes "(world_step me mine credited)\<^sup>*\<^sup>* w w'" and "bank_inv (w_bank w)"
  shows "bank_inv (w_bank w') \<and> grows (w_bank w) (w_bank w')"
  using assms
proof (induction rule: rtranclp_induct)
  case (step y z)
  then show ?case using world_step_bank [OF step(2)] bank_step_ok [of "w_bank y" "w_bank z"] grows_trans by metis
qed simp



subsection \<open>A round trip\<close>

text \<open>The relays of the two services over their databases (hub/src/outbox is a copy of src/outbox).\<close>

definition bank_tick ::
  "(outbox_event \<Rightarrow> bool) \<Rightarrow> bool \<Rightarrow> nat list \<Rightarrow> int \<Rightarrow> bank_db \<Rightarrow> (relay_error + nat) \<times> bank_db \<times> outbox_event list" where
  "bank_tick publish commit locked now b =
     (case tick publish commit locked now (outbox b) of (r, ob, sent) \<Rightarrow> (r, b\<lparr>outbox := ob\<rparr>, sent))"

definition hub_tick ::
  "(outbox_event \<Rightarrow> bool) \<Rightarrow> bool \<Rightarrow> nat list \<Rightarrow> int \<Rightarrow> hub_db \<Rightarrow> (relay_error + nat) \<times> hub_db \<times> outbox_event list" where
  "hub_tick publish commit locked now h =
     (case tick publish commit locked now (hub_outbox h) of (r, ob, sent) \<Rightarrow> (r, h\<lparr>hub_outbox := ob\<rparr>, sent))"

text \<open>The scheduled handlers drop the result of a tick. One undisturbed run of each:\<close>

definition bank_cycle :: "int \<Rightarrow> bank_db \<Rightarrow> outbox_event list \<times> bank_db" where
  "bank_cycle now b = (case bank_tick (\<lambda>_. True) True [] now b of (_, b', sent) \<Rightarrow> (sent, b'))"

definition hub_cycle :: "int \<Rightarrow> hub_db \<Rightarrow> outbox_event list \<times> hub_db" where
  "hub_cycle now h = (case hub_tick (\<lambda>_. True) True [] now h of (_, h', sent) \<Rightarrow> (sent, h'))"

text \<open>The broker hands a letter to the consumer whose queue is bound to its routing key.\<close>

definition hub_receives :: "(json \<Rightarrow> hub_db \<Rightarrow> ack \<times> hub_db) \<Rightarrow> int \<Rightarrow> string \<Rightarrow> outbox_event \<Rightarrow> hub_db \<Rightarrow> hub_db" where
  "hub_receives untyped now occurredAt e h =
     (if ev_routingKey e = SETTLEMENT_REQUESTED_ROUTING_KEY
      then snd (onRequested untyped id now occurredAt (Some (ev_payload e)) h) else h)"

definition bank_receives :: "string \<Rightarrow> string \<Rightarrow> int \<Rightarrow> outbox_event \<Rightarrow> bank_db \<Rightarrow> bank_db" where
  "bank_receives me uuid now e b =
     (if ev_routingKey e = settlementOutcomeRoutingKey me
      then snd (onMessage id id uuid now (Some (ev_payload e)) b) else b)"

text \<open>
  Bank A's relay, the Hub's consumer and relay, the payee bank's reply with the content
  \<open>content\<close>, the Hub's consumer and relay, and Bank A's consumer.
\<close>

definition round_trip ::
  "string \<Rightarrow> string \<Rightarrow> (json \<Rightarrow> hub_db \<Rightarrow> ack \<times> hub_db) \<Rightarrow> (json \<Rightarrow> string) \<Rightarrow> string \<Rightarrow> int \<Rightarrow> json option \<Rightarrow>
   bank_db \<Rightarrow> hub_db \<Rightarrow> outbox_event list \<times> bank_db \<times> hub_db" where
  "round_trip me uuid untyped pg_text occurredAt now content b h =
     (let (requests, b1) = bank_cycle now b;
          (notices, h1) = hub_cycle now (fold (hub_receives untyped now occurredAt) requests h);
          (outcomes, h2) = hub_cycle now (snd (onReply pg_text id now content h1))
      in (notices, fold (bank_receives me uuid now) outcomes b1, h2))"

lemma bank_cycle_one:
  assumes "outbox_ok (outbox b)" and "unpublished (outbox b) = [r]"
  obtains ob where "bank_cycle now b = ([to_event r], b\<lparr>outbox := ob\<rparr>)" "unpublished ob = []" "outbox_ok ob"
proof -
  obtain res ob sent where t: "tick (\<lambda>_. True) True [] now (outbox b) = (res, ob, sent)" by (metis prod_cases3)
  from tick_all [OF assms(1) t] assms(2) show thesis
    by (intro that [of ob]) (simp_all add: bank_cycle_def bank_tick_def t BATCH_SIZE_def)
qed

lemma hub_cycle_one:
  assumes "outbox_ok (hub_outbox h)" and "unpublished (hub_outbox h) = [r]"
  obtains ob where "hub_cycle now h = ([to_event r], h\<lparr>hub_outbox := ob\<rparr>)" "unpublished ob = []" "outbox_ok ob"
proof -
  obtain res ob sent where t: "tick (\<lambda>_. True) True [] now (hub_outbox h) = (res, ob, sent)" by (metis prod_cases3)
  from tick_all [OF assms(1) t] assms(2) show thesis
    by (intro that [of ob]) (simp_all add: hub_cycle_def hub_tick_def t BATCH_SIZE_def)
qed

text \<open>The Hub's half of the trip, from Bank A's letter to its own.\<close>

lemma hub_half:
  assumes inv: "hub_inv h" and idle: "unpublished (hub_outbox h) = []" and k: "uuid_ok k"
    and m: "money_ok (ip_amount ps)" "0 < cents (ip_amount ps)"
    and banks: "bank_exists me h" "bank_exists (ip_payeeBankId ps) h" "me \<noteq> ip_payeeBankId ps"
    and fits: "1 \<le> length (ip_payeeBankId ps)" "length (ip_payeeBankId ps) \<le> 64"
      "1 \<le> length (ip_payeeAccountRef ps)" "length (ip_payeeAccountRef ps) \<le> 255"
    and new: "find_settlement k h = None"
    and reply: "decode_reply content = Inr rep" "rp_settlementId rep = k"
    and e: "ev_routingKey e = SETTLEMENT_REQUESTED_ROUTING_KEY" "ev_payload e = settlement_request k me ps"
  obtains n h1 o1 h2 where "hub_cycle now (fold (hub_receives untyped now occurredAt) [e] h) = ([n], h1)"
    "ev_routingKey n = settlementNotifyRoutingKey (ip_payeeBankId ps)"
    "json_string ''payeeAccountRef'' (ev_payload n) = Some (ip_payeeAccountRef ps)"
    "json_number ''amountCents'' (ev_payload n) = Some (JsNum (of_int (cents (ip_amount ps))))"
    "hub_cycle now (snd (onReply pg_text id now content h1)) = ([o1], h2)"
    "ev_routingKey o1 = settlementOutcomeRoutingKey me"
    "ev_payload o1 = outcome_payload k (rp_outcome rep) (rp_reason rep)"
    "settlement_status_of k h2 = Some (if rp_outcome rep = Some (JStr ''CONFIRMED'') then HCONFIRMED else HREVERSED)"
    "\<And>x. reserve_sum x h2 = (if rp_outcome rep \<noteq> Some (JStr ''CONFIRMED'') then reserve_sum x h
       else if x = me then reserve_sum x h - cents (ip_amount ps)
       else if x = ip_payeeBankId ps then reserve_sum x h + cents (ip_amount ps) else reserve_sum x h)"
proof -
  let ?n = "cents (ip_amount ps)"
  define ev where "ev = \<lparr>rq_settlementId = k, rq_payerBankId = me, rq_payeeBankId = ip_payeeBankId ps,
      rq_payeeAccountRef = ip_payeeAccountRef ps, rq_amountCents = JsNum (of_int ?n)\<rparr>"
  define r where "r = requested_row now k ?n HPENDING None ev"
  have ev: "uuid_in (rq_settlementId ev) = Some k" "isSafeInteger (rq_amountCents ev)" "js_integer (rq_amountCents ev) = Some ?n"
    "bank_exists (rq_payeeBankId ev) h"
    using k m banks by (simp_all add: ev_def isSafeInteger_def money_ok_def)
  have sel: "st_status r = HPENDING" "st_id r = k" "st_payer_bank_id r = me" "st_payee_bank_id r = ip_payeeBankId ps"
    "st_amount r = ?n" "st_created_at r = now" by (simp_all add: r_def ev_def) (simp add: requested_row_def)
  let ?h0 = "accept_settlement k occurredAt r h"
  have acc: "accept_tx now occurredAt ev h = Inr ((), ?h0)"
    unfolding accept_tx_ok [OF ev] using m banks fits new by (simp add: request_fits_def r_def) (simp add: ev_def)
  have inv0: "hub_inv ?h0" by (rule hub_change_inv [OF accept_tx_change [OF ev(4) acc] inv])
  have "handleRequested id now occurredAt ev h = (Inr (), ?h0)"
    using ev(4) acc by (auto simp: handleRequested_def with_tx_def BankRepository_findById_def bank_exists_find)
  then have recv: "fold (hub_receives untyped now occurredAt) [e] h = ?h0"
    by (simp add: hub_receives_def e onRequested_def request_roundtrip ev_def)
  define row where "row = last (unpublished (hub_outbox ?h0))"
  have un0: "unpublished (hub_outbox ?h0) = [row]"
    by (simp add: row_def accept_settlement_def unpublished_add idle)
  obtain ob1 where c1: "hub_cycle now ?h0 = ([to_event row], ?h0\<lparr>hub_outbox := ob1\<rparr>)" "unpublished ob1 = []" "outbox_ok ob1"
    using hub_cycle_one [OF _ un0] inv0 unfolding hub_inv_def by blast
  let ?h1 = "?h0\<lparr>hub_outbox := ob1\<rparr>"
  have inv1: "hub_inv ?h1" by (rule hub_inv_outbox [OF inv0 c1(3)])
  have r1: "find_settlement k ?h1 = Some r"
    using new sel by (auto simp: find_settlement_def accept_settlement_def find_append)
  have rev: "reversible r ?h1" using pending_reversible [OF inv1 r1] sel by simp
  let ?h2 = "if rp_outcome rep = Some (JStr ''CONFIRMED'') then confirm_settlement now r rep ?h1
      else reverse_settlement pg_text now r rep ?h1"
  have rk: "uuid_in (rp_settlementId rep) = Some k" using k reply(2) by simp
  have recv2: "snd (onReply pg_text id now content ?h1) = ?h2"
    using handleReply_pending [OF rk r1 sel(1), of id pg_text now] rev by (simp add: onReply_def reply(1))
  have inv2: "outbox_ok (hub_outbox ?h2)"
    using c1(3) by (simp add: confirm_settlement_def reverse_settlement_def tell_payer_def outbox_ok_add
        update_pending_def add_reserves_def)
  define row2 where "row2 = last (unpublished (hub_outbox ?h2))"
  have un2: "unpublished (hub_outbox ?h2) = [row2]"
    by (simp add: row2_def confirm_settlement_def reverse_settlement_def tell_payer_def unpublished_add c1(2)
        update_pending_def add_reserves_def)
  obtain ob2 where c2: "hub_cycle now ?h2 = ([to_event row2], ?h2\<lparr>hub_outbox := ob2\<rparr>)"
    using hub_cycle_one [OF inv2 un2] by blast
  have row: "ob_routing_key row = settlementNotifyRoutingKey (ip_payeeBankId ps)"
    "json_string ''payeeAccountRef'' (ob_payload row) = Some (ip_payeeAccountRef ps)"
    "json_number ''amountCents'' (ob_payload row) = Some (JsNum (of_int ?n))"
    by (simp_all add: row_def accept_settlement_def unpublished_add sel notify_payload_def json_string_def json_number_def)
      (simp add: r_def requested_row_def ev_def)
  have row2: "ob_routing_key row2 = settlementOutcomeRoutingKey me"
    "ob_payload row2 = outcome_payload k (rp_outcome rep) (rp_reason rep)"
    by (simp_all add: row2_def confirm_settlement_def reverse_settlement_def tell_payer_def unpublished_add sel
        update_pending_def add_reserves_def)
  have st: "settlement_status_of k ?h1 = Some HPENDING" using r1 sel by (simp add: settlement_status_of_def)
  have "settlement_status_of k (?h2\<lparr>hub_outbox := ob2\<rparr>) = settlement_status_of k ?h2"
    by (simp add: settlement_status_of_def find_settlement_def)
  then have status: "settlement_status_of k (?h2\<lparr>hub_outbox := ob2\<rparr>) =
      Some (if rp_outcome rep = Some (JStr ''CONFIRMED'') then HCONFIRMED else HREVERSED)"
    using st sel by (simp add: status_confirm status_reverse)
  have ne: "st_payer_bank_id r \<noteq> st_payee_bank_id r" using sel banks(3) by simp
  have "reserve_sum x (?h2\<lparr>hub_outbox := ob2\<rparr>) = reserve_sum x ?h2" "reserve_sum x ?h1 = reserve_sum x ?h0" for x
    by (simp_all add: reserve_sum_def)
  then have res: "reserve_sum x (?h2\<lparr>hub_outbox := ob2\<rparr>) = (if rp_outcome rep \<noteq> Some (JStr ''CONFIRMED'') then reserve_sum x h
       else if x = me then reserve_sum x h - ?n
       else if x = ip_payeeBankId ps then reserve_sum x h + ?n else reserve_sum x h)" for x
    using ne by (simp add: reserves_confirm reserves_reverse [OF ne] reserves_accept [OF ne] sel)
  show thesis
    by (rule that [of "to_event row" ?h1 "to_event row2" "?h2\<lparr>hub_outbox := ob2\<rparr>"])
      (use recv c1(1) recv2 c2 row row2 status res in \<open>simp_all add: to_event_def\<close>)
qed

text \<open>Bank A's half: what the letter from the Hub makes of a DEBITED saga.\<close>

lemma bank_half:
  assumes inv: "bank_inv b" and leg: "saga_leg k r b" and st: "interbank_status_of k b = Some DEBITED"
    and k: "uuid_ok k" and uuid: "uuid_ok uuid" "\<not> transfer_exists uuid b" "\<not> key_taken (compensation_key k) b"
    and o1: "ev_routingKey o1 = settlementOutcomeRoutingKey me" "ev_payload o1 = outcome_payload k outcome reason"
  shows "fold (bank_receives me uuid now) [o1] b =
    (if outcome = Some (JStr ''CONFIRMED'') then update_debited CONFIRMED now k b
     else update_debited COMPENSATED now k (post (refund_row uuid now k r) b))"
  using handle_debited [of id b id k r "\<lparr>oe_settlementId = k, oe_outcome = outcome, oe_reason = reason\<rparr>" uuid now]
    assms by (simp add: bank_receives_def onMessage_def outcome_roundtrip)

lemma move_back: "p \<noteq> q \<Longrightarrow> move q p n (move p q n f) = f"
  by (auto simp: move_def fun_eq_iff)

text \<open>What an accepted request leaves behind in Bank A: the saga and the letter to the Hub.\<close>

lemma saga_start:
  assumes inv: "bank_inv b" and idle: "unpublished (outbox b) = []"
    and req: "uuid_ok uuid" "money_ok (ip_amount ps)" "\<not> key_taken key b"
    and run: "InterbankService_execute (Inr me) id id id uuid now key ps b = (Inr res, b1)"
  obtains row lrow where "rec_id (ir_transfer res) = trow_id row" "uuid_ok (trow_id row)" "bank_inv b1"
    "saga_leg (trow_id row) row b1" "interbank_status_of (trow_id row) b1 = Some DEBITED"
    "unpublished (outbox b1) = [lrow]" "ev_routingKey (to_event lrow) = SETTLEMENT_REQUESTED_ROUTING_KEY"
    "ev_payload (to_event lrow) = settlement_request (trow_id row) me ps"
    "uuid_in (ip_payerAccountId ps) = Some (trow_payer_account_id row)" "trow_amount row = cents (ip_amount ps)"
    "0 < cents (ip_amount ps)" "trow_payer_account_id row \<noteq> SUSPENSE_ACCOUNT_ID"
    "balances b1 = move (trow_payer_account_id row) SUSPENSE_ACCOUNT_ID (cents (ip_amount ps)) (balances b)"
proof -
  have free: "\<not> key_taken key (id b)" and inv': "bank_inv (id b)" using req inv by simp_all
  obtain row where row: "res = saga_result row ps" "b1 = open_saga me row ps (id b)" "row_fits (id b) row" "bank_inv b1"
    "trow_payee_account_id row = SUSPENSE_ACCOUNT_ID"
    and p: "uuid_in (ip_payerAccountId ps) = Some (trow_payer_account_id row)" "trow_amount row = cents (ip_amount ps)"
    and bal: "balances b1 = move (trow_payer_account_id row) SUSPENSE_ACCOUNT_ID (cents (ip_amount ps)) (balances (id b))"
    by (rule interbank_opened [OF inv inv' req(3) free req(1,2) run]) (rule that)
  have l: "unpublished (outbox b1) = [last (unpublished (outbox b1))]"
    "ob_routing_key (last (unpublished (outbox b1))) = SETTLEMENT_REQUESTED_ROUTING_KEY"
    "ob_payload (last (unpublished (outbox b1))) = settlement_request (trow_id row) me ps"
    by (simp_all add: row(2) open_saga_def unpublished_add idle)
  have st: "interbank_status_of (trow_id row) b1 = Some DEBITED"
    using status_open_saga [OF inv, of row] row(2,3) by (simp add: row_fits_def)
  show thesis
    by (rule that [OF _ _ row(4) _ st l(1)])
      (use row p bal l in \<open>auto simp: saga_result_def row_fits_def row_ok_def saga_leg_def to_event_def\<close>)
qed

text \<open>
  C2. The saga completes. When both outboxes are drained and both banks are registered at the
  Hub, an accepted interbank request is settled by one round trip of the letters, through the
  code of both services: the payee bank is notified with the account and the exact cents, and
  then, if it confirms, both ends are CONFIRMED, the debited amount stays in suspense and the
  amount has moved from the reserves of the payer bank to those of the payee bank; if it
  refuses, Bank A is COMPENSATED, the Hub REVERSED, and every balance and every reserve is what
  it was before the request.
\<close>
theorem saga_completes:
  assumes inv: "bank_inv b" "hub_inv h" and idle: "unpublished (outbox b) = []" "unpublished (hub_outbox h) = []"
    and req: "uuid_ok uuid" "money_ok (ip_amount ps)" "\<not> key_taken key b"
    and run: "InterbankService_execute (Inr me) id id id uuid now key ps b = (Inr res, b1)"
    and banks: "bank_exists me h" "bank_exists (ip_payeeBankId ps) h" "me \<noteq> ip_payeeBankId ps"
    and fits: "1 \<le> length (ip_payeeBankId ps)" "length (ip_payeeBankId ps) \<le> 64"
      "1 \<le> length (ip_payeeAccountRef ps)" "length (ip_payeeAccountRef ps) \<le> 255"
    and new: "find_settlement (rec_id (ir_transfer res)) h = None"
    and reply: "decode_reply content = Inr rep" "rp_settlementId rep = rec_id (ir_transfer res)"
    and fresh: "uuid_ok uuid'" "\<not> transfer_exists uuid' b1" "\<not> key_taken (compensation_key (rec_id (ir_transfer res))) b1"
    and trip: "round_trip me uuid' untyped pg_text occurredAt now' content b1 h = (notices, b2, h2)"
  shows "\<exists>p n. uuid_in (ip_payerAccountId ps) = Some p \<and> notices = [n] \<and>
    ev_routingKey n = settlementNotifyRoutingKey (ip_payeeBankId ps) \<and>
    json_string ''payeeAccountRef'' (ev_payload n) = Some (ip_payeeAccountRef ps) \<and>
    json_number ''amountCents'' (ev_payload n) = Some (JsNum (of_int (cents (ip_amount ps)))) \<and>
    (if rp_outcome rep = Some (JStr ''CONFIRMED'')
     then interbank_status_of (rec_id (ir_transfer res)) b2 = Some CONFIRMED \<and>
       settlement_status_of (rec_id (ir_transfer res)) h2 = Some HCONFIRMED \<and>
       balances b2 = move p SUSPENSE_ACCOUNT_ID (cents (ip_amount ps)) (balances b) \<and>
       (\<forall>x. reserve_sum x h2 = (if x = me then reserve_sum x h - cents (ip_amount ps)
          else if x = ip_payeeBankId ps then reserve_sum x h + cents (ip_amount ps) else reserve_sum x h))
     else interbank_status_of (rec_id (ir_transfer res)) b2 = Some COMPENSATED \<and>
       settlement_status_of (rec_id (ir_transfer res)) h2 = Some HREVERSED \<and>
       balances b2 = balances b \<and> (\<forall>x. reserve_sum x h2 = reserve_sum x h))"
proof -
  obtain row lrow where row: "rec_id (ir_transfer res) = trow_id row" "uuid_ok (trow_id row)" "bank_inv b1"
      "saga_leg (trow_id row) row b1" "interbank_status_of (trow_id row) b1 = Some DEBITED"
    and un: "unpublished (outbox b1) = [lrow]" and e: "ev_routingKey (to_event lrow) = SETTLEMENT_REQUESTED_ROUTING_KEY"
      "ev_payload (to_event lrow) = settlement_request (trow_id row) me ps"
    and p: "uuid_in (ip_payerAccountId ps) = Some (trow_payer_account_id row)" "trow_amount row = cents (ip_amount ps)"
    and pos: "0 < cents (ip_amount ps)" and ne: "trow_payer_account_id row \<noteq> SUSPENSE_ACCOUNT_ID"
    and bal: "balances b1 = move (trow_payer_account_id row) SUSPENSE_ACCOUNT_ID (cents (ip_amount ps)) (balances b)"
    by (rule saga_start [OF inv(1) idle(1) req run]) (rule that)
  define k where "k = trow_id row"
  note k = row(1,2) [folded k_def] and e = e [folded k_def]
  obtain ob where c: "bank_cycle now' b1 = ([to_event lrow], b1\<lparr>outbox := ob\<rparr>)" "outbox_ok ob"
    using bank_cycle_one [OF _ un] row(3) unfolding bank_inv_def by blast
  let ?b = "b1\<lparr>outbox := ob\<rparr>"
  have new': "find_settlement k h = None" "rp_settlementId rep = k" using new reply(2) by (simp_all add: k(1))
  obtain n h1 o1 h3 where hub: "hub_cycle now' (fold (hub_receives untyped now' occurredAt) [to_event lrow] h) = ([n], h1)"
    and n: "ev_routingKey n = settlementNotifyRoutingKey (ip_payeeBankId ps)"
      "json_string ''payeeAccountRef'' (ev_payload n) = Some (ip_payeeAccountRef ps)"
      "json_number ''amountCents'' (ev_payload n) = Some (JsNum (of_int (cents (ip_amount ps))))"
    and hub2: "hub_cycle now' (snd (onReply pg_text id now' content h1)) = ([o1], h3)"
    and o1: "ev_routingKey o1 = settlementOutcomeRoutingKey me"
      "ev_payload o1 = outcome_payload k (rp_outcome rep) (rp_reason rep)"
    and hst: "settlement_status_of k h3 = Some (if rp_outcome rep = Some (JStr ''CONFIRMED'') then HCONFIRMED else HREVERSED)"
    and hres: "\<And>x. reserve_sum x h3 = (if rp_outcome rep \<noteq> Some (JStr ''CONFIRMED'') then reserve_sum x h
       else if x = me then reserve_sum x h - cents (ip_amount ps)
       else if x = ip_payeeBankId ps then reserve_sum x h + cents (ip_amount ps) else reserve_sum x h)"
    by (rule hub_half [OF inv(2) idle(2) k(2) req(2) pos banks fits new'(1) reply(1) new'(2) e, of now' untyped occurredAt pg_text]) (rule that)
  have b: "bank_inv ?b" by (rule bank_inv_outbox [OF row(3) c(2)])
  have leg: "saga_leg k row ?b" using row(4) by (simp add: saga_leg_def k_def)
  have st: "interbank_status_of k ?b = Some DEBITED" using row(5) by (simp add: interbank_status_of_def k_def)
  have bal': "balances ?b = balances b1" by (simp add: balances_def ledger_sum_def)
  have fin: "fold (bank_receives me uuid' now') [o1] ?b =
    (if rp_outcome rep = Some (JStr ''CONFIRMED'') then update_debited CONFIRMED now' k ?b
     else update_debited COMPENSATED now' k (post (refund_row uuid' now' k row) ?b))"
    by (rule bank_half [OF b leg st k(2) fresh(1) _ _ o1])
      (use fresh(2,3) k(1) in \<open>simp_all add: transfer_exists_def key_taken_def\<close>)
  have b2: "b2 = fold (bank_receives me uuid' now') [o1] ?b" "h2 = h3" "notices = [n]"
    using trip by (simp_all add: round_trip_def c hub [simplified] hub2)
  note b2' = b2(1) [unfolded fin]
  have bst: "interbank_status_of k b2 = Some (if rp_outcome rep = Some (JStr ''CONFIRMED'') then CONFIRMED else COMPENSATED)"
    using st by (simp add: b2' status_update_debited status_cong [of "post (refund_row uuid' now' k row) ?b" ?b])
  have bbal: "balances b2 = (if rp_outcome rep = Some (JStr ''CONFIRMED'') then balances b1 else balances b)"
    using balances_post [of "refund_row uuid' now' k row" ?b] ne move_back [OF ne] bal p
    by (simp add: b2' bal')
  from p(1) n bst hst hres bbal bal b2(2,3) show ?thesis
    unfolding k(1) by (intro exI [of _ "trow_payer_account_id row"] exI [of _ n]) simp
qed

definition sample_reply_json :: json where
  "sample_reply_json = JObj [(''settlementId'', JStr sample_id), (''outcome'', JStr ''CONFIRMED'')]"

lemma sample_idle: "unpublished (outbox sample_bank) = []" "unpublished (hub_outbox sample_hub) = []"
  by (simp_all add: sample_bank_def opened_bank_def migrated_bank_def unpublished_def empty_outbox_def
      sample_hub_def migrated_hub_def)

lemma sample_reply_read: "decode_reply (Some sample_reply_json) = Inr sample_reply" "rp_settlementId sample_reply = sample_id"
  by (simp_all add: decode_reply_def sample_reply_json_def sample_reply_def json_string_def)

lemma sample_fits:
  "''bank-a'' \<noteq> ip_payeeBankId sample_ib_params" "1 \<le> length (ip_payeeBankId sample_ib_params)"
  "length (ip_payeeBankId sample_ib_params) \<le> 64" "1 \<le> length (ip_payeeAccountRef sample_ib_params)"
  "length (ip_payeeAccountRef sample_ib_params) \<le> 255" "bank_exists (ip_payeeBankId sample_ib_params) sample_hub"
  by (simp_all add: sample_ib_params_def sample_hub_facts)

theorem saga_completes_witness:
  "\<exists>b h n. round_trip ''bank-a'' sample_id2 (\<lambda>_ h. (Nack, h)) (\<lambda>_. []) ''now'' 9 (Some sample_reply_json)
       sample_saga_bank sample_hub = ([n], b, h) \<and>
     interbank_status_of sample_id b = Some CONFIRMED \<and> settlement_status_of sample_id h = Some HCONFIRMED \<and>
     reserve_sum ''bank-a'' h = - 400 \<and> reserve_sum ''bank-b'' h = 400"
proof -
  have rec: "rec_id (ir_transfer (saga_result sample_ib_row sample_ib_params)) = sample_id"
    by (simp add: saga_result_def sample_ib_row_def)
  obtain ns b h where trip: "round_trip ''bank-a'' sample_id2 (\<lambda>_ h. (Nack, h)) (\<lambda>_. []) ''now'' 9
      (Some sample_reply_json) sample_saga_bank sample_hub = (ns, b, h)" by (metis prod_cases3)
  from saga_completes [OF sample_inv sample_hub_facts(1) sample_idle sample_id_ok sample_ib_ok sample_free_key sample_saga_run
      sample_hub_facts(2) sample_fits(6,1-5) _ sample_reply_read(1) _ sample_id2_ok _ _ trip] sample_reply_read(2) sample_saga_facts sample_hub_facts
  have "\<exists>n. ns = [n] \<and> interbank_status_of sample_id b = Some CONFIRMED \<and>
      settlement_status_of sample_id h = Some HCONFIRMED \<and>
      (\<forall>x. reserve_sum x h = (if x = ''bank-a'' then reserve_sum x sample_hub - cents (ip_amount sample_ib_params)
          else if x = ip_payeeBankId sample_ib_params then reserve_sum x sample_hub + cents (ip_amount sample_ib_params)
          else reserve_sum x sample_hub))"
    unfolding rec by (auto simp: sample_reply_def)
  with trip show ?thesis using sample_hub_facts by (auto simp: sample_ib_params_def)
qed

subsection \<open>A reconciliation that is too early\<close>

text \<open>What a reconciliation does with the Hub's 404.\<close>

lemma reconcile_unknown:
  assumes url: "re_hubUrl env = Inr url" and quiet: "re_before env k = id"
    and fetch: "re_fetch env (url @ ''/settlements/'' @ k) = (case SettlementsController_get show to_iso k h of (s, x) \<Rightarrow> Response s x)"
    and new: "find_settlement k h = None" and b: "bank_inv b" "saga_leg k r b" "interbank_status_of k b = Some DEBITED"
    and k: "uuid_ok k" and uuid: "uuid_ok (re_uuid env k)" "\<not> transfer_exists (re_uuid env k) b"
      "\<not> key_taken (compensation_key k) b"
  shows "reconcileOne env k b = (Inr True, update_debited COMPENSATED (re_now env k) k
    (post (refund_row (re_uuid env k) (re_now env k) k r) b))"
proof -
  have "fst (SettlementsController_get show to_iso k h) = 404"
    by (rule settlement_get_unknown [OF _ new]) (use k in simp)
  then have "verdict_of (re_fetch env (url @ ''/settlements/'' @ k)) = Settle (Some (JStr ''REJECTED''))"
    unfolding fetch by (cases "SettlementsController_get show to_iso k h") (simp add: verdict_of_def)
  then show ?thesis
    using uuid(3) by (simp add: reconcileOne_verdict [OF url] reconcile_handle_live [OF b k uuid(1,2) quiet])
qed

text \<open>
  C23. What STALE_AFTER_MS has to rule out. If the relay of Bank A is held up (the broker is down)
  until a reconciliation asks the Hub about the transfer, the Hub's honest 404 refunds the payer;
  the request is still in the outbox, and once the relay runs again the Hub accepts it and the
  payee bank confirms it: Bank A stays COMPENSATED with every balance as before the request, the
  Hub is CONFIRMED and the reserves have moved, so the two ends disagree for good and the payee
  has been paid without the payer's money.
\<close>
theorem early_reconciliation_splits_saga:
  assumes inv: "bank_inv b" "hub_inv h" and idle: "unpublished (outbox b) = []" "unpublished (hub_outbox h) = []"
    and req: "uuid_ok uuid" "money_ok (ip_amount ps)" "\<not> key_taken key b"
    and run: "InterbankService_execute (Inr me) id id id uuid now key ps b = (Inr res, b1)"
    and banks: "bank_exists me h" "bank_exists (ip_payeeBankId ps) h" "me \<noteq> ip_payeeBankId ps"
    and fits: "1 \<le> length (ip_payeeBankId ps)" "length (ip_payeeBankId ps) \<le> 64"
      "1 \<le> length (ip_payeeAccountRef ps)" "length (ip_payeeAccountRef ps) \<le> 255"
    and k: "k = rec_id (ir_transfer res)" and new: "find_settlement k h = None"
    and env: "re_hubUrl env = Inr url" "re_before env k = id" "uuid_ok (re_uuid env k)"
      "\<not> transfer_exists (re_uuid env k) b1" "\<not> key_taken (compensation_key k) b1"
      "re_fetch env (url @ ''/settlements/'' @ k) = (case SettlementsController_get show to_iso k h of (s, x) \<Rightarrow> Response s x)"
    and rec: "reconcileOne env k b1 = (Inr changed, b2)"
    and reply: "decode_reply content = Inr rep" "rp_settlementId rep = k" "rp_outcome rep = Some (JStr ''CONFIRMED'')"
    and trip: "round_trip me uuid' untyped pg_text occurredAt now' content b2 h = (notices, b3, h3)"
  shows "interbank_status_of k b3 = Some COMPENSATED \<and> settlement_status_of k h3 = Some HCONFIRMED \<and>
    balances b3 = balances b \<and>
    (\<forall>x. reserve_sum x h3 = (if x = me then reserve_sum x h - cents (ip_amount ps)
       else if x = ip_payeeBankId ps then reserve_sum x h + cents (ip_amount ps) else reserve_sum x h))"
proof -
  obtain row lrow where row: "rec_id (ir_transfer res) = trow_id row" "uuid_ok (trow_id row)" "bank_inv b1"
      "saga_leg (trow_id row) row b1" "interbank_status_of (trow_id row) b1 = Some DEBITED"
    and un: "unpublished (outbox b1) = [lrow]" and e: "ev_routingKey (to_event lrow) = SETTLEMENT_REQUESTED_ROUTING_KEY"
      "ev_payload (to_event lrow) = settlement_request (trow_id row) me ps"
    and p: "uuid_in (ip_payerAccountId ps) = Some (trow_payer_account_id row)" "trow_amount row = cents (ip_amount ps)"
    and pos: "0 < cents (ip_amount ps)" and ne: "trow_payer_account_id row \<noteq> SUSPENSE_ACCOUNT_ID"
    and bal: "balances b1 = move (trow_payer_account_id row) SUSPENSE_ACCOUNT_ID (cents (ip_amount ps)) (balances b)"
    by (rule saga_start [OF inv(1) idle(1) req run]) (rule that)
  have kr: "trow_id row = k" using k row(1) by simp
  note row = row [unfolded kr] and e = e [unfolded kr]
  let ?refund = "refund_row (re_uuid env k) (re_now env k) k row"
  have b2: "b2 = update_debited COMPENSATED (re_now env k) k (post ?refund b1)"
    using rec reconcile_unknown [OF env(1,2,6) new row(3,4,5,2) env(3,4,5)] by simp
  have inv2: "bank_inv b2"
    unfolding b2 using refund_posted_inv [OF row(3,4) env(3) _ _ env(4)] env(5) row(2) by (simp add: bank_inv_update)
  have un2: "unpublished (outbox b2) = [lrow]" using un by (simp add: b2)
  obtain ob where c: "bank_cycle now' b2 = ([to_event lrow], b2\<lparr>outbox := ob\<rparr>)"
    using bank_cycle_one [OF _ un2] inv2 unfolding bank_inv_def by blast
  obtain n h1 o1 h2 where hub: "hub_cycle now' (fold (hub_receives untyped now' occurredAt) [to_event lrow] h) = ([n], h1)"
    and hub2: "hub_cycle now' (snd (onReply pg_text id now' content h1)) = ([o1], h2)"
    and o1: "ev_routingKey o1 = settlementOutcomeRoutingKey me" "ev_payload o1 = outcome_payload k (rp_outcome rep) (rp_reason rep)"
    and hst: "settlement_status_of k h2 = Some (if rp_outcome rep = Some (JStr ''CONFIRMED'') then HCONFIRMED else HREVERSED)"
    and hres: "\<And>x. reserve_sum x h2 = (if rp_outcome rep \<noteq> Some (JStr ''CONFIRMED'') then reserve_sum x h
       else if x = me then reserve_sum x h - cents (ip_amount ps)
       else if x = ip_payeeBankId ps then reserve_sum x h + cents (ip_amount ps) else reserve_sum x h)"
    by (rule hub_half [OF inv(2) idle(2) row(2) req(2) pos banks fits new reply(1,2) e, of now' untyped occurredAt pg_text]) (rule that)
  have st: "interbank_status_of k b2 = Some COMPENSATED"
    using row(5) by (simp add: b2 status_update_debited status_cong [of "post ?refund b1" b1])
  then have st': "interbank_status_of k (b2\<lparr>outbox := ob\<rparr>) \<noteq> Some DEBITED" by (auto simp: interbank_status_of_def)
  have "bank_receives me uuid' now' o1 (b2\<lparr>outbox := ob\<rparr>) = b2\<lparr>outbox := ob\<rparr>"
    using handle_not_debited [OF st', of "\<lparr>oe_settlementId = k, oe_outcome = rp_outcome rep, oe_reason = rp_reason rep\<rparr>" id id uuid' now']
      row(2) by (auto simp: bank_receives_def o1 onMessage_def outcome_roundtrip split: prod.splits sum.splits)
  then have b3: "b3 = b2\<lparr>outbox := ob\<rparr>" "h3 = h2"
    using trip by (simp_all add: round_trip_def c hub [simplified] hub2)
  have "balances b3 = balances b2" by (simp add: b3 balances_def ledger_sum_def)
  moreover have "balances b2 = balances b"
    using balances_post [of ?refund b1] ne move_back [OF ne] bal p by (simp add: b2)
  moreover have "interbank_status_of k b3 = Some COMPENSATED" using st by (simp add: b3 interbank_status_of_def)
  ultimately show ?thesis using hst hres reply(3) by (simp add: b3)
qed

theorem early_reconciliation_splits_saga_witness:
  "\<exists>b h n. round_trip ''bank-a'' sample_id2 (\<lambda>_ h. (Nack, h)) (\<lambda>_. []) ''now'' 9 (Some sample_reply_json)
       (snd (reconcileOne sample_env sample_id sample_saga_bank)) sample_hub = (n, b, h) \<and>
     interbank_status_of sample_id b = Some COMPENSATED \<and> settlement_status_of sample_id h = Some HCONFIRMED \<and>
     reserve_sum ''bank-b'' h = 400"
proof -
  let ?env = "sample_env\<lparr>re_fetch := \<lambda>_. case SettlementsController_get (\<lambda>_. []) (\<lambda>_. []) sample_id sample_hub of (s, x) \<Rightarrow> Response s x\<rparr>"
  have env: "re_hubUrl ?env = Inr ''http://hub''" "re_before ?env sample_id = id" "uuid_ok (re_uuid ?env sample_id)"
    "\<not> transfer_exists (re_uuid ?env sample_id) sample_saga_bank" "\<not> key_taken (compensation_key sample_id) sample_saga_bank"
    "re_fetch ?env (''http://hub'' @ ''/settlements/'' @ sample_id) =
      (case SettlementsController_get (\<lambda>_. []) (\<lambda>_. []) sample_id sample_hub of (s, x) \<Rightarrow> Response s x)"
    using sample_id2_ok sample_saga_facts by (simp_all add: sample_env_def)
  have rec: "rec_id (ir_transfer (saga_result sample_ib_row sample_ib_params)) = sample_id"
    by (simp add: saga_result_def sample_ib_row_def)
  obtain b2 where run: "reconcileOne ?env sample_id sample_saga_bank = (Inr True, b2)"
    using reconcile_unknown [OF env(1,2,6) sample_hub_facts(4) sample_saga_facts(1-3) sample_id_ok env(3-5)] by blast
  have same: "reconcileOne sample_env sample_id sample_saga_bank = reconcileOne ?env sample_id sample_saga_bank"
    using settlement_get_unknown [of sample_id sample_id sample_hub "\<lambda>_. []" "\<lambda>_. []"] sample_id_ok sample_hub_facts(4)
    by (cases "SettlementsController_get (\<lambda>_. []) (\<lambda>_. []) sample_id sample_hub")
      (simp add: reconcileOne_def reconcile_handle_def sample_env_def)
  obtain ns b h where trip: "round_trip ''bank-a'' sample_id2 (\<lambda>_ h. (Nack, h)) (\<lambda>_. []) ''now'' 9
      (Some sample_reply_json) b2 sample_hub = (ns, b, h)" by (metis prod_cases3)
  from early_reconciliation_splits_saga [OF sample_inv sample_hub_facts(1) sample_idle sample_id_ok sample_ib_ok sample_free_key
      sample_saga_run sample_hub_facts(2) sample_fits(6,1-5) rec [symmetric] sample_hub_facts(4) env run sample_reply_read _ trip]
  have "interbank_status_of sample_id b = Some COMPENSATED \<and> settlement_status_of sample_id h = Some HCONFIRMED \<and>
    (\<forall>x. reserve_sum x h = (if x = ''bank-a'' then reserve_sum x sample_hub - cents (ip_amount sample_ib_params)
       else if x = ip_payeeBankId sample_ib_params then reserve_sum x sample_hub + cents (ip_amount sample_ib_params)
       else reserve_sum x sample_hub))"
    by (auto simp: sample_reply_def)
  with trip show ?thesis using sample_hub_facts by (auto simp: same run sample_ib_params_def)
qed

subsection \<open>The wire formats\<close>

text \<open>
  The two services read what the other writes. From the letter Bank A queues for a transfer
  the Hub decodes that transfer's identifier, the two banks, the account and a number its guard
  accepts and converts to exactly the cents; from the letter the Hub queues Bank A decodes the
  settlement, the outcome and the reason (a missing one included); and neither consumer's queue
  receives the other's letters.
\<close>
theorem wire_roundtrip:
  assumes "uuid_ok k" and "money_ok (ip_amount ps)"
  shows "(\<exists>ev. decode_request (settlement_request k b ps) = Some ev \<and> uuid_in (rq_settlementId ev) = Some k \<and>
      rq_payerBankId ev = b \<and> rq_payeeBankId ev = ip_payeeBankId ps \<and> rq_payeeAccountRef ev = ip_payeeAccountRef ps \<and>
      isSafeInteger (rq_amountCents ev) \<and> js_integer (rq_amountCents ev) = Some (cents (ip_amount ps))) \<and>
    (\<exists>ev. decode_outcome (Some (outcome_payload k outcome reason)) = Inr ev \<and> uuid_in (oe_settlementId ev) = Some k \<and>
      oe_outcome ev = outcome \<and> oe_reason ev = reason) \<and>
    settlementOutcomeRoutingKey b \<noteq> SETTLEMENT_REQUESTED_ROUTING_KEY \<and>
    (settlementOutcomeRoutingKey b = settlementOutcomeRoutingKey b' \<longrightarrow> b = b')"
  using assms by (simp add: request_roundtrip outcome_roundtrip isSafeInteger_def money_ok_def)

theorem wire_roundtrip_witness:
  "js_integer (rq_amountCents sample_event) = Some 400 \<and>
   decode_request (settlement_request sample_id ''bank-a'' sample_ib_params) = Some sample_event"
  using wire_roundtrip [OF sample_id_ok sample_ib_ok, of "''bank-a''" None None "''bank-b''"]
  by (auto simp: request_roundtrip sample_event_def sample_ib_params_def)

end
