(* ===== verification/Broker.thy ===== *)
theory Broker
  imports SagaRun
begin

text \<open>
  What the services ask of the broker: the declarations at start (src/infra/messaging/
  rabbitmq.module.ts, interbank-reply.consumer.ts, hub/src/settlements/settlements.consumer.ts) and
  the messages the relays hand over (rabbitmq.publisher.ts). The broker is outside the program;
  how it matches a routing key against the pattern of a topic binding is the argument
  \<open>topic_matches\<close>, of which the documentation says that a pattern without \<open>*\<close> and \<open>#\<close> matches
  itself only.
\<close>

subsection \<open>Declarations\<close>

datatype broker_call =
    AssertExchange string string bool  \<comment> \<open>name, type, durable\<close>
  | AssertQueue string bool "string option"  \<comment> \<open>name, durable, dead-letter exchange\<close>
  | BindQueue string string string  \<comment> \<open>queue, exchange, pattern\<close>
  | Consume string

definition channel_factory :: "broker_call list" where
  "channel_factory = [AssertExchange HUB_SETTLEMENTS_EXCHANGE ''topic'' True]"

definition hub_channel_factory :: "broker_call list" where
  "hub_channel_factory = [AssertExchange hub_HUB_SETTLEMENTS_EXCHANGE ''topic'' True]"

definition reply_DLX_NAME :: string where
  "reply_DLX_NAME = ''bank-a.settlement-outcomes.dlx''"

definition reply_DLQ_NAME :: string where
  "reply_DLQ_NAME = ''bank-a.settlement-outcomes.dlq''"

text \<open>The configuration may have no BANK_ID; then the service does not start.\<close>

definition InterbankReplyConsumer_onApplicationBootstrap :: "bank_error + string \<Rightarrow> bank_error + broker_call list" where
  "InterbankReplyConsumer_onApplicationBootstrap BANK_ID =
     (case BANK_ID of
        Inl e \<Rightarrow> Inl e
      | Inr bankId \<Rightarrow>
          let queueName = bankId @ ''.settlement-outcomes''; routingKey = settlementOutcomeRoutingKey bankId
          in Inr [AssertExchange reply_DLX_NAME ''fanout'' True,
                  AssertQueue reply_DLQ_NAME True None,
                  BindQueue reply_DLQ_NAME reply_DLX_NAME '''',
                  AssertQueue queueName True (Some reply_DLX_NAME),
                  BindQueue queueName HUB_SETTLEMENTS_EXCHANGE routingKey,
                  Consume queueName])"

definition REQUESTS_QUEUE :: string where
  "REQUESTS_QUEUE = ''hub.settlement-requests''"

definition REPLIES_QUEUE :: string where
  "REPLIES_QUEUE = ''hub.settlement-replies''"

definition hub_DLX_NAME :: string where
  "hub_DLX_NAME = ''hub.settlements.dlx''"

definition hub_DLQ_NAME :: string where
  "hub_DLQ_NAME = ''hub.settlements.dlq''"

definition SettlementsConsumer_onApplicationBootstrap :: "broker_call list" where
  "SettlementsConsumer_onApplicationBootstrap =
     [AssertExchange hub_DLX_NAME ''fanout'' True,
      AssertQueue hub_DLQ_NAME True None,
      BindQueue hub_DLQ_NAME hub_DLX_NAME '''',
      AssertQueue REQUESTS_QUEUE True (Some hub_DLX_NAME),
      BindQueue REQUESTS_QUEUE hub_HUB_SETTLEMENTS_EXCHANGE hub_SETTLEMENT_REQUESTED_ROUTING_KEY,
      Consume REQUESTS_QUEUE,
      AssertQueue REPLIES_QUEUE True (Some hub_DLX_NAME),
      BindQueue REPLIES_QUEUE hub_HUB_SETTLEMENTS_EXCHANGE hub_SETTLEMENT_REPLY_ROUTING_KEY,
      Consume REPLIES_QUEUE]"

subsection \<open>Publishing\<close>

record publication =
  pub_exchange :: string
  pub_routingKey :: string
  pub_content :: json
  pub_contentType :: string
  pub_persistent :: bool

definition RabbitMqPublisher_publish :: "string \<Rightarrow> string \<Rightarrow> json \<Rightarrow> publication" where
  "RabbitMqPublisher_publish exchange routingKey payload =
     \<lparr>pub_exchange = exchange, pub_routingKey = routingKey, pub_content = payload,
      pub_contentType = ''application/json'', pub_persistent = True\<rparr>"

definition hub_RabbitMqPublisher_publish :: "string \<Rightarrow> string \<Rightarrow> json \<Rightarrow> publication" where
  "hub_RabbitMqPublisher_publish exchange routingKey payload =
     \<lparr>pub_exchange = exchange, pub_routingKey = routingKey, pub_content = payload,
      pub_contentType = ''application/json'', pub_persistent = True\<rparr>"

text \<open>What a relay hands over for an event.\<close>

definition relay_publication :: "outbox_event \<Rightarrow> publication" where
  "relay_publication event = RabbitMqPublisher_publish HUB_SETTLEMENTS_EXCHANGE (ev_routingKey event) (ev_payload event)"

definition hub_relay_publication :: "outbox_event \<Rightarrow> publication" where
  "hub_relay_publication event =
     hub_RabbitMqPublisher_publish hub_HUB_SETTLEMENTS_EXCHANGE (ev_routingKey event) (ev_payload event)"

lemma same_publication: "hub_relay_publication event = relay_publication event"
  by (simp add: hub_relay_publication_def relay_publication_def hub_RabbitMqPublisher_publish_def RabbitMqPublisher_publish_def)

subsection \<open>Routing\<close>

text \<open>The queues that get a copy, in the order of their bindings.\<close>

fun queues_of :: "(string \<Rightarrow> string \<Rightarrow> bool) \<Rightarrow> broker_call list \<Rightarrow> publication \<Rightarrow> string list" where
  "queues_of topic_matches [] p = []"
| "queues_of topic_matches (BindQueue q ex pattern # calls) p =
     (if ex = pub_exchange p \<and> topic_matches pattern (pub_routingKey p)
      then q # queues_of topic_matches calls p else queues_of topic_matches calls p)"
| "queues_of topic_matches (_ # calls) p = queues_of topic_matches calls p"

lemma queues_of_append: "queues_of m (xs @ ys) p = queues_of m xs p @ queues_of m ys p"
proof (induction xs)
  case (Cons x xs)
  then show ?case by (cases x) simp_all
qed simp

definition literal :: "string \<Rightarrow> bool" where
  "literal pattern \<longleftrightarrow> CHR ''*'' \<notin> set pattern \<and> CHR ''#'' \<notin> set pattern"

text \<open>Everything the two services declare.\<close>

definition topology :: "string \<Rightarrow> broker_call list" where
  "topology bankId = channel_factory @ hub_channel_factory
     @ (case InterbankReplyConsumer_onApplicationBootstrap (Inr bankId) of Inl e \<Rightarrow> [] | Inr calls \<Rightarrow> calls)
     @ SettlementsConsumer_onApplicationBootstrap"

text \<open>A rejected message of the queue goes to a durable queue.\<close>

definition dead_lettered :: "broker_call list \<Rightarrow> string \<Rightarrow> bool" where
  "dead_lettered calls q \<longleftrightarrow> (\<exists>dlx \<in> set [x. AssertQueue q' _ (Some x) \<leftarrow> calls, q' = q].
     AssertExchange dlx ''fanout'' True \<in> set calls \<and>
     (\<exists>dlq \<in> set [q'. BindQueue q' x _ \<leftarrow> calls, x = dlx]. AssertQueue dlq True None \<in> set calls))"

lemma literal_keys: "literal SETTLEMENT_REQUESTED_ROUTING_KEY" "literal SETTLEMENT_REPLY_ROUTING_KEY"
  "literal (settlementOutcomeRoutingKey b) \<longleftrightarrow> literal b"
  by (simp_all add: literal_def SETTLEMENT_REQUESTED_ROUTING_KEY_def SETTLEMENT_REPLY_ROUTING_KEY_def
      settlementOutcomeRoutingKey_def)

lemma reply_keys [simp]:
  "settlementOutcomeRoutingKey x \<noteq> SETTLEMENT_REPLY_ROUTING_KEY" "SETTLEMENT_REPLY_ROUTING_KEY \<noteq> settlementOutcomeRoutingKey x"
  "settlementNotifyRoutingKey x \<noteq> SETTLEMENT_REPLY_ROUTING_KEY" "SETTLEMENT_REPLY_ROUTING_KEY \<noteq> settlementNotifyRoutingKey x"
  "SETTLEMENT_REPLY_ROUTING_KEY \<noteq> SETTLEMENT_REQUESTED_ROUTING_KEY" "SETTLEMENT_REQUESTED_ROUTING_KEY \<noteq> SETTLEMENT_REPLY_ROUTING_KEY"
  "SETTLEMENT_REQUESTED_ROUTING_KEY \<noteq> settlementNotifyRoutingKey x" "SETTLEMENT_REQUESTED_ROUTING_KEY \<noteq> settlementOutcomeRoutingKey x"
  by (simp_all add: settlementOutcomeRoutingKey_def settlementNotifyRoutingKey_def SETTLEMENT_REPLY_ROUTING_KEY_def
      SETTLEMENT_REQUESTED_ROUTING_KEY_def)

lemma exchanges [simp]: "reply_DLX_NAME \<noteq> HUB_SETTLEMENTS_EXCHANGE" "hub_DLX_NAME \<noteq> HUB_SETTLEMENTS_EXCHANGE"
  by (simp_all add: reply_DLX_NAME_def hub_DLX_NAME_def HUB_SETTLEMENTS_EXCHANGE_def)

text \<open>Where a letter of either service ends up.\<close>

lemma topology_routes:
  assumes "\<And>p k. literal p \<Longrightarrow> topic_matches p k \<longleftrightarrow> p = k" and "literal me"
  shows "queues_of topic_matches (topology me) (RabbitMqPublisher_publish HUB_SETTLEMENTS_EXCHANGE k j) =
    (if k = settlementOutcomeRoutingKey me then [me @ ''.settlement-outcomes''] else []) @
    (if k = SETTLEMENT_REQUESTED_ROUTING_KEY then [REQUESTS_QUEUE] else []) @
    (if k = SETTLEMENT_REPLY_ROUTING_KEY then [REPLIES_QUEUE] else [])"
  using assms
  by (auto simp: topology_def queues_of_append channel_factory_def hub_channel_factory_def InterbankReplyConsumer_onApplicationBootstrap_def
      SettlementsConsumer_onApplicationBootstrap_def RabbitMqPublisher_publish_def literal_keys Let_def)



end
