(* ===== verification/Lifecycle.thy ===== *)
theory Lifecycle
  imports Broker
begin

text \<open>
  The life of a service process: how Bank A and the Hub start (main.ts, infra/database/
  database.module.ts, infra/messaging/rabbitmq.module.ts and the bootstrap hooks of the consumers),
  what a broker that goes away does to a running process, the health check and the shutdown hooks.
  amqplib is outside the program: \<open>op open\<close> says whether an operation on a channel returns, given
  whether the channel is open; its documentation says that an operation on a closed channel throws.
  That a promise rejected without a handler ends the process is the rule of Node. The outbox is in
  the database and outlives the process.
\<close>

subsection \<open>Starting\<close>

datatype port = PortText string | PortNumber nat

datatype setup_call =
    NewPool string
  | ConnectBroker string
  | ListenConnectionError
  | CreateChannel
  | ListenChannelError
  | Declare broker_call
  | UseValidationPipe bool bool  \<comment> \<open>whitelist, transform\<close>
  | EnableShutdownHooks
  | EnableCors
  | ListenOn port

definition getOrThrow :: "(string \<Rightarrow> string option) \<Rightarrow> string \<Rightarrow> 'd service_error + string" where
  "getOrThrow config name = (case config name of None \<Rightarrow> Inl (Failure name) | Some v \<Rightarrow> Inr v)"

definition PG_POOL_factory :: "(string \<Rightarrow> string option) \<Rightarrow> bank_error + setup_call list" where
  "PG_POOL_factory config = (case getOrThrow config ''DATABASE_URL'' of
     Inl e \<Rightarrow> Inl e | Inr url \<Rightarrow> Inr [NewPool url])"

definition AMQP_CONNECTION_factory :: "(string \<Rightarrow> string option) \<Rightarrow> bank_error + setup_call list" where
  "AMQP_CONNECTION_factory config = (case getOrThrow config ''RABBITMQ_URL'' of
     Inl e \<Rightarrow> Inl e | Inr url \<Rightarrow> Inr [ConnectBroker url, ListenConnectionError])"

definition AMQP_CHANNEL_factory :: "setup_call list" where
  "AMQP_CHANNEL_factory = [CreateChannel, ListenChannelError] @ map Declare channel_factory"

text \<open>
  \<open>bootstrap\<close>: the modules create their providers, then the application is set up; \<open>listen\<close> runs
  the bootstrap hooks of the consumers before it binds the port.
\<close>

definition bootstrap :: "string option \<Rightarrow> setup_call list \<Rightarrow> setup_call list \<Rightarrow> setup_call list" where
  "bootstrap PORT create hooks =
     create @ [UseValidationPipe True True, EnableShutdownHooks, EnableCors] @ hooks @
     [ListenOn (case PORT of Some p \<Rightarrow> PortText p | None \<Rightarrow> PortNumber 3000)]"

definition bank_start :: "(string \<Rightarrow> string option) \<Rightarrow> bank_error + setup_call list" where
  "bank_start config =
     (case PG_POOL_factory config of
        Inl e \<Rightarrow> Inl e
      | Inr pool \<Rightarrow> (case AMQP_CONNECTION_factory config of
          Inl e \<Rightarrow> Inl e
        | Inr connection \<Rightarrow>
            (case InterbankReplyConsumer_onApplicationBootstrap (getOrThrow config ''BANK_ID'') of
               Inl e \<Rightarrow> Inl e
             | Inr calls \<Rightarrow>
                 Inr (bootstrap (config ''PORT'') (pool @ connection @ AMQP_CHANNEL_factory) (map Declare calls)))))"

text \<open>The Hub has its own copies; its consumer needs no configuration.\<close>

definition hub_PG_POOL_factory :: "(string \<Rightarrow> string option) \<Rightarrow> hub_service_error + setup_call list" where
  "hub_PG_POOL_factory config = (case getOrThrow config ''DATABASE_URL'' of
     Inl e \<Rightarrow> Inl e | Inr url \<Rightarrow> Inr [NewPool url])"

definition hub_AMQP_CONNECTION_factory :: "(string \<Rightarrow> string option) \<Rightarrow> hub_service_error + setup_call list" where
  "hub_AMQP_CONNECTION_factory config = (case getOrThrow config ''RABBITMQ_URL'' of
     Inl e \<Rightarrow> Inl e | Inr url \<Rightarrow> Inr [ConnectBroker url, ListenConnectionError])"

definition hub_AMQP_CHANNEL_factory :: "setup_call list" where
  "hub_AMQP_CHANNEL_factory = [CreateChannel, ListenChannelError] @ map Declare hub_channel_factory"

definition hub_bootstrap :: "string option \<Rightarrow> setup_call list \<Rightarrow> setup_call list \<Rightarrow> setup_call list" where
  "hub_bootstrap PORT create hooks =
     create @ [UseValidationPipe True True, EnableShutdownHooks, EnableCors] @ hooks @
     [ListenOn (case PORT of Some p \<Rightarrow> PortText p | None \<Rightarrow> PortNumber 4000)]"

definition hub_start :: "(string \<Rightarrow> string option) \<Rightarrow> hub_service_error + setup_call list" where
  "hub_start config =
     (case hub_PG_POOL_factory config of
        Inl e \<Rightarrow> Inl e
      | Inr pool \<Rightarrow> (case hub_AMQP_CONNECTION_factory config of
          Inl e \<Rightarrow> Inl e
        | Inr connection \<Rightarrow>
            Inr (hub_bootstrap (config ''PORT'') (pool @ connection @ hub_AMQP_CHANNEL_factory)
              (map Declare SettlementsConsumer_onApplicationBootstrap))))"

subsection \<open>The process\<close>

record process =
  pr_pool :: bool
  pr_connection :: bool
  pr_channel :: bool
  pr_connection_listener :: bool
  pr_channel_listener :: bool
  pr_consuming :: "string list"
  pr_in_flight :: nat  \<comment> \<open>messages whose handler has not finished\<close>
  pr_port :: "port option"

definition blank_process :: process where
  "blank_process = \<lparr>pr_pool = False, pr_connection = False, pr_channel = False,
     pr_connection_listener = False, pr_channel_listener = False, pr_consuming = [],
     pr_in_flight = 0, pr_port = None\<rparr>"

text \<open>The declarations other than a consumer are state of the broker, not of the process.\<close>

fun do_setup :: "setup_call \<Rightarrow> process \<Rightarrow> process" where
  "do_setup (NewPool url) p = p\<lparr>pr_pool := True\<rparr>"
| "do_setup (ConnectBroker url) p = p\<lparr>pr_connection := True\<rparr>"
| "do_setup ListenConnectionError p = p\<lparr>pr_connection_listener := True\<rparr>"
| "do_setup CreateChannel p = p\<lparr>pr_channel := True\<rparr>"
| "do_setup ListenChannelError p = p\<lparr>pr_channel_listener := True\<rparr>"
| "do_setup (Declare (Consume q)) p = p\<lparr>pr_consuming := pr_consuming p @ [q]\<rparr>"
| "do_setup (ListenOn port) p = p\<lparr>pr_port := Some port\<rparr>"
| "do_setup _ p = p"

definition started :: "setup_call list \<Rightarrow> process" where
  "started calls = fold do_setup calls blank_process"

text \<open>
  The end of a message callback: \<open>a\<close> is what the handler leaves to be told to the broker. An
  \<open>ack\<close> that throws is caught and becomes a \<open>nack\<close>; a \<open>nack\<close> that throws leaves the callback,
  which nobody awaits.
\<close>

definition settle_message :: "(bool \<Rightarrow> bool) \<Rightarrow> bool \<Rightarrow> ack \<Rightarrow> bank_error + ack" where
  "settle_message op channel a =
     (if a = Ack \<and> op channel then Inr Ack
      else if op channel then Inr Nack
      else Inl (Failure ''nack''))"

datatype node_event =
    Start
  | Written int string string string json  \<comment> \<open>a transaction adds an outbox row\<close>
  | Tick bool int  \<comment> \<open>whether the database commits, the time\<close>
  | ConnectionError
  | ConnectionClosed
  | ChannelError
  | Cancelled string
  | Delivered string
  | Handled ack
  | Stopped

text \<open>
  What an event does to the process, None when it ends it. An \<open>error\<close> event without a listener
  is thrown. A closed connection closes its channel, and nothing opens either again. A consumer the
  broker cancels is called with null and returns.
\<close>

fun process_do :: "(bool \<Rightarrow> bool) \<Rightarrow> node_event \<Rightarrow> process \<Rightarrow> process option" where
  "process_do op ConnectionError p =
     (if pr_connection_listener p then Some (p\<lparr>pr_connection := False, pr_channel := False\<rparr>) else None)"
| "process_do op ConnectionClosed p = Some (p\<lparr>pr_connection := False, pr_channel := False\<rparr>)"
| "process_do op ChannelError p = (if pr_channel_listener p then Some (p\<lparr>pr_channel := False\<rparr>) else None)"
| "process_do op (Cancelled q) p = Some (p\<lparr>pr_consuming := removeAll q (pr_consuming p)\<rparr>)"
| "process_do op (Delivered q) p =
     Some (if pr_channel p \<and> q \<in> set (pr_consuming p) then p\<lparr>pr_in_flight := Suc (pr_in_flight p)\<rparr> else p)"
| "process_do op (Handled a) p =
     (case pr_in_flight p of
        0 \<Rightarrow> Some p
      | Suc n \<Rightarrow> (case settle_message op (pr_channel p) a of
          Inl e \<Rightarrow> None | Inr _ \<Rightarrow> Some (p\<lparr>pr_in_flight := n\<rparr>)))"
| "process_do op Stopped p = None"
| "process_do op _ p = Some p"

record node =
  nd_process :: "process option"
  nd_outbox :: outbox_table

text \<open>One event, and what the relay hands over at it.\<close>

fun node_do :: "(bool \<Rightarrow> bool) \<Rightarrow> setup_call list \<Rightarrow> node_event \<Rightarrow> node \<Rightarrow> node \<times> outbox_event list" where
  "node_do op calls Start n =
     (case nd_process n of None \<Rightarrow> (n\<lparr>nd_process := Some (started calls)\<rparr>, []) | Some p \<Rightarrow> (n, []))"
| "node_do op calls (Written now a t k j) n = (n\<lparr>nd_outbox := outbox_add now a t k j (nd_outbox n)\<rparr>, [])"
| "node_do op calls (Tick commit now) n =
     (case nd_process n of
        None \<Rightarrow> (n, [])
      | Some p \<Rightarrow> (case handleInterval (\<lambda>_. op (pr_channel p)) commit now (nd_outbox n) of
          (ob, sent) \<Rightarrow> (n\<lparr>nd_outbox := ob\<rparr>, sent)))"
| "node_do op calls e n = (n\<lparr>nd_process := Option.bind (nd_process n) (process_do op e)\<rparr>, [])"

fun node_run :: "(bool \<Rightarrow> bool) \<Rightarrow> setup_call list \<Rightarrow> node_event list \<Rightarrow> node \<Rightarrow> node \<times> outbox_event list" where
  "node_run op calls [] n = (n, [])"
| "node_run op calls (e # es) n =
     (case node_do op calls e n of (n', sent) \<Rightarrow>
        (case node_run op calls es n' of (n'', sent') \<Rightarrow> (n'', sent @ sent')))"

subsection \<open>Health and shutdown\<close>

text \<open>\<open>select1\<close> is what the query \<open>SELECT 1\<close> returns.\<close>

definition HealthController_check :: "'e + unit \<Rightarrow> 'e + json" where
  "HealthController_check select1 = (case select1 of
     Inl e \<Rightarrow> Inl e | Inr _ \<Rightarrow> Inr (JObj [(''status'', JStr ''ok'')]))"

definition hub_HealthController_check :: "'e + unit \<Rightarrow> 'e + json" where
  "hub_HealthController_check select1 = (case select1 of
     Inl e \<Rightarrow> Inl e | Inr _ \<Rightarrow> Inr (JObj [(''status'', JStr ''ok'')]))"

text \<open>What a client of \<open>GET /health\<close> gets; None when nobody listens.\<close>

definition node_health :: "('e + unit \<Rightarrow> 'e + json) \<Rightarrow> 'e + unit \<Rightarrow> node \<Rightarrow> http_answer option" where
  "node_health check select1 n =
     (case nd_process n of
        Some p \<Rightarrow> (if pr_port p = None then None
          else Some (case check select1 of Inl e \<Rightarrow> (500, None) | Inr body \<Rightarrow> (200, Some body)))
      | None \<Rightarrow> None)"

text \<open>The shutdown hooks: closing a closed channel throws, and the connection is not closed.\<close>

definition RabbitMqModule_onApplicationShutdown :: "(bool \<Rightarrow> bool) \<Rightarrow> process \<Rightarrow> (bank_error + unit) \<times> process" where
  "RabbitMqModule_onApplicationShutdown op p =
     (if op (pr_channel p) then (Inr (), p\<lparr>pr_channel := False, pr_connection := False\<rparr>)
      else (Inl (Failure ''channel.close''), p))"

definition hub_RabbitMqModule_onApplicationShutdown ::
  "(bool \<Rightarrow> bool) \<Rightarrow> process \<Rightarrow> (hub_service_error + unit) \<times> process" where
  "hub_RabbitMqModule_onApplicationShutdown op p =
     (if op (pr_channel p) then (Inr (), p\<lparr>pr_channel := False, pr_connection := False\<rparr>)
      else (Inl (Failure ''channel.close''), p))"

definition DatabaseModule_onApplicationShutdown :: "process \<Rightarrow> process" where
  "DatabaseModule_onApplicationShutdown p = p\<lparr>pr_pool := False\<rparr>"

definition hub_DatabaseModule_onApplicationShutdown :: "process \<Rightarrow> process" where
  "hub_DatabaseModule_onApplicationShutdown p = p\<lparr>pr_pool := False\<rparr>"

subsection \<open>What stays true of a running process\<close>

definition process_ok :: "process \<Rightarrow> bool" where
  "process_ok p \<longleftrightarrow> pr_pool p \<and> pr_port p \<noteq> None \<and> pr_connection_listener p \<and> pr_channel_listener p"

text \<open>Both services start with everything open, and with a listener on each emitter.\<close>

lemma fold_declare [simp]:
  "fold do_setup (map Declare calls) p = p\<lparr>pr_consuming := pr_consuming p @ [q. Consume q \<leftarrow> calls]\<rparr>"
proof (induction calls arbitrary: p)
  case (Cons c calls)
  then show ?case by (cases c) simp_all
qed simp

lemma bank_started:
  assumes "bank_start config = Inr calls"
  shows "process_ok (started calls)" "pr_channel (started calls)" "pr_connection (started calls)"
  using assms
  by (auto simp: bank_start_def PG_POOL_factory_def AMQP_CONNECTION_factory_def AMQP_CHANNEL_factory_def bootstrap_def
      started_def blank_process_def process_ok_def split: sum.splits)

lemma hub_started:
  assumes "hub_start config = Inr calls"
  shows "process_ok (started calls)" "pr_channel (started calls)" "pr_connection (started calls)"
  using assms
  by (auto simp: hub_start_def hub_PG_POOL_factory_def hub_AMQP_CONNECTION_factory_def hub_AMQP_CHANNEL_factory_def
      hub_bootstrap_def started_def blank_process_def process_ok_def split: sum.splits)

lemma both_started:
  assumes "bank_start config = Inr calls \<or> hub_start config = Inr calls"
  shows "process_ok (started calls)" "pr_channel (started calls)"
  using assms bank_started hub_started by blast+

lemma process_do_ok: "process_ok p \<Longrightarrow> process_do op e p = Some q \<Longrightarrow> process_ok q"
  by (cases e) (auto simp: process_ok_def split: if_splits nat.splits sum.splits)

lemma process_do_closed: "\<not> pr_channel p \<Longrightarrow> process_do op e p = Some q \<Longrightarrow> \<not> pr_channel q"
  by (cases e) (auto split: if_splits nat.splits sum.splits)

lemma process_do_ends:
  assumes "op True" and "\<not> op False" and "process_ok p"
  shows "process_do op e p = None \<longleftrightarrow>
    e = Stopped \<or> (\<exists>a. e = Handled a) \<and> \<not> pr_channel p \<and> 0 < pr_in_flight p"
  using assms by (cases e; cases "pr_channel p")
    (auto simp: process_ok_def settle_message_def split: if_splits nat.splits sum.splits)

text \<open>Every event but a start, a write and a tick is one of the process alone.\<close>

lemma node_do_process:
  "e \<noteq> Start \<Longrightarrow> nd_process (fst (node_do op calls e n)) = Option.bind (nd_process n) (process_do op e)"
  by (cases "nd_process n"; cases e) (auto split: prod.splits)

lemma node_run_Cons [simp]:
  "fst (node_run op calls (e # es) n) = fst (node_run op calls es (fst (node_do op calls e n)))"
  by (simp split: prod.splits)

lemma node_do_ok:
  assumes "process_ok (started calls)" and "pred_option process_ok (nd_process n)"
  shows "pred_option process_ok (nd_process (fst (node_do op calls e n)))"
proof (cases "e = Start")
  case True
  with assms show ?thesis by (cases "nd_process n") simp_all
next
  case False
  with assms(2) show ?thesis
    by (cases "nd_process n") (auto simp: node_do_process pred_option_def intro: process_do_ok)
qed

lemma node_run_ok:
  assumes "process_ok (started calls)" and "pred_option process_ok (nd_process n)"
  shows "pred_option process_ok (nd_process (fst (node_run op calls es n)))"
  using assms(2)
proof (induction es arbitrary: n)
  case (Cons e es)
  from Cons.IH [OF node_do_ok [OF assms(1) Cons.prems, of op e]] show ?case
    by (simp del: node_run.simps)
qed simp

text \<open>The outbox keeps its shape, whatever happens.\<close>

lemma interval_ok: "outbox_ok ob \<Longrightarrow> handleInterval publish commit now ob = (ob', sent) \<Longrightarrow> outbox_ok ob'"
  using tick_ok [of ob publish commit "[]" now] by (simp add: handleInterval_def)

lemma node_do_outbox: "outbox_ok (nd_outbox n) \<Longrightarrow> outbox_ok (nd_outbox (fst (node_do op calls e n)))"
  by (cases e) (auto simp: outbox_ok_add intro: interval_ok split: option.splits prod.splits)

lemma node_run_outbox: "outbox_ok (nd_outbox n) \<Longrightarrow> outbox_ok (nd_outbox (fst (node_run op calls es n)))"
proof (induction es arbitrary: n)
  case (Cons e es)
  from Cons.IH [OF node_do_outbox [OF Cons.prems, of op calls e]] show ?case
    by (simp del: node_run.simps)
qed simp

text \<open>A relay without a channel: nothing is handed over and nothing is forgotten.\<close>

lemma tick_without_channel:
  "handleInterval (\<lambda>_. False) commit now ob = (ob, [])"
  by (cases "claimUnpublished [] BATCH_SIZE ob") (simp_all add: handleInterval_def tick_def)

lemma node_do_closed:
  assumes op: "\<not> op False" and e: "e \<noteq> Start" and closed: "\<forall>p. nd_process n = Some p \<longrightarrow> \<not> pr_channel p"
  shows "snd (node_do op calls e n) = []"
    and "prefix (unpublished (nd_outbox n)) (unpublished (nd_outbox (fst (node_do op calls e n))))"
    and "\<forall>p. nd_process (fst (node_do op calls e n)) = Some p \<longrightarrow> \<not> pr_channel p"
proof -
  show "snd (node_do op calls e n) = []"
    using op e closed by (cases e) (auto simp: tick_without_channel split: option.splits)
  show "prefix (unpublished (nd_outbox n)) (unpublished (nd_outbox (fst (node_do op calls e n))))"
    using op e closed by (cases e) (auto simp: tick_without_channel unpublished_add split: option.splits)
  show "\<forall>p. nd_process (fst (node_do op calls e n)) = Some p \<longrightarrow> \<not> pr_channel p"
    using closed by (auto simp: node_do_process [OF e] bind_eq_Some_conv dest: process_do_closed)
qed

lemma node_run_closed:
  assumes "\<not> op False" and "Start \<notin> set es" and "\<forall>p. nd_process n = Some p \<longrightarrow> \<not> pr_channel p"
    and "node_run op calls es n = (m, sent)"
  shows "sent = [] \<and> prefix (unpublished (nd_outbox n)) (unpublished (nd_outbox m))"
  using assms(2-)
proof (induction es arbitrary: n sent)
  case (Cons e es)
  from Cons.prems(1) have e: "e \<noteq> Start" "Start \<notin> set es" by auto
  note step = node_do_closed [where op = op and e = e and n = n and calls = calls, OF assms(1) e(1) Cons.prems(2)]
  obtain n' where n': "node_do op calls e n = (n', [])" using step(1) by (cases "node_do op calls e n") simp
  then obtain rest where "node_run op calls es n' = (m, rest)" "sent = rest"
    using Cons.prems(3) by (auto split: prod.splits)
  with Cons.IH [OF e(2), of n' rest] step(2,3) n' show ?case by (auto intro: prefix_order.trans)
qed simp

text \<open>A relay with a channel is the relay of the outbox.\<close>

lemma node_ticks:
  assumes "op True" and "nd_process n = Some p" and "pr_channel p"
  shows "node_run op calls (map (Tick True) nows) n =
    (case relay_run (map (\<lambda>now. (\<lambda>_. True, True, now)) nows) (nd_outbox n) of
       (ob, sent) \<Rightarrow> (n\<lparr>nd_outbox := ob\<rparr>, sent))"
  using assms by (induction nows arbitrary: n) (auto split: prod.splits)

lemma stopped [simp]: "Option.bind x (process_do op Stopped) = None"
  by (cases x) simp_all

text \<open>A restart, on a broker that is back.\<close>

lemma restart_drains:
  assumes "op True" and "pr_channel (started calls)" and "outbox_ok (nd_outbox n)"
    and "length (unpublished (nd_outbox n)) \<le> BATCH_SIZE * length nows"
  shows "\<exists>m. node_run op calls (Stopped # Start # map (Tick True) nows) n = (m, map to_event (unpublished (nd_outbox n))) \<and>
    unpublished (nd_outbox m) = []"
proof -
  let ?n = "n\<lparr>nd_process := Some (started calls)\<rparr>"
  obtain ob where "relay_run (map (\<lambda>now. (\<lambda>_. True, True, now)) nows) (nd_outbox n) =
      (ob, map to_event (unpublished (nd_outbox n))) \<and> unpublished ob = []"
    using relay_drains [OF assms(3), of "map (\<lambda>now. (\<lambda>_. True, True, now)) nows"] assms(4) by auto
  then show ?thesis
    using node_ticks [of op ?n "started calls" calls nows] assms(1,2) by simp
qed

text \<open>
  The shutdown hooks release everything while the channel is open. After an error of the channel
  alone they stop at it, and the connection stays open until the process ends.
\<close>

lemma shutdown_hooks:
  assumes "op True" and "\<not> op False" and "process_ok p" and "pr_connection p"
  shows "pr_channel p \<Longrightarrow> \<exists>q. RabbitMqModule_onApplicationShutdown op p = (Inr (), q) \<and>
      hub_RabbitMqModule_onApplicationShutdown op p = (Inr (), q) \<and> \<not> pr_channel q \<and> \<not> pr_connection q \<and>
      \<not> pr_pool (DatabaseModule_onApplicationShutdown q) \<and> \<not> pr_pool (hub_DatabaseModule_onApplicationShutdown q)"
    and "process_do op ChannelError p = Some p' \<Longrightarrow>
      (\<exists>e. RabbitMqModule_onApplicationShutdown op p' = (Inl e, p')) \<and>
      (\<exists>e. hub_RabbitMqModule_onApplicationShutdown op p' = (Inl e, p')) \<and> pr_connection p'"
  using assms
  by (auto simp: RabbitMqModule_onApplicationShutdown_def hub_RabbitMqModule_onApplicationShutdown_def process_ok_def
      DatabaseModule_onApplicationShutdown_def hub_DatabaseModule_onApplicationShutdown_def)

subsection \<open>A broker that goes away\<close>

text \<open>
  C28. A lost channel stays lost until the process is restarted, and nothing is lost with it. In
  any run of Bank A or the Hub, once the channel is gone (the connection failed or was closed, or
  the channel itself failed), whatever follows without a restart, no relay cycle hands anything
  over, every event that waited still waits, in its order, before the newer ones, and as long as
  the process lives its health check answers 200 "ok". A restart on a working broker then hands
  over everything that waits, in order.
\<close>
theorem lost_channel_waits_for_restart:
  assumes "op True" and "\<not> op False"
    and service: "bank_start config = Inr calls \<or> hub_start config = Inr calls" and ob: "outbox_ok ob"
    and before: "node_run op calls before \<lparr>nd_process = None, nd_outbox = ob\<rparr> = (n, sent0)"
    and lost: "nd_process n = Some p" "\<not> pr_channel p"
    and after: "Start \<notin> set events" "node_run op calls events n = (m, sent)"
    and enough: "length (unpublished (nd_outbox m)) \<le> BATCH_SIZE * length nows"
  shows "sent = [] \<and> prefix (unpublished (nd_outbox n)) (unpublished (nd_outbox m)) \<and>
    (nd_process m \<noteq> None \<longrightarrow> (\<forall>check \<in> {HealthController_check, hub_HealthController_check}.
       node_health check (Inr ()) m = Some (200, Some (JObj [(''status'', JStr ''ok'')])))) \<and>
    (\<exists>m'. node_run op calls (Stopped # Start # map (Tick True) nows) m =
       (m', map to_event (unpublished (nd_outbox m))) \<and> unpublished (nd_outbox m') = [])"
proof -
  note up = both_started [OF service]
  have n: "n = fst (node_run op calls before \<lparr>nd_process = None, nd_outbox = ob\<rparr>)" and m: "m = fst (node_run op calls events n)"
    using before after(2) by simp_all
  have "outbox_ok (nd_outbox m)" unfolding m n by (intro node_run_outbox) (simp add: ob)
  then have drained: "\<exists>m'. node_run op calls (Stopped # Start # map (Tick True) nows) m =
      (m', map to_event (unpublished (nd_outbox m))) \<and> unpublished (nd_outbox m') = []"
    by (rule restart_drains [where op = op, OF assms(1) up(2) _ enough])
  have "pred_option process_ok (nd_process m)" unfolding m n by (intro node_run_ok up(1)) simp
  then have "nd_process m \<noteq> None \<longrightarrow> (\<forall>check \<in> {HealthController_check, hub_HealthController_check}.
      node_health check (Inr ()) m = Some (200, Some (JObj [(''status'', JStr ''ok'')])))"
    by (auto simp: node_health_def HealthController_check_def hub_HealthController_check_def process_ok_def)
  with node_run_closed [where op = op, OF assms(2) after(1) _ after(2)] lost drained show ?thesis by simp
qed


definition sample_config :: "string \<Rightarrow> string option" where
  "sample_config = [''DATABASE_URL'' \<mapsto> ''postgres://bank-a'', ''RABBITMQ_URL'' \<mapsto> ''amqp://broker'',
     ''BANK_ID'' \<mapsto> ''bank-a'']"

definition sample_calls :: "setup_call list" where
  "sample_calls = (case bank_start sample_config of Inl e \<Rightarrow> [] | Inr calls \<Rightarrow> calls)"

lemma sample_calls: "bank_start sample_config = Inr sample_calls"
  by (simp add: sample_calls_def bank_start_def PG_POOL_factory_def AMQP_CONNECTION_factory_def getOrThrow_def
      sample_config_def InterbankReplyConsumer_onApplicationBootstrap_def Let_def)

lemma sample_consuming: "pr_consuming (started sample_calls) = [''bank-a.settlement-outcomes'']"
  by (simp add: sample_calls_def bank_start_def PG_POOL_factory_def AMQP_CONNECTION_factory_def getOrThrow_def
      sample_config_def InterbankReplyConsumer_onApplicationBootstrap_def Let_def bootstrap_def AMQP_CHANNEL_factory_def
      channel_factory_def started_def blank_process_def)

text \<open>A message arrives, then the connection fails.\<close>

definition sample_loss :: "node_event list" where
  "sample_loss = [Start, Delivered ''bank-a.settlement-outcomes'', ConnectionError]"

definition sample_lost_process :: process where
  "sample_lost_process = (started sample_calls)\<lparr>pr_connection := False, pr_channel := False,
     pr_in_flight := Suc (pr_in_flight (started sample_calls))\<rparr>"

definition sample_lost :: node where
  "sample_lost = \<lparr>nd_process = Some sample_lost_process, nd_outbox = sample_outbox\<rparr>"

lemma sample_lost [simp]: "nd_process sample_lost = Some sample_lost_process" "nd_outbox sample_lost = sample_outbox"
  "\<not> pr_channel sample_lost_process" "0 < pr_in_flight sample_lost_process"
  by (simp_all add: sample_lost_def sample_lost_process_def)

lemma sample_loss_run: "node_run id sample_calls sample_loss \<lparr>nd_process = None, nd_outbox = sample_outbox\<rparr> = (sample_lost, [])"
  using bank_started [OF sample_calls]
  by (simp add: sample_loss_def sample_consuming process_ok_def sample_lost_def sample_lost_process_def)

definition sample_later :: node where
  "sample_later = sample_lost\<lparr>nd_outbox := outbox_add 10 ''a3'' ''t'' ''k3'' JNull sample_outbox\<rparr>"

lemma sample_later_ids: "map ob_id (unpublished (nd_outbox sample_later)) = [1, 2, 3]"
  by (simp add: sample_later_def sample_outbox_def outbox_add_def empty_outbox_def unpublished_def)

lemma sample_later_run:
  "node_run id sample_calls [Tick True 9, Written 10 ''a3'' ''t'' ''k3'' JNull, Tick True 11] sample_lost = (sample_later, [])"
  by (simp add: tick_without_channel sample_later_def)

theorem lost_channel_waits_for_restart_witness:
  "fst (node_run id sample_calls sample_loss \<lparr>nd_process = None, nd_outbox = sample_outbox\<rparr>) = sample_lost \<and>
   node_run id sample_calls [Tick True 9, Written 10 ''a3'' ''t'' ''k3'' JNull, Tick True 11] sample_lost = (sample_later, []) \<and>
   node_health HealthController_check (Inr ()) sample_later = Some (200, Some (JObj [(''status'', JStr ''ok'')])) \<and>
   map ob_id (unpublished (nd_outbox sample_later)) = [1, 2, 3] \<and>
   snd (node_run id sample_calls [Stopped, Start, Tick True 12] sample_later) = map to_event (unpublished (nd_outbox sample_later))"
proof -
  have "length (map ob_id (unpublished (nd_outbox sample_later))) = 3" by (simp only: sample_later_ids) simp
  then have enough: "length (unpublished (nd_outbox sample_later)) \<le> BATCH_SIZE * length [12::int]"
    by (simp only: length_map BATCH_SIZE_def) simp
  note loss = lost_channel_waits_for_restart [where op = id and p = sample_lost_process, OF _ _ disjI1 [OF sample_calls]
      sample_outbox_ok sample_loss_run _ _ _ sample_later_run enough]
  have later: "nd_process sample_later \<noteq> None" by (simp add: sample_later_def)
  have "\<exists>m. node_run id sample_calls [Stopped, Start, Tick True 12] sample_later =
      (m, map to_event (unpublished (nd_outbox sample_later)))"
    using loss by (simp del: node_run.simps) blast
  then have "snd (node_run id sample_calls [Stopped, Start, Tick True 12] sample_later) =
      map to_event (unpublished (nd_outbox sample_later))"
    by (metis snd_conv)
  moreover have "node_health HealthController_check (Inr ()) sample_later = Some (200, Some (JObj [(''status'', JStr ''ok'')]))"
    using loss later by (simp del: node_run.simps) blast
  ultimately show ?thesis
    by (intro conjI) (simp_all only: sample_loss_run sample_later_run sample_later_ids fst_conv)
qed


end
