(* ===== verification/Wiring.thy ===== *)
theory Wiring
  imports Lifecycle "HOL-Library.Multiset"
begin

text \<open>
  The dependency injection of the two applications: every provider, controller and module as its
  decorators declare it (the *.module.ts files, the constructors, the factories). A token is named
  by its class or symbol. How the container finds what a constructor asks for is NestJS's documented
  rule: a provider of the module itself, one that an imported module provides and exports, one that a
  global module exports; \<open>given\<close> are the tokens the third-party modules ConfigModule and
  ScheduleModule make global.
\<close>

subsection \<open>Declarations\<close>

text \<open>A class with the parameters of its constructor, or \<open>provide\<close> with \<open>inject\<close>.\<close>

record provider =
  prov_token :: string
  prov_inject :: "string list"

record nest_module =
  mod_name :: string
  mod_global :: bool
  mod_imports :: "string list"
  mod_controllers :: "provider list"
  mod_providers :: "provider list"
  mod_exports :: "string list"
  mod_inject :: "string list"  \<comment> \<open>the constructor of the module class\<close>

text \<open>Everything of a module that is instantiated.\<close>

definition mod_entries :: "nest_module \<Rightarrow> provider list" where
  "mod_entries m = mod_providers m @ mod_controllers m @ [\<lparr>prov_token = mod_name m, prov_inject = mod_inject m\<rparr>]"

type_synonym instance_key = "string \<times> string"  \<comment> \<open>module and token\<close>

datatype source = Given | Instance instance_key

definition provides :: "nest_module \<Rightarrow> string \<Rightarrow> bool" where
  "provides m t \<longleftrightarrow> list_ex (\<lambda>p. prov_token p = t) (mod_providers m)"

definition offers :: "nest_module \<Rightarrow> string \<Rightarrow> bool" where
  "offers m t \<longleftrightarrow> t \<in> set (mod_exports m) \<and> provides m t"

definition resolve :: "string list \<Rightarrow> nest_module list \<Rightarrow> nest_module \<Rightarrow> string \<Rightarrow> source option" where
  "resolve given app m t =
     (if provides m t then Some (Instance (mod_name m, t))
      else case find (\<lambda>m'. mod_name m' \<in> set (mod_imports m) \<and> offers m' t) app of
        Some m' \<Rightarrow> Some (Instance (mod_name m', t))
      | None \<Rightarrow> (case find (\<lambda>m'. mod_global m' \<and> offers m' t) app of
          Some m' \<Rightarrow> Some (Instance (mod_name m', t))
        | None \<Rightarrow> if t \<in> set given then Some Given else None))"

subsection \<open>Building the container\<close>

definition jobs :: "nest_module list \<Rightarrow> (nest_module \<times> provider) list" where
  "jobs app = concat (map (\<lambda>m. map (Pair m) (mod_entries m)) app)"

definition job_key :: "nest_module \<times> provider \<Rightarrow> instance_key" where
  "job_key j = (mod_name (fst j), prov_token (snd j))"

text \<open>Whether everything a constructor asks for is there.\<close>

definition satisfied :: "string list \<Rightarrow> nest_module list \<Rightarrow> instance_key list \<Rightarrow> nest_module \<times> provider \<Rightarrow> bool" where
  "satisfied given app built j \<longleftrightarrow> list_all (\<lambda>t. case resolve given app (fst j) t of
     None \<Rightarrow> False | Some Given \<Rightarrow> True | Some (Instance k) \<Rightarrow> k \<in> set built) (prov_inject (snd j))"

text \<open>Whether the instances can be made one after the other in the given order.\<close>

fun buildable :: "string list \<Rightarrow> nest_module list \<Rightarrow> instance_key list \<Rightarrow> (nest_module \<times> provider) list \<Rightarrow> bool" where
  "buildable given app built [] = True"
| "buildable given app built (j # js) =
     (satisfied given app built j \<and> buildable given app (built @ [job_key j]) js)"

text \<open>An order: round after round, whatever is satisfied by then.\<close>

fun container_rounds ::
  "nat \<Rightarrow> string list \<Rightarrow> nest_module list \<Rightarrow> (nest_module \<times> provider) list \<Rightarrow> (nest_module \<times> provider) list \<Rightarrow>
   (nest_module \<times> provider) list" where
  "container_rounds 0 given app rest done_jobs = done_jobs"
| "container_rounds (Suc n) given app rest done_jobs =
     (let now = filter (satisfied given app (map job_key done_jobs)) rest
      in if now = [] then done_jobs
         else container_rounds n given app
           (filter (\<lambda>j. \<not> satisfied given app (map job_key done_jobs) j) rest) (done_jobs @ now))"

definition build_order :: "string list \<Rightarrow> nest_module list \<Rightarrow> (nest_module \<times> provider) list" where
  "build_order given app = container_rounds (length (jobs app)) given app (jobs app) []"

text \<open>What a module declares makes sense: it exports what it provides and imports what there is.\<close>

definition declared :: "nest_module list \<Rightarrow> bool" where
  "declared app \<longleftrightarrow> distinct (map mod_name app) \<and>
     distinct (concat (map (\<lambda>m. map prov_token (mod_providers m @ mod_controllers m)) app)) \<and>
     list_all (\<lambda>m. list_all (provides m) (mod_exports m) \<and>
       list_all (\<lambda>i. i \<in> set (map mod_name app) \<or> i = ''ConfigModule'' \<or> i = ''ScheduleModule'') (mod_imports m)) app"

subsection \<open>Orders\<close>

definition complete_order :: "string list \<Rightarrow> nest_module list \<Rightarrow> (nest_module \<times> provider) list \<Rightarrow> bool" where
  "complete_order given app js \<longleftrightarrow> mset js = mset (jobs app) \<and> buildable given app [] js"

lemma resolve_mono:
  "resolve given app m t = Some s \<Longrightarrow> set given \<subseteq> set given' \<Longrightarrow> resolve given' app m t = Some s"
  by (auto simp: resolve_def split: if_splits option.splits)

lemma satisfied_mono:
  assumes "satisfied given app built j" and "set given \<subseteq> set given'" and "set built \<subseteq> set built'"
  shows "satisfied given' app built' j"
  unfolding satisfied_def list_all_iff
proof
  fix t assume t: "t \<in> set (prov_inject (snd j))"
  with assms(1) obtain s where s: "resolve given app (fst j) t = Some s" "case s of Given \<Rightarrow> True | Instance k \<Rightarrow> k \<in> set built"
    by (auto simp: satisfied_def list_all_iff split: option.splits)
  with resolve_mono [OF s(1) assms(2)] assms(3)
  show "case resolve given' app (fst j) t of None \<Rightarrow> False | Some Given \<Rightarrow> True | Some (Instance k) \<Rightarrow> k \<in> set built'"
    by (auto split: source.splits)
qed

lemma buildable_append:
  "buildable given app built (xs @ ys) \<longleftrightarrow> buildable given app built xs \<and> buildable given app (built @ map job_key xs) ys"
  by (induction xs arbitrary: built) auto

lemma buildable_mono: "buildable given app built js \<Longrightarrow> set given \<subseteq> set given' \<Longrightarrow> buildable given' app built js"
  by (induction js arbitrary: built) (auto intro: satisfied_mono)

lemma buildable_at_once: "\<forall>j \<in> set js. satisfied given app built j \<Longrightarrow> buildable given app built js"
proof (induction js arbitrary: built)
  case (Cons j js)
  then have "buildable given app (built @ [job_key j]) js"
    by (intro Cons.IH) (auto intro: satisfied_mono)
  with Cons.prems show ?case by simp
qed simp

lemma rounds_buildable:
  "buildable given app [] ks \<Longrightarrow> buildable given app [] (container_rounds n given app js ks)"
proof (induction n given app js ks rule: container_rounds.induct)
  case (2 n given app js ks)
  have "buildable given app (map job_key ks) (filter (satisfied given app (map job_key ks)) js)"
    by (rule buildable_at_once) simp
  with 2 show ?case by (simp add: Let_def buildable_append)
qed simp

lemma rounds_jobs: "mset (container_rounds n given app js ks) \<subseteq># mset js + mset ks"
proof (induction n given app js ks rule: container_rounds.induct)
  case (2 n given app js ks)
  let ?p = "satisfied given app (map job_key ks)"
  have parts: "mset js = mset (filter (\<lambda>j. \<not> ?p j) js) + mset (filter ?p js)"
    by (simp add: union_commute)
  show ?case
  proof (cases "filter ?p js = []")
    case False
    from 2 [OF refl False] show ?thesis
      unfolding container_rounds.simps Let_def if_not_P [OF False] parts mset_append by (simp only: ac_simps)
  qed (simp add: Let_def)
qed simp

lemma order_complete:
  assumes "length (build_order given app) = length (jobs app)" and "set given \<subseteq> set given'"
  shows "complete_order given' app (build_order given app)"
proof -
  have "mset (build_order given app) \<subseteq># mset (jobs app)"
    using rounds_jobs [of "length (jobs app)" given app "jobs app" "[]"] by (simp add: build_order_def)
  then have "mset (build_order given app) = mset (jobs app)"
    using assms(1) by (metis mset_subset_size size_mset subset_mset.le_neq_trans nat_less_le)
  moreover have "buildable given app [] (build_order given app)"
    unfolding build_order_def by (rule rounds_buildable) simp
  ultimately show ?thesis using buildable_mono assms(2) by (auto simp: complete_order_def)
qed

text \<open>In any complete order, what a constructor asks for was made before.\<close>

lemma order_dependency:
  assumes "complete_order given app js" and "j \<in> set (jobs app)" and "t \<in> set (prov_inject (snd j))"
    and "resolve given app (fst j) t = Some (Instance k)"
  obtains xs ys where "js = xs @ j # ys" "k \<in> set (map job_key xs)"
proof -
  have "j \<in> set js" using assms(1,2) by (metis complete_order_def set_mset_mset)
  then obtain xs ys where js: "js = xs @ j # ys" by (meson split_list)
  then have "satisfied given app (map job_key xs) j" using assms(1) by (simp add: complete_order_def buildable_append)
  with assms(3,4) have "k \<in> set (map job_key xs)" by (fastforce simp: satisfied_def list_all_iff)
  with js show thesis by (rule that)
qed

text \<open>A token has one provider, so whoever gets an instance of it gets the same one.\<close>

lemma provider_unique:
  assumes "declared app" and "m \<in> set app" "m' \<in> set app" and "provides m t" "provides m' t"
  shows "m = m'"
proof -
  have "distinct (concat (map f xs)) \<Longrightarrow> a \<in> set xs \<Longrightarrow> b \<in> set xs \<Longrightarrow> x \<in> set (f a) \<Longrightarrow> x \<in> set (f b) \<Longrightarrow> a = b"
    for f :: "nest_module \<Rightarrow> string list" and xs a b x
    by (induction xs) auto
  moreover have "t \<in> set (map prov_token (mod_providers n @ mod_controllers n))" if "provides n t" for n
    using that by (auto simp: provides_def list_ex_iff)
  ultimately show ?thesis using assms unfolding declared_def by blast
qed

lemma resolve_shared:
  assumes app: "declared app" and "m \<in> set app" "m' \<in> set app"
    and "resolve given app m t = Some (Instance k)" and "resolve given app m' t = Some (Instance k')"
  shows "k = k'"
proof -
  have "\<exists>n \<in> set app. provides n t \<and> i = (mod_name n, t)" if "resolve given app l t = Some (Instance i)" "l \<in> set app" for l i
    using that by (auto simp: resolve_def offers_def dest!: find_Some_in split: if_splits option.splits)
  with assms provider_unique [OF app] show ?thesis by metis
qed

subsection \<open>Bank A\<close>

definition PG_POOL_provider :: provider where
  "PG_POOL_provider = \<lparr>prov_token = ''PG_POOL'', prov_inject = [''ConfigService'']\<rparr>"

definition AMQP_CONNECTION_provider :: provider where
  "AMQP_CONNECTION_provider = \<lparr>prov_token = ''AMQP_CONNECTION'', prov_inject = [''ConfigService'']\<rparr>"

definition AMQP_CHANNEL_provider :: provider where
  "AMQP_CHANNEL_provider = \<lparr>prov_token = ''AMQP_CHANNEL'', prov_inject = [''AMQP_CONNECTION'']\<rparr>"

definition RabbitMqPublisher_provider :: provider where
  "RabbitMqPublisher_provider = \<lparr>prov_token = ''RabbitMqPublisher'', prov_inject = [''AMQP_CHANNEL'']\<rparr>"

definition DomainExceptionFilter_provider :: provider where
  "DomainExceptionFilter_provider = \<lparr>prov_token = ''APP_FILTER'', prov_inject = []\<rparr>"

definition HealthController_provider :: provider where
  "HealthController_provider = \<lparr>prov_token = ''HealthController'', prov_inject = [''PG_POOL'']\<rparr>"

definition LedgerRepository_provider :: provider where
  "LedgerRepository_provider = \<lparr>prov_token = ''LedgerRepository'', prov_inject = [''PG_POOL'']\<rparr>"

definition AccountRepository_provider :: provider where
  "AccountRepository_provider = \<lparr>prov_token = ''AccountRepository'', prov_inject = [''PG_POOL'']\<rparr>"

definition AccountsService_provider :: provider where
  "AccountsService_provider =
     \<lparr>prov_token = ''AccountsService'',
      prov_inject = [''PG_POOL'', ''AccountRepository'', ''LedgerRepository'']\<rparr>"

definition AccountsController_provider :: provider where
  "AccountsController_provider = \<lparr>prov_token = ''AccountsController'', prov_inject = [''AccountsService'']\<rparr>"

definition TransferRepository_provider :: provider where
  "TransferRepository_provider = \<lparr>prov_token = ''TransferRepository'', prov_inject = [''PG_POOL'']\<rparr>"

definition TransfersService_provider :: provider where
  "TransfersService_provider =
     \<lparr>prov_token = ''TransfersService'',
      prov_inject = [''PG_POOL'', ''TransferRepository'', ''AccountRepository'', ''LedgerRepository'']\<rparr>"

definition TransfersController_provider :: provider where
  "TransfersController_provider = \<lparr>prov_token = ''TransfersController'', prov_inject = [''TransfersService'']\<rparr>"

definition OutboxRepository_provider :: provider where
  "OutboxRepository_provider = \<lparr>prov_token = ''OutboxRepository'', prov_inject = []\<rparr>"

definition OutboxRelayService_provider :: provider where
  "OutboxRelayService_provider =
     \<lparr>prov_token = ''OutboxRelayService'',
      prov_inject = [''PG_POOL'', ''OutboxRepository'', ''RabbitMqPublisher'']\<rparr>"

definition InterbankTransferRepository_provider :: provider where
  "InterbankTransferRepository_provider =
     \<lparr>prov_token = ''InterbankTransferRepository'',
      prov_inject = [''PG_POOL'']\<rparr>"

definition InterbankTransfersService_provider :: provider where
  "InterbankTransfersService_provider =
     \<lparr>prov_token = ''InterbankTransfersService'',
      prov_inject = [''PG_POOL'', ''TransferRepository'', ''InterbankTransferRepository'', ''AccountRepository'', ''LedgerRepository'', ''OutboxRepository'', ''ConfigService'']\<rparr>"

definition InterbankTransfersController_provider :: provider where
  "InterbankTransfersController_provider =
     \<lparr>prov_token = ''InterbankTransfersController'',
      prov_inject = [''InterbankTransfersService'']\<rparr>"

definition InterbankReplyService_provider :: provider where
  "InterbankReplyService_provider =
     \<lparr>prov_token = ''InterbankReplyService'',
      prov_inject = [''PG_POOL'', ''TransferRepository'', ''InterbankTransferRepository'', ''LedgerRepository'']\<rparr>"

definition InterbankReplyConsumer_provider :: provider where
  "InterbankReplyConsumer_provider =
     \<lparr>prov_token = ''InterbankReplyConsumer'',
      prov_inject = [''AMQP_CHANNEL'', ''InterbankReplyService'', ''ConfigService'']\<rparr>"

definition ReconciliationService_provider :: provider where
  "ReconciliationService_provider =
     \<lparr>prov_token = ''ReconciliationService'',
      prov_inject = [''InterbankTransferRepository'', ''InterbankReplyService'', ''ConfigService'']\<rparr>"

definition DatabaseModule_decl :: nest_module where
  "DatabaseModule_decl =
     \<lparr>mod_name = ''DatabaseModule'', mod_global = True,
      mod_imports = [],
      mod_controllers = [],
      mod_providers = [PG_POOL_provider],
      mod_exports = [''PG_POOL''], mod_inject = [''PG_POOL'']\<rparr>"

definition RabbitMqModule_decl :: nest_module where
  "RabbitMqModule_decl =
     \<lparr>mod_name = ''RabbitMqModule'', mod_global = True,
      mod_imports = [],
      mod_controllers = [],
      mod_providers = [AMQP_CONNECTION_provider, AMQP_CHANNEL_provider, RabbitMqPublisher_provider],
      mod_exports = [''RabbitMqPublisher'', ''AMQP_CHANNEL''], mod_inject = [''AMQP_CONNECTION'', ''AMQP_CHANNEL'']\<rparr>"

definition HealthModule_decl :: nest_module where
  "HealthModule_decl =
     \<lparr>mod_name = ''HealthModule'', mod_global = False,
      mod_imports = [],
      mod_controllers = [HealthController_provider],
      mod_providers = [],
      mod_exports = [], mod_inject = []\<rparr>"

definition LedgerModule_decl :: nest_module where
  "LedgerModule_decl =
     \<lparr>mod_name = ''LedgerModule'', mod_global = False,
      mod_imports = [],
      mod_controllers = [],
      mod_providers = [LedgerRepository_provider],
      mod_exports = [''LedgerRepository''], mod_inject = []\<rparr>"

definition AccountsModule_decl :: nest_module where
  "AccountsModule_decl =
     \<lparr>mod_name = ''AccountsModule'', mod_global = False,
      mod_imports = [''LedgerModule''],
      mod_controllers = [AccountsController_provider],
      mod_providers = [AccountsService_provider, AccountRepository_provider],
      mod_exports = [''AccountRepository''], mod_inject = []\<rparr>"

definition TransfersModule_decl :: nest_module where
  "TransfersModule_decl =
     \<lparr>mod_name = ''TransfersModule'', mod_global = False,
      mod_imports = [''AccountsModule'', ''LedgerModule''],
      mod_controllers = [TransfersController_provider],
      mod_providers = [TransfersService_provider, TransferRepository_provider],
      mod_exports = [''TransferRepository''], mod_inject = []\<rparr>"

definition OutboxModule_decl :: nest_module where
  "OutboxModule_decl =
     \<lparr>mod_name = ''OutboxModule'', mod_global = False,
      mod_imports = [],
      mod_controllers = [],
      mod_providers = [OutboxRepository_provider, OutboxRelayService_provider],
      mod_exports = [''OutboxRepository''], mod_inject = []\<rparr>"

definition InterbankTransfersModule_decl :: nest_module where
  "InterbankTransfersModule_decl =
     \<lparr>mod_name = ''InterbankTransfersModule'', mod_global = False,
      mod_imports = [''AccountsModule'', ''LedgerModule'', ''OutboxModule'', ''TransfersModule''],
      mod_controllers = [InterbankTransfersController_provider],
      mod_providers = [InterbankTransfersService_provider, InterbankTransferRepository_provider,
         InterbankReplyService_provider, InterbankReplyConsumer_provider,
         ReconciliationService_provider],
      mod_exports = [], mod_inject = []\<rparr>"

definition AppModule_decl :: nest_module where
  "AppModule_decl =
     \<lparr>mod_name = ''AppModule'', mod_global = False,
      mod_imports = [''ConfigModule'', ''ScheduleModule'', ''DatabaseModule'', ''RabbitMqModule'',
         ''HealthModule'', ''LedgerModule'', ''AccountsModule'', ''TransfersModule'',
         ''OutboxModule'', ''InterbankTransfersModule''],
      mod_controllers = [],
      mod_providers = [DomainExceptionFilter_provider],
      mod_exports = [], mod_inject = []\<rparr>"

definition bank_modules :: "nest_module list" where
  "bank_modules =
     [DatabaseModule_decl, RabbitMqModule_decl, HealthModule_decl, LedgerModule_decl, AccountsModule_decl,
      TransfersModule_decl, OutboxModule_decl, InterbankTransfersModule_decl, AppModule_decl]"

lemmas bank_declarations = PG_POOL_provider_def AMQP_CONNECTION_provider_def AMQP_CHANNEL_provider_def
  RabbitMqPublisher_provider_def DomainExceptionFilter_provider_def HealthController_provider_def
  LedgerRepository_provider_def AccountRepository_provider_def AccountsService_provider_def
  AccountsController_provider_def TransferRepository_provider_def TransfersService_provider_def
  TransfersController_provider_def OutboxRepository_provider_def OutboxRelayService_provider_def
  InterbankTransferRepository_provider_def InterbankTransfersService_provider_def
  InterbankTransfersController_provider_def InterbankReplyService_provider_def InterbankReplyConsumer_provider_def
  ReconciliationService_provider_def DatabaseModule_decl_def RabbitMqModule_decl_def HealthModule_decl_def
  LedgerModule_decl_def AccountsModule_decl_def TransfersModule_decl_def OutboxModule_decl_def
  InterbankTransfersModule_decl_def AppModule_decl_def

subsection \<open>The Hub\<close>

definition hub_PG_POOL_provider :: provider where
  "hub_PG_POOL_provider = \<lparr>prov_token = ''PG_POOL'', prov_inject = [''ConfigService'']\<rparr>"

definition hub_AMQP_CONNECTION_provider :: provider where
  "hub_AMQP_CONNECTION_provider = \<lparr>prov_token = ''AMQP_CONNECTION'', prov_inject = [''ConfigService'']\<rparr>"

definition hub_AMQP_CHANNEL_provider :: provider where
  "hub_AMQP_CHANNEL_provider = \<lparr>prov_token = ''AMQP_CHANNEL'', prov_inject = [''AMQP_CONNECTION'']\<rparr>"

definition hub_RabbitMqPublisher_provider :: provider where
  "hub_RabbitMqPublisher_provider = \<lparr>prov_token = ''RabbitMqPublisher'', prov_inject = [''AMQP_CHANNEL'']\<rparr>"

definition hub_DomainExceptionFilter_provider :: provider where
  "hub_DomainExceptionFilter_provider = \<lparr>prov_token = ''APP_FILTER'', prov_inject = []\<rparr>"

definition hub_HealthController_provider :: provider where
  "hub_HealthController_provider = \<lparr>prov_token = ''HealthController'', prov_inject = [''PG_POOL'']\<rparr>"

definition hub_LedgerRepository_provider :: provider where
  "hub_LedgerRepository_provider = \<lparr>prov_token = ''LedgerRepository'', prov_inject = [''PG_POOL'']\<rparr>"

definition hub_BankRepository_provider :: provider where
  "hub_BankRepository_provider = \<lparr>prov_token = ''BankRepository'', prov_inject = [''PG_POOL'']\<rparr>"

definition hub_BanksService_provider :: provider where
  "hub_BanksService_provider =
     \<lparr>prov_token = ''BanksService'',
      prov_inject = [''BankRepository'', ''LedgerRepository'']\<rparr>"

definition hub_BanksController_provider :: provider where
  "hub_BanksController_provider = \<lparr>prov_token = ''BanksController'', prov_inject = [''BanksService'']\<rparr>"

definition hub_OutboxRepository_provider :: provider where
  "hub_OutboxRepository_provider = \<lparr>prov_token = ''OutboxRepository'', prov_inject = []\<rparr>"

definition hub_OutboxRelayService_provider :: provider where
  "hub_OutboxRelayService_provider =
     \<lparr>prov_token = ''OutboxRelayService'',
      prov_inject = [''PG_POOL'', ''OutboxRepository'', ''RabbitMqPublisher'']\<rparr>"

definition hub_SettlementRepository_provider :: provider where
  "hub_SettlementRepository_provider = \<lparr>prov_token = ''SettlementRepository'', prov_inject = [''PG_POOL'']\<rparr>"

definition hub_SettlementsService_provider :: provider where
  "hub_SettlementsService_provider =
     \<lparr>prov_token = ''SettlementsService'',
      prov_inject = [''PG_POOL'', ''SettlementRepository'', ''BankRepository'', ''LedgerRepository'', ''OutboxRepository'']\<rparr>"

definition hub_SettlementsController_provider :: provider where
  "hub_SettlementsController_provider =
     \<lparr>prov_token = ''SettlementsController'',
      prov_inject = [''SettlementsService'']\<rparr>"

definition hub_SettlementsConsumer_provider :: provider where
  "hub_SettlementsConsumer_provider =
     \<lparr>prov_token = ''SettlementsConsumer'',
      prov_inject = [''AMQP_CHANNEL'', ''SettlementsService'']\<rparr>"

definition hub_DatabaseModule_decl :: nest_module where
  "hub_DatabaseModule_decl =
     \<lparr>mod_name = ''DatabaseModule'', mod_global = True,
      mod_imports = [],
      mod_controllers = [],
      mod_providers = [hub_PG_POOL_provider],
      mod_exports = [''PG_POOL''], mod_inject = [''PG_POOL'']\<rparr>"

definition hub_RabbitMqModule_decl :: nest_module where
  "hub_RabbitMqModule_decl =
     \<lparr>mod_name = ''RabbitMqModule'', mod_global = True,
      mod_imports = [],
      mod_controllers = [],
      mod_providers = [hub_AMQP_CONNECTION_provider, hub_AMQP_CHANNEL_provider, hub_RabbitMqPublisher_provider],
      mod_exports = [''RabbitMqPublisher'', ''AMQP_CHANNEL''], mod_inject = [''AMQP_CONNECTION'', ''AMQP_CHANNEL'']\<rparr>"

definition hub_HealthModule_decl :: nest_module where
  "hub_HealthModule_decl =
     \<lparr>mod_name = ''HealthModule'', mod_global = False,
      mod_imports = [],
      mod_controllers = [hub_HealthController_provider],
      mod_providers = [],
      mod_exports = [], mod_inject = []\<rparr>"

definition hub_LedgerModule_decl :: nest_module where
  "hub_LedgerModule_decl =
     \<lparr>mod_name = ''LedgerModule'', mod_global = False,
      mod_imports = [],
      mod_controllers = [],
      mod_providers = [hub_LedgerRepository_provider],
      mod_exports = [''LedgerRepository''], mod_inject = []\<rparr>"

definition hub_BanksModule_decl :: nest_module where
  "hub_BanksModule_decl =
     \<lparr>mod_name = ''BanksModule'', mod_global = False,
      mod_imports = [''LedgerModule''],
      mod_controllers = [hub_BanksController_provider],
      mod_providers = [hub_BanksService_provider, hub_BankRepository_provider],
      mod_exports = [''BankRepository''], mod_inject = []\<rparr>"

definition hub_OutboxModule_decl :: nest_module where
  "hub_OutboxModule_decl =
     \<lparr>mod_name = ''OutboxModule'', mod_global = False,
      mod_imports = [],
      mod_controllers = [],
      mod_providers = [hub_OutboxRepository_provider, hub_OutboxRelayService_provider],
      mod_exports = [''OutboxRepository''], mod_inject = []\<rparr>"

definition hub_SettlementsModule_decl :: nest_module where
  "hub_SettlementsModule_decl =
     \<lparr>mod_name = ''SettlementsModule'', mod_global = False,
      mod_imports = [''BanksModule'', ''LedgerModule'', ''OutboxModule''],
      mod_controllers = [hub_SettlementsController_provider],
      mod_providers = [hub_SettlementsService_provider, hub_SettlementRepository_provider,
         hub_SettlementsConsumer_provider],
      mod_exports = [], mod_inject = []\<rparr>"

definition hub_AppModule_decl :: nest_module where
  "hub_AppModule_decl =
     \<lparr>mod_name = ''AppModule'', mod_global = False,
      mod_imports = [''ConfigModule'', ''ScheduleModule'', ''DatabaseModule'', ''RabbitMqModule'',
         ''HealthModule'', ''LedgerModule'', ''BanksModule'', ''OutboxModule'',
         ''SettlementsModule''],
      mod_controllers = [],
      mod_providers = [hub_DomainExceptionFilter_provider],
      mod_exports = [], mod_inject = []\<rparr>"

definition hub_modules :: "nest_module list" where
  "hub_modules =
     [hub_DatabaseModule_decl, hub_RabbitMqModule_decl, hub_HealthModule_decl, hub_LedgerModule_decl,
      hub_BanksModule_decl, hub_OutboxModule_decl, hub_SettlementsModule_decl, hub_AppModule_decl]"

lemmas hub_declarations = hub_PG_POOL_provider_def hub_AMQP_CONNECTION_provider_def hub_AMQP_CHANNEL_provider_def
  hub_RabbitMqPublisher_provider_def hub_DomainExceptionFilter_provider_def hub_HealthController_provider_def
  hub_LedgerRepository_provider_def hub_BankRepository_provider_def hub_BanksService_provider_def
  hub_BanksController_provider_def hub_OutboxRepository_provider_def hub_OutboxRelayService_provider_def
  hub_SettlementRepository_provider_def hub_SettlementsService_provider_def hub_SettlementsController_provider_def
  hub_SettlementsConsumer_provider_def hub_DatabaseModule_decl_def hub_RabbitMqModule_decl_def
  hub_HealthModule_decl_def hub_LedgerModule_decl_def hub_BanksModule_decl_def hub_OutboxModule_decl_def
  hub_SettlementsModule_decl_def hub_AppModule_decl_def
subsection \<open>Starting\<close>

text \<open>What an instance does when it is made: the factories; a constructor only keeps its arguments.\<close>

definition bank_factory :: "(string \<Rightarrow> string option) \<Rightarrow> instance_key \<Rightarrow> bank_error + setup_call list" where
  "bank_factory config k =
     (if snd k = ''PG_POOL'' then PG_POOL_factory config
      else if snd k = ''AMQP_CONNECTION'' then AMQP_CONNECTION_factory config
      else if snd k = ''AMQP_CHANNEL'' then Inr AMQP_CHANNEL_factory
      else Inr [])"

definition hub_factory :: "(string \<Rightarrow> string option) \<Rightarrow> instance_key \<Rightarrow> hub_service_error + setup_call list" where
  "hub_factory config k =
     (if snd k = ''PG_POOL'' then hub_PG_POOL_factory config
      else if snd k = ''AMQP_CONNECTION'' then hub_AMQP_CONNECTION_factory config
      else if snd k = ''AMQP_CHANNEL'' then Inr hub_AMQP_CHANNEL_factory
      else Inr [])"

fun run_factories :: "(instance_key \<Rightarrow> 'e + setup_call list) \<Rightarrow> instance_key list \<Rightarrow> 'e + setup_call list" where
  "run_factories f [] = Inr []"
| "run_factories f (k # ks) =
     (case f k of
        Inl e \<Rightarrow> Inl e
      | Inr calls \<Rightarrow> (case run_factories f ks of Inl e \<Rightarrow> Inl e | Inr later \<Rightarrow> Inr (calls @ later)))"

lemma run_factories_total:
  "(\<And>k. k \<in> set ks \<Longrightarrow> f k = Inr (g k)) \<Longrightarrow> run_factories f ks = Inr (concat (map g ks))"
  by (induction ks) simp_all

text \<open>Calls before the hooks and the port: the process they leave does not depend on their order.\<close>

definition quiet :: "setup_call \<Rightarrow> bool" where
  "quiet c \<longleftrightarrow> (\<forall>q. c \<noteq> Declare (Consume q)) \<and> (\<forall>p. c \<noteq> ListenOn p)"

lemma quiet_setup:
  "list_all quiet calls \<Longrightarrow> fold do_setup calls p =
    p\<lparr>pr_pool := pr_pool p \<or> (\<exists>u. NewPool u \<in> set calls),
      pr_connection := pr_connection p \<or> (\<exists>u. ConnectBroker u \<in> set calls),
      pr_channel := pr_channel p \<or> CreateChannel \<in> set calls,
      pr_connection_listener := pr_connection_listener p \<or> ListenConnectionError \<in> set calls,
      pr_channel_listener := pr_channel_listener p \<or> ListenChannelError \<in> set calls\<rparr>"
proof (induction calls arbitrary: p)
  case (Cons c calls)
  show ?case
  proof (cases c)
    case (Declare call)
    with Cons show ?thesis by (cases call) (simp_all add: quiet_def)
  qed (use Cons in \<open>simp_all add: quiet_def ex_disj_distrib\<close>)
qed simp

lemma quiet_order:
  assumes "set a = set b" and "list_all quiet a"
  shows "started (bootstrap PORT a hooks) = started (bootstrap PORT b hooks)"
    and "started (hub_bootstrap PORT a hooks) = started (hub_bootstrap PORT b hooks)"
proof -
  have "list_all quiet b" using assms by (simp add: list_all_iff)
  then have "fold do_setup a blank_process = fold do_setup b blank_process"
    using assms by (simp add: quiet_setup)
  then show "started (bootstrap PORT a hooks) = started (bootstrap PORT b hooks)"
    "started (hub_bootstrap PORT a hooks) = started (hub_bootstrap PORT b hooks)"
    by (simp_all add: started_def bootstrap_def hub_bootstrap_def)
qed

subsection \<open>The two containers\<close>

lemma bank_declared: "declared bank_modules"
  by code_simp

lemma bank_order_length: "length (build_order [''ConfigService''] bank_modules) = length (jobs bank_modules)"
  by code_simp

lemma hub_declared: "declared hub_modules"
  by code_simp

lemma hub_order_length: "length (build_order [''ConfigService''] hub_modules) = length (jobs hub_modules)"
  by code_simp

lemma bank_tokens: "snd ` set (map job_key (jobs bank_modules)) \<inter> {''PG_POOL'', ''AMQP_CONNECTION'', ''AMQP_CHANNEL''} =
    {''PG_POOL'', ''AMQP_CONNECTION'', ''AMQP_CHANNEL''}"
  by code_simp

lemma hub_tokens: "snd ` set (map job_key (jobs hub_modules)) \<inter> {''PG_POOL'', ''AMQP_CONNECTION'', ''AMQP_CHANNEL''} =
    {''PG_POOL'', ''AMQP_CONNECTION'', ''AMQP_CHANNEL''}"
  by code_simp

lemma one_pool:
  "m \<in> set bank_modules \<Longrightarrow> resolve given bank_modules m ''PG_POOL'' = Some (Instance (''DatabaseModule'', ''PG_POOL''))"
  "m \<in> set hub_modules \<Longrightarrow> resolve given hub_modules m ''PG_POOL'' = Some (Instance (''DatabaseModule'', ''PG_POOL''))"
  by (auto simp: bank_modules_def bank_declarations hub_modules_def hub_declarations resolve_def provides_def offers_def)

lemma one_channel:
  "m \<in> set bank_modules \<Longrightarrow> resolve given bank_modules m ''AMQP_CHANNEL'' = Some (Instance (''RabbitMqModule'', ''AMQP_CHANNEL''))"
  "m \<in> set hub_modules \<Longrightarrow> resolve given hub_modules m ''AMQP_CHANNEL'' = Some (Instance (''RabbitMqModule'', ''AMQP_CHANNEL''))"
  by (auto simp: bank_modules_def bank_declarations hub_modules_def hub_declarations resolve_def provides_def offers_def)

lemma factories_concat:
  fixes f :: "instance_key \<Rightarrow> 'e + setup_call list"
  assumes pool: "\<And>k. snd k = ''PG_POOL'' \<Longrightarrow> f k = Inr a"
    and conn: "\<And>k. snd k = ''AMQP_CONNECTION'' \<Longrightarrow> f k = Inr b"
    and chan: "\<And>k. snd k = ''AMQP_CHANNEL'' \<Longrightarrow> f k = Inr c"
    and none: "\<And>k. snd k \<notin> {''PG_POOL'', ''AMQP_CONNECTION'', ''AMQP_CHANNEL''} \<Longrightarrow> f k = Inr []"
    and tokens: "{''PG_POOL'', ''AMQP_CONNECTION'', ''AMQP_CHANNEL''} \<subseteq> snd ` set ks"
  shows "\<exists>calls. run_factories f ks = Inr calls \<and> set calls = set (a @ b @ c)"
proof -
  define g where "g k = (if snd k = ''PG_POOL'' then a else if snd k = ''AMQP_CONNECTION'' then b
    else if snd k = ''AMQP_CHANNEL'' then c else [])" for k :: instance_key
  have f: "f k = Inr (g k)" for k
    using pool [of k] conn [of k] chan [of k] none [of k] by (auto simp: g_def)
  obtain p q r where "p \<in> set ks" "q \<in> set ks" "r \<in> set ks"
    and "snd p = ''PG_POOL''" "snd q = ''AMQP_CONNECTION''" "snd r = ''AMQP_CHANNEL''"
    using tokens by (auto simp: image_iff)
  then have "set a \<subseteq> set (concat (map g ks))" "set b \<subseteq> set (concat (map g ks))" "set c \<subseteq> set (concat (map g ks))"
    by (auto simp: g_def intro!: bexI)
  moreover have "set (concat (map g ks)) \<subseteq> set a \<union> set b \<union> set c"
    by (auto simp: g_def split: if_splits)
  ultimately have "set (concat (map g ks)) = set (a @ b @ c)" by auto
  then show ?thesis using run_factories_total [of ks f g] f by simp
qed

lemma run_factories_append:
  "run_factories f (xs @ ys) =
     (case run_factories f xs of
        Inl e \<Rightarrow> Inl e
      | Inr a \<Rightarrow> (case run_factories f ys of Inl e \<Rightarrow> Inl e | Inr b \<Rightarrow> Inr (a @ b)))"
  by (induction xs) (auto split: sum.splits)

lemma run_factories_in: "run_factories f ks = Inr calls \<Longrightarrow> k \<in> set ks \<Longrightarrow> f k = Inr cs \<Longrightarrow> set cs \<subseteq> set calls"
  by (induction ks arbitrary: calls) (auto split: sum.splits)

text \<open>The connection is opened before the channel is created on it.\<close>

lemma connection_first:
  assumes order: "complete_order given app js" and j: "(m, p) \<in> set (jobs app)" "prov_inject p = [''AMQP_CONNECTION'']"
    and conn: "resolve given app m ''AMQP_CONNECTION'' = Some (Instance k)" "f k = Inr cs"
    and chan: "f (job_key (m, p)) = Inr channel" and run: "run_factories f (map job_key js) = Inr calls"
  shows "\<exists>xs ys. calls = xs @ channel @ ys \<and> set cs \<subseteq> set xs"
proof -
  from order_dependency [OF order j(1), of "''AMQP_CONNECTION''" k] j(2) conn(1)
  obtain before after where js: "js = before @ (m, p) # after" and k: "k \<in> set (map job_key before)" by auto
  with run chan obtain xs ys where "run_factories f (map job_key before) = Inr xs" "calls = xs @ channel @ ys"
    by (auto simp: run_factories_append split: sum.splits)
  with run_factories_in [where f = f, OF _ k conn(2)] show ?thesis by blast
qed

lemma complete_keys: "complete_order given app js \<Longrightarrow> set (map job_key js) = set (map job_key (jobs app))"
  by (metis complete_order_def list.set_map set_mset_mset)

lemma bank_starts:
  assumes order: "complete_order given bank_modules js"
    and config: "config ''DATABASE_URL'' = Some d" "config ''RABBITMQ_URL'' = Some r"
  shows "\<exists>create. run_factories (bank_factory config) (map job_key js) = Inr create \<and>
    set create = set ([NewPool d] @ [ConnectBroker r, ListenConnectionError] @ AMQP_CHANNEL_factory) \<and>
    (\<exists>xs ys. create = xs @ AMQP_CHANNEL_factory @ ys \<and> ConnectBroker r \<in> set xs)"
proof -
  have tokens: "{''PG_POOL'', ''AMQP_CONNECTION'', ''AMQP_CHANNEL''} \<subseteq> snd ` set (map job_key js)"
    using bank_tokens unfolding complete_keys [OF order] by blast
  have "\<exists>create. run_factories (bank_factory config) (map job_key js) = Inr create \<and>
      set create = set ([NewPool d] @ [ConnectBroker r, ListenConnectionError] @ AMQP_CHANNEL_factory)"
    by (rule factories_concat [OF _ _ _ _ tokens])
      (use config in \<open>simp_all add: bank_factory_def PG_POOL_factory_def AMQP_CONNECTION_factory_def getOrThrow_def\<close>)
  then obtain create where run: "run_factories (bank_factory config) (map job_key js) = Inr create"
      "set create = set ([NewPool d] @ [ConnectBroker r, ListenConnectionError] @ AMQP_CHANNEL_factory)" by blast
  have "(RabbitMqModule_decl, AMQP_CHANNEL_provider) \<in> set (jobs bank_modules)"
    by (simp add: jobs_def bank_modules_def mod_entries_def RabbitMqModule_decl_def)
  moreover have "resolve given bank_modules RabbitMqModule_decl ''AMQP_CONNECTION'' = Some (Instance (''RabbitMqModule'', ''AMQP_CONNECTION''))"
    by (simp add: resolve_def provides_def RabbitMqModule_decl_def AMQP_CONNECTION_provider_def)
  ultimately obtain xs ys where "create = xs @ AMQP_CHANNEL_factory @ ys" "ConnectBroker r \<in> set xs"
    using connection_first [OF order _ _ _ _ _ run(1), of RabbitMqModule_decl AMQP_CHANNEL_provider] config
    by (fastforce simp: AMQP_CHANNEL_provider_def job_key_def bank_factory_def AMQP_CONNECTION_factory_def getOrThrow_def)
  with run show ?thesis by blast
qed

lemma hub_starts:
  assumes order: "complete_order given hub_modules js"
    and config: "config ''DATABASE_URL'' = Some d" "config ''RABBITMQ_URL'' = Some r"
  shows "\<exists>create. run_factories (hub_factory config) (map job_key js) = Inr create \<and>
    set create = set ([NewPool d] @ [ConnectBroker r, ListenConnectionError] @ hub_AMQP_CHANNEL_factory) \<and>
    (\<exists>xs ys. create = xs @ hub_AMQP_CHANNEL_factory @ ys \<and> ConnectBroker r \<in> set xs)"
proof -
  have tokens: "{''PG_POOL'', ''AMQP_CONNECTION'', ''AMQP_CHANNEL''} \<subseteq> snd ` set (map job_key js)"
    using hub_tokens unfolding complete_keys [OF order] by blast
  have "\<exists>create. run_factories (hub_factory config) (map job_key js) = Inr create \<and>
      set create = set ([NewPool d] @ [ConnectBroker r, ListenConnectionError] @ hub_AMQP_CHANNEL_factory)"
    by (rule factories_concat [OF _ _ _ _ tokens])
      (use config in \<open>simp_all add: hub_factory_def hub_PG_POOL_factory_def hub_AMQP_CONNECTION_factory_def getOrThrow_def\<close>)
  then obtain create where run: "run_factories (hub_factory config) (map job_key js) = Inr create"
      "set create = set ([NewPool d] @ [ConnectBroker r, ListenConnectionError] @ hub_AMQP_CHANNEL_factory)" by blast
  have "(hub_RabbitMqModule_decl, hub_AMQP_CHANNEL_provider) \<in> set (jobs hub_modules)"
    by (simp add: jobs_def hub_modules_def mod_entries_def hub_RabbitMqModule_decl_def)
  moreover have "resolve given hub_modules hub_RabbitMqModule_decl ''AMQP_CONNECTION'' = Some (Instance (''RabbitMqModule'', ''AMQP_CONNECTION''))"
    by (simp add: resolve_def provides_def hub_RabbitMqModule_decl_def hub_AMQP_CONNECTION_provider_def)
  ultimately obtain xs ys where "create = xs @ hub_AMQP_CHANNEL_factory @ ys" "ConnectBroker r \<in> set xs"
    using connection_first [OF order _ _ _ _ _ run(1), of hub_RabbitMqModule_decl hub_AMQP_CHANNEL_provider] config
    by (fastforce simp: hub_AMQP_CHANNEL_provider_def job_key_def hub_factory_def hub_AMQP_CONNECTION_factory_def getOrThrow_def)
  with run show ?thesis by blast
qed

subsection \<open>Properties\<close>

text \<open>
  C27. Both containers can be built, and every way of building them starts the same process. Given
  the configuration service, every constructor and factory of Bank A and of the Hub finds what it
  asks for; every module that asks for the pool or the channel gets the one of DatabaseModule and of
  RabbitMqModule, so that the publisher, the consumer and the shutdown hook share one channel; the
  instances can be made in an order in which each finds its dependencies made. In any such order the
  broker is connected before the channel is created, and the application that is then set up is the
  process that \<open>bank_start\<close> and \<open>hub_start\<close> describe.
\<close>
theorem containers_start:
  assumes given: "''ConfigService'' \<in> set given"
    and config: "config ''DATABASE_URL'' = Some d" "config ''RABBITMQ_URL'' = Some r" "config ''BANK_ID'' = Some b"
  shows "declared bank_modules \<and> declared hub_modules \<and>
    (\<forall>m \<in> set bank_modules.
       resolve given bank_modules m ''PG_POOL'' = Some (Instance (''DatabaseModule'', ''PG_POOL'')) \<and>
       resolve given bank_modules m ''AMQP_CHANNEL'' = Some (Instance (''RabbitMqModule'', ''AMQP_CHANNEL''))) \<and>
    (\<forall>m \<in> set hub_modules.
       resolve given hub_modules m ''PG_POOL'' = Some (Instance (''DatabaseModule'', ''PG_POOL'')) \<and>
       resolve given hub_modules m ''AMQP_CHANNEL'' = Some (Instance (''RabbitMqModule'', ''AMQP_CHANNEL''))) \<and>
    (\<exists>js. complete_order given bank_modules js) \<and> (\<exists>js. complete_order given hub_modules js) \<and>
    (\<forall>js. complete_order given bank_modules js \<longrightarrow> (\<exists>create hooks calls.
       run_factories (bank_factory config) (map job_key js) = Inr create \<and>
       (\<exists>xs ys. create = xs @ AMQP_CHANNEL_factory @ ys \<and> ConnectBroker r \<in> set xs) \<and>
       InterbankReplyConsumer_onApplicationBootstrap (Inr b) = Inr hooks \<and> bank_start config = Inr calls \<and>
       started (bootstrap (config ''PORT'') create (map Declare hooks)) = started calls)) \<and>
    (\<forall>js. complete_order given hub_modules js \<longrightarrow> (\<exists>create calls.
       run_factories (hub_factory config) (map job_key js) = Inr create \<and>
       (\<exists>xs ys. create = xs @ hub_AMQP_CHANNEL_factory @ ys \<and> ConnectBroker r \<in> set xs) \<and>
       hub_start config = Inr calls \<and>
       started (hub_bootstrap (config ''PORT'') create (map Declare SettlementsConsumer_onApplicationBootstrap)) = started calls))"
proof -
  have given': "set [''ConfigService''] \<subseteq> set given" using given by simp
  have orders: "\<exists>js. complete_order given bank_modules js" "\<exists>js. complete_order given hub_modules js"
    using order_complete [OF bank_order_length given'] order_complete [OF hub_order_length given'] by blast+
  have quiet: "list_all quiet ([NewPool d] @ [ConnectBroker r, ListenConnectionError] @ AMQP_CHANNEL_factory)"
    "list_all quiet ([NewPool d] @ [ConnectBroker r, ListenConnectionError] @ hub_AMQP_CHANNEL_factory)"
    by (simp_all add: quiet_def AMQP_CHANNEL_factory_def hub_AMQP_CHANNEL_factory_def channel_factory_def hub_channel_factory_def)
  have bank: "\<exists>create hooks calls. run_factories (bank_factory config) (map job_key js) = Inr create \<and>
       (\<exists>xs ys. create = xs @ AMQP_CHANNEL_factory @ ys \<and> ConnectBroker r \<in> set xs) \<and>
       InterbankReplyConsumer_onApplicationBootstrap (Inr b) = Inr hooks \<and> bank_start config = Inr calls \<and>
       started (bootstrap (config ''PORT'') create (map Declare hooks)) = started calls"
    if js: "complete_order given bank_modules js" for js
  proof -
    obtain hooks where hooks: "InterbankReplyConsumer_onApplicationBootstrap (Inr b) = Inr hooks"
      by (simp add: InterbankReplyConsumer_onApplicationBootstrap_def Let_def)
    then have "bank_start config = Inr (bootstrap (config ''PORT'')
        ([NewPool d] @ [ConnectBroker r, ListenConnectionError] @ AMQP_CHANNEL_factory) (map Declare hooks))"
      using config by (simp add: bank_start_def PG_POOL_factory_def AMQP_CONNECTION_factory_def getOrThrow_def)
    with hooks bank_starts [OF js config(1,2)] quiet_order(1) [OF _ quiet(1)] show ?thesis by metis
  qed
  have hub: "\<exists>create calls. run_factories (hub_factory config) (map job_key js) = Inr create \<and>
       (\<exists>xs ys. create = xs @ hub_AMQP_CHANNEL_factory @ ys \<and> ConnectBroker r \<in> set xs) \<and>
       hub_start config = Inr calls \<and>
       started (hub_bootstrap (config ''PORT'') create (map Declare SettlementsConsumer_onApplicationBootstrap)) = started calls"
    if js: "complete_order given hub_modules js" for js
  proof -
    have "hub_start config = Inr (hub_bootstrap (config ''PORT'')
        ([NewPool d] @ [ConnectBroker r, ListenConnectionError] @ hub_AMQP_CHANNEL_factory)
        (map Declare SettlementsConsumer_onApplicationBootstrap))"
      using config by (simp add: hub_start_def hub_PG_POOL_factory_def hub_AMQP_CONNECTION_factory_def getOrThrow_def)
    with hub_starts [OF js config(1,2)] quiet_order(2) [OF _ quiet(2)] show ?thesis by metis
  qed
  show ?thesis
    by (intro conjI ballI allI impI orders bank_declared hub_declared one_pool one_channel bank hub)
qed

theorem containers_start_witness:
  "\<exists>js. complete_order [''ConfigService''] bank_modules js \<and> length js = 30"
proof -
  obtain js where js: "complete_order [''ConfigService''] bank_modules js"
    using containers_start [of "''ConfigService'' # []" "\<lambda>_. Some ''x''", OF list.set_intros(1) refl refl refl] by (elim conjE exE)
  have "length (jobs bank_modules) = 30" by code_simp
  moreover have "size (mset js) = size (mset (jobs bank_modules))" using js by (simp only: complete_order_def)
  ultimately have "length js = 30" by (simp only: size_mset)
  with js show ?thesis by (intro exI conjI)
qed

end
