(* ===== verification/Migrate.thy ===== *)
theory Migrate
  imports Postgres "HOL-Library.Sublist"
begin

text \<open>
  The migration runner (scripts/migrate.ts; hub/scripts/migrate.ts is the same program under
  another lock key): every .sql file of the migrations directory that schema_migrations does not
  name is run once, in the order of the names, each in a transaction with the row that records
  it. What PostgreSQL makes of a file's text is the argument \<open>exec\<close> on a schema of any type;
  \<open>readdir\<close> and \<open>readFile\<close> are what the file system answers. That the advisory
  lock makes a run one step for other runners is shown in \<open>MigrateRunners\<close>.
\<close>

subsection \<open>The runner\<close>

record 's migrations_db =
  mig_schema :: 's
  mig_applied :: "(string \<times> int) list option"  \<comment> \<open>schema_migrations, None before it exists\<close>

definition create_migrations_table :: "'s migrations_db \<Rightarrow> 's migrations_db" where
  "create_migrations_table s = (if mig_applied s = None then s\<lparr>mig_applied := Some []\<rparr> else s)"

definition applied_names :: "'s migrations_db \<Rightarrow> string list" where
  "applied_names s = (case mig_applied s of None \<Rightarrow> [] | Some rows \<Rightarrow> map fst rows)"

definition sql_files :: "string list \<Rightarrow> string list" where
  "sql_files files = sort (filter (\<lambda>file. suffix ''.sql'' file) files)"

definition run_file ::
  "(string \<Rightarrow> 's \<Rightarrow> unit service_error + 's) \<Rightarrow> int \<Rightarrow> string \<Rightarrow> string \<Rightarrow> ('s migrations_db, unit service_error, unit) tx" where
  "run_file exec now file sql =
     tx_bind (\<lambda>s. case exec sql (mig_schema s) of Inl e \<Rightarrow> Inl e | Inr t \<Rightarrow> Inr ((), s\<lparr>mig_schema := t\<rparr>)) (\<lambda>_ s.
       if file \<in> set (applied_names s) then Inl (Db (UniqueViolation ''schema_migrations_pkey''))
       else Inr ((), s\<lparr>mig_applied := Some (the (mig_applied s) @ [(file, now)])\<rparr>))"

definition migration_failed :: "string \<Rightarrow> unit service_error" where
  "migration_failed file = Failure (''migration '' @ file @ '' failed'')"

fun migrate_loop ::
  "(string \<Rightarrow> 's \<Rightarrow> unit service_error + 's) \<Rightarrow> (string \<Rightarrow> unit service_error + string) \<Rightarrow> int \<Rightarrow> string set \<Rightarrow>
   string list \<Rightarrow> 's migrations_db \<Rightarrow> (unit service_error + unit) \<times> 's migrations_db" where
  "migrate_loop exec readFile now applied [] s = (Inr (), s)"
| "migrate_loop exec readFile now applied (file # files) s =
     (if file \<in> applied then migrate_loop exec readFile now applied files s
      else case readFile file of
        Inl e \<Rightarrow> (Inl e, s)
      | Inr sql \<Rightarrow> (case with_tx (run_file exec now file sql) s of
          (Inl e, t) \<Rightarrow> (Inl (migration_failed file), t)
        | (Inr _, t) \<Rightarrow> migrate_loop exec readFile now applied files t))"

definition migrate ::
  "(string \<Rightarrow> 's \<Rightarrow> unit service_error + 's) \<Rightarrow> string list \<Rightarrow> (string \<Rightarrow> unit service_error + string) \<Rightarrow> int \<Rightarrow>
   's migrations_db \<Rightarrow> (unit service_error + unit) \<times> 's migrations_db" where
  "migrate exec readdir readFile now s =
     (let s = create_migrations_table s; applied = set (applied_names s); files = sql_files readdir
      in migrate_loop exec readFile now applied files s)"

subsection \<open>What a run has to do\<close>

text \<open>The schema after the given files in their order, if all of them can be read and succeed.\<close>

fun run_all ::
  "(string \<Rightarrow> 's \<Rightarrow> unit service_error + 's) \<Rightarrow> (string \<Rightarrow> unit service_error + string) \<Rightarrow> string list \<Rightarrow> 's \<Rightarrow> 's option" where
  "run_all exec readFile [] x = Some x"
| "run_all exec readFile (file # files) x =
     (case readFile file of
        Inl _ \<Rightarrow> None
      | Inr sql \<Rightarrow> (case exec sql x of Inl _ \<Rightarrow> None | Inr y \<Rightarrow> run_all exec readFile files y))"

text \<open>The files a run has still to apply.\<close>

definition pending :: "string list \<Rightarrow> 's migrations_db \<Rightarrow> string list" where
  "pending readdir s = filter (\<lambda>file. file \<notin> set (applied_names s)) (sql_files readdir)"

text \<open>The database once \<open>files\<close> have been applied at time \<open>now\<close>.\<close>

definition advanced :: "int \<Rightarrow> string list \<Rightarrow> 's \<Rightarrow> 's migrations_db \<Rightarrow> 's migrations_db" where
  "advanced now files x s =
     \<lparr>mig_schema = x, mig_applied = Some (the (mig_applied (create_migrations_table s)) @ map (\<lambda>f. (f, now)) files)\<rparr>"

lemma names_created [simp]: "applied_names (create_migrations_table s) = applied_names s"
  by (simp add: create_migrations_table_def applied_names_def)

lemma names_advanced [simp]: "applied_names (advanced now files x s) = applied_names s @ files"
  by (cases "mig_applied s") (simp_all add: advanced_def applied_names_def create_migrations_table_def comp_def)

lemma created_advanced [simp]: "create_migrations_table (advanced now files x s) = advanced now files x s"
  by (simp add: create_migrations_table_def advanced_def)

lemma advanced_advanced: "advanced now (fs @ gs) y s = advanced now gs y (advanced now fs x s)"
  by (simp add: advanced_def create_migrations_table_def)

lemma advanced_none: "mig_applied s \<noteq> None \<Longrightarrow> advanced now [] (mig_schema s) s = s"
  by (auto simp: advanced_def create_migrations_table_def)

lemma run_file_new:
  assumes "mig_applied s \<noteq> None" and "file \<notin> set (applied_names s)"
  shows "with_tx (run_file exec now file sql) s = (case exec sql (mig_schema s) of
      Inl e \<Rightarrow> (Inl e, s) | Inr y \<Rightarrow> (Inr (), advanced now [file] y s))"
  using assms by (cases "exec sql (mig_schema s)")
    (auto simp: with_tx_def run_file_def tx_bind_def advanced_def create_migrations_table_def applied_names_def)

lemma run_all_append: "run_all exec readFile (fs @ gs) x =
    (case run_all exec readFile fs x of None \<Rightarrow> None | Some y \<Rightarrow> run_all exec readFile gs y)"
  by (induction fs arbitrary: x) (auto split: sum.splits)

text \<open>The loop stops after a part of the pending files, and only before one it cannot apply.\<close>

lemma migrate_loop_spec:
  assumes "mig_applied s \<noteq> None" and "distinct files"
    and "\<forall>file \<in> set files. file \<in> set (applied_names s) \<longleftrightarrow> file \<in> applied"
    and "migrate_loop exec readFile now applied files s = (res, t)"
  shows "\<exists>fs x. prefix fs (filter (\<lambda>file. file \<notin> applied) files) \<and> run_all exec readFile fs (mig_schema s) = Some x \<and>
    t = advanced now fs x s \<and>
    (if res = Inr () then fs = filter (\<lambda>file. file \<notin> applied) files
     else \<exists>file gs. filter (\<lambda>file. file \<notin> applied) files = fs @ file # gs \<and> run_all exec readFile [file] x = None \<and>
       (res = Inl (migration_failed file) \<or> (\<exists>e. readFile file = Inl e \<and> res = Inl e)))"
  using assms
proof (induction files arbitrary: s)
  case Nil
  then show ?case by (auto simp: advanced_none intro!: exI [of _ "mig_schema s"])
next
  case (Cons m files)
  show ?case
  proof (cases "m \<in> applied")
    case True
    then have eq: "filter (\<lambda>file. file \<notin> applied) (m # files) = filter (\<lambda>file. file \<notin> applied) files" by simp
    show ?thesis unfolding eq by (rule Cons.IH) (use Cons.prems True in simp_all)
  next
    case new: False
    show ?thesis
    proof (cases "readFile m")
      case (Inl e)
      with new Cons.prems show ?thesis
        by (intro exI [of _ "[]"] exI [of _ "mig_schema s"]) (auto simp: advanced_none)
    next
      case sql: (Inr sql)
      have "m \<notin> set (applied_names s)" using new Cons.prems(3) by simp
      note run = run_file_new [OF Cons.prems(1) this, of exec now sql]
      show ?thesis
      proof (cases "exec sql (mig_schema s)")
        case (Inl e)
        with new sql run Cons.prems(1,4) show ?thesis
          by (intro exI [of _ "[]"] exI [of _ "mig_schema s"]) (auto simp: advanced_none)
      next
        case (Inr y)
        let ?s = "advanced now [m] y s"
        have "migrate_loop exec readFile now applied files ?s = (res, t)"
          using Cons.prems(4) new sql run Inr by simp
        moreover have "mig_applied ?s \<noteq> None" "mig_schema ?s = y" by (simp_all add: advanced_def)
        moreover have "\<forall>f \<in> set files. f \<in> set (applied_names ?s) \<longleftrightarrow> f \<in> applied"
          using Cons.prems(2,3) by auto
        ultimately obtain fs x where fs: "prefix fs (filter (\<lambda>f. f \<notin> applied) files)" "run_all exec readFile fs y = Some x"
          "t = advanced now fs x ?s" and res: "if res = Inr () then fs = filter (\<lambda>f. f \<notin> applied) files
             else \<exists>f gs. filter (\<lambda>f. f \<notin> applied) files = fs @ f # gs \<and> run_all exec readFile [f] x = None \<and>
               (res = Inl (migration_failed f) \<or> (\<exists>e. readFile f = Inl e \<and> res = Inl e))"
          using Cons.IH [of ?s] Cons.prems(2) by auto
        show ?thesis
          by (rule exI [of _ "m # fs"], rule exI [of _ x])
            (use fs res new sql Inr advanced_advanced [of now "[m]" fs x s y] in \<open>simp split: if_splits\<close>)
      qed
    qed
  qed
qed

lemma pending_distinct: "distinct readdir \<Longrightarrow> distinct (sql_files readdir)"
  by (simp add: sql_files_def)

lemma migrate_spec:
  assumes "distinct readdir" and "migrate exec readdir readFile now s = (res, t)"
  shows "\<exists>fs x. prefix fs (pending readdir s) \<and> run_all exec readFile fs (mig_schema s) = Some x \<and>
    t = advanced now fs x s \<and>
    (if res = Inr () then fs = pending readdir s
     else \<exists>file gs. pending readdir s = fs @ file # gs \<and> run_all exec readFile [file] x = None \<and>
       (res = Inl (migration_failed file) \<or> (\<exists>e. readFile file = Inl e \<and> res = Inl e)))"
proof -
  let ?s = "create_migrations_table s"
  have eq: "mig_schema ?s = mig_schema s" "advanced now fs x ?s = advanced now fs x s" for fs x
    by (simp_all add: create_migrations_table_def advanced_def)
  have "mig_applied ?s \<noteq> None" by (simp add: create_migrations_table_def)
  moreover have "migrate_loop exec readFile now (set (applied_names s)) (sql_files readdir) ?s = (res, t)"
    using assms(2) by (simp add: migrate_def Let_def)
  ultimately show ?thesis
    using migrate_loop_spec [OF _ pending_distinct [OF assms(1)], of ?s "set (applied_names s)" exec readFile now res t]
    unfolding eq names_created pending_def by blast
qed

subsection \<open>Properties\<close>

text \<open>
  A run applies the pending files once each, in the order of their names, and stops at the
  first it cannot apply: the schema is that of the applied part, run from the schema before,
  schema_migrations has gained exactly the names of that part in that order, and a failed file
  has left no trace. The run succeeds exactly if all pending files were applied.
\<close>
theorem migrate_applies_pending_in_order:
  assumes dir: "distinct readdir" and run: "migrate exec readdir readFile now s = (res, t)"
  shows "\<exists>applied rest. pending readdir s = applied @ rest \<and> sorted (applied @ rest) \<and>
    run_all exec readFile applied (mig_schema s) = Some (mig_schema t) \<and>
    applied_names t = applied_names s @ applied \<and> (res = Inr () \<longleftrightarrow> rest = []) \<and>
    (rest \<noteq> [] \<longrightarrow> run_all exec readFile (applied @ [hd rest]) (mig_schema s) = None)"
proof -
  obtain fs x where fs: "prefix fs (pending readdir s)" "run_all exec readFile fs (mig_schema s) = Some x" "t = advanced now fs x s"
    and res: "if res = Inr () then fs = pending readdir s
     else \<exists>file gs. pending readdir s = fs @ file # gs \<and> run_all exec readFile [file] x = None \<and>
       (res = Inl (migration_failed file) \<or> (\<exists>e. readFile file = Inl e \<and> res = Inl e))"
    using migrate_spec [OF dir run] by blast
  from fs(1) obtain rest where rest: "pending readdir s = fs @ rest" by (auto simp: prefix_def)
  have "sorted (pending readdir s)" by (simp add: pending_def sql_files_def sorted_filter [of id, simplified])
  moreover have "mig_schema t = x" using fs(3) by (simp add: advanced_def)
  ultimately show ?thesis
    using fs res rest by (intro exI [of _ fs] exI [of _ rest]) (auto simp: run_all_append split: if_splits)
qed

lemma pending_advanced:
  "distinct readdir \<Longrightarrow> pending readdir s = fs @ rest \<Longrightarrow> pending readdir (advanced now fs x s) = rest"
proof -
  assume dir: "distinct readdir" and split: "pending readdir s = fs @ rest"
  have "distinct (pending readdir s)" using pending_distinct [OF dir] by (simp add: pending_def)
  then have fresh: "\<forall>file \<in> set rest. file \<notin> set fs" unfolding split by auto
  have "pending readdir (advanced now fs x s) = filter (\<lambda>file. file \<notin> set fs) (pending readdir s)"
    by (simp add: pending_def conj_commute)
  also have "\<dots> = rest" unfolding split using fresh by (simp add: filter_empty_conv filter_id_conv)
  finally show ?thesis .
qed

lemma run_all_cong: "(\<And>f. f \<in> set fs \<Longrightarrow> readFile f = readFile' f) \<Longrightarrow> run_all exec readFile fs x = run_all exec readFile' fs x"
  by (induction fs arbitrary: x) (auto split: sum.splits)

text \<open>
  C31. A failed run can be repeated. If a run stopped somewhere, and after the rest of the files
  has been repaired a second run succeeds, the database is what one undisturbed run of all the
  pending files would have made of it, none applied twice; and from then on a run changes
  nothing at all, not even the times of application.
\<close>
theorem migrate_resumes:
  assumes dir: "distinct readdir" and names: "distinct (applied_names s)"
    and first: "migrate exec readdir readFile now s = (res, t)"
    and second: "migrate exec readdir readFile' now' t = (Inr (), u)"
    and kept: "\<And>f. f \<in> set (applied_names t) \<Longrightarrow> readFile' f = readFile f"
  shows "run_all exec readFile' (pending readdir s) (mig_schema s) = Some (mig_schema u) \<and>
    applied_names u = applied_names s @ pending readdir s \<and> distinct (applied_names u) \<and>
    migrate exec readdir readFile'' now'' u = (Inr (), u)"
proof -
  obtain fs x where fs: "prefix fs (pending readdir s)" "run_all exec readFile fs (mig_schema s) = Some x" "t = advanced now fs x s"
    using migrate_spec [OF dir first] by blast
  from fs(1) obtain rest where rest: "pending readdir s = fs @ rest" by (auto simp: prefix_def)
  have pt: "pending readdir t = rest" unfolding fs(3) by (rule pending_advanced [OF dir rest])
  obtain y where y: "run_all exec readFile' rest (mig_schema t) = Some y" "u = advanced now' rest y t"
    using migrate_spec [OF dir second] by (auto simp: pt)
  have t: "applied_names t = applied_names s @ fs" "mig_schema t = x" using fs(3) by simp (simp add: fs(3) advanced_def)
  have "run_all exec readFile' fs (mig_schema s) = Some x"
    using fs(2) run_all_cong [of fs readFile' readFile exec "mig_schema s"] kept t(1) by simp
  then have "run_all exec readFile' (pending readdir s) (mig_schema s) = Some (mig_schema u)"
    using y t by (simp add: rest run_all_append advanced_def)
  moreover have names_u: "applied_names u = applied_names s @ pending readdir s" using y(2) t(1) rest by simp
  moreover have "distinct (applied_names u)"
    using names pending_distinct [OF dir] unfolding names_u by (auto simp: pending_def)
  moreover have "migrate exec readdir readFile'' now'' u = (Inr (), u)"
  proof -
    obtain res' v where run: "migrate exec readdir readFile'' now'' u = (res', v)" by (metis prod.exhaust)
    have "pending readdir u = []" unfolding y(2) by (rule pending_advanced [OF dir]) (simp add: pt)
    with migrate_spec [OF dir run] have "v = advanced now'' [] (mig_schema u) u" "res' = Inr ()" by (auto split: if_splits)
    moreover have "mig_applied u \<noteq> None" using y(2) by (simp add: advanced_def)
    ultimately show ?thesis using run by (simp add: advanced_none)
  qed
  ultimately show ?thesis by blast
qed

text \<open>A directory with two migrations, the second of which fails until its text is repaired.\<close>

definition sample_exec :: "string \<Rightarrow> string list \<Rightarrow> unit service_error + string list" where
  "sample_exec sql schema = (if sql = ''bad'' then Inl (Failure ''syntax'') else Inr (schema @ [sql]))"

definition sample_dir :: "string list" where
  "sample_dir = [''002.sql'', ''readme.md'', ''001.sql'']"

definition sample_text :: "string \<Rightarrow> string \<Rightarrow> unit service_error + string" where
  "sample_text second file = Inr (if file = ''002.sql'' then second else ''one'')"

definition empty_migrations :: "string list migrations_db" where
  "empty_migrations = \<lparr>mig_schema = [], mig_applied = None\<rparr>"

lemma sample_pending: "sql_files sample_dir = [''001.sql'', ''002.sql'']"
  by code_simp

lemma sample_migrations:
  "migrate sample_exec sample_dir (sample_text ''bad'') 1 empty_migrations =
     (Inl (migration_failed ''002.sql''), \<lparr>mig_schema = [''one''], mig_applied = Some [(''001.sql'', 1)]\<rparr>)"
  "migrate sample_exec sample_dir (sample_text ''two'') 2 \<lparr>mig_schema = [''one''], mig_applied = Some [(''001.sql'', 1)]\<rparr> =
     (Inr (), \<lparr>mig_schema = [''one'', ''two''], mig_applied = Some [(''001.sql'', 1), (''002.sql'', 2)]\<rparr>)"
  by (simp_all add: migrate_def sample_pending Let_def create_migrations_table_def empty_migrations_def applied_names_def
      sample_text_def with_tx_def run_file_def tx_bind_def sample_exec_def)

theorem migrate_applies_pending_in_order_witness:
  "\<exists>applied rest. pending sample_dir empty_migrations = applied @ rest \<and> applied = [''001.sql''] \<and> rest \<noteq> []"
  using migrate_applies_pending_in_order [OF _ sample_migrations(1)]
  by (auto simp: sample_dir_def applied_names_def empty_migrations_def migration_failed_def)

theorem migrate_resumes_witness:
  "migrate sample_exec sample_dir (sample_text ''bad'') 9
     \<lparr>mig_schema = [''one'', ''two''], mig_applied = Some [(''001.sql'', 1), (''002.sql'', 2)]\<rparr> =
   (Inr (), \<lparr>mig_schema = [''one'', ''two''], mig_applied = Some [(''001.sql'', 1), (''002.sql'', 2)]\<rparr>)"
  using migrate_resumes [OF _ _ sample_migrations]
  by (auto simp: sample_dir_def applied_names_def empty_migrations_def sample_text_def)

end
