(* ===== verification/MigrateRunners.thy ===== *)
theory MigrateRunners
  imports Migrate
begin

text \<open>
  Several migration runners on one database (scripts/migrate.ts, hub/scripts/migrate.ts),
  statement by statement. A runner gets the advisory lock of its key, or waits; what it does in a
  transaction shows at the COMMIT; it may be killed anywhere, which ends its session and gives the
  lock back. The results say that the lock does what it is for: the runs happen one after the
  other, each as \<open>migrate\<close> would have made it, and a killed one as a part of it.
\<close>

subsection \<open>Runners\<close>

definition ADVISORY_LOCK_KEY :: nat where
  "ADVISORY_LOCK_KEY = 723531"

definition hub_ADVISORY_LOCK_KEY :: nat where
  "hub_ADVISORY_LOCK_KEY = 723533"

text \<open>What a runner finds on its disk, and the time its transactions record.\<close>

record runner_env =
  re_readdir :: "string list"
  re_readFile :: "string \<Rightarrow> unit service_error + string"
  re_now :: int

datatype 's runner =
    Waiting
  | Locked
  | Created
  | Selected "string set"
  | Looping "string set" "string list"
  | Begun "string set" string string "string list"
  | Executed "string set" string "string list" 's
  | Inserted "string set" string "string list" 's
  | Aborting string
  | Unlocking "unit service_error + unit"
  | Ended "(unit service_error + unit) option"  \<comment> \<open>None when it was killed\<close>

record 's cluster =
  cl_db :: "'s migrations_db"
  cl_locks :: "nat \<Rightarrow> nat option"
  cl_runner :: "nat \<Rightarrow> 's runner"

definition go :: "nat \<Rightarrow> 's runner \<Rightarrow> 's cluster \<Rightarrow> 's cluster" where
  "go p r c = c\<lparr>cl_runner := (cl_runner c)(p := r)\<rparr>"

definition release :: "nat \<Rightarrow> nat \<Rightarrow> 's cluster \<Rightarrow> 's cluster" where
  "release key p c = (if cl_locks c key = Some p then c\<lparr>cl_locks := (cl_locks c)(key := None)\<rparr> else c)"

definition record_file :: "int \<Rightarrow> string \<Rightarrow> 's \<Rightarrow> 's migrations_db \<Rightarrow> 's migrations_db" where
  "record_file now file y s = \<lparr>mig_schema = y, mig_applied = Some (the (mig_applied s) @ [(file, now)])\<rparr>"

inductive runner_step ::
  "nat \<Rightarrow> (string \<Rightarrow> 's \<Rightarrow> unit service_error + 's) \<Rightarrow> (nat \<Rightarrow> runner_env) \<Rightarrow> 's cluster \<Rightarrow> 's cluster \<Rightarrow> bool"
  for key exec env where
  lock: "cl_runner c p = Waiting \<Longrightarrow> cl_locks c key = None \<Longrightarrow>
    runner_step key exec env c (go p Locked (c\<lparr>cl_locks := (cl_locks c)(key \<mapsto> p)\<rparr>))"
| create: "cl_runner c p = Locked \<Longrightarrow>
    runner_step key exec env c (go p Created (c\<lparr>cl_db := create_migrations_table (cl_db c)\<rparr>))"
| select: "cl_runner c p = Created \<Longrightarrow>
    runner_step key exec env c (go p (Selected (set (applied_names (cl_db c)))) c)"
| list_dir: "cl_runner c p = Selected applied \<Longrightarrow>
    runner_step key exec env c (go p (Looping applied (sql_files (re_readdir (env p)))) c)"
| skip: "cl_runner c p = Looping applied (file # files) \<Longrightarrow> file \<in> applied \<Longrightarrow>
    runner_step key exec env c (go p (Looping applied files) c)"
| unreadable: "cl_runner c p = Looping applied (file # files) \<Longrightarrow> file \<notin> applied \<Longrightarrow> re_readFile (env p) file = Inl e \<Longrightarrow>
    runner_step key exec env c (go p (Unlocking (Inl e)) c)"
| begin_tx: "cl_runner c p = Looping applied (file # files) \<Longrightarrow> file \<notin> applied \<Longrightarrow> re_readFile (env p) file = Inr sql \<Longrightarrow>
    runner_step key exec env c (go p (Begun applied file sql files) c)"
| exec_ok: "cl_runner c p = Begun applied file sql files \<Longrightarrow> exec sql (mig_schema (cl_db c)) = Inr y \<Longrightarrow>
    runner_step key exec env c (go p (Executed applied file files y) c)"
| exec_fails: "cl_runner c p = Begun applied file sql files \<Longrightarrow> exec sql (mig_schema (cl_db c)) = Inl e \<Longrightarrow>
    runner_step key exec env c (go p (Aborting file) c)"
| insert_ok: "cl_runner c p = Executed applied file files y \<Longrightarrow> file \<notin> set (applied_names (cl_db c)) \<Longrightarrow>
    runner_step key exec env c (go p (Inserted applied file files y) c)"
| insert_fails: "cl_runner c p = Executed applied file files y \<Longrightarrow> file \<in> set (applied_names (cl_db c)) \<Longrightarrow>
    runner_step key exec env c (go p (Aborting file) c)"
| commit: "cl_runner c p = Inserted applied file files y \<Longrightarrow>
    runner_step key exec env c (go p (Looping applied files) (c\<lparr>cl_db := record_file (re_now (env p)) file y (cl_db c)\<rparr>))"
| rollback: "cl_runner c p = Aborting file \<Longrightarrow>
    runner_step key exec env c (go p (Unlocking (Inl (migration_failed file))) c)"
| all_done: "cl_runner c p = Looping applied [] \<Longrightarrow>
    runner_step key exec env c (go p (Unlocking (Inr ())) c)"
| unlock: "cl_runner c p = Unlocking res \<Longrightarrow>
    runner_step key exec env c (go p (Ended (Some res)) (release key p c))"
| killed: "(\<And>res. cl_runner c p \<noteq> Ended res) \<Longrightarrow>
    runner_step key exec env c (go p (Ended None) (release key p c))"

definition hub_runner_step ::
  "(string \<Rightarrow> 's \<Rightarrow> unit service_error + 's) \<Rightarrow> (nat \<Rightarrow> runner_env) \<Rightarrow> 's cluster \<Rightarrow> 's cluster \<Rightarrow> bool" where
  "hub_runner_step = runner_step hub_ADVISORY_LOCK_KEY"

definition idle :: "'s migrations_db \<Rightarrow> 's cluster" where
  "idle s = \<lparr>cl_db = s, cl_locks = (\<lambda>_. None), cl_runner = (\<lambda>_. Waiting)\<rparr>"

subsection \<open>One run after the other\<close>

definition migrate_of ::
  "(string \<Rightarrow> 's \<Rightarrow> unit service_error + 's) \<Rightarrow> runner_env \<Rightarrow> 's migrations_db \<Rightarrow> (unit service_error + unit) \<times> 's migrations_db" where
  "migrate_of exec e s = migrate exec (re_readdir e) (re_readFile e) (re_now e) s"

text \<open>The database after \<open>fs\<close> of the files pending in \<open>t\<close>, with \<open>rest\<close> to go.\<close>

definition so_far ::
  "(string \<Rightarrow> 's \<Rightarrow> unit service_error + 's) \<Rightarrow> runner_env \<Rightarrow> 's migrations_db \<Rightarrow> string list \<Rightarrow> string list \<Rightarrow>
   's migrations_db \<Rightarrow> bool" where
  "so_far exec e t fs rest s \<longleftrightarrow> pending (re_readdir e) t = fs @ rest \<and>
     run_all exec (re_readFile e) fs (mig_schema t) = Some (mig_schema s) \<and> s = advanced (re_now e) fs (mig_schema s) t"

text \<open>
  The runs that have ended, in their order, from the first database to the last: a whole
  \<open>migrate\<close> with its result, or a killed one, which is a part of it.
\<close>

inductive serial ::
  "(string \<Rightarrow> 's \<Rightarrow> unit service_error + 's) \<Rightarrow> (nat \<Rightarrow> runner_env) \<Rightarrow>
   (nat \<times> (unit service_error + unit) option) list \<Rightarrow> 's migrations_db \<Rightarrow> 's migrations_db \<Rightarrow> bool"
  for exec env where
  none: "serial exec env [] s s"
| whole: "serial exec env ps s t \<Longrightarrow> migrate_of exec (env p) t = (res, u) \<Longrightarrow> serial exec env (ps @ [(p, Some res)]) s u"
| nothing: "serial exec env ps s t \<Longrightarrow> serial exec env (ps @ [(p, None)]) s t"
| part: "serial exec env ps s t \<Longrightarrow> so_far exec (env p) t fs rest u \<Longrightarrow> serial exec env (ps @ [(p, None)]) s u"

text \<open>What a runner that holds the lock would come to if it were left alone.\<close>

definition to_the_end ::
  "(string \<Rightarrow> 's \<Rightarrow> unit service_error + 's) \<Rightarrow> runner_env \<Rightarrow> 's runner \<Rightarrow> 's migrations_db \<Rightarrow>
   (unit service_error + unit) \<times> 's migrations_db" where
  "to_the_end exec e r s =
     (let loop = migrate_loop exec (re_readFile e) (re_now e); failed = (\<lambda>file. (Inl (migration_failed file), s));
          insert_row = (\<lambda>applied file files y. if file \<in> set (applied_names s) then failed file
            else loop applied files (record_file (re_now e) file y s))
      in case r of
        Locked \<Rightarrow> migrate_of exec e s
      | Created \<Rightarrow> loop (set (applied_names s)) (sql_files (re_readdir e)) s
      | Selected applied \<Rightarrow> loop applied (sql_files (re_readdir e)) s
      | Looping applied files \<Rightarrow> loop applied files s
      | Begun applied file sql files \<Rightarrow>
          (case exec sql (mig_schema s) of Inl _ \<Rightarrow> failed file | Inr y \<Rightarrow> insert_row applied file files y)
      | Executed applied file files y \<Rightarrow> insert_row applied file files y
      | Inserted applied file files y \<Rightarrow> loop applied files (record_file (re_now e) file y s)
      | Aborting file \<Rightarrow> failed file
      | Unlocking res \<Rightarrow> (res, s)
      | _ \<Rightarrow> (Inr (), s))"

text \<open>Where it stands in the run it started on the database \<open>t\<close>.\<close>

fun stands ::
  "(string \<Rightarrow> 's \<Rightarrow> unit service_error + 's) \<Rightarrow> runner_env \<Rightarrow> 's migrations_db \<Rightarrow> 's runner \<Rightarrow> 's migrations_db \<Rightarrow> bool" where
  "stands exec e t Locked s \<longleftrightarrow> s = t"
| "stands exec e t Created s \<longleftrightarrow> so_far exec e t [] (pending (re_readdir e) t) s"
| "stands exec e t (Selected applied) s \<longleftrightarrow> applied = set (applied_names t) \<and> so_far exec e t [] (pending (re_readdir e) t) s"
| "stands exec e t (Looping applied files) s \<longleftrightarrow> applied = set (applied_names t) \<and>
     (\<exists>fs. so_far exec e t fs (filter (\<lambda>file. file \<notin> applied) files) s)"
| "stands exec e t (Begun applied file sql files) s \<longleftrightarrow> applied = set (applied_names t) \<and> re_readFile e file = Inr sql \<and>
     (\<exists>fs. so_far exec e t fs (file # filter (\<lambda>file. file \<notin> applied) files) s)"
| "stands exec e t (Executed applied file files y) s \<longleftrightarrow> applied = set (applied_names t) \<and>
     (\<exists>fs sql. re_readFile e file = Inr sql \<and> exec sql (mig_schema s) = Inr y \<and>
       so_far exec e t fs (file # filter (\<lambda>file. file \<notin> applied) files) s)"
| "stands exec e t (Inserted applied file files y) s \<longleftrightarrow> applied = set (applied_names t) \<and>
     (\<exists>fs sql. re_readFile e file = Inr sql \<and> exec sql (mig_schema s) = Inr y \<and>
       so_far exec e t fs (file # filter (\<lambda>file. file \<notin> applied) files) s)"
| "stands exec e t (Aborting file) s \<longleftrightarrow> (\<exists>fs rest. so_far exec e t fs rest s)"
| "stands exec e t (Unlocking res) s \<longleftrightarrow> (\<exists>fs rest. so_far exec e t fs rest s)"
| "stands exec e t Waiting s \<longleftrightarrow> False"
| "stands exec e t (Ended res) s \<longleftrightarrow> False"

definition runners_inv ::
  "nat \<Rightarrow> (string \<Rightarrow> 's \<Rightarrow> unit service_error + 's) \<Rightarrow> (nat \<Rightarrow> runner_env) \<Rightarrow> 's migrations_db \<Rightarrow> 's cluster \<Rightarrow> bool" where
  "runners_inv key exec env s c \<longleftrightarrow> (\<exists>ps t. serial exec env ps s t \<and> distinct (map fst ps) \<and>
     (\<forall>p res. (p, res) \<in> set ps \<longrightarrow> cl_runner c p = Ended res) \<and>
     (\<forall>p res. cl_runner c p = Ended (Some res) \<longrightarrow> (p, Some res) \<in> set ps) \<and>
     (\<forall>p. cl_locks c key \<noteq> Some p \<longrightarrow> cl_runner c p = Waiting \<or> (\<exists>res. cl_runner c p = Ended res)) \<and>
     (case cl_locks c key of
        None \<Rightarrow> cl_db c = t
      | Some p \<Rightarrow> stands exec (env p) t (cl_runner c p) (cl_db c) \<and>
          to_the_end exec (env p) (cl_runner c p) (cl_db c) = migrate_of exec (env p) t))"

lemma so_far_names: "so_far exec e t fs rest s \<Longrightarrow> applied_names s = applied_names t @ fs"
  unfolding so_far_def by (metis names_advanced)

lemma so_far_none: "so_far exec e t [] (pending (re_readdir e) t) (create_migrations_table t)"
  by (simp add: so_far_def advanced_def create_migrations_table_def)

lemma so_far_next:
  assumes "so_far exec e t fs (file # rest) s" "re_readFile e file = Inr sql" "exec sql (mig_schema s) = Inr y"
  shows "so_far exec e t (fs @ [file]) rest (record_file (re_now e) file y s)"
proof -
  have "record_file (re_now e) file y s = advanced (re_now e) (fs @ [file]) y t"
    using assms(1) unfolding so_far_def by (metis (no_types, lifting) advanced_advanced advanced_def created_advanced list.simps(8,9) record_file_def)
  then show ?thesis using assms by (simp add: so_far_def run_all_append advanced_def)
qed

lemma run_file_recorded: "with_tx (run_file exec now file sql) s = (case exec sql (mig_schema s) of
    Inl e \<Rightarrow> (Inl e, s)
  | Inr y \<Rightarrow> if file \<in> set (applied_names s) then (Inl (Db (UniqueViolation ''schema_migrations_pkey'')), s)
      else (Inr (), record_file now file y s))"
  by (cases "exec sql (mig_schema s)") (auto simp: with_tx_def run_file_def tx_bind_def record_file_def applied_names_def)

text \<open>The rules of the runner that holds the lock, and what they keep.\<close>

lemma stands_steps:
  "stands exec e t Locked s \<Longrightarrow> stands exec e t Created (create_migrations_table s)"
  "stands exec e t Created s \<Longrightarrow> stands exec e t (Selected (set (applied_names s))) s"
  "stands exec e t (Selected applied) s \<Longrightarrow> stands exec e t (Looping applied (sql_files (re_readdir e))) s"
  "stands exec e t (Looping applied (file # files)) s \<Longrightarrow> file \<in> applied \<Longrightarrow> stands exec e t (Looping applied files) s"
  "stands exec e t (Looping applied files) s \<Longrightarrow> stands exec e t (Unlocking res) s"
  "stands exec e t (Looping applied (file # files)) s \<Longrightarrow> file \<notin> applied \<Longrightarrow> re_readFile e file = Inr sql \<Longrightarrow>
    stands exec e t (Begun applied file sql files) s"
  "stands exec e t (Begun applied file sql files) s \<Longrightarrow> exec sql (mig_schema s) = Inr y \<Longrightarrow> stands exec e t (Executed applied file files y) s"
  "stands exec e t (Begun applied file sql files) s \<Longrightarrow> stands exec e t (Aborting file) s"
  "stands exec e t (Executed applied file files y) s \<Longrightarrow> stands exec e t (Inserted applied file files y) s"
  "stands exec e t (Executed applied file files y) s \<Longrightarrow> stands exec e t (Aborting file) s"
  "stands exec e t (Inserted applied file files y) s \<Longrightarrow> stands exec e t (Looping applied files) (record_file (re_now e) file y s)"
  "stands exec e t (Aborting file) s \<Longrightarrow> stands exec e t (Unlocking res) s"
  using so_far_names [of exec e t "[]" "pending (re_readdir e) t" s] so_far_none [of exec e t]
  by (auto simp: pending_def intro: so_far_next)

lemma end_steps:
  "to_the_end exec e Created (create_migrations_table s) = to_the_end exec e Locked s"
  "to_the_end exec e (Selected (set (applied_names s))) s = to_the_end exec e Created s"
  "to_the_end exec e (Looping applied (sql_files (re_readdir e))) s = to_the_end exec e (Selected applied) s"
  "file \<in> applied \<Longrightarrow> to_the_end exec e (Looping applied files) s = to_the_end exec e (Looping applied (file # files)) s"
  "file \<notin> applied \<Longrightarrow> re_readFile e file = Inl x \<Longrightarrow> to_the_end exec e (Unlocking (Inl x)) s = to_the_end exec e (Looping applied (file # files)) s"
  "file \<notin> applied \<Longrightarrow> re_readFile e file = Inr sql \<Longrightarrow>
    to_the_end exec e (Begun applied file sql files) s = to_the_end exec e (Looping applied (file # files)) s"
  "exec sql (mig_schema s) = Inr y \<Longrightarrow> to_the_end exec e (Executed applied file files y) s = to_the_end exec e (Begun applied file sql files) s"
  "exec sql (mig_schema s) = Inl x \<Longrightarrow> to_the_end exec e (Aborting file) s = to_the_end exec e (Begun applied file sql files) s"
  "file \<notin> set (applied_names s) \<Longrightarrow> to_the_end exec e (Inserted applied file files y) s = to_the_end exec e (Executed applied file files y) s"
  "file \<in> set (applied_names s) \<Longrightarrow> to_the_end exec e (Aborting file) s = to_the_end exec e (Executed applied file files y) s"
  "to_the_end exec e (Looping applied files) (record_file (re_now e) file y s) = to_the_end exec e (Inserted applied file files y) s"
  "to_the_end exec e (Unlocking (Inl (migration_failed file))) s = to_the_end exec e (Aborting file) s"
  "to_the_end exec e (Unlocking (Inr ())) s = to_the_end exec e (Looping applied []) s"
  by (simp_all add: to_the_end_def migrate_of_def migrate_def Let_def run_file_recorded split: sum.splits)

text \<open>A step of the runner that holds the lock, other than giving it back.\<close>

lemma inner_step:
  assumes inv: "runners_inv key exec env s c" and inside: "cl_runner c p \<noteq> Waiting" "\<And>res. cl_runner c p \<noteq> Ended res"
    and stands: "\<And>t. stands exec (env p) t (cl_runner c p) (cl_db c) \<Longrightarrow> stands exec (env p) t r u"
    and same_end: "to_the_end exec (env p) r u = to_the_end exec (env p) (cl_runner c p) (cl_db c)"
  shows "runners_inv key exec env s (go p r (c\<lparr>cl_db := u\<rparr>))"
proof -
  obtain ps t where ps: "serial exec env ps s t" "distinct (map fst ps)" "\<And>q res. (q, res) \<in> set ps \<Longrightarrow> cl_runner c q = Ended res"
    "\<And>q res. cl_runner c q = Ended (Some res) \<Longrightarrow> (q, Some res) \<in> set ps"
    and out: "\<And>q. cl_locks c key \<noteq> Some q \<Longrightarrow> cl_runner c q = Waiting \<or> (\<exists>res. cl_runner c q = Ended res)"
    and db: "case cl_locks c key of None \<Rightarrow> cl_db c = t | Some q \<Rightarrow> stands exec (env q) t (cl_runner c q) (cl_db c) \<and>
        to_the_end exec (env q) (cl_runner c q) (cl_db c) = migrate_of exec (env q) t"
    using inv unfolding runners_inv_def by blast
  have lock: "cl_locks c key = Some p" using out [of p] inside by blast
  with db have here: "stands exec (env p) t r u" "to_the_end exec (env p) r u = migrate_of exec (env p) t"
    using stands same_end by auto
  then have r: "r \<noteq> Ended res" for res by auto
  have p: "(p, res) \<notin> set ps" for res using ps(3) inside(2) by blast
  show ?thesis
    unfolding runners_inv_def go_def
    by (rule exI [of _ ps], rule exI [of _ t]) (use ps out lock here r p in auto)
qed

lemma pc_step:
  assumes "runners_inv key exec env s c" "cl_runner c p \<noteq> Waiting" "\<And>res. cl_runner c p \<noteq> Ended res"
    and "\<And>t. stands exec (env p) t (cl_runner c p) (cl_db c) \<Longrightarrow> stands exec (env p) t r (cl_db c)"
    and "to_the_end exec (env p) r (cl_db c) = to_the_end exec (env p) (cl_runner c p) (cl_db c)"
  shows "runners_inv key exec env s (go p r c)"
  using inner_step [OF assms(1-3), of r "cl_db c"] assms(4,5) by simp

lemma ended_step:
  assumes inv: "runners_inv key exec env s c" and lock: "cl_locks c key = Some p" and live: "\<And>res. cl_runner c p \<noteq> Ended res"
    and ended: "\<And>ps t. serial exec env ps s t \<Longrightarrow> stands exec (env p) t (cl_runner c p) (cl_db c) \<Longrightarrow>
      to_the_end exec (env p) (cl_runner c p) (cl_db c) = migrate_of exec (env p) t \<Longrightarrow> serial exec env (ps @ [(p, res)]) s (cl_db c)"
  shows "runners_inv key exec env s (go p (Ended res) (release key p c))"
proof -
  obtain ps t where ps: "serial exec env ps s t" "distinct (map fst ps)" "\<And>q res. (q, res) \<in> set ps \<Longrightarrow> cl_runner c q = Ended res"
    "\<And>q res. cl_runner c q = Ended (Some res) \<Longrightarrow> (q, Some res) \<in> set ps"
    and out: "\<And>q. cl_locks c key \<noteq> Some q \<Longrightarrow> cl_runner c q = Waiting \<or> (\<exists>res. cl_runner c q = Ended res)"
    and db: "stands exec (env p) t (cl_runner c p) (cl_db c)"
        "to_the_end exec (env p) (cl_runner c p) (cl_db c) = migrate_of exec (env p) t"
    using inv lock unfolding runners_inv_def by auto
  have p: "(p, res) \<notin> set ps" for res using ps(3) live by blast
  then have "distinct (map fst (ps @ [(p, res)]))" using ps(2) by auto
  then show ?thesis
    unfolding runners_inv_def go_def release_def
    by (intro exI [of _ "ps @ [(p, res)]"] exI [of _ "cl_db c"])
      (use ended [OF ps(1) db] ps out lock p in auto)
qed

lemma runner_step_inv:
  assumes "runner_step key exec env c d" "runners_inv key exec env s c"
  shows "runners_inv key exec env s d"
  using assms
proof (induction rule: runner_step.induct)
  case (lock c p)
  then obtain ps t where ps: "serial exec env ps s t" "distinct (map fst ps)" "\<And>q res. (q, res) \<in> set ps \<Longrightarrow> cl_runner c q = Ended res"
    "\<And>q res. cl_runner c q = Ended (Some res) \<Longrightarrow> (q, Some res) \<in> set ps"
    and out: "\<And>q. cl_runner c q = Waiting \<or> (\<exists>res. cl_runner c q = Ended res)" and db: "cl_db c = t"
    unfolding runners_inv_def by auto
  have "(p, res) \<notin> set ps" for res using ps(3) lock.hyps(1) by fastforce
  with ps out db show ?case
    unfolding runners_inv_def go_def by (intro exI [of _ ps] exI [of _ t]) (auto simp: to_the_end_def)
next
  case (unlock c p res)
  then have "cl_locks c key = Some p" unfolding runners_inv_def by fastforce
  with unlock show ?case
    by (intro ended_step) (auto simp: to_the_end_def intro!: serial.whole)
next
  case (killed c p)
  show ?case
  proof (cases "cl_locks c key = Some p")
    case True
    show ?thesis
    proof (rule ended_step [OF killed.prems True killed.hyps])
      fix ps t
      assume ser: "serial exec env ps s t" and here: "stands exec (env p) t (cl_runner c p) (cl_db c)"
      from here have "cl_db c = t \<or> (\<exists>fs rest. so_far exec (env p) t fs rest (cl_db c))"
        by (cases "cl_runner c p") auto
      with serial.nothing [OF ser] serial.part [OF ser] show "serial exec env (ps @ [(p, None)]) s (cl_db c)" by blast
    qed
  next
    case False
    then have waiting: "cl_runner c p = Waiting" using killed unfolding runners_inv_def by blast
    obtain ps t where "serial exec env ps s t \<and> distinct (map fst ps) \<and>
     (\<forall>p res. (p, res) \<in> set ps \<longrightarrow> cl_runner c p = Ended res) \<and>
     (\<forall>p res. cl_runner c p = Ended (Some res) \<longrightarrow> (p, Some res) \<in> set ps) \<and>
     (\<forall>p. cl_locks c key \<noteq> Some p \<longrightarrow> cl_runner c p = Waiting \<or> (\<exists>res. cl_runner c p = Ended res)) \<and>
     (case cl_locks c key of
        None \<Rightarrow> cl_db c = t
      | Some p \<Rightarrow> stands exec (env p) t (cl_runner c p) (cl_db c) \<and>
          to_the_end exec (env p) (cl_runner c p) (cl_db c) = migrate_of exec (env p) t)"
      using killed.prems unfolding runners_inv_def by blast
    moreover from this waiting have "(p, res) \<notin> set ps" for res by fastforce
    ultimately show ?thesis
      unfolding runners_inv_def go_def release_def using False
      by (intro exI [of _ ps] exI [of _ t]) (auto split: option.splits)
  qed
qed (((rule inner_step | rule pc_step), assumption); (simp only: runner.distinct simp_thms)?;
    ((erule stands_steps; assumption) | (rule end_steps; assumption))?)+

lemma runners_reachable:
  assumes "(runner_step key exec env)\<^sup>*\<^sup>* (idle s) c"
  shows "runners_inv key exec env s c"
  using assms
proof (induction rule: rtranclp_induct)
  case base
  show ?case unfolding runners_inv_def idle_def by (intro exI [of _ "[]"] exI [of _ s]) (auto intro: serial.none)
qed (rule runner_step_inv)

subsection \<open>What the lock is for\<close>

text \<open>
  C32. Any number of migration runners started at once work as if they ran one after the
  other: the database is what the runs that ended left in some order, each run the whole program
  with the result it reported, and a killed one a part of it; the runner that is under way stands
  in the middle of its own.
\<close>
theorem runners_serialize:
  assumes run: "(runner_step key exec env)\<^sup>*\<^sup>* (idle s) c"
  shows "\<exists>ps t. serial exec env ps s t \<and> distinct (map fst ps) \<and>
    (\<forall>p res. cl_runner c p = Ended (Some res) \<longleftrightarrow> (p, Some res) \<in> set ps) \<and>
    (case cl_locks c key of None \<Rightarrow> cl_db c = t
     | Some p \<Rightarrow> cl_db c = t \<or> (\<exists>fs rest. so_far exec (env p) t fs rest (cl_db c)))"
proof -
  obtain ps t where ps: "serial exec env ps s t" "distinct (map fst ps)"
    and ended: "\<forall>p res. (p, res) \<in> set ps \<longrightarrow> cl_runner c p = Ended res" "\<forall>p res. cl_runner c p = Ended (Some res) \<longrightarrow> (p, Some res) \<in> set ps"
    and db: "case cl_locks c key of None \<Rightarrow> cl_db c = t | Some p \<Rightarrow> stands exec (env p) t (cl_runner c p) (cl_db c) \<and>
        to_the_end exec (env p) (cl_runner c p) (cl_db c) = migrate_of exec (env p) t"
    using runners_reachable [OF run] unfolding runners_inv_def by blast
  have "cl_db c = t \<or> (\<exists>fs rest. so_far exec (env p) t fs rest (cl_db c))" if "cl_locks c key = Some p" for p
    using db that by (cases "cl_runner c p") auto
  with ps ended db show ?thesis by (intro exI [of _ ps] exI [of _ t]) (auto split: option.splits)
qed

lemma so_far_grows:
  assumes far: "so_far exec e t fs rest u" and "distinct (re_readdir e)" "distinct (applied_names t)"
  shows "distinct (applied_names u) \<and> prefix (applied_names t) (applied_names u) \<and>
    (rest = [] \<longrightarrow> set (sql_files (re_readdir e)) \<subseteq> set (applied_names u))"
proof -
  have "distinct (pending (re_readdir e) t)" "set (pending (re_readdir e) t) \<inter> set (applied_names t) = {}"
    "set (sql_files (re_readdir e)) \<subseteq> set (applied_names t) \<union> set (pending (re_readdir e) t)"
    using pending_distinct [OF assms(2)] by (auto simp: pending_def)
  moreover have "pending (re_readdir e) t = fs @ rest" using far by (simp add: so_far_def)
  ultimately show ?thesis using assms(3) unfolding so_far_names [OF far] by auto
qed

lemma whole_run_so_far:
  assumes "migrate_of exec e t = (res, u)" "distinct (re_readdir e)"
  shows "\<exists>fs rest. so_far exec e t fs rest u \<and> (res = Inr () \<longrightarrow> rest = [])"
proof -
  obtain fs x where fs: "prefix fs (pending (re_readdir e) t)" "run_all exec (re_readFile e) fs (mig_schema t) = Some x"
    "u = advanced (re_now e) fs x t" "res = Inr () \<longrightarrow> fs = pending (re_readdir e) t"
    using migrate_spec [OF assms(2) assms(1) [unfolded migrate_of_def]] by (metis (no_types, lifting))
  moreover from this have "mig_schema u = x" by (simp add: advanced_def)
  ultimately show ?thesis by (auto simp: so_far_def prefix_def)
qed

lemma serial_names:
  assumes "serial exec env ps s t" and dirs: "\<And>p. distinct (re_readdir (env p))" and "distinct (applied_names s)"
  shows "distinct (applied_names t) \<and> prefix (applied_names s) (applied_names t) \<and>
    (\<forall>p. (p, Some (Inr ())) \<in> set ps \<longrightarrow> set (sql_files (re_readdir (env p))) \<subseteq> set (applied_names t))"
  using assms(1,3)
proof (induction rule: serial.induct)
  case (whole ps s t p res u)
  then have t: "distinct (applied_names t)" "prefix (applied_names s) (applied_names t)"
    "\<forall>p. (p, Some (Inr ())) \<in> set ps \<longrightarrow> set (sql_files (re_readdir (env p))) \<subseteq> set (applied_names t)" by blast+
  obtain fs rest where far: "so_far exec (env p) t fs rest u" "res = Inr () \<longrightarrow> rest = []"
    using whole_run_so_far [OF whole.hyps(2) dirs] by blast
  note grown = so_far_grows [OF far(1) dirs t(1)]
  then have "set (applied_names t) \<subseteq> set (applied_names u)" by (meson set_mono_prefix)
  with t(3) far(2) grown have "(q, Some (Inr ())) \<in> set (ps @ [(p, Some res)]) \<longrightarrow> set (sql_files (re_readdir (env q))) \<subseteq> set (applied_names u)" for q
    by auto
  with grown t(2) show ?case by (meson prefix_order.trans)
next
  case (part ps s t p fs rest u)
  then have t: "distinct (applied_names t)" "prefix (applied_names s) (applied_names t)"
    "\<forall>p. (p, Some (Inr ())) \<in> set ps \<longrightarrow> set (sql_files (re_readdir (env p))) \<subseteq> set (applied_names t)" by blast+
  note grown = so_far_grows [OF part.hyps(2) dirs t(1)]
  then have "set (applied_names t) \<subseteq> set (applied_names u)" by (meson set_mono_prefix)
  with t(3) have "(q, Some (Inr ())) \<in> set (ps @ [(p, None)]) \<longrightarrow> set (sql_files (re_readdir (env q))) \<subseteq> set (applied_names u)" for q
    by auto
  with grown t(2) show ?case by (meson prefix_order.trans)
qed auto

lemma runner_goes_on:
  assumes inside: "cl_runner c q \<noteq> Waiting" "\<And>res. cl_runner c q \<noteq> Ended res"
  shows "\<exists>r d. runner_step key exec env c d \<and> cl_runner c q \<noteq> r \<and> r \<noteq> Ended None \<and> cl_runner d = (cl_runner c)(q := r)"
proof -
  have go: "\<exists>r d. runner_step key exec env c d \<and> cl_runner c q \<noteq> r \<and> r \<noteq> Ended None \<and> cl_runner d = (cl_runner c)(q := r)"
    if "runner_step key exec env c (go q r x)" "cl_runner x = cl_runner c" "cl_runner c q \<noteq> r" "r \<noteq> Ended None" for r x
    using that by (intro exI [of _ r] exI [of _ "go q r x"]) (simp add: go_def)
  show ?thesis
  proof (cases "cl_runner c q")
    case Locked
    show ?thesis by (rule go [OF runner_step.create [OF Locked]]) (simp_all add: Locked)
  next
    case Created
    show ?thesis by (rule go [OF runner_step.select [OF Created]]) (simp_all add: Created)
  next
    case (Selected applied)
    show ?thesis by (rule go [OF runner_step.list_dir [OF Selected]]) (simp_all add: Selected)
  next
    case loop: (Looping applied files)
    show ?thesis
    proof (cases files)
      case Nil
      show ?thesis by (rule go [OF runner_step.all_done [OF loop [unfolded Nil]]]) (simp_all add: loop)
    next
      case (Cons m rest)
      show ?thesis
      proof (cases "m \<in> applied")
        case True
        show ?thesis by (rule go [OF runner_step.skip [OF loop [unfolded Cons] True]]) (simp_all add: loop Cons)
      next
        case False
        show ?thesis
        proof (cases "re_readFile (env q) m")
          case (Inl e)
          show ?thesis by (rule go [OF runner_step.unreadable [of c q applied m rest env e, OF loop [unfolded Cons] False Inl]]) (simp_all add: loop)
        next
          case (Inr sql)
          show ?thesis by (rule go [OF runner_step.begin_tx [of c q applied m rest env sql, OF loop [unfolded Cons] False Inr]]) (simp_all add: loop)
        qed
      qed
    qed
  next
    case begun: (Begun applied m sql files)
    show ?thesis
    proof (cases "exec sql (mig_schema (cl_db c))")
      case (Inl e)
      show ?thesis by (rule go [OF runner_step.exec_fails [of c q applied m sql files exec e, OF begun Inl]]) (simp_all add: begun)
    next
      case (Inr y)
      show ?thesis by (rule go [OF runner_step.exec_ok [of c q applied m sql files exec y, OF begun Inr]]) (simp_all add: begun)
    qed
  next
    case executed: (Executed applied m files y)
    show ?thesis
    proof (cases "m \<in> set (applied_names (cl_db c))")
      case True
      show ?thesis by (rule go [OF runner_step.insert_fails [OF executed True]]) (simp_all add: executed)
    next
      case False
      show ?thesis by (rule go [OF runner_step.insert_ok [OF executed False]]) (simp_all add: executed)
    qed
  next
    case (Inserted applied m files y)
    show ?thesis by (rule go [OF runner_step.commit [OF Inserted]]) (simp_all add: Inserted)
  next
    case (Aborting m)
    show ?thesis by (rule go [OF runner_step.rollback [OF Aborting]]) (simp_all add: Aborting)
  next
    case (Unlocking res)
    show ?thesis by (rule go [OF runner_step.unlock [OF Unlocking]]) (simp_all add: Unlocking release_def)
  qed (use inside in auto)
qed

text \<open>
  C33. However many runners are started and wherever some of them are killed, no migration is
  ever recorded twice, what was recorded stays, in its order, and once a runner has reported
  success all the files it found are applied. And nobody waits for ever: while a runner has not
  ended, some runner can go on without one being killed.
\<close>
theorem runners_apply_once:
  assumes run: "(runner_step key exec env)\<^sup>*\<^sup>* (idle s) c"
    and dirs: "\<And>p. distinct (re_readdir (env p))" and names: "distinct (applied_names s)"
  shows "distinct (applied_names (cl_db c)) \<and> prefix (applied_names s) (applied_names (cl_db c)) \<and>
    (cl_runner c p = Ended (Some (Inr ())) \<longrightarrow> set (sql_files (re_readdir (env p))) \<subseteq> set (applied_names (cl_db c))) \<and>
    ((\<forall>res. cl_runner c p \<noteq> Ended res) \<longrightarrow>
      (\<exists>q r d. runner_step key exec env c d \<and> cl_runner c q \<noteq> r \<and> r \<noteq> Ended None \<and> cl_runner d = (cl_runner c)(q := r)))"
proof -
  obtain ps t where ps: "serial exec env ps s t" and ended: "\<forall>p res. cl_runner c p = Ended (Some res) \<longrightarrow> (p, Some res) \<in> set ps"
    and out: "\<And>q. cl_locks c key \<noteq> Some q \<Longrightarrow> cl_runner c q = Waiting \<or> (\<exists>res. cl_runner c q = Ended res)"
    and db: "case cl_locks c key of None \<Rightarrow> cl_db c = t | Some q \<Rightarrow> stands exec (env q) t (cl_runner c q) (cl_db c) \<and>
        to_the_end exec (env q) (cl_runner c q) (cl_db c) = migrate_of exec (env q) t"
    using runners_reachable [OF run] unfolding runners_inv_def by blast
  note t = serial_names [OF ps dirs names]
  have "distinct (applied_names (cl_db c)) \<and> prefix (applied_names t) (applied_names (cl_db c))"
  proof (cases "cl_locks c key")
    case None
    with db t show ?thesis by simp
  next
    case (Some q)
    then have "cl_db c = t \<or> (\<exists>fs rest. so_far exec (env q) t fs rest (cl_db c))"
      using db by (cases "cl_runner c q") auto
    then show ?thesis using t so_far_grows [OF _ dirs, of exec q t _ _ "cl_db c"] by blast
  qed
  moreover from this t have "prefix (applied_names s) (applied_names (cl_db c))" by (meson prefix_order.trans)
  moreover have "set (sql_files (re_readdir (env p))) \<subseteq> set (applied_names (cl_db c))" if "cl_runner c p = Ended (Some (Inr ()))"
    using that ended t \<open>distinct _ \<and> prefix _ _\<close> by (meson set_mono_prefix subset_trans)
  moreover have "\<exists>q r d. runner_step key exec env c d \<and> cl_runner c q \<noteq> r \<and> r \<noteq> Ended None \<and> cl_runner d = (cl_runner c)(q := r)"
    if live: "\<forall>res. cl_runner c p \<noteq> Ended res"
  proof (cases "cl_locks c key")
    case None
    then have "cl_runner c p = Waiting" using out [of p] live by auto
    with runner_step.lock [OF this None, of exec env] show ?thesis
      by (intro exI [of _ p] exI [of _ Locked] exI) (auto simp: go_def)
  next
    case (Some q)
    then have "stands exec (env q) t (cl_runner c q) (cl_db c)" using db by simp
    then have "cl_runner c q \<noteq> Waiting" "\<And>res. cl_runner c q \<noteq> Ended res" by auto
    from runner_goes_on [OF this] show ?thesis by blast
  qed
  ultimately show ?thesis by blast
qed

subsection \<open>Two runners at once\<close>

text \<open>The next statement of a runner that is not killed, and a schedule of such turns.\<close>

definition turn ::
  "nat \<Rightarrow> (string \<Rightarrow> 's \<Rightarrow> unit service_error + 's) \<Rightarrow> (nat \<Rightarrow> runner_env) \<Rightarrow> nat \<Rightarrow> 's cluster \<Rightarrow> 's cluster" where
  "turn key exec env p c = (case cl_runner c p of
     Waiting \<Rightarrow> if cl_locks c key = None then go p Locked (c\<lparr>cl_locks := (cl_locks c)(key \<mapsto> p)\<rparr>) else c
   | Locked \<Rightarrow> go p Created (c\<lparr>cl_db := create_migrations_table (cl_db c)\<rparr>)
   | Created \<Rightarrow> go p (Selected (set (applied_names (cl_db c)))) c
   | Selected applied \<Rightarrow> go p (Looping applied (sql_files (re_readdir (env p)))) c
   | Looping applied [] \<Rightarrow> go p (Unlocking (Inr ())) c
   | Looping applied (file # files) \<Rightarrow>
       if file \<in> applied then go p (Looping applied files) c
       else (case re_readFile (env p) file of Inl e \<Rightarrow> go p (Unlocking (Inl e)) c | Inr sql \<Rightarrow> go p (Begun applied file sql files) c)
   | Begun applied file sql files \<Rightarrow>
       (case exec sql (mig_schema (cl_db c)) of Inl _ \<Rightarrow> go p (Aborting file) c | Inr y \<Rightarrow> go p (Executed applied file files y) c)
   | Executed applied file files y \<Rightarrow>
       if file \<in> set (applied_names (cl_db c)) then go p (Aborting file) c else go p (Inserted applied file files y) c
   | Inserted applied file files y \<Rightarrow> go p (Looping applied files) (c\<lparr>cl_db := record_file (re_now (env p)) file y (cl_db c)\<rparr>)
   | Aborting file \<Rightarrow> go p (Unlocking (Inl (migration_failed file))) c
   | Unlocking res \<Rightarrow> go p (Ended (Some res)) (release key p c)
   | Ended res \<Rightarrow> c)"

lemma turn_step: "turn key exec env p c = c \<or> runner_step key exec env c (turn key exec env p c)"
  unfolding turn_def by (auto split: runner.splits list.splits sum.splits intro: runner_step.intros)

lemma turns_reach: "(runner_step key exec env)\<^sup>*\<^sup>* c (fold (turn key exec env) ps c)"
proof (induction ps arbitrary: c)
  case (Cons p ps)
  with turn_step [of key exec env p c] show ?case by (auto intro: converse_rtranclp_into_rtranclp)
qed simp

text \<open>Runner 0 fails at the second file; runner 1, which waited meanwhile, has it repaired.\<close>

definition sample_runners :: "nat \<Rightarrow> runner_env" where
  "sample_runners p = \<lparr>re_readdir = sample_dir, re_readFile = sample_text (if p = 0 then ''bad'' else ''two''), re_now = int p\<rparr>"

definition sample_cluster :: "string list cluster" where
  "sample_cluster = fold (turn ADVISORY_LOCK_KEY sample_exec sample_runners) ([0, 1, 0, 0, 1] @ replicate 9 0 @ replicate 14 1) (idle empty_migrations)"

lemma sample_cluster_end:
  "cl_db sample_cluster = \<lparr>mig_schema = [''one'', ''two''], mig_applied = Some [(''001.sql'', 0), (''002.sql'', 1)]\<rparr>"
  "cl_runner sample_cluster 0 = Ended (Some (Inl (migration_failed ''002.sql'')))"
  "cl_runner sample_cluster 1 = Ended (Some (Inr ()))"
  by (simp_all add: sample_cluster_def turn_def idle_def go_def release_def sample_runners_def sample_pending
      sample_text_def sample_exec_def empty_migrations_def create_migrations_table_def applied_names_def record_file_def eval_nat_numeral)

lemma sample_cluster_run: "(runner_step ADVISORY_LOCK_KEY sample_exec sample_runners)\<^sup>*\<^sup>* (idle empty_migrations) sample_cluster"
  unfolding sample_cluster_def by (rule turns_reach)

theorem runners_serialize_witness:
  "\<exists>ps t. serial sample_exec sample_runners ps empty_migrations t \<and>
     (0, Some (Inl (migration_failed ''002.sql''))) \<in> set ps \<and> (1, Some (Inr ())) \<in> set ps"
  using runners_serialize [OF sample_cluster_run] sample_cluster_end(2,3) by blast

theorem runners_apply_once_witness:
  "distinct (applied_names (cl_db sample_cluster)) \<and> set (sql_files sample_dir) \<subseteq> set (applied_names (cl_db sample_cluster))"
proof -
  have "distinct (re_readdir (sample_runners p))" for p by (simp add: sample_runners_def sample_dir_def)
  from runners_apply_once [OF sample_cluster_run this, of 1] sample_cluster_end(3) show ?thesis
    by (auto simp: empty_migrations_def applied_names_def sample_runners_def)
qed

end
