(* ===== verification/JsDoubles.thy ===== *)
theory JsDoubles
  imports JsNumbers "HOL-Library.Log_Nat"
begin

text \<open>
  The JavaScript arithmetic on fractions that the frontend uses to read an amount: the text of a
  number, multiplication, and Math.round. A finite number is a rational (as in \<open>JsNumbers\<close>); the
  result of an operation is the exact one rounded to a binary64, to nearest with ties to even,
  with gradual underflow and overflow to an infinity.
\<close>

subsection \<open>Rounding a rational to a double\<close>

definition log2_floor :: "rat \<Rightarrow> int" where
  "log2_floor x = (if 1 \<le> x then bitlen \<lfloor>x\<rfloor> - 1 else - bitlen (\<lceil>1 / x\<rceil> - 1))"

definition round_even :: "rat \<Rightarrow> int" where
  "round_even q = (let f = \<lfloor>q\<rfloor>; d = q - of_int f
     in if d < 1 / 2 then f else if 1 / 2 < d then f + 1 else if even f then f else f + 1)"

text \<open>A positive value: 53 significant bits, the lowest never below 2 to the -1074.\<close>

definition round_positive :: "rat \<Rightarrow> rat" where
  "round_positive m = (let e = max (log2_floor m - 52) (- 1074) in of_int (round_even (m / 2 powi e)) * 2 powi e)"

definition to_double :: "rat \<Rightarrow> js_number" where
  "to_double x =
     (if x = 0 then JsNum 0
      else let r = round_positive \<bar>x\<bar>
        in if 2 ^ 1024 \<le> r then (if 0 < x then JsInfinity else JsNegInfinity) else JsNum (sgn x * r))"

fun js_times :: "js_number \<Rightarrow> js_number \<Rightarrow> js_number" where
  "js_times (JsNum a) (JsNum b) = to_double (a * b)"
| "js_times JsNaN y = JsNaN"
| "js_times x JsNaN = JsNaN"
| "js_times (JsNum a) y = (if a = 0 then JsNaN else if (0 < a) = (y = JsInfinity) then JsInfinity else JsNegInfinity)"
| "js_times x (JsNum b) = (if b = 0 then JsNaN else if (0 < b) = (x = JsInfinity) then JsInfinity else JsNegInfinity)"
| "js_times x y = (if x = y then JsInfinity else JsNegInfinity)"

text \<open>Halves go up. The result is an integer a double can hold, so nothing is rounded.\<close>

fun Math_round :: "js_number \<Rightarrow> js_number" where
  "Math_round (JsNum a) = JsNum (of_int \<lfloor>a + 1 / 2\<rfloor>)"
| "Math_round x = x"

fun js_isFinite :: "js_number \<Rightarrow> bool" where
  "js_isFinite (JsNum a) = True"
| "js_isFinite x = False"

subsection \<open>The number a text denotes\<close>

definition js_space :: "char \<Rightarrow> bool" where
  "js_space c \<longleftrightarrow> (of_char c :: nat) \<in> {9, 10, 11, 12, 13, 32, 160}"

definition js_trim :: "string \<Rightarrow> string" where
  "js_trim s = rev (dropWhile js_space (rev (dropWhile js_space s)))"

definition digit_of :: "char \<Rightarrow> nat option" where
  "digit_of c = (let n = (of_char c :: nat)
     in if 48 \<le> n \<and> n \<le> 57 then Some (n - 48)
        else if 65 \<le> n \<and> n \<le> 70 then Some (n - 55)
        else if 97 \<le> n \<and> n \<le> 102 then Some (n - 87) else None)"

definition is_digit :: "nat \<Rightarrow> char \<Rightarrow> bool" where
  "is_digit base c \<longleftrightarrow> (case digit_of c of None \<Rightarrow> False | Some d \<Rightarrow> d < base)"

definition digits_value :: "nat \<Rightarrow> string \<Rightarrow> nat" where
  "digits_value base ds = foldl (\<lambda>v c. base * v + the (digit_of c)) 0 ds"

fun js_neg :: "js_number \<Rightarrow> js_number" where
  "js_neg (JsNum a) = JsNum (- a)"
| "js_neg JsInfinity = JsNegInfinity"
| "js_neg JsNegInfinity = JsInfinity"
| "js_neg JsNaN = JsNaN"

text \<open>The exponent part after the digits; None if what is there is none.\<close>

fun exponent_part :: "string \<Rightarrow> int option" where
  "exponent_part [] = Some 0"
| "exponent_part (c # cs) =
     (if c \<noteq> CHR ''e'' \<and> c \<noteq> CHR ''E'' then None
      else let (s, ds) = (case cs of d # ds \<Rightarrow>
                 if d = CHR ''-'' then (- 1, ds) else if d = CHR ''+'' then (1, ds) else (1, cs) | [] \<Rightarrow> (1, cs))
        in if ds \<noteq> [] \<and> list_all (is_digit 10) ds then Some (s * int (digits_value 10 ds)) else None)"

definition decimal_literal :: "string \<Rightarrow> js_number" where
  "decimal_literal cs =
     (let whole = takeWhile (is_digit 10) cs; rest = dropWhile (is_digit 10) cs;
          (decs, tail) = (case rest of d # ds \<Rightarrow>
             if d = CHR ''.'' then (takeWhile (is_digit 10) ds, dropWhile (is_digit 10) ds) else ([], rest) | [] \<Rightarrow> ([], rest))
      in if whole = [] \<and> decs = [] then JsNaN
         else case exponent_part tail of
           None \<Rightarrow> JsNaN
         | Some e \<Rightarrow> to_double (of_nat (digits_value 10 (whole @ decs)) * 10 powi (e - int (length decs))))"

definition unsigned_literal :: "string \<Rightarrow> js_number" where
  "unsigned_literal cs = (if cs = ''Infinity'' then JsInfinity else decimal_literal cs)"

definition radix_of :: "string \<Rightarrow> (nat \<times> string) option" where
  "radix_of cs = (case cs of z # p # ds \<Rightarrow>
       if z \<noteq> CHR ''0'' then None
       else if p = CHR ''x'' \<or> p = CHR ''X'' then Some (16, ds)
       else if p = CHR ''o'' \<or> p = CHR ''O'' then Some (8, ds)
       else if p = CHR ''b'' \<or> p = CHR ''B'' then Some (2, ds) else None
     | _ \<Rightarrow> None)"

definition js_Number :: "string \<Rightarrow> js_number" where
  "js_Number s =
     (let cs = js_trim s in
      if cs = [] then JsNum 0
      else case radix_of cs of
        Some (base, ds) \<Rightarrow>
          if ds \<noteq> [] \<and> list_all (is_digit base) ds then to_double (of_nat (digits_value base ds)) else JsNaN
      | None \<Rightarrow>
          if hd cs = CHR ''-'' then js_neg (unsigned_literal (tl cs))
          else if hd cs = CHR ''+'' then unsigned_literal (tl cs)
          else unsigned_literal cs)"

subsection \<open>The error of a rounding\<close>

lemma log2_floor_bounds:
  assumes "0 < x"
  shows "2 powi log2_floor x \<le> x" and "x < 2 powi (log2_floor x + 1)"
proof -
  have "2 powi log2_floor x \<le> x \<and> x < 2 powi (log2_floor x + 1)"
  proof (cases "1 \<le> x")
    case True
    define f where "f = \<lfloor>x\<rfloor>"
    have f: "0 < f" "of_int f \<le> x" "x < of_int f + 1" using True unfolding f_def by linarith+
    define b where "b = bitlen f"
    have b: "2 ^ nat (b - 1) \<le> f" "f < 2 ^ nat b" using bitlen_bounds [OF f(1)] by (simp_all add: b_def)
    have "0 < b" using f(1) bitlen_eq_zero_iff [of f] bitlen_nonneg [of f] by (auto simp: b_def less_le)
    then have p: "(2 :: rat) powi (b - 1) = 2 ^ nat (b - 1)" "(2 :: rat) powi b = 2 ^ nat b"
      by (simp_all add: power_int_nonneg_exp)
    have "of_int (2 ^ nat (b - 1)) \<le> x" using b(1) f(2) by (meson of_int_le_iff order_trans)
    then have lo: "2 ^ nat (b - 1) \<le> x" by simp
    have "of_int (f + 1) \<le> (of_int (2 ^ nat b) :: rat)" using b(2) by (simp only: of_int_le_iff zless_imp_add1_zle)
    then have hi: "x < 2 ^ nat b" using f(3) by simp
    show ?thesis
      using True lo hi p by (simp add: log2_floor_def f_def [symmetric] b_def [symmetric])
  next
    case False
    define c where "c = \<lceil>1 / x\<rceil> - 1"
    have y: "1 < 1 / x" using False assms by simp
    have c: "0 < c" "of_int c < 1 / x" "1 / x \<le> of_int c + 1" using y by (simp_all add: c_def) linarith
    define b where "b = bitlen c"
    have b: "2 ^ nat (b - 1) \<le> c" "c < 2 ^ nat b" using bitlen_bounds [OF c(1)] by (simp_all add: b_def)
    have "0 < b" using c(1) bitlen_eq_zero_iff [of c] bitlen_nonneg [of c] by (auto simp: b_def less_le)
    then have p: "(2 :: rat) powi (- b) = 1 / 2 ^ nat b" "(2 :: rat) powi (- b + 1) = 1 / 2 ^ nat (b - 1)"
      using power_int_minus_divide [of "2 :: rat" b] power_int_minus_divide [of "2 :: rat" "b - 1"]
      by (simp_all add: power_int_nonneg_exp)
    have "of_int (2 ^ nat (b - 1)) < 1 / x" using b(1) c(2) by (meson of_int_le_iff le_less_trans)
    then have lo: "2 ^ nat (b - 1) < 1 / x" by simp
    have "of_int (c + 1) \<le> (of_int (2 ^ nat b) :: rat)" using b(2) by (simp only: of_int_le_iff zless_imp_add1_zle)
    then have hi: "1 / x \<le> (2 :: rat) ^ nat b" using c(3) by simp
    from lo hi have "1 / 2 ^ nat b \<le> x" "x < 1 / 2 ^ nat (b - 1)" using assms by (simp_all add: field_simps)
    then show ?thesis using False p by (simp add: log2_floor_def c_def [symmetric] b_def [symmetric])
  qed
  then show "2 powi log2_floor x \<le> x" and "x < 2 powi (log2_floor x + 1)" by simp_all
qed

lemma round_even_error: "\<bar>of_int (round_even q) - q\<bar> \<le> 1 / 2"
proof -
  have "of_int \<lfloor>q\<rfloor> \<le> q" "q < of_int \<lfloor>q\<rfloor> + 1" by linarith+
  then show ?thesis by (auto simp: round_even_def Let_def)
qed

lemma round_positive_error:
  assumes "2 powi (- 1022) \<le> m"
  shows "\<bar>round_positive m - m\<bar> \<le> m / 2 ^ 53"
proof -
  have pos: "0 < m" using assms less_le_trans [of 0 "2 powi (- 1022)" m] by simp
  note lo = log2_floor_bounds [OF pos]
  have "(2 :: rat) powi (- 1022) < 2 powi (log2_floor m + 1)" using assms lo(2) by (rule le_less_trans)
  then have "- 1022 < log2_floor m + 1"
    using power_int_increasing [of "log2_floor m + 1" "- 1022" "2 :: rat"] by (rule_tac ccontr) simp
  then have e: "max (log2_floor m - 52) (- 1074) = log2_floor m - 52" by simp
  let ?e = "log2_floor m - 52"
  have p: "(0 :: rat) < 2 powi ?e" by simp
  have "round_positive m - m = (of_int (round_even (m / 2 powi ?e)) - m / 2 powi ?e) * 2 powi ?e"
    by (simp add: round_positive_def e Let_def left_diff_distrib)
  then have "\<bar>round_positive m - m\<bar> = \<bar>of_int (round_even (m / 2 powi ?e)) - m / 2 powi ?e\<bar> * 2 powi ?e"
    by (simp add: abs_mult)
  also have "\<dots> \<le> 1 / 2 * 2 powi ?e"
    using mult_right_mono [OF round_even_error, of "2 powi ?e"] p by simp
  also have "\<dots> = 2 powi log2_floor m / 2 ^ 53"
    by (simp add: power_int_diff)
  also have "\<dots> \<le> m / 2 ^ 53" using lo(1) by (simp add: divide_right_mono)
  finally show ?thesis .
qed

text \<open>A small amount survives the way through two roundings.\<close>

lemma hundredth_large: "1 \<le> n \<Longrightarrow> 2 powi (- 1022) \<le> (n :: rat) / 100"
proof -
  assume n: "1 \<le> n"
  have "(2 :: rat) powi (- 1022) \<le> 2 powi (- 7)" by (rule power_int_increasing) simp_all
  also have "\<dots> \<le> n / 100" using n by (simp add: power_int_minus)
  finally show ?thesis .
qed

lemma to_double_positive: "0 < x \<Longrightarrow> round_positive x < 2 ^ 1024 \<Longrightarrow> to_double x = JsNum (round_positive x)"
  by (simp add: to_double_def Let_def)

lemma to_double_hundredth:
  assumes n: "1 \<le> n" "n < 2 ^ 50"
  obtains a where "to_double (of_int n / 100) = JsNum a" "\<bar>a * 100 - of_int n\<bar> \<le> of_int n / 2 ^ 53" "(of_int n :: rat) / 2 ^ 53 \<le> 1 / 8"
    "0 < a" "a < 2 ^ 51"
proof -
  define q where "q = (of_int n :: rat)"
  have q: "1 \<le> q" "q < 2 ^ 50" using n unfolding q_def by (metis of_int_1 of_int_le_iff, metis of_int_less_iff of_int_numeral of_int_power)
  define a where "a = round_positive (q / 100)"
  have "\<bar>a - q / 100\<bar> \<le> q / 100 / 2 ^ 53"
    unfolding a_def by (rule round_positive_error [OF hundredth_large [OF q(1)]])
  moreover have "q / 100 / 2 ^ 53 = q / 2 ^ 53 / 100" by simp
  ultimately have p: "\<bar>a * 100 - q\<bar> \<le> q / 2 ^ 53" by linarith
  have tiny: "q / 2 ^ 53 \<le> 1 / 8" using q(2) by simp
  have "0 < a" "a < q + 1" using p tiny q(1) by linarith+
  moreover have "q + 1 \<le> 2 ^ 51" using q(2) by simp
  ultimately have a: "0 < a" "a < 2 ^ 51" by linarith+
  have "(2 :: rat) ^ 51 \<le> 2 ^ 1024" by (rule power_increasing) simp_all
  with a(2) have "to_double (q / 100) = JsNum a" using q(1) by (simp add: a_def to_double_positive)
  from that [OF this [unfolded q_def] p [unfolded q_def] tiny [unfolded q_def] a] show thesis .
qed

lemma hundredths_exact:
  assumes n: "1 \<le> n" "n < 2 ^ 50"
  shows "Math_round (js_times (to_double (of_int n / 100)) (JsNum 100)) = JsNum (of_int n)"
proof -
  define q where "q = (of_int n :: rat)"
  obtain a where a: "to_double (q / 100) = JsNum a" "\<bar>a * 100 - q\<bar> \<le> q / 2 ^ 53" "q / 2 ^ 53 \<le> 1 / 8" "0 < a" "a < 2 ^ 51"
    using to_double_hundredth [OF n] unfolding q_def by blast
  have "1 \<le> q" using n(1) unfolding q_def by (metis of_int_1 of_int_le_iff)
  then have big: "1 / 2 \<le> a * 100" "a * 100 \<le> 2 * q" using a(2,3) by linarith+
  define b where "b = round_positive (a * 100)"
  have "\<bar>b - a * 100\<bar> \<le> a * 100 / 2 ^ 53"
    unfolding b_def using hundredth_large [of 50] big by (intro round_positive_error) simp
  moreover have "a * 100 / 2 ^ 53 \<le> 2 * q / 2 ^ 53" using big(2) by (rule divide_right_mono) simp
  ultimately have "\<bar>b - q\<bar> \<le> 3 * (q / 2 ^ 53)" using a(2) by linarith
  then have half: "\<bar>b - q\<bar> < 1 / 2" using a(3) by linarith
  have "b < 2 ^ 51 * 100 + 1" using half a(2,3,5) by linarith
  also have "(2 :: rat) ^ 51 * 100 + 1 \<le> 2 ^ 60" by simp
  also have "(2 :: rat) ^ 60 \<le> 2 ^ 1024" by (rule power_increasing) simp_all
  finally have "to_double (a * 100) = JsNum b" using a(4) by (simp add: b_def to_double_positive)
  moreover have "\<lfloor>b + 1 / 2\<rfloor> = n" using half unfolding q_def by (intro floor_unique) linarith+
  ultimately show ?thesis using a(1) by (simp add: q_def)
qed

text \<open>An amount typed with at most two decimals.\<close>

lemma digit_char: "is_digit 10 c \<Longrightarrow> 48 \<le> (of_char c :: nat) \<and> (of_char c :: nat) \<le> 57"
  by (auto simp: is_digit_def digit_of_def Let_def split: if_splits)

lemma dot_no_digit: "\<not> is_digit 10 CHR ''.''"
  by (simp add: is_digit_def digit_of_def)

lemma js_trim_id: "cs \<noteq> [] \<Longrightarrow> \<not> js_space (hd cs) \<Longrightarrow> \<not> js_space (last cs) \<Longrightarrow> js_trim cs = cs"
proof -
  assume cs: "cs \<noteq> []" "\<not> js_space (hd cs)" "\<not> js_space (last cs)"
  have drop: "dropWhile js_space xs = xs" if "xs \<noteq> []" "\<not> js_space (hd xs)" for xs using that by (cases xs) auto
  show ?thesis using cs by (simp add: js_trim_def drop hd_rev)
qed

text \<open>Digits, with a point among them or none.\<close>

definition plain_decimal :: "string \<Rightarrow> string \<Rightarrow> string \<Rightarrow> bool" where
  "plain_decimal whole decs cs \<longleftrightarrow> list_all (is_digit 10) whole \<and> list_all (is_digit 10) decs \<and> whole @ decs \<noteq> [] \<and>
     (cs = whole @ CHR ''.'' # decs \<or> cs = whole \<and> decs = [])"

lemma decimal_literal_plain:
  assumes "plain_decimal whole decs cs"
  shows "decimal_literal cs = to_double (of_nat (digits_value 10 (whole @ decs)) * 10 powi (- int (length decs)))"
proof -
  have span: "takeWhile (is_digit 10) xs = xs" "dropWhile (is_digit 10) xs = []" if "list_all (is_digit 10) xs" for xs
    using that by (simp_all add: takeWhile_eq_all_conv dropWhile_eq_Nil_conv list_all_iff)
  have dotted: "takeWhile (is_digit 10) (whole @ CHR ''.'' # decs) = whole"
    "dropWhile (is_digit 10) (whole @ CHR ''.'' # decs) = CHR ''.'' # decs" if "list_all (is_digit 10) whole"
    using that dot_no_digit by (simp_all add: takeWhile_append2 dropWhile_append2 list_all_iff)
  show ?thesis using assms by (auto simp: plain_decimal_def decimal_literal_def Let_def span dotted)
qed

lemma js_Number_plain:
  assumes cs: "plain_decimal whole decs cs"
  shows "js_Number cs = to_double (of_nat (digits_value 10 (whole @ decs)) * 10 powi (- int (length decs)))"
proof -
  have chars: "is_digit 10 c \<or> c = CHR ''.''" if "c \<in> set cs" for c
    using that cs by (auto simp: plain_decimal_def list_all_iff)
  have plain: "\<not> js_space c \<and> c \<notin> set ''-+xXoObBI''" if "c \<in> set cs" for c
    using chars [OF that] digit_char [of c] by (auto simp: js_space_def)
  have ne: "cs \<noteq> []" using cs by (auto simp: plain_decimal_def)
  note ends = hd_in_set [OF ne] last_in_set [OF ne]
  have "js_trim cs = cs"
    by (rule js_trim_id [OF ne]) (use plain [OF ends(1)] plain [OF ends(2)] in blast)+
  moreover have "radix_of cs = None"
  proof (cases "\<exists>z p ds. cs = z # p # ds")
    case True
    then obtain z p ds where split: "cs = z # p # ds" by blast
    have "p \<in> set cs" unfolding split by simp
    from plain [OF this] show ?thesis unfolding split by (simp add: radix_of_def)
  next
    case False
    then show ?thesis by (auto simp: radix_of_def split: list.splits)
  qed
  moreover have first: "hd cs \<noteq> CHR ''-''" "hd cs \<noteq> CHR ''+''" "hd cs \<noteq> CHR ''I''"
    using plain [OF ends(1)] by simp_all
  moreover from first(3) have "cs \<noteq> ''Infinity''" by (metis list.sel(1))
  ultimately show ?thesis
    using decimal_literal_plain [OF cs] ne by (simp add: js_Number_def Let_def unsigned_literal_def)
qed

lemma typed_cents_exact:
  assumes cs: "plain_decimal whole decs cs"
    and two: "length decs \<le> 2" and n: "n = digits_value 10 (whole @ decs) * 10 ^ (2 - length decs)" "n < 2 ^ 50"
  shows "Math_round (js_times (js_Number cs) (JsNum 100)) = JsNum (of_nat n)"
proof -
  have "(10 :: rat) powi (- int (length decs)) = 10 ^ (2 - length decs) / 100"
    using two by (cases "length decs") (auto simp: power_int_minus le_Suc_eq numeral_2_eq_2)
  then have x: "of_nat (digits_value 10 (whole @ decs)) * 10 powi (- int (length decs)) = (of_nat n :: rat) / 100"
    by (simp add: n(1))
  show ?thesis
  proof (cases "n = 0")
    case True
    with x show ?thesis by (simp add: js_Number_plain [OF cs] to_double_def floor_eq_iff)
  next
    case False
    with n(2) have "1 \<le> int n" "int n < 2 ^ 50" by (simp_all add: less_eq_Suc_le)
    from hundredths_exact [OF this] show ?thesis unfolding js_Number_plain [OF cs] x by simp
  qed
qed

subsection \<open>Showing a number with two decimals\<close>

text \<open>Division by a positive constant.\<close>

fun js_divided :: "js_number \<Rightarrow> rat \<Rightarrow> js_number" where
  "js_divided (JsNum a) b = to_double (a / b)"
| "js_divided x b = x"

fun decimal_text :: "nat \<Rightarrow> string" where
  "decimal_text n = (if n < 10 then [char_of (48 + n)] else decimal_text (n div 10) @ [char_of (48 + n mod 10)])"

declare decimal_text.simps [simp del]

text \<open>The digits of \<open>n\<close> with a point before the last \<open>f\<close> of them, zeros in front if there are too few.\<close>

definition fixed_text :: "nat \<Rightarrow> nat \<Rightarrow> string" where
  "fixed_text f n = (let ds = decimal_text n; ds = replicate (Suc f - length ds) CHR ''0'' @ ds
     in if f = 0 then ds else take (length ds - f) ds @ CHR ''.'' # drop (length ds - f) ds)"

text \<open>\<open>toFixed\<close>; \<open>show\<close> is what \<open>String\<close> makes of a number that is not finite or too large.\<close>

definition js_toFixed :: "(js_number \<Rightarrow> string) \<Rightarrow> nat \<Rightarrow> js_number \<Rightarrow> string" where
  "js_toFixed show f x = (case x of
     JsNum a \<Rightarrow> if 10 ^ 21 \<le> \<bar>a\<bar> then show x
       else (if a < 0 then ''-'' else []) @ fixed_text f (nat \<lfloor>\<bar>a\<bar> * 10 ^ f + 1 / 2\<rfloor>)
   | _ \<Rightarrow> show x)"

lemma digit_char_of: "d < 10 \<Longrightarrow> digit_of (char_of (48 + d)) = Some d"
  by (simp add: digit_of_def)

lemma digits_value_append: "digits_value b (xs @ [c]) = b * digits_value b xs + the (digit_of c)"
  by (simp add: digits_value_def)

lemma decimal_text_digits: "list_all (is_digit 10) (decimal_text n) \<and> digits_value 10 (decimal_text n) = n"
proof (induction n rule: decimal_text.induct)
  case (1 n)
  have "is_digit 10 (char_of (48 + d))" if "d < 10" for d :: nat using that by (simp add: is_digit_def digit_char_of)
  with 1 show ?case
    by (subst (1 2) decimal_text.simps) (auto simp: digits_value_append digit_char_of digits_value_def)
qed

lemma digits_value_zeros: "digits_value 10 (replicate k CHR ''0'' @ xs) = digits_value 10 xs"
proof -
  have "digit_of CHR ''0'' = Some 0" by (simp add: digit_of_def)
  then have "foldl (\<lambda>v c. 10 * v + the (digit_of c)) 0 (replicate k CHR ''0'') = 0" by (induction k) simp_all
  then show ?thesis by (simp add: digits_value_def)
qed

lemma fixed_text_plain:
  obtains whole decs where "plain_decimal whole decs (fixed_text 2 n)" "length decs = 2" "digits_value 10 (whole @ decs) = n"
proof -
  define ds where "ds = replicate (3 - length (decimal_text n)) CHR ''0'' @ decimal_text n"
  have "list_all (is_digit 10) ds" "digits_value 10 ds = n"
    using decimal_text_digits [of n] by (auto simp: ds_def digits_value_zeros list_all_iff is_digit_def digit_of_def)
  moreover have "3 \<le> length ds" by (simp add: ds_def)
  moreover from this have "drop (length ds - 2) ds \<noteq> []" by simp
  moreover have "list_all (is_digit 10) (take k ds) \<and> list_all (is_digit 10) (drop k ds)" for k
    using calculation(1) by (auto simp: list_all_iff dest: in_set_takeD in_set_dropD)
  moreover have "fixed_text 2 n = take (length ds - 2) ds @ CHR ''.'' # drop (length ds - 2) ds"
    by (simp add: fixed_text_def Let_def ds_def numeral_3_eq_3 numeral_2_eq_2)
  ultimately show thesis by (intro that [of "take (length ds - 2) ds" "drop (length ds - 2) ds"]) (auto simp: plain_decimal_def)
qed

text \<open>Cents divided by a hundred and shown with two decimals are the cents.\<close>

lemma shown_hundredths:
  assumes "n < 2 ^ 50"
  shows "js_toFixed show 2 (js_divided (JsNum (of_nat n)) 100) = fixed_text 2 n"
proof (cases "n = 0")
  case True
  then show ?thesis by (simp add: js_toFixed_def to_double_def floor_eq_iff)
next
  case False
  with assms have n: "1 \<le> int n" "int n < 2 ^ 50" by auto
  obtain a where a: "to_double (of_int (int n) / 100) = JsNum a" "\<bar>a * 100 - of_int (int n)\<bar> \<le> of_int (int n) / 2 ^ 53"
    "of_int (int n) / 2 ^ 53 \<le> (1 / 8 :: rat)" "0 < a" "a < 2 ^ 51" using to_double_hundredth [OF n] by blast
  have "\<lfloor>a * 100 + 1 / 2\<rfloor> = int n" using a(2,3) by (intro floor_unique) linarith+
  moreover have "\<bar>a\<bar> < 10 ^ 21" using a(4,5) by (simp add: abs_of_pos)
  ultimately show ?thesis using a(1,4) by (simp add: js_toFixed_def)
qed

end
