(* ===== verification/Frontend.thy ===== *)
theory Frontend
  imports BankHttp JsDoubles
begin

text \<open>
  The browser's side (frontend/src): the requests of api/bankA.ts and api/bankB.ts, the handlers
  of App.tsx over its state, and the polling hook. An asynchronous handler is split at its
  awaits: what it does before the request, the request, and what it does with the outcome, the
  text \<open>String(err)\<close> of an error or the parsed body. The state updates of React apply to the state
  at the time, so other handlers may run in between. A field that is missing is undefined (None);
  bodies are taken not to be null.
\<close>

subsection \<open>Requests\<close>

record http_request =
  hr_method :: "string option"  \<comment> \<open>None when fetch gets no init\<close>
  hr_url :: string
  hr_headers :: "(string \<times> string) list"
  hr_body :: "json option"

text \<open>A fetch that rejects, with the text of its error, or the status, the text and the parsed body.\<close>

datatype fetch_result = Rejected string | Answer nat string "json option"

definition jsonFetch :: "(nat \<Rightarrow> string) \<Rightarrow> http_request \<Rightarrow> fetch_result \<Rightarrow> string + json" where
  "jsonFetch show rq r = (case r of
     Rejected err \<Rightarrow> Inl err
   | Answer status text body \<Rightarrow>
       if \<not> (200 \<le> status \<and> status \<le> 299)
       then Inl (''Error: '' @ (case hr_method rq of None \<Rightarrow> ''GET'' | Some m \<Rightarrow> m) @ '' '' @ hr_url rq @ '' -> '' @
         show status @ '' '' @ text)
       else (case body of None \<Rightarrow> Inl ''SyntaxError'' | Some j \<Rightarrow> Inr j))"

definition jsonHeaders :: "(string \<times> string) list" where
  "jsonHeaders = [(''Content-Type'', ''application/json'')]"

definition BANK_A_URL :: "string option \<Rightarrow> string" where
  "BANK_A_URL VITE_BANK_A_URL = (case VITE_BANK_A_URL of None \<Rightarrow> ''http://localhost:3000'' | Some url \<Rightarrow> url)"

definition BANK_B_URL :: "string option \<Rightarrow> string" where
  "BANK_B_URL VITE_BANK_B_URL = (case VITE_BANK_B_URL of None \<Rightarrow> ''http://localhost:8001'' | Some url \<Rightarrow> url)"

definition js_json :: "js_number \<Rightarrow> json" where
  "js_json x = (case x of JsNum q \<Rightarrow> JNum q | _ \<Rightarrow> JNull)"

definition bankA_createAccount :: "string \<Rightarrow> string \<Rightarrow> http_request" where
  "bankA_createAccount url ownerName =
     \<lparr>hr_method = Some ''POST'', hr_url = url @ ''/accounts'', hr_headers = jsonHeaders,
      hr_body = Some (JObj [(''ownerName'', JStr ownerName)])\<rparr>"

definition bankA_getBalance :: "string \<Rightarrow> string \<Rightarrow> http_request" where
  "bankA_getBalance url accountId =
     \<lparr>hr_method = None, hr_url = url @ ''/accounts/'' @ accountId @ ''/balance'', hr_headers = [], hr_body = None\<rparr>"

definition bankA_devSeed :: "string \<Rightarrow> string \<Rightarrow> js_number \<Rightarrow> http_request" where
  "bankA_devSeed url accountId amountCents =
     \<lparr>hr_method = Some ''POST'', hr_url = url @ ''/accounts/'' @ accountId @ ''/dev-seed'', hr_headers = jsonHeaders,
      hr_body = Some (JObj [(''amountCents'', js_json amountCents)])\<rparr>"

definition bankA_createInterbankTransfer ::
  "string \<Rightarrow> string \<Rightarrow> string \<Rightarrow> string \<Rightarrow> js_number \<Rightarrow> http_request" where
  "bankA_createInterbankTransfer url idempotencyKey payerAccountId payeeAccountRef amountCents =
     \<lparr>hr_method = Some ''POST'', hr_url = url @ ''/interbank-transfers'',
      hr_headers = jsonHeaders @ [(''Idempotency-Key'', idempotencyKey)],
      hr_body = Some (JObj [(''payerAccountId'', JStr payerAccountId), (''payeeAccountRef'', JStr payeeAccountRef),
                            (''amountCents'', js_json amountCents)])\<rparr>"

definition bankA_getInterbankTransfer :: "string \<Rightarrow> string \<Rightarrow> http_request" where
  "bankA_getInterbankTransfer url transferId =
     \<lparr>hr_method = None, hr_url = url @ ''/interbank-transfers/'' @ transferId, hr_headers = [], hr_body = None\<rparr>"

definition bankB_createAccount :: "string \<Rightarrow> string \<Rightarrow> http_request" where
  "bankB_createAccount url ownerName =
     \<lparr>hr_method = Some ''POST'', hr_url = url @ ''/accounts'', hr_headers = jsonHeaders,
      hr_body = Some (JObj [(''owner_name'', JStr ownerName)])\<rparr>"

definition bankB_getBalance :: "string \<Rightarrow> string \<Rightarrow> http_request" where
  "bankB_getBalance url accountId =
     \<lparr>hr_method = None, hr_url = url @ ''/accounts/'' @ accountId @ ''/balance'', hr_headers = [], hr_body = None\<rparr>"

subsection \<open>The state of the page\<close>

record tracked_account =
  ta_id :: "json option"
  ta_ownerName :: "json option"
  ta_balanceCents :: "json option"

record tracked_transfer =
  tt_transferId :: "json option"
  tt_payerAccountId :: "json option"
  tt_payeeAccountRef :: "json option"
  tt_amountCents :: "json option"
  tt_status :: "json option"

record ui =
  ui_bankAAccounts :: "tracked_account list"
  ui_bankBAccounts :: "tracked_account list"
  ui_transfers :: "tracked_transfer list"
  ui_error :: "string option"

definition initial_ui :: ui where
  "initial_ui = \<lparr>ui_bankAAccounts = [], ui_bankBAccounts = [], ui_transfers = [], ui_error = None\<rparr>"

text \<open>The form hands on a trimmed name, unless nothing is left of it.\<close>

definition CreateAccountForm_submit :: "string \<Rightarrow> string option" where
  "CreateAccountForm_submit ownerName = (let trimmed = js_trim ownerName in if trimmed = [] then None else Some trimmed)"

definition createBankAAccount :: "string + json \<Rightarrow> ui \<Rightarrow> ui" where
  "createBankAAccount r s = (case r of
     Inl err \<Rightarrow> s\<lparr>ui_error := Some err\<rparr>
   | Inr account \<Rightarrow> s\<lparr>ui_bankAAccounts := ui_bankAAccounts s @
       [\<lparr>ta_id = json_field ''id'' account, ta_ownerName = json_field ''ownerName'' account,
         ta_balanceCents = Some (JNum 0)\<rparr>]\<rparr>)"

definition createBankBAccount :: "string + json \<Rightarrow> ui \<Rightarrow> ui" where
  "createBankBAccount r s = (case r of
     Inl err \<Rightarrow> s\<lparr>ui_error := Some err\<rparr>
   | Inr account \<Rightarrow> s\<lparr>ui_bankBAccounts := ui_bankBAccounts s @
       [\<lparr>ta_id = json_field ''id'' account, ta_ownerName = json_field ''owner_name'' account,
         ta_balanceCents = Some (JNum 0)\<rparr>]\<rparr>)"

definition set_balance :: "string \<Rightarrow> json option \<Rightarrow> tracked_account list \<Rightarrow> tracked_account list" where
  "set_balance accountId balance =
     map (\<lambda>a. if ta_id a = Some (JStr accountId) then a\<lparr>ta_balanceCents := balance\<rparr> else a)"

definition seed :: "string \<Rightarrow> string + json \<Rightarrow> ui \<Rightarrow> ui" where
  "seed accountId r s = (case r of
     Inl err \<Rightarrow> s\<lparr>ui_error := Some err\<rparr>
   | Inr balance \<Rightarrow> s\<lparr>ui_bankAAccounts := set_balance accountId (json_field ''balanceCents'' balance) (ui_bankAAccounts s)\<rparr>)"

text \<open>
  The outcome of \<open>Promise.all\<close> is an error or both balances; the error is the caller's.
\<close>

definition refreshBalances :: "string \<Rightarrow> string \<Rightarrow> json \<times> json \<Rightarrow> ui \<Rightarrow> ui" where
  "refreshBalances payerAccountId payeeAccountId fetched s =
     s\<lparr>ui_bankAAccounts := set_balance payerAccountId (json_field ''balanceCents'' (fst fetched)) (ui_bankAAccounts s),
       ui_bankBAccounts := set_balance payeeAccountId (json_field ''balance_cents'' (snd fetched)) (ui_bankBAccounts s)\<rparr>"

subsection \<open>What is shown\<close>

text \<open>A text is its bytes in UTF-8; null is None.\<close>

definition ellipsis :: string where
  "ellipsis = [CHR 0xE2, CHR 0x80, CHR 0xA6]"

definition formatCents :: "(js_number \<Rightarrow> string) \<Rightarrow> js_number option \<Rightarrow> string" where
  "formatCents show x = (case x of None \<Rightarrow> ellipsis | Some c \<Rightarrow> CHR ''$'' # js_toFixed show 2 (js_divided c 100))"

definition shortId :: "string \<Rightarrow> string" where
  "shortId i = take 8 i"

subsection \<open>Sending a transfer\<close>

definition amount_cents :: "string \<Rightarrow> js_number" where
  "amount_cents amountDollars = Math_round (js_times (js_Number amountDollars) (JsNum 100))"

fun js_not_positive :: "js_number \<Rightarrow> bool" where
  "js_not_positive (JsNum q) \<longleftrightarrow> q \<le> 0"
| "js_not_positive JsNegInfinity \<longleftrightarrow> True"
| "js_not_positive _ \<longleftrightarrow> False"

text \<open>The request, or None when the input is refused; \<open>key\<close> is the random UUID.\<close>

definition sendTransfer_request :: "string \<Rightarrow> string \<Rightarrow> string \<Rightarrow> string \<Rightarrow> string \<Rightarrow> http_request option" where
  "sendTransfer_request url key payerId payeeId amountDollars =
     (let amountCents = amount_cents amountDollars
      in if payerId = [] \<or> payeeId = [] \<or> \<not> js_isFinite amountCents \<or> js_not_positive amountCents then None
         else Some (bankA_createInterbankTransfer url key payerId payeeId amountCents))"

definition sendTransfer_begin :: "string \<Rightarrow> string \<Rightarrow> string \<Rightarrow> ui \<Rightarrow> ui" where
  "sendTransfer_begin payerId payeeId amountDollars s =
     (case sendTransfer_request [] [] payerId payeeId amountDollars of
        None \<Rightarrow> s\<lparr>ui_error := Some ''Pick a payer, a payee, and a positive amount.''\<rparr>
      | Some _ \<Rightarrow> s\<lparr>ui_error := None\<rparr>)"

definition sendTransfer_end :: "string + json \<Rightarrow> ui \<Rightarrow> ui" where
  "sendTransfer_end r s = (case r of
     Inl err \<Rightarrow> s\<lparr>ui_error := Some err\<rparr>
   | Inr transfer \<Rightarrow> s\<lparr>ui_transfers :=
       \<lparr>tt_transferId = json_field ''transferId'' transfer, tt_payerAccountId = json_field ''payerAccountId'' transfer,
        tt_payeeAccountRef = json_field ''payeeAccountRef'' transfer, tt_amountCents = json_field ''amountCents'' transfer,
        tt_status = json_field ''status'' transfer\<rparr> # ui_transfers s\<rparr>)"

subsection \<open>Polling\<close>

definition inFlight :: "ui \<Rightarrow> tracked_transfer list" where
  "inFlight s = filter (\<lambda>t. tt_status t = Some (JStr ''DEBITED'')) (ui_transfers s)"

definition onSettled :: "json \<Rightarrow> ui \<Rightarrow> ui" where
  "onSettled fresh s = s\<lparr>ui_transfers := map (\<lambda>p. if tt_transferId p = json_field ''transferId'' fresh
     then p\<lparr>tt_status := json_field ''status'' fresh\<rparr> else p) (ui_transfers s)\<rparr>"

text \<open>What the answer about the transfer \<open>t\<close> of a tick does; an error waits for the next tick.\<close>

definition poll_answer :: "tracked_transfer \<Rightarrow> string + json \<Rightarrow> ui \<Rightarrow> ui" where
  "poll_answer t r s = (case r of
     Inl _ \<Rightarrow> s
   | Inr fresh \<Rightarrow> if json_field ''status'' fresh \<noteq> tt_status t then onSettled fresh s else s)"

subsection \<open>The page as a transition system\<close>

text \<open>
  Any handler may run at any time, with any outcome of its request, except that a transfer is
  answered by Bank A: its controller on some database and with any interference, or nothing gets
  through. Node lower-cases the names of headers.
\<close>

definition header :: "string \<Rightarrow> http_request \<Rightarrow> string option" where
  "header name rq = map_of (hr_headers rq) name"

definition bank_a_answers ::
  "(string \<Rightarrow> bool) \<Rightarrow> http_request \<Rightarrow> fetch_result \<Rightarrow> bool" where
  "bank_a_answers isUUID rq r \<longleftrightarrow> (\<exists>err. r = Rejected err) \<or>
     (\<exists>bankId i1 i2 i3 uuid now s show to_iso text body status j.
        bank_answer show 201 (interbank_json to_iso)
          (fst (InterbankController_create isUUID bankId i1 i2 i3 uuid now (header ''Idempotency-Key'' rq) (the (hr_body rq)) s))
          = (status, body) \<and>
        r = Answer status text j \<and> (body \<noteq> None \<longrightarrow> j = body))"

inductive ui_step :: "(string \<Rightarrow> bool) \<Rightarrow> ui \<Rightarrow> ui \<Rightarrow> bool" for isUUID where
  clear: "ui_step isUUID s (s\<lparr>ui_error := None\<rparr>)"
| create_a: "ui_step isUUID s (createBankAAccount r s)"
| create_b: "ui_step isUUID s (createBankBAccount r s)"
| seeded: "ui_step isUUID s (seed accountId r s)"
| send: "ui_step isUUID s (sendTransfer_begin payerId payeeId amountDollars s)"
| sent: "sendTransfer_request url key payerId payeeId amountDollars = Some rq \<Longrightarrow> bank_a_answers isUUID rq r \<Longrightarrow>
    ui_step isUUID s (sendTransfer_end (jsonFetch show rq r) s)"
| refreshed: "ui_step isUUID s (refreshBalances p q fetched s)"
| refresh_failed: "ui_step isUUID s (s\<lparr>ui_error := Some err\<rparr>)"
| polled: "ui_step isUUID s (poll_answer t r s)"

subsection \<open>What the page can do\<close>

lemma page_request_refused:
  assumes "sendTransfer_request url key payerId payeeId amountDollars = Some rq"
  shows "InterbankController_create isUUID bankId i1 i2 i3 uuid now hdr (the (hr_body rq)) db = (Inl BadRequest, db)"
  using assms
  by (auto simp: sendTransfer_request_def Let_def bankA_createInterbankTransfer_def InterbankController_create_def
      CreateInterbankTransferDto_def json_string_def split: if_splits option.splits)

lemma refused_adds_nothing:
  assumes "sendTransfer_request url key payerId payeeId amountDollars = Some rq" "bank_a_answers isUUID rq r"
  shows "ui_transfers (sendTransfer_end (jsonFetch show rq r) s) = ui_transfers s"
  using assms(2)
  by (auto simp: bank_a_answers_def page_request_refused [OF assms(1)] bank_answer_def error_answer_def jsonFetch_def
      sendTransfer_end_def)

lemmas handler_defs = createBankAAccount_def createBankBAccount_def seed_def sendTransfer_begin_def refreshBalances_def
  poll_answer_def onSettled_def

lemma ui_step_transfers: "ui_step isUUID s s' \<Longrightarrow> ui_transfers s = [] \<Longrightarrow> ui_transfers s' = []"
  by (cases rule: ui_step.cases) (auto simp: handler_defs refused_adds_nothing split: sum.splits option.splits)

lemma ui_run_transfers: "(ui_step isUUID)\<^sup>*\<^sup>* initial_ui s \<Longrightarrow> ui_transfers s = []"
  by (induction rule: rtranclp_induct) (auto simp: initial_ui_def intro: ui_step_transfers)

text \<open>Alice pays ten dollars: Bank A refuses, and the page shows only the error.\<close>

definition sample_ten :: http_request where
  "sample_ten = bankA_createInterbankTransfer (BANK_A_URL None) ''k1'' alice ''acc-7'' (JsNum 1000)"

definition sample_refusal :: fetch_result where
  "sample_refusal = Answer 400 ''Bad Request'' None"

lemma sample_ten_sent: "sendTransfer_request (BANK_A_URL None) ''k1'' alice ''acc-7'' ''10.00'' = Some sample_ten"
proof -
  have "amount_cents ''10.00'' = JsNum (of_nat 1000)"
    unfolding amount_cents_def
    by (rule typed_cents_exact [where whole = "''10''" and decs = "''00''"])
      (simp_all add: plain_decimal_def is_digit_def digit_of_def digits_value_def)
  then show ?thesis by (simp add: sendTransfer_request_def Let_def sample_ten_def alice_def)
qed

lemma sample_refused: "bank_a_answers uuid_form sample_ten sample_refusal"
  unfolding bank_a_answers_def page_request_refused [OF sample_ten_sent]
  by (rule disjI2) (auto simp: bank_answer_def error_answer_def sample_refusal_def)

text \<open>
  C40. An amount typed with at most two decimals is sent to the cent: below 2^50 cents the
  rounding of the product of doubles undoes the error of the two roundings before it.
\<close>
theorem typed_amount_sent_exactly:
  assumes typed: "plain_decimal whole decs amountDollars"
    and two: "length decs \<le> 2" and n: "n = digits_value 10 (whole @ decs) * 10 ^ (2 - length decs)" "0 < n" "n < 2 ^ 50"
    and ids: "payerId \<noteq> []" "payeeId \<noteq> []"
  shows "\<exists>rq body. sendTransfer_request url key payerId payeeId amountDollars = Some rq \<and>
    hr_url rq = url @ ''/interbank-transfers'' \<and> header ''Idempotency-Key'' rq = Some key \<and> hr_body rq = Some body \<and>
    json_string ''payerAccountId'' body = Some payerId \<and> json_string ''payeeAccountRef'' body = Some payeeId \<and>
    json_number ''amountCents'' body = Some (JsNum (of_nat n))"
proof -
  have "amount_cents amountDollars = JsNum (of_nat n)"
    unfolding amount_cents_def by (rule typed_cents_exact [OF typed two n(1) n(3)])
  with n(2) ids show ?thesis
    by (simp add: sendTransfer_request_def Let_def bankA_createInterbankTransfer_def header_def jsonHeaders_def
        json_string_def json_number_def js_json_def)
qed

theorem typed_amount_sent_exactly_witness:
  "\<exists>rq. sendTransfer_request [] ''k1'' alice ''acc-7'' ''1.15'' = Some rq \<and>
     json_number ''amountCents'' (the (hr_body rq)) = Some (JsNum 115)"
proof -
  have "plain_decimal ''1'' ''15'' ''1.15''" "115 = digits_value 10 (''1'' @ ''15'') * 10 ^ (2 - length ''15'')"
    by (simp_all add: plain_decimal_def is_digit_def digit_of_def digits_value_def)
  from typed_amount_sent_exactly [OF this(1) _ this(2), of alice "''acc-7''" "[]" "''k1''"] show ?thesis
    by (auto simp: alice_def)
qed

end
