(* ===== verification/FrontendPage.thy ===== *)
theory FrontendPage
  imports Frontend
begin

text \<open>
  What the browser shows and what its elements do (frontend/src/components, the JSX of App.tsx,
  lib/format.ts). A component is a function from its props to its elements, which carry their
  handlers; \<open>fire\<close> is what a handler does to the page, and \<open>page_step\<close> lets the user work any
  element that is shown while requests are under way. A text is its bytes in UTF-8. The
  components are modelled on the types of types.ts: \<open>None\<close> is a value from a server that does not
  have them, about which nothing is said.
\<close>

subsection \<open>Elements\<close>

datatype bank_side = SideA | SideB

datatype handler =
    SetOwnerName bank_side
  | SubmitOwnerName bank_side
  | Seed string
  | SetPayerId
  | SetPayeeId
  | SetAmountDollars
  | SubmitTransfer

datatype node =
    Text string
  | Element (tag: string) (attrs: "(string \<times> string) list") (events: "(string \<times> handler) list") (children: "node list")

fun nodes :: "node \<Rightarrow> node list" where
  "nodes (Text t) = [Text t]"
| "nodes (Element t as es cs) = Element t as es cs # concat (map nodes cs)"

text \<open>The elements of a component that may show nothing, and of a list of them.\<close>

definition all_of :: "('a \<Rightarrow> 'b option) \<Rightarrow> 'a list \<Rightarrow> 'b list option" where
  "all_of f xs = those (map f xs)"

definition a_string :: "json option \<Rightarrow> string option" where
  "a_string x = (case x of Some (JStr t) \<Rightarrow> Some t | _ \<Rightarrow> None)"

definition a_number :: "json option \<Rightarrow> js_number option" where
  "a_number x = (case x of Some (JNum q) \<Rightarrow> Some (JsNum q) | _ \<Rightarrow> None)"

definition a_number_or_null :: "json option \<Rightarrow> js_number option option" where
  "a_number_or_null x = (case x of Some JNull \<Rightarrow> Some None | _ \<Rightarrow> map_option Some (a_number x))"

definition ascii_lower :: "char \<Rightarrow> char" where
  "ascii_lower c = (let n = of_char c :: nat in if 65 \<le> n \<and> n \<le> 90 then char_of (n + 32) else c)"

definition toLowerCase :: "string \<Rightarrow> string" where
  "toLowerCase t = map ascii_lower t"

definition em_dash :: string where
  "em_dash = [CHR 0xE2, CHR 0x80, CHR 0x94]"

definition right_arrow :: string where
  "right_arrow = [CHR 0xE2, CHR 0x86, CHR 0x92]"

subsection \<open>Components\<close>

definition Header :: node where
  "Header = Element ''header'' [] [] [
     Element ''h1'' [] [] [Text (''Distributed Payment Ledger '' @ em_dash @ '' Live Demo'')],
     Element ''p'' [(''class'', ''subtitle'')] [] [Text (''Bank A (NestJS, :3000) and Bank B (FastAPI, :8001) are '' @
       ''two independent services settling transfers through RabbitMQ. Create an account on each side, fund the '' @
       ''payer, then send a transfer and watch the saga settle.'')]]"

definition ErrorBanner :: "string option \<Rightarrow> node list" where
  "ErrorBanner message = (case message of None \<Rightarrow> [] | Some m \<Rightarrow>
     if m = [] then [] else [Element ''div'' [(''class'', ''error'')] [] [Text m]])"

definition SeedButton :: "handler \<Rightarrow> node" where
  "SeedButton onSeed = Element ''button'' [(''class'', ''seed-button'')] [(''click'', onSeed)] [Text ''Seed $100'']"

definition CreateAccountForm :: "bank_side \<Rightarrow> string \<Rightarrow> node" where
  "CreateAccountForm side ownerName = Element ''div'' [(''class'', ''create-form'')] [] [
     Element ''input'' [(''placeholder'', ''Owner name''), (''value'', ownerName)]
       [(''change'', SetOwnerName side), (''Enter'', SubmitOwnerName side)] [],
     Element ''button'' [] [(''click'', SubmitOwnerName side)] [Text ''Create account'']]"

definition account_item ::
  "(js_number \<Rightarrow> string) \<Rightarrow> (string \<Rightarrow> node list) \<Rightarrow> tracked_account \<Rightarrow> node option" where
  "account_item show renderAction a =
     (case (a_string (ta_id a), a_string (ta_ownerName a), a_number_or_null (ta_balanceCents a)) of
        (Some i, Some owner, Some balance) \<Rightarrow> Some (Element ''li'' [] [] ([
          Element ''div'' [(''class'', ''account-info'')] [] [
            Element ''span'' [(''class'', ''owner-name'')] [] [Text owner],
            Element ''span'' [(''class'', ''account-id''), (''title'', i)] [] [Text (shortId i)]],
          Element ''span'' [(''class'', ''balance'')] [] [Text (formatCents show balance)]] @ renderAction i))
      | _ \<Rightarrow> None)"

definition AccountList ::
  "(js_number \<Rightarrow> string) \<Rightarrow> (string \<Rightarrow> node list) \<Rightarrow> tracked_account list \<Rightarrow> node option" where
  "AccountList show renderAction tracked =
     (if tracked = []
      then Some (Element ''ul'' [(''class'', ''accounts'')] [] [Element ''li'' [(''class'', ''empty'')] [] [Text ''No accounts yet.'']])
      else map_option (Element ''ul'' [(''class'', ''accounts'')] []) (all_of (account_item show renderAction) tracked))"

definition BankPanel ::
  "(js_number \<Rightarrow> string) \<Rightarrow> string \<Rightarrow> string \<Rightarrow> bank_side \<Rightarrow> string \<Rightarrow> tracked_account list \<Rightarrow> (string \<Rightarrow> node list) \<Rightarrow> node option" where
  "BankPanel show title className side ownerName tracked renderAccountAction =
     (case AccountList show renderAccountAction tracked of None \<Rightarrow> None | Some list \<Rightarrow>
        Some (Element ''section'' [(''class'', ''bank '' @ className)] []
          [Element ''h2'' [] [] [Text title], CreateAccountForm side ownerName, list]))"

definition account_option :: "tracked_account \<Rightarrow> node option" where
  "account_option a = (case (a_string (ta_id a), a_string (ta_ownerName a)) of
     (Some i, Some owner) \<Rightarrow> Some (Element ''option'' [(''value'', i)] [] [Text (owner @ '' '' @ em_dash @ '' '' @ shortId i)])
   | _ \<Rightarrow> None)"

definition account_select :: "string \<Rightarrow> handler \<Rightarrow> string \<Rightarrow> tracked_account list \<Rightarrow> node option" where
  "account_select chosen onChange placeholder tracked =
     map_option (\<lambda>opts. Element ''select'' [(''value'', chosen)] [(''change'', onChange)]
       (Element ''option'' [(''value'', [])] [] [Text (placeholder @ ellipsis)] # opts)) (all_of account_option tracked)"

definition TransferForm ::
  "string \<Rightarrow> string \<Rightarrow> string \<Rightarrow> tracked_account list \<Rightarrow> tracked_account list \<Rightarrow> node option" where
  "TransferForm payerId payeeId amountDollars payerAccounts payeeAccounts =
     (case (account_select payerId SetPayerId ''Payer (Bank A)'' payerAccounts,
            account_select payeeId SetPayeeId ''Payee (Bank B)'' payeeAccounts) of
        (Some payer, Some payee) \<Rightarrow> Some (Element ''div'' [(''class'', ''create-form'')] [] [payer, payee,
          Element ''input'' [(''class'', ''amount-input''), (''value'', amountDollars)] [(''change'', SetAmountDollars)] [],
          Element ''button'' [] [(''click'', SubmitTransfer)] [Text ''Send transfer'']])
      | _ \<Rightarrow> None)"

definition STATUS_LABEL :: "interbank_status \<Rightarrow> string" where
  "STATUS_LABEL st = (case st of DEBITED \<Rightarrow> ''in flight'' @ ellipsis | CONFIRMED \<Rightarrow> ''confirmed''
     | COMPENSATED \<Rightarrow> ''compensated (refunded)'')"

definition a_status :: "json option \<Rightarrow> interbank_status option" where
  "a_status x = (case a_string x of None \<Rightarrow> None
     | Some t \<Rightarrow> find (\<lambda>st. interbank_status_text st = t) [DEBITED, CONFIRMED, COMPENSATED])"

definition transfer_item :: "(js_number \<Rightarrow> string) \<Rightarrow> tracked_transfer \<Rightarrow> node option" where
  "transfer_item show t =
     (case (a_string (tt_transferId t), a_string (tt_payerAccountId t), a_string (tt_payeeAccountRef t),
            a_number (tt_amountCents t), a_status (tt_status t)) of
        (Some i, Some payer, Some payee, Some amount, Some st) \<Rightarrow>
          Some (Element ''li'' [(''class'', ''status-'' @ toLowerCase (interbank_status_text st))] [] [
            Element ''span'' [(''class'', ''transfer-id''), (''title'', i)] [] [Text (shortId i)],
            Element ''span'' [(''class'', ''transfer-route'')] [] [Text (shortId payer @ '' '' @ right_arrow @ '' '' @ shortId payee)],
            Element ''span'' [(''class'', ''transfer-amount'')] [] [Text (formatCents show (Some amount))],
            Element ''span'' [(''class'', ''badge badge-'' @ toLowerCase (interbank_status_text st))] [] [Text (STATUS_LABEL st)]])
      | _ \<Rightarrow> None)"

definition TransferList :: "(js_number \<Rightarrow> string) \<Rightarrow> tracked_transfer list \<Rightarrow> node option" where
  "TransferList show sent =
     (if sent = []
      then Some (Element ''ul'' [(''class'', ''transfers'')] [] [Element ''li'' [(''class'', ''empty'')] [] [Text ''No transfers sent yet.'']])
      else map_option (Element ''ul'' [(''class'', ''transfers'')] []) (all_of (transfer_item show) sent))"

definition TransferPanel ::
  "(js_number \<Rightarrow> string) \<Rightarrow> string \<Rightarrow> string \<Rightarrow> string \<Rightarrow> tracked_account list \<Rightarrow> tracked_account list \<Rightarrow>
   tracked_transfer list \<Rightarrow> node option" where
  "TransferPanel show payerId payeeId amountDollars payerAccounts payeeAccounts sent =
     (case (TransferForm payerId payeeId amountDollars payerAccounts payeeAccounts, TransferList show sent) of
        (Some form, Some list) \<Rightarrow> Some (Element ''section'' [(''class'', ''transfer'')] []
          [Element ''h2'' [] [] [Text ''Send an interbank transfer''], form, list])
      | _ \<Rightarrow> None)"

subsection \<open>The page\<close>

text \<open>
  The state of App, of its forms, and the requests whose answers it awaits with what the answer
  is for. \<open>refreshBalances\<close> awaits the answers to two requests at once.
\<close>

datatype awaited =
    CreatingAccount bank_side
  | Seeding string
  | Sending string string
  | RefreshingFor string string bool  \<comment> \<open>whether the caller catches the error\<close>
  | Polling tracked_transfer

record page =
  pg_ui :: ui
  pg_ownerName :: "bank_side \<Rightarrow> string"
  pg_payerId :: string
  pg_payeeId :: string
  pg_amountDollars :: string
  pg_awaited :: "(http_request list \<times> awaited) list"

definition initial_page :: page where
  "initial_page = \<lparr>pg_ui = initial_ui, pg_ownerName = (\<lambda>_. []), pg_payerId = [], pg_payeeId = [],
     pg_amountDollars = ''10.00'', pg_awaited = []\<rparr>"

definition App :: "(js_number \<Rightarrow> string) \<Rightarrow> page \<Rightarrow> node option" where
  "App show p = (let s = pg_ui p in
     case (BankPanel show ''Bank A'' ''bank-a'' SideA (pg_ownerName p SideA) (ui_bankAAccounts s) (\<lambda>i. [SeedButton (Seed i)]),
           BankPanel show ''Bank B'' ''bank-b'' SideB (pg_ownerName p SideB) (ui_bankBAccounts s) (\<lambda>_. []),
           TransferPanel show (pg_payerId p) (pg_payeeId p) (pg_amountDollars p) (ui_bankAAccounts s) (ui_bankBAccounts s)
             (ui_transfers s)) of
        (Some a, Some b, Some transfer) \<Rightarrow> Some (Element ''div'' [(''class'', ''app'')] []
          (Header # ErrorBanner (ui_error s) @ [Element ''div'' [(''class'', ''banks'')] [] [a, b], transfer]))
      | _ \<Rightarrow> None)"

text \<open>
  An event the browser can raise on the page: a select changes to the value of one of its options
  only, a text field to any text.
\<close>

definition option_values :: "node \<Rightarrow> string list" where
  "option_values e = [v. Element t as es cs \<leftarrow> children e, (k, v) \<leftarrow> as, t = ''option'' \<and> k = ''value'']"

definition offers :: "node \<Rightarrow> handler \<Rightarrow> string \<Rightarrow> bool" where
  "offers n h v \<longleftrightarrow> (\<exists>e \<in> set (nodes n). (case e of Text _ \<Rightarrow> False | Element t as es cs \<Rightarrow>
     h \<in> snd ` set es \<and> (t = ''select'' \<longrightarrow> v \<in> set (option_values e))))"

text \<open>The handlers; \<open>v\<close> is the new value of a field, \<open>key\<close> the random UUID of a transfer.\<close>

definition await_answer :: "http_request list \<Rightarrow> awaited \<Rightarrow> page \<Rightarrow> page" where
  "await_answer rqs aw p = p\<lparr>pg_awaited := pg_awaited p @ [(rqs, aw)]\<rparr>"

definition submit_owner :: "string \<Rightarrow> string \<Rightarrow> bank_side \<Rightarrow> page \<Rightarrow> page" where
  "submit_owner urlA urlB side p = (case CreateAccountForm_submit (pg_ownerName p side) of
     None \<Rightarrow> p
   | Some trimmed \<Rightarrow> await_answer
       [case side of SideA \<Rightarrow> bankA_createAccount urlA trimmed | SideB \<Rightarrow> bankB_createAccount urlB trimmed]
       (CreatingAccount side) (p\<lparr>pg_ui := (pg_ui p)\<lparr>ui_error := None\<rparr>\<rparr>))"

definition submit_transfer :: "string \<Rightarrow> string \<Rightarrow> page \<Rightarrow> page" where
  "submit_transfer urlA key p =
     (let payerId = pg_payerId p; payeeId = pg_payeeId p; amountDollars = pg_amountDollars p;
          p = p\<lparr>pg_ui := sendTransfer_begin payerId payeeId amountDollars (pg_ui p)\<rparr>
      in case sendTransfer_request urlA key payerId payeeId amountDollars of
           None \<Rightarrow> p
         | Some rq \<Rightarrow> await_answer [rq] (Sending payerId payeeId) p)"

definition fire :: "string \<Rightarrow> string \<Rightarrow> string \<Rightarrow> handler \<Rightarrow> string \<Rightarrow> page \<Rightarrow> page" where
  "fire urlA urlB key h v p = (case h of
     SetOwnerName side \<Rightarrow> p\<lparr>pg_ownerName := (pg_ownerName p)(side := v)\<rparr>
   | SubmitOwnerName side \<Rightarrow> submit_owner urlA urlB side p
   | Seed i \<Rightarrow> await_answer [bankA_devSeed urlA i (JsNum 10000)] (Seeding i) (p\<lparr>pg_ui := (pg_ui p)\<lparr>ui_error := None\<rparr>\<rparr>)
   | SetPayerId \<Rightarrow> p\<lparr>pg_payerId := v\<rparr>
   | SetPayeeId \<Rightarrow> p\<lparr>pg_payeeId := v\<rparr>
   | SetAmountDollars \<Rightarrow> p\<lparr>pg_amountDollars := v\<rparr>
   | SubmitTransfer \<Rightarrow> submit_transfer urlA key p)"

text \<open>
  What happens once the requests are answered, with an error or the bodies. The name field is
  cleared after a failure too. Nobody catches an error of the refresh after a poll.
\<close>

definition await_balances :: "string \<Rightarrow> string \<Rightarrow> string \<Rightarrow> string \<Rightarrow> bool \<Rightarrow> page \<Rightarrow> page" where
  "await_balances urlA urlB payer payee caught =
     await_answer [bankA_getBalance urlA payer, bankB_getBalance urlB payee] (RefreshingFor payer payee caught)"

definition resume :: "string \<Rightarrow> string \<Rightarrow> awaited \<Rightarrow> string + json list \<Rightarrow> page \<Rightarrow> page" where
  "resume urlA urlB aw r p = (let r1 = map_sum id hd r in case aw of
     CreatingAccount side \<Rightarrow>
       p\<lparr>pg_ui := (case side of SideA \<Rightarrow> createBankAAccount r1 | SideB \<Rightarrow> createBankBAccount r1) (pg_ui p),
         pg_ownerName := (pg_ownerName p)(side := [])\<rparr>
   | Seeding i \<Rightarrow> p\<lparr>pg_ui := seed i r1 (pg_ui p)\<rparr>
   | Sending payer payee \<Rightarrow>
       let p = p\<lparr>pg_ui := sendTransfer_end r1 (pg_ui p)\<rparr>
       in (case r1 of Inl _ \<Rightarrow> p | Inr _ \<Rightarrow> await_balances urlA urlB payer payee True p)
   | RefreshingFor payer payee caught \<Rightarrow>
       (case r of
          Inl err \<Rightarrow> if caught then p\<lparr>pg_ui := (pg_ui p)\<lparr>ui_error := Some err\<rparr>\<rparr> else p
        | Inr bodies \<Rightarrow> p\<lparr>pg_ui := refreshBalances payer payee (bodies ! 0, bodies ! 1) (pg_ui p)\<rparr>)
   | Polling t \<Rightarrow>
       let p = p\<lparr>pg_ui := poll_answer t r1 (pg_ui p)\<rparr>
       in (case r1 of
             Inl _ \<Rightarrow> p
           | Inr fresh \<Rightarrow>
               if json_field ''status'' fresh = tt_status t then p
               else (case (a_string (json_field ''payerAccountId'' fresh), a_string (json_field ''payeeAccountRef'' fresh)) of
                   (Some payer, Some payee) \<Rightarrow> await_balances urlA urlB payer payee False p
                 | _ \<Rightarrow> p)))"

text \<open>A tick of the polling hook asks for every transfer in flight.\<close>

definition poll_tick :: "string \<Rightarrow> page \<Rightarrow> page" where
  "poll_tick urlA p = p\<lparr>pg_awaited := pg_awaited p @
     [([bankA_getInterbankTransfer urlA i], Polling t). t \<leftarrow> inFlight (pg_ui p), i \<leftarrow> (case a_string (tt_transferId t) of None \<Rightarrow> [] | Some i \<Rightarrow> [i])]\<rparr>"

text \<open>
  The answers that may come: for a transfer, what Bank A says (\<open>bank_a_answers\<close>); for anything
  else, an error or any bodies.
\<close>

definition may_answer :: "(string \<Rightarrow> bool) \<Rightarrow> (nat \<Rightarrow> string) \<Rightarrow> http_request list \<Rightarrow> awaited \<Rightarrow> string + json list \<Rightarrow> bool" where
  "may_answer isUUID show_nat rqs aw r = (case aw of
     Sending _ _ \<Rightarrow> (\<exists>fetched. bank_a_answers isUUID (hd rqs) fetched \<and> r = map_sum id (\<lambda>j. [j]) (jsonFetch show_nat (hd rqs) fetched))
   | _ \<Rightarrow> (case r of Inl _ \<Rightarrow> True | Inr bodies \<Rightarrow> length bodies = length rqs))"

inductive page_step ::
  "(string \<Rightarrow> bool) \<Rightarrow> (js_number \<Rightarrow> string) \<Rightarrow> (nat \<Rightarrow> string) \<Rightarrow> string \<Rightarrow> string \<Rightarrow> page \<Rightarrow> page \<Rightarrow> bool"
  for isUUID num code urlA urlB where
  event: "App num p = Some n \<Longrightarrow> offers n h v \<Longrightarrow> page_step isUUID num code urlA urlB p (fire urlA urlB key h v p)"
| tick: "page_step isUUID num code urlA urlB p (poll_tick urlA p)"
| answer: "pg_awaited p = xs @ (rqs, aw) # ys \<Longrightarrow> may_answer isUUID code rqs aw r \<Longrightarrow>
    page_step isUUID num code urlA urlB p (resume urlA urlB aw r (p\<lparr>pg_awaited := xs @ ys\<rparr>))"

subsection \<open>What is offered\<close>

lemma offers_text [simp]: "\<not> offers (Text t) h v"
  by (simp add: offers_def)

lemma offers_element [simp]: "offers (Element t as es cs) h v \<longleftrightarrow>
    h \<in> snd ` set es \<and> (t = ''select'' \<longrightarrow> v \<in> set (option_values (Element t as es cs))) \<or> (\<exists>c \<in> set cs. offers c h v)"
  by (auto simp: offers_def)

lemma all_of_member: "all_of f xs = Some ys \<Longrightarrow> y \<in> set ys \<Longrightarrow> \<exists>x \<in> set xs. f x = Some y"
proof (induction xs arbitrary: ys)
  case Nil
  then show ?case by (simp add: all_of_def)
next
  case (Cons x xs)
  then show ?case by (fastforce simp: all_of_def split: option.splits)
qed

lemma all_of_covers: "all_of f xs = Some ys \<Longrightarrow> x \<in> set xs \<Longrightarrow> \<exists>y \<in> set ys. f x = Some y"
proof (induction xs arbitrary: ys)
  case (Cons x xs)
  then show ?case by (fastforce simp: all_of_def split: option.splits)
qed simp

definition ids :: "tracked_account list \<Rightarrow> string set" where
  "ids xs = {i. \<exists>a \<in> set xs. ta_id a = Some (JStr i)}"

lemma a_string_eq: "a_string x = Some i \<longleftrightarrow> x = Some (JStr i)"
  by (auto simp: a_string_def split: option.splits json.splits)

lemma account_list_offers:
  assumes "AccountList num action xs = Some n" "offers n h v"
  shows "\<exists>i \<in> ids xs. \<exists>c \<in> set (action i). offers c h v"
proof (cases "xs = []")
  case True
  with assms show ?thesis by (auto simp: AccountList_def)
next
  case False
  with assms(1) obtain items where items: "all_of (account_item num action) xs = Some items"
    "n = Element ''ul'' [(''class'', ''accounts'')] [] items" by (auto simp: AccountList_def)
  with assms(2) obtain item where item: "item \<in> set items" "offers item h v" by auto
  with all_of_member [OF items(1)] obtain a where a: "a \<in> set xs" "account_item num action a = Some item" by blast
  then obtain i where "a_string (ta_id a) = Some i" by (auto simp: account_item_def split: option.splits)
  moreover from this a(2) item(2) have "\<exists>c \<in> set (action i). offers c h v"
    by (auto simp: account_item_def split: option.splits)
  ultimately show ?thesis using a(1) unfolding ids_def a_string_eq by blast
qed

lemma account_option_shape:
  "account_option a = Some c \<Longrightarrow> \<exists>i t. ta_id a = Some (JStr i) \<and> c = Element ''option'' [(''value'', i)] [] [Text t]"
  by (auto simp: account_option_def a_string_eq split: option.splits)

lemma account_select_offers:
  assumes "account_select chosen k placeholder xs = Some n" "offers n h v"
  shows "h = k \<and> (v = [] \<or> v \<in> ids xs)"
proof -
  from assms(1) obtain opts where opts: "all_of account_option xs = Some opts"
    and n: "n = Element ''select'' [(''value'', chosen)] [(''change'', k)]
      (Element ''option'' [(''value'', [])] [] [Text (placeholder @ ellipsis)] # opts)"
    by (auto simp: account_select_def)
  have shape: "\<exists>i \<in> ids xs. \<exists>t. c = Element ''option'' [(''value'', i)] [] [Text t]" if "c \<in> set opts" for c
    using all_of_member [OF opts that] account_option_shape unfolding ids_def by blast
  have "\<not> offers c h v" if "c \<in> set opts" for c using shape [OF that] by auto
  moreover have "v = [] \<or> v \<in> ids xs" if "v \<in> set (option_values n)"
    using that shape unfolding n by (fastforce simp: option_values_def)
  ultimately show ?thesis using assms(2) unfolding n by auto
qed

text \<open>What a handler on the page may be about.\<close>

definition offer_ok :: "ui \<Rightarrow> handler \<Rightarrow> string \<Rightarrow> bool" where
  "offer_ok s h v = (case h of
     Seed i \<Rightarrow> i \<in> ids (ui_bankAAccounts s)
   | SetPayerId \<Rightarrow> v = [] \<or> v \<in> ids (ui_bankAAccounts s)
   | SetPayeeId \<Rightarrow> v = [] \<or> v \<in> ids (ui_bankBAccounts s)
   | _ \<Rightarrow> True)"

lemma bank_panel_offers:
  assumes "BankPanel num head cls side name xs action = Some n" "offers n h v"
  shows "h \<in> {SetOwnerName side, SubmitOwnerName side} \<or> (\<exists>i \<in> ids xs. \<exists>c \<in> set (action i). offers c h v)"
proof -
  from assms(1) obtain items where items: "AccountList num action xs = Some items"
    and "n = Element ''section'' [(''class'', ''bank '' @ cls)] [] [Element ''h2'' [] [] [Text head], CreateAccountForm side name, items]"
    by (auto simp: BankPanel_def split: option.splits)
  with assms(2) have "offers (CreateAccountForm side name) h v \<or> offers items h v" by auto
  then show ?thesis using account_list_offers [OF items, of h v] by (auto simp: CreateAccountForm_def)
qed

lemma transfer_list_offers: "TransferList num ts = Some n \<Longrightarrow> \<not> offers n h v"
proof
  assume "TransferList num ts = Some n" "offers n h v"
  then obtain items item where "all_of (transfer_item num) ts = Some items" "item \<in> set items" "offers item h v"
    by (auto simp: TransferList_def split: if_splits)
  with all_of_member obtain t where "transfer_item num t = Some item" by metis
  with \<open>offers item h v\<close> show False by (auto simp: transfer_item_def split: option.splits)
qed

lemma transfer_panel_offers:
  assumes "TransferPanel num payer payee amount xs ys ts = Some n" "offers n h v"
  shows "h = SetPayerId \<and> (v = [] \<or> v \<in> ids xs) \<or> h = SetPayeeId \<and> (v = [] \<or> v \<in> ids ys) \<or>
    h = SetAmountDollars \<or> h = SubmitTransfer"
  using assms account_select_offers transfer_list_offers
  by (fastforce simp: TransferPanel_def TransferForm_def split: option.splits)

lemma app_offers:
  assumes app: "App num p = Some n" and offer: "offers n h v"
  shows "offer_ok (pg_ui p) h v"
proof -
  let ?s = "pg_ui p"
  obtain a b t where a: "BankPanel num ''Bank A'' ''bank-a'' SideA (pg_ownerName p SideA) (ui_bankAAccounts ?s) (\<lambda>i. [SeedButton (Seed i)]) = Some a"
    and b: "BankPanel num ''Bank B'' ''bank-b'' SideB (pg_ownerName p SideB) (ui_bankBAccounts ?s) (\<lambda>_. []) = Some b"
    and t: "TransferPanel num (pg_payerId p) (pg_payeeId p) (pg_amountDollars p) (ui_bankAAccounts ?s) (ui_bankBAccounts ?s)
      (ui_transfers ?s) = Some t"
    and n: "n = Element ''div'' [(''class'', ''app'')] []
      (Header # ErrorBanner (ui_error ?s) @ [Element ''div'' [(''class'', ''banks'')] [] [a, b], t])"
    using app by (auto simp: App_def Let_def split: option.splits)
  have "\<not> offers Header h v" by (simp add: Header_def)
  moreover have "\<not> offers c h v" if "c \<in> set (ErrorBanner (ui_error ?s))" for c
    using that by (auto simp: ErrorBanner_def split: option.splits if_splits)
  ultimately consider "offers a h v" | "offers b h v" | "offers t h v" using offer unfolding n by auto
  then show ?thesis
  proof cases
    case 1
    from bank_panel_offers [OF a this] show ?thesis by (auto simp: offer_ok_def SeedButton_def)
  next
    case 2
    from bank_panel_offers [OF b this] show ?thesis by (auto simp: offer_ok_def)
  next
    case 3
    from transfer_panel_offers [OF t this] show ?thesis by (auto simp: offer_ok_def)
  qed
qed

text \<open>The page is shown whenever what the servers sent has the types of types.ts, and offers all of it.\<close>

definition account_typed :: "tracked_account \<Rightarrow> bool" where
  "account_typed a \<longleftrightarrow> a_string (ta_id a) \<noteq> None \<and> a_string (ta_ownerName a) \<noteq> None \<and> a_number_or_null (ta_balanceCents a) \<noteq> None"

lemma all_of_shown: "\<forall>x \<in> set xs. f x \<noteq> None \<Longrightarrow> \<exists>ys. all_of f xs = Some ys"
  by (induction xs) (auto simp: all_of_def)

lemma panel_shown:
  assumes "\<forall>a \<in> set xs. account_typed a"
  shows "\<exists>n. BankPanel num head cls side name xs action = Some n"
    "\<exists>n. account_select chosen k placeholder xs = Some n"
proof -
  have item: "account_item num action a \<noteq> None" "account_option a \<noteq> None" if "account_typed a" for a
    using that by (auto simp: account_typed_def account_item_def account_option_def)
  show "\<exists>n. BankPanel num head cls side name xs action = Some n"
    using all_of_shown [of xs "account_item num action"] assms item by (auto simp: BankPanel_def AccountList_def)
  show "\<exists>n. account_select chosen k placeholder xs = Some n"
    using all_of_shown [of xs account_option] assms item by (auto simp: account_select_def)
qed

lemma app_shown:
  assumes a: "\<forall>a \<in> set (ui_bankAAccounts (pg_ui p)). account_typed a" and b: "\<forall>a \<in> set (ui_bankBAccounts (pg_ui p)). account_typed a"
    and none: "ui_transfers (pg_ui p) = []"
  shows "\<exists>n. App num p = Some n"
proof -
  obtain l where "BankPanel num ''Bank A'' ''bank-a'' SideA (pg_ownerName p SideA) (ui_bankAAccounts (pg_ui p)) (\<lambda>i. [SeedButton (Seed i)]) = Some l"
    using panel_shown(1) [OF a] by blast
  moreover obtain r where "BankPanel num ''Bank B'' ''bank-b'' SideB (pg_ownerName p SideB) (ui_bankBAccounts (pg_ui p)) (\<lambda>_. []) = Some r"
    using panel_shown(1) [OF b] by blast
  moreover obtain x where "account_select (pg_payerId p) SetPayerId ''Payer (Bank A)'' (ui_bankAAccounts (pg_ui p)) = Some x"
    using panel_shown(2) [OF a] by blast
  moreover obtain y where "account_select (pg_payeeId p) SetPayeeId ''Payee (Bank B)'' (ui_bankBAccounts (pg_ui p)) = Some y"
    using panel_shown(2) [OF b] by blast
  ultimately show ?thesis using none by (simp add: App_def Let_def TransferPanel_def TransferForm_def TransferList_def)
qed

lemma app_offers_name:
  assumes "App num p = Some n"
  shows "offers n (SetOwnerName side) v" "offers n (SubmitOwnerName side) v" "offers n SetAmountDollars v" "offers n SubmitTransfer v"
  using assms by (cases side; auto simp: App_def Let_def BankPanel_def CreateAccountForm_def TransferPanel_def TransferForm_def
      split: option.splits)+

lemma account_select_covers:
  assumes "account_select chosen k placeholder xs = Some n" "i \<in> ids xs"
  shows "offers n k i"
proof -
  from assms(1) obtain opts where opts: "all_of account_option xs = Some opts"
    and n: "n = Element ''select'' [(''value'', chosen)] [(''change'', k)]
      (Element ''option'' [(''value'', [])] [] [Text (placeholder @ ellipsis)] # opts)"
    by (auto simp: account_select_def)
  obtain a where a: "a \<in> set xs" "ta_id a = Some (JStr i)" using assms(2) by (auto simp: ids_def)
  then obtain c t where "c \<in> set opts" "c = Element ''option'' [(''value'', i)] [] [Text t]"
    using all_of_covers [OF opts a(1)] account_option_shape by fastforce
  then have "i \<in> set (option_values n)" unfolding n by (force simp: option_values_def)
  then show ?thesis unfolding n by simp
qed

lemma app_offers_payer: "App num p = Some n \<Longrightarrow> i \<in> ids (ui_bankAAccounts (pg_ui p)) \<Longrightarrow> offers n SetPayerId i"
  and app_offers_payee: "App num p = Some n \<Longrightarrow> i \<in> ids (ui_bankBAccounts (pg_ui p)) \<Longrightarrow> offers n SetPayeeId i"
  using account_select_covers
  by (auto simp: App_def Let_def TransferPanel_def TransferForm_def split: option.splits)

subsection \<open>What the page asks for\<close>

definition payers :: "page \<Rightarrow> string set" where
  "payers p = ids (ui_bankAAccounts (pg_ui p))"

definition payees :: "page \<Rightarrow> string set" where
  "payees p = ids (ui_bankBAccounts (pg_ui p))"

text \<open>The requests the page may have under way, per purpose.\<close>

definition request_ok :: "string \<Rightarrow> string \<Rightarrow> page \<Rightarrow> http_request list \<Rightarrow> awaited \<Rightarrow> bool" where
  "request_ok urlA urlB p rqs aw = (case aw of
     CreatingAccount side \<Rightarrow> (\<exists>name. name \<noteq> [] \<and> js_trim name = name \<and>
       rqs = [case side of SideA \<Rightarrow> bankA_createAccount urlA name | SideB \<Rightarrow> bankB_createAccount urlB name])
   | Seeding i \<Rightarrow> i \<in> payers p \<and> rqs = [bankA_devSeed urlA i (JsNum 10000)]
   | Sending payer payee \<Rightarrow> payer \<in> payers p \<and> payee \<in> payees p \<and>
       (\<exists>key amountDollars rq. sendTransfer_request urlA key payer payee amountDollars = Some rq \<and> rqs = [rq])
   | _ \<Rightarrow> \<forall>rq \<in> set rqs. hr_method rq = None)"

definition page_inv :: "string \<Rightarrow> string \<Rightarrow> page \<Rightarrow> bool" where
  "page_inv urlA urlB p \<longleftrightarrow> (pg_payerId p = [] \<or> pg_payerId p \<in> payers p) \<and> (pg_payeeId p = [] \<or> pg_payeeId p \<in> payees p) \<and>
     (\<forall>(rqs, aw) \<in> set (pg_awaited p). request_ok urlA urlB p rqs aw)"

lemma ids_set_balance [simp]: "ids (set_balance i b xs) = ids xs"
proof -
  have "ids ys = {i. Some (JStr i) \<in> set (map ta_id ys)}" for ys by (force simp: ids_def)
  moreover have "map ta_id (set_balance i b xs) = map ta_id xs" by (simp add: set_balance_def)
  ultimately show ?thesis by metis
qed

lemma ids_append [simp]: "ids (xs @ ys) = ids xs \<union> ids ys"
  by (auto simp: ids_def)

lemmas page_defs = fire_def resume_def await_answer_def await_balances_def submit_owner_def submit_transfer_def poll_tick_def
  Let_def

lemma fire_ids [simp]: "payers (fire urlA urlB key h v p) = payers p" "payees (fire urlA urlB key h v p) = payees p"
  by (auto simp: payers_def payees_def page_defs sendTransfer_begin_def split: handler.splits option.splits)

lemma resume_ids:
  "payers p \<subseteq> payers (resume urlA urlB aw r p)" "payees p \<subseteq> payees (resume urlA urlB aw r p)"
  by (auto simp: payers_def payees_def page_defs handler_defs sendTransfer_end_def
      split: awaited.splits bank_side.splits sum.splits option.splits)

lemma request_ok_mono:
  "request_ok urlA urlB p rqs aw \<Longrightarrow> payers p \<subseteq> payers q \<Longrightarrow> payees p \<subseteq> payees q \<Longrightarrow> request_ok urlA urlB q rqs aw"
  by (auto simp: request_ok_def split: awaited.splits)

lemma initial_page_inv: "page_inv urlA urlB initial_page"
  by (simp add: page_inv_def initial_page_def)

lemma js_trim_trim: "js_trim (js_trim cs) = js_trim cs"
proof (cases "js_trim cs = []")
  case True
  show ?thesis unfolding True by (simp add: js_trim_def)
next
  case False
  show ?thesis
  proof (rule js_trim_id [OF False])
    let ?front = "dropWhile js_space cs"
    show "\<not> js_space (last (js_trim cs))"
      using False by (simp add: js_trim_def last_rev hd_dropWhile)
    obtain rest where rest: "?front = js_trim cs @ rest"
      by (metis append_eq_conv_conj js_trim_def rev_append rev_rev_ident takeWhile_dropWhile_id)
    then have "hd (js_trim cs) = hd ?front" "?front \<noteq> []" using False by (metis hd_append2) (use False rest in auto)
    then show "\<not> js_space (hd (js_trim cs))" by (simp add: hd_dropWhile)
  qed
qed

lemma page_inv_mono:
  assumes inv: "page_inv urlA urlB p" and ids: "payers p \<subseteq> payers q" "payees p \<subseteq> payees q"
    and chosen: "pg_payerId q = pg_payerId p \<or> pg_payerId q = [] \<or> pg_payerId q \<in> payers q"
      "pg_payeeId q = pg_payeeId p \<or> pg_payeeId q = [] \<or> pg_payeeId q \<in> payees q"
    and asked: "\<And>rqs aw. (rqs, aw) \<in> set (pg_awaited q) \<Longrightarrow> (rqs, aw) \<in> set (pg_awaited p) \<or> request_ok urlA urlB q rqs aw"
  shows "page_inv urlA urlB q"
proof -
  have "request_ok urlA urlB q rqs aw" if "(rqs, aw) \<in> set (pg_awaited q)" for rqs aw
    using asked [OF that] inv request_ok_mono [OF _ ids] unfolding page_inv_def by blast
  with inv ids chosen show ?thesis unfolding page_inv_def by auto
qed

lemma fire_inv:
  assumes inv: "page_inv urlA urlB p" and offer: "offer_ok (pg_ui p) h v"
  shows "page_inv urlA urlB (fire urlA urlB key h v p)"
proof (rule page_inv_mono [OF inv])
  let ?q = "fire urlA urlB key h v p"
  show "payers p \<subseteq> payers ?q" "payees p \<subseteq> payees ?q" by simp_all
  show "pg_payerId ?q = pg_payerId p \<or> pg_payerId ?q = [] \<or> pg_payerId ?q \<in> payers ?q"
    "pg_payeeId ?q = pg_payeeId p \<or> pg_payeeId ?q = [] \<or> pg_payeeId ?q \<in> payees ?q"
    unfolding fire_ids using offer
    by (auto simp: page_defs offer_ok_def payers_def payees_def split: handler.splits option.splits)
  fix rqs aw
  assume asked: "(rqs, aw) \<in> set (pg_awaited ?q)"
  show "(rqs, aw) \<in> set (pg_awaited p) \<or> request_ok urlA urlB ?q rqs aw"
  proof (cases h)
    case (SubmitOwnerName side)
    let ?name = "js_trim (pg_ownerName p side)"
    have "request_ok urlA urlB ?q [case side of SideA \<Rightarrow> bankA_createAccount urlA ?name | SideB \<Rightarrow> bankB_createAccount urlB ?name]
        (CreatingAccount side)" if "?name \<noteq> []"
      unfolding request_ok_def using that js_trim_trim by (fastforce split: bank_side.splits)
    with SubmitOwnerName asked show ?thesis by (auto simp: page_defs CreateAccountForm_submit_def split: if_splits)
  next
    case (Seed i)
    with offer have "i \<in> payers ?q" by (simp add: offer_ok_def payers_def page_defs)
    with asked Seed show ?thesis by (auto simp: page_defs request_ok_def)
  next
    case SubmitTransfer
    show ?thesis
    proof (cases "sendTransfer_request urlA key (pg_payerId p) (pg_payeeId p) (pg_amountDollars p)")
      case None
      with SubmitTransfer asked show ?thesis by (simp add: page_defs)
    next
      case (Some rq)
      then have "pg_payerId p \<noteq> []" "pg_payeeId p \<noteq> []" by (auto simp: sendTransfer_request_def Let_def split: if_splits)
      with inv have "pg_payerId p \<in> payers ?q" "pg_payeeId p \<in> payees ?q" by (auto simp: page_inv_def)
      with Some have "request_ok urlA urlB ?q [rq] (Sending (pg_payerId p) (pg_payeeId p))" by (auto simp: request_ok_def)
      moreover have "pg_awaited ?q = pg_awaited p @ [([rq], Sending (pg_payerId p) (pg_payeeId p))]"
        using SubmitTransfer Some by (simp add: page_defs)
      ultimately show ?thesis using asked by auto
    qed
  qed (use asked in \<open>simp_all add: page_defs\<close>)
qed

lemma resume_inv:
  assumes inv: "page_inv urlA urlB p"
  shows "page_inv urlA urlB (resume urlA urlB aw r p)"
proof (rule page_inv_mono [OF inv resume_ids])
  let ?q = "resume urlA urlB aw r p"
  show "pg_payerId ?q = pg_payerId p \<or> pg_payerId ?q = [] \<or> pg_payerId ?q \<in> payers ?q"
    "pg_payeeId ?q = pg_payeeId p \<or> pg_payeeId ?q = [] \<or> pg_payeeId ?q \<in> payees ?q"
    by (simp_all add: page_defs split: awaited.splits bank_side.splits sum.splits option.splits)
  fix rqs w
  assume "(rqs, w) \<in> set (pg_awaited ?q)"
  then have "(rqs, w) \<in> set (pg_awaited p) \<or> (\<exists>payer payee caught. w = RefreshingFor payer payee caught \<and>
      rqs = [bankA_getBalance urlA payer, bankB_getBalance urlB payee])"
    by (auto simp: page_defs split: awaited.splits bank_side.splits sum.splits option.splits if_splits)
  then show "(rqs, w) \<in> set (pg_awaited p) \<or> request_ok urlA urlB ?q rqs w"
    by (auto simp: request_ok_def bankA_getBalance_def bankB_getBalance_def)
qed

lemma tick_inv: "page_inv urlA urlB p \<Longrightarrow> page_inv urlA urlB (poll_tick urlA p)"
  by (erule page_inv_mono) (auto simp: payers_def payees_def poll_tick_def request_ok_def bankA_getInterbankTransfer_def)

lemma page_step_inv: "page_step isUUID num code urlA urlB p q \<Longrightarrow> page_inv urlA urlB p \<Longrightarrow> page_inv urlA urlB q"
proof (induction rule: page_step.induct)
  case (event p n h v key)
  then show ?case using fire_inv app_offers by blast
next
  case (tick p)
  then show ?case by (rule tick_inv)
next
  case (answer p xs rqs aw ys r)
  from answer.prems have "page_inv urlA urlB (p\<lparr>pg_awaited := xs @ ys\<rparr>)"
    by (rule page_inv_mono) (use answer.hyps in \<open>auto simp: payers_def payees_def\<close>)
  then show ?case by (rule resume_inv)
qed

lemma sent_amount_whole:
  assumes "sendTransfer_request url key payer payee amountDollars = Some rq"
  shows "\<exists>n. 0 < n \<and> rq = bankA_createInterbankTransfer url key payer payee (JsNum (of_int n))"
proof -
  have rq: "rq = bankA_createInterbankTransfer url key payer payee (amount_cents amountDollars)"
    and finite: "js_isFinite (amount_cents amountDollars)" "\<not> js_not_positive (amount_cents amountDollars)"
    using assms by (auto simp: sendTransfer_request_def Let_def split: if_splits)
  then obtain q where q: "amount_cents amountDollars = JsNum q" by (cases "amount_cents amountDollars") auto
  then obtain n :: int where "q = of_int n"
    unfolding amount_cents_def by (cases "js_times (js_Number amountDollars) (JsNum 100)") auto
  with q rq finite(2) show ?thesis by (intro exI [of _ n]) simp
qed

lemma page_run_inv: "(page_step isUUID num code urlA urlB)\<^sup>*\<^sup>* initial_page p \<Longrightarrow> page_inv urlA urlB p"
  by (induction rule: rtranclp_induct) (auto intro: initial_page_inv page_step_inv)

subsection \<open>The page refines its handlers\<close>

lemma fire_ui: "(ui_step isUUID)\<^sup>*\<^sup>* (pg_ui p) (pg_ui (fire urlA urlB key h v p))"
proof (cases h)
  case (SubmitOwnerName side)
  then show ?thesis
    by (cases "CreateAccountForm_submit (pg_ownerName p side)") (auto simp: page_defs intro: ui_step.clear)
next
  case (Seed i)
  then show ?thesis by (auto simp: page_defs intro: ui_step.clear)
next
  case SubmitTransfer
  then show ?thesis
    by (cases "sendTransfer_request urlA key (pg_payerId p) (pg_payeeId p) (pg_amountDollars p)")
      (auto simp: page_defs intro: ui_step.send)
qed (simp_all add: page_defs)

lemma resume_ui:
  assumes ok: "request_ok urlA urlB p rqs aw" and r: "may_answer isUUID code rqs aw r"
  shows "(ui_step isUUID)\<^sup>*\<^sup>* (pg_ui p) (pg_ui (resume urlA urlB aw r p))"
proof (cases aw)
  case (CreatingAccount side)
  then show ?thesis
    by (cases side) (auto simp: page_defs intro: r_into_rtranclp [of "ui_step isUUID", OF ui_step.create_a]
      r_into_rtranclp [of "ui_step isUUID", OF ui_step.create_b])
next
  case (Seeding i)
  then show ?thesis by (auto simp: page_defs intro: ui_step.seeded)
next
  case (Sending payer payee)
  with ok obtain key amountDollars rq
    where rq: "sendTransfer_request urlA key payer payee amountDollars = Some rq" "rqs = [rq]"
    by (auto simp: request_ok_def)
  with r Sending obtain fetched where fetched: "bank_a_answers isUUID rq fetched" "r = map_sum id (\<lambda>j. [j]) (jsonFetch code rq fetched)"
    by (auto simp: may_answer_def)
  then have r1: "map_sum id hd r = jsonFetch code rq fetched" by (cases "jsonFetch code rq fetched") simp_all
  have "pg_ui (resume urlA urlB aw r p) = sendTransfer_end (jsonFetch code rq fetched) (pg_ui p)"
    unfolding resume_def Let_def r1 by (simp add: Sending await_balances_def await_answer_def split: sum.splits)
  with ui_step.sent [OF rq(1) fetched(1)] show ?thesis by auto
next
  case (RefreshingFor payer payee caught)
  then show ?thesis
    by (auto simp: page_defs intro: ui_step.refreshed ui_step.refresh_failed split: sum.splits)
next
  case (Polling t)
  have "pg_ui (resume urlA urlB aw r p) = poll_answer t (map_sum id hd r) (pg_ui p)"
    by (simp add: Polling resume_def Let_def await_balances_def await_answer_def split: sum.splits option.splits)
  then show ?thesis by (auto intro: ui_step.polled)
qed

lemma page_step_ui:
  "page_step isUUID num code urlA urlB p q \<Longrightarrow> page_inv urlA urlB p \<Longrightarrow> (ui_step isUUID)\<^sup>*\<^sup>* (pg_ui p) (pg_ui q)"
proof (induction rule: page_step.induct)
  case (event p n h v key)
  show ?case by (rule fire_ui)
next
  case (tick p)
  show ?case by (simp add: poll_tick_def)
next
  case (answer p xs rqs aw ys r)
  let ?p = "p\<lparr>pg_awaited := xs @ ys\<rparr>"
  have "(rqs, aw) \<in> set (pg_awaited p)" using answer.hyps(1) by simp
  with answer.prems have "request_ok urlA urlB p rqs aw" by (auto simp: page_inv_def)
  then have "request_ok urlA urlB ?p rqs aw" by (rule request_ok_mono) (simp_all add: payers_def payees_def)
  from resume_ui [OF this answer.hyps(2)] show ?case by simp
qed

lemma page_run_ui: "(page_step isUUID num code urlA urlB)\<^sup>*\<^sup>* initial_page p \<Longrightarrow> (ui_step isUUID)\<^sup>*\<^sup>* initial_ui (pg_ui p)"
proof (induction rule: rtranclp_induct)
  case base
  show ?case by (simp add: initial_page_def)
next
  case (step p q)
  then show ?case using page_step_ui page_run_inv by (meson rtranclp_trans)
qed

subsection \<open>What the page can do\<close>


text \<open>
  C34. The page never lists a transfer and never brings one about: the body it posts names no
  payee bank, so whatever is typed, Bank A answers 400 and writes nothing, no tick ever finds a
  transfer to ask about, and the page says ``No transfers sent yet.'' for ever.
\<close>
theorem frontend_never_sends:
  assumes run: "(page_step isUUID num code urlA urlB)\<^sup>*\<^sup>* initial_page p"
  shows "ui_transfers (pg_ui p) = [] \<and> poll_tick urlA p = p \<and>
    (App num p = Some n \<longrightarrow> Element ''li'' [(''class'', ''empty'')] [] [Text ''No transfers sent yet.''] \<in> set (nodes n)) \<and>
    (sendTransfer_request url key payerId payeeId amountDollars = Some rq \<longrightarrow>
      InterbankController_create isUUID bankId i1 i2 i3 uuid now hdr (the (hr_body rq)) db = (Inl BadRequest, db))"
proof -
  have none: "ui_transfers (pg_ui p) = []" by (rule ui_run_transfers [OF page_run_ui [OF run]])
  moreover from this have "poll_tick urlA p = p" by (simp add: poll_tick_def inFlight_def)
  moreover have "Element ''li'' [(''class'', ''empty'')] [] [Text ''No transfers sent yet.''] \<in> set (nodes n)" if "App num p = Some n"
    using that none by (auto simp: App_def Let_def TransferPanel_def TransferList_def split: option.splits)
  ultimately show ?thesis by (simp add: page_request_refused)
qed

subsection \<open>A visit to the page\<close>

text \<open>
  Ann opens an account at Bank A, Bob one at Bank B; then ten dollars are to be sent, and Bank A
  refuses.
\<close>

definition opened :: "bank_side \<Rightarrow> string \<Rightarrow> json \<Rightarrow> page \<Rightarrow> page" where
  "opened side name account p = p\<lparr>pg_ui := (case side of SideA \<Rightarrow> createBankAAccount (Inr account)
     | SideB \<Rightarrow> createBankBAccount (Inr account)) ((pg_ui p)\<lparr>ui_error := None\<rparr>), pg_ownerName := (pg_ownerName p)(side := [])\<rparr>"

definition typed_page :: "page \<Rightarrow> bool" where
  "typed_page p \<longleftrightarrow> (\<forall>a \<in> set (ui_bankAAccounts (pg_ui p)). account_typed a) \<and> (\<forall>a \<in> set (ui_bankBAccounts (pg_ui p)). account_typed a) \<and>
     ui_transfers (pg_ui p) = [] \<and> pg_awaited p = []"

lemma account_opens:
  assumes typed: "typed_page p" and name: "js_trim name = name" "name \<noteq> []"
  shows "(page_step isUUID num code urlA urlB)\<^sup>*\<^sup>* p (opened side name account p)"
proof -
  let ?step = "page_step isUUID num code urlA urlB"
  let ?p1 = "fire urlA urlB [] (SetOwnerName side) name p"
  let ?p2 = "fire urlA urlB [] (SubmitOwnerName side) [] ?p1"
  obtain n where "App num p = Some n" using app_shown typed unfolding typed_page_def by blast
  from page_step.event [OF this app_offers_name(1) [OF this]] have "?step p ?p1" .
  moreover obtain m where "App num ?p1 = Some m"
    using app_shown [of ?p1 num] typed by (auto simp: typed_page_def fire_def)
  from page_step.event [OF this app_offers_name(2) [OF this]] have "?step ?p1 ?p2" .
  moreover have "?step ?p2 (opened side name account p)"
  proof -
    let ?rqs = "[case side of SideA \<Rightarrow> bankA_createAccount urlA name | SideB \<Rightarrow> bankB_createAccount urlB name]"
    have p2: "?p2 = p\<lparr>pg_ui := (pg_ui p)\<lparr>ui_error := None\<rparr>, pg_ownerName := (pg_ownerName p)(side := name),
        pg_awaited := [(?rqs, CreatingAccount side)]\<rparr>"
      using typed name by (simp add: fire_def submit_owner_def await_answer_def CreateAccountForm_submit_def typed_page_def)
    have "opened side name account p = resume urlA urlB (CreatingAccount side) (Inr [account]) (?p2\<lparr>pg_awaited := [] @ []\<rparr>)"
      using typed unfolding p2 by (cases side; cases p) (simp_all add: opened_def resume_def typed_page_def)
    moreover have "may_answer isUUID code ?rqs (CreatingAccount side) (Inr [account])" by (simp add: may_answer_def)
    moreover have "pg_awaited ?p2 = [] @ (?rqs, CreatingAccount side) # []" unfolding p2 by simp
    ultimately show ?thesis using page_step.answer by metis
  qed
  ultimately show ?thesis by (meson converse_rtranclp_into_rtranclp r_into_rtranclp)
qed

definition sample_accounts_page :: page where
  "sample_accounts_page =
     opened SideB ''Bob'' (JObj [(''id'', JStr ''acc-7''), (''owner_name'', JStr ''Bob'')])
       (opened SideA ''Ann'' (JObj [(''id'', JStr alice), (''ownerName'', JStr ''Ann'')]) initial_page)"

definition sample_sending_page :: page where
  "sample_sending_page = sample_accounts_page\<lparr>pg_payerId := alice, pg_payeeId := ''acc-7'',
     pg_awaited := [([sample_ten], Sending alice ''acc-7'')]\<rparr>"

definition sample_refused_page :: page where
  "sample_refused_page = sample_accounts_page\<lparr>pg_payerId := alice, pg_payeeId := ''acc-7'',
     pg_ui := (pg_ui sample_accounts_page)\<lparr>ui_error := Some ''Error: POST http://localhost:3000/interbank-transfers -> 400 Bad Request''\<rparr>\<rparr>"

lemmas sample_page_defs = sample_accounts_page_def opened_def initial_page_def initial_ui_def createBankAAccount_def
  createBankBAccount_def account_typed_def a_string_def a_number_def a_number_or_null_def

lemma sample_page_typed: "typed_page initial_page"
  "typed_page (opened SideA ''Ann'' (JObj [(''id'', JStr alice), (''ownerName'', JStr ''Ann'')]) initial_page)"
  "typed_page sample_accounts_page"
  by (simp_all add: typed_page_def sample_page_defs)

lemma sample_page_shown: "ui_bankAAccounts (pg_ui p) = ui_bankAAccounts (pg_ui sample_accounts_page) \<Longrightarrow>
    ui_bankBAccounts (pg_ui p) = ui_bankBAccounts (pg_ui sample_accounts_page) \<Longrightarrow> ui_transfers (pg_ui p) = [] \<Longrightarrow>
    \<exists>n. App num p = Some n"
  using sample_page_typed(3) app_shown [of p num] by (simp add: typed_page_def)

abbreviation sample_step :: "page \<Rightarrow> page \<Rightarrow> bool" where
  "sample_step \<equiv> page_step uuid_form (\<lambda>_. []) (\<lambda>_. ''400'') (BANK_A_URL None) (BANK_B_URL None)"

lemma sample_page_run: "sample_step\<^sup>*\<^sup>* initial_page sample_sending_page" "sample_step sample_sending_page sample_refused_page"
proof -
  have trims: "js_trim ''Ann'' = ''Ann''" "js_trim ''Bob'' = ''Bob''" by code_simp+
  have "sample_step\<^sup>*\<^sup>* initial_page sample_accounts_page"
    unfolding sample_accounts_page_def
    by (rule rtranclp_trans [OF account_opens account_opens]) (simp_all add: trims sample_page_typed)
  moreover let ?p1 = "sample_accounts_page\<lparr>pg_payerId := alice\<rparr>" and ?p2 = "sample_accounts_page\<lparr>pg_payerId := alice, pg_payeeId := ''acc-7''\<rparr>"
  have ids: "alice \<in> ids (ui_bankAAccounts (pg_ui sample_accounts_page))" "''acc-7'' \<in> ids (ui_bankBAccounts (pg_ui sample_accounts_page))"
    by (simp_all add: ids_def sample_page_defs)
  have none: "ui_transfers (pg_ui sample_accounts_page) = []" by (simp add: sample_page_defs)
  have "sample_step sample_accounts_page ?p1"
  proof -
    obtain n where n: "App (\<lambda>_. []) sample_accounts_page = Some n" using sample_page_shown none by blast
    from page_step.event [OF n app_offers_payer [OF n ids(1)]] show ?thesis by (simp add: fire_def)
  qed
  moreover have "sample_step ?p1 ?p2"
  proof -
    obtain n where n: "App (\<lambda>_. []) ?p1 = Some n" using sample_page_shown [of ?p1] none by auto
    have "''acc-7'' \<in> ids (ui_bankBAccounts (pg_ui ?p1))" using ids(2) by simp
    from page_step.event [OF n app_offers_payee [OF n this]] show ?thesis by (simp add: fire_def)
  qed
  moreover have "sample_step ?p2 sample_sending_page"
  proof -
    obtain n where n: "App (\<lambda>_. []) ?p2 = Some n" using sample_page_shown [of ?p2] none by auto
    have "pg_amountDollars ?p2 = ''10.00''" "pg_awaited ?p2 = []" "ui_error (pg_ui ?p2) = None" by (simp_all add: sample_page_defs)
    moreover have "sendTransfer_begin alice ''acc-7'' ''10.00'' s = s\<lparr>ui_error := None\<rparr>" for s
      using sample_ten_sent unfolding sendTransfer_begin_def sendTransfer_request_def Let_def by (auto split: if_splits)
    ultimately have "fire (BANK_A_URL None) (BANK_B_URL None) ''k1'' SubmitTransfer [] ?p2 = sample_sending_page"
      by (simp add: fire_def submit_transfer_def Let_def sample_ten_sent sample_sending_page_def await_answer_def)
    with page_step.event [OF n app_offers_name(4) [OF n]] show ?thesis by metis
  qed
  ultimately show "sample_step\<^sup>*\<^sup>* initial_page sample_sending_page" by (meson rtranclp.rtrancl_into_rtrancl)
  show "sample_step sample_sending_page sample_refused_page"
  proof -
    let ?err = "''Error: POST http://localhost:3000/interbank-transfers -> 400 Bad Request''"
    have err: "jsonFetch (\<lambda>_. ''400'') sample_ten sample_refusal = Inl ?err"
      by (simp add: jsonFetch_def sample_refusal_def sample_ten_def bankA_createInterbankTransfer_def BANK_A_URL_def)
    have "may_answer uuid_form (\<lambda>_. ''400'') [sample_ten] (Sending alice ''acc-7'') (Inl ?err)"
      unfolding may_answer_def using sample_refused err by (auto intro!: exI [of _ sample_refusal])
    moreover have "pg_awaited sample_sending_page = [] @ ([sample_ten], Sending alice ''acc-7'') # []"
      by (simp add: sample_sending_page_def)
    moreover have "resume (BANK_A_URL None) (BANK_B_URL None) (Sending alice ''acc-7'') (Inl ?err) (sample_sending_page\<lparr>pg_awaited := [] @ []\<rparr>) =
        sample_refused_page"
      by (simp add: resume_def sample_sending_page_def sample_refused_page_def sendTransfer_end_def sample_page_defs)
    ultimately show ?thesis using page_step.answer by metis
  qed
qed


theorem frontend_never_sends_witness:
  "\<exists>n. App (\<lambda>_. []) sample_refused_page = Some n \<and>
     Element ''li'' [(''class'', ''empty'')] [] [Text ''No transfers sent yet.''] \<in> set (nodes n) \<and>
     Element ''div'' [(''class'', ''error'')] [] [Text ''Error: POST http://localhost:3000/interbank-transfers -> 400 Bad Request''] \<in> set (nodes n) \<and>
     InterbankController_create uuid_form (Inr ''bank-a'') id id id sample_id 7 (Some ''k1'') (the (hr_body sample_ten)) sample_bank
       = (Inl BadRequest, sample_bank)"
proof -
  have run: "sample_step\<^sup>*\<^sup>* initial_page sample_refused_page" using sample_page_run by (meson rtranclp.rtrancl_into_rtrancl)
  have "ui_transfers (pg_ui sample_refused_page) = []" by (simp add: sample_refused_page_def sample_page_defs)
  then obtain n where n: "App (\<lambda>_. []) sample_refused_page = Some n"
    using sample_page_shown [of sample_refused_page] by (auto simp: sample_refused_page_def)
  have "Element ''div'' [(''class'', ''error'')] [] [Text ''Error: POST http://localhost:3000/interbank-transfers -> 400 Bad Request''] \<in> set (nodes n)"
    using n by (auto simp: App_def Let_def sample_refused_page_def ErrorBanner_def split: option.splits)
  with n frontend_never_sends [OF run, of n "BANK_A_URL None" "''k1''" alice "''acc-7''" "''10.00''" sample_ten] sample_ten_sent
  show ?thesis by blast
qed



end
