(* ===== verification/Relational.thy ===== *)
theory Relational
  imports Postgres Messaging
begin

text \<open>
  The SQL of the two services: the statements their migrations are made of, and INSERT, UPDATE and
  DELETE under the constraints those statements declare. A statement fails as in PostgreSQL: first
  the conversion of the parameters in their order, then NOT NULL and CHECK, then the target of
  \<open>ON CONFLICT\<close>, the other keys, and the foreign keys; a CHECK that is unknown because of a NULL
  passes. A violated CHECK or foreign key is named by its table. Of an index only the name is kept: it
  changes no result. Identity columns count from one;
  numbers that a rolled-back statement would have used up are not skipped.
\<close>

subsection \<open>Tables\<close>

datatype sql_type = UUID | TEXT | BIGINT | TIMESTAMPTZ | JSONB

datatype sql_value =
    SqlNull
  | SqlUuid string
  | SqlText string
  | SqlInt int
  | SqlTime int
  | SqlJson json

datatype sql_default = NoDefault | NowDefault | GenRandomUuid | GeneratedIdentity | LiteralDefault sql_value

datatype sql_key = NoKey | PrimaryKey | UniqueKey

datatype sql_column = Column
  (col_name: string)
  (col_type: sql_type)
  (col_not_null: bool)
  (col_default: sql_default)
  (col_key: sql_key)
  (col_references: "(string \<times> string) option")

datatype sql_check =
    LengthBetween string nat nat
  | NotEqualTo string int
  | GreaterThan string int
  | OneOf string "string list"
  | ColumnsDiffer string string
  | SameTruth sql_check sql_check
  | IsNotNull string

type_synonym sql_row = "(string \<times> sql_value) list"

record sql_table =
  tab_columns :: "sql_column list"
  tab_checks :: "sql_check list"
  tab_fkeys :: "(string \<times> string \<times> string) list"  \<comment> \<open>column, the table and the column it refers to\<close>
  tab_rows :: "sql_row list"
  tab_next :: nat
  tab_guard :: "string option"  \<comment> \<open>the exception a BEFORE UPDATE OR DELETE trigger raises\<close>

record sql_db =
  sql_tables :: "(string \<times> sql_table) list"
  sql_functions :: "(string \<times> string) list"  \<comment> \<open>trigger functions that only raise, and what they raise\<close>
  sql_indexes :: "string list"

definition empty_sql :: sql_db where
  "empty_sql = \<lparr>sql_tables = [], sql_functions = [], sql_indexes = []\<rparr>"

definition table_of :: "string \<Rightarrow> sql_db \<Rightarrow> sql_table option" where
  "table_of t db = map_of (sql_tables db) t"

definition set_table :: "string \<Rightarrow> sql_table \<Rightarrow> sql_db \<Rightarrow> sql_db" where
  "set_table t tb db = db\<lparr>sql_tables := map (\<lambda>(n, old). (n, if n = t then tb else old)) (sql_tables db)\<rparr>"

definition cell :: "sql_row \<Rightarrow> string \<Rightarrow> sql_value" where
  "cell row c = (case map_of row c of None \<Rightarrow> SqlNull | Some v \<Rightarrow> v)"

subsection \<open>Constraints\<close>

text \<open>The three truth values of SQL; None is unknown.\<close>

fun truth :: "sql_row \<Rightarrow> sql_check \<Rightarrow> bool option" where
  "truth row (LengthBetween c lo hi) =
     (case cell row c of SqlText s \<Rightarrow> Some (lo \<le> length s \<and> length s \<le> hi) | _ \<Rightarrow> None)"
| "truth row (NotEqualTo c n) = (case cell row c of SqlInt m \<Rightarrow> Some (m \<noteq> n) | _ \<Rightarrow> None)"
| "truth row (GreaterThan c n) = (case cell row c of SqlInt m \<Rightarrow> Some (n < m) | _ \<Rightarrow> None)"
| "truth row (OneOf c texts) = (case cell row c of SqlText s \<Rightarrow> Some (s \<in> set texts) | _ \<Rightarrow> None)"
| "truth row (ColumnsDiffer c d) =
     (if cell row c = SqlNull \<or> cell row d = SqlNull then None else Some (cell row c \<noteq> cell row d))"
| "truth row (SameTruth p q) =
     (case (truth row p, truth row q) of (Some a, Some b) \<Rightarrow> Some (a = b) | _ \<Rightarrow> None)"
| "truth row (IsNotNull c) = Some (cell row c \<noteq> SqlNull)"

definition checks_pass :: "sql_table \<Rightarrow> sql_row \<Rightarrow> bool" where
  "checks_pass tb row \<longleftrightarrow> list_all (\<lambda>p. truth row p \<noteq> Some False) (tab_checks tb)"

definition nulls_pass :: "sql_table \<Rightarrow> sql_row \<Rightarrow> bool" where
  "nulls_pass tb row \<longleftrightarrow> list_all (\<lambda>col. col_not_null col \<longrightarrow> cell row (col_name col) \<noteq> SqlNull) (tab_columns tb)"

text \<open>Whether another row has the value; two NULLs are different.\<close>

definition taken :: "sql_table \<Rightarrow> sql_row \<Rightarrow> string \<Rightarrow> bool" where
  "taken tb row c \<longleftrightarrow> cell row c \<noteq> SqlNull \<and> list_ex (\<lambda>r. cell r c = cell row c) (tab_rows tb)"

definition key_name :: "string \<Rightarrow> sql_column \<Rightarrow> string" where
  "key_name t col = (case col_key col of
     PrimaryKey \<Rightarrow> t @ ''_pkey'' | _ \<Rightarrow> t @ ''_'' @ col_name col @ ''_key'')"

definition violated_key :: "sql_table \<Rightarrow> sql_row \<Rightarrow> sql_column option" where
  "violated_key tb row = find (\<lambda>col. col_key col \<noteq> NoKey \<and> taken tb row (col_name col)) (tab_columns tb)"

definition refers :: "sql_db \<Rightarrow> sql_row \<Rightarrow> string \<times> string \<times> string \<Rightarrow> bool" where
  "refers db row fk = (case fk of (c, t, d) \<Rightarrow> cell row c = SqlNull \<or>
     (case table_of t db of None \<Rightarrow> False | Some tb \<Rightarrow> list_ex (\<lambda>r. cell r d = cell row c) (tab_rows tb)))"

text \<open>What the schema promises of its rows: no declared constraint is violated.\<close>

definition keys_differ :: "sql_table \<Rightarrow> bool" where
  "keys_differ tb \<longleftrightarrow> list_all (\<lambda>col. col_key col \<noteq> NoKey \<longrightarrow>
     distinct (map (\<lambda>r. cell r (col_name col)) (tab_rows tb))) (tab_columns tb)"

definition table_integrity :: "sql_db \<Rightarrow> sql_table \<Rightarrow> bool" where
  "table_integrity db tb \<longleftrightarrow> keys_differ tb \<and>
     (\<forall>row \<in> set (tab_rows tb). nulls_pass tb row \<and> checks_pass tb row \<and> list_all (refers db row) (tab_fkeys tb))"

definition integrity :: "sql_db \<Rightarrow> bool" where
  "integrity db \<longleftrightarrow> list_all (\<lambda>(t, tb). table_integrity db tb) (sql_tables db)"

subsection \<open>Statements\<close>

text \<open>A parameter of a query, or a literal in its text.\<close>

datatype sql_param = PNull | PText string | PNumber js_number | PJson json | PNow

fun bind_param :: "int \<Rightarrow> sql_type \<Rightarrow> sql_param \<Rightarrow> 'd service_error + sql_value" where
  "bind_param now ty PNull = Inr SqlNull"
| "bind_param now UUID (PText s) = (case bind_uuid s of Inl e \<Rightarrow> Inl e | Inr u \<Rightarrow> Inr (SqlUuid u))"
| "bind_param now TEXT (PText s) = Inr (SqlText s)"
| "bind_param now BIGINT (PNumber x) = (case bind_bigint x of Inl e \<Rightarrow> Inl e | Inr n \<Rightarrow> Inr (SqlInt n))"
| "bind_param now JSONB (PJson j) = Inr (SqlJson j)"
| "bind_param now TIMESTAMPTZ PNow = Inr (SqlTime now)"
| "bind_param now _ _ = Inl (Failure ''datatype_mismatch'')"

fun bind_params :: "int \<Rightarrow> sql_table \<Rightarrow> (string \<times> sql_param) list \<Rightarrow> 'd service_error + sql_row" where
  "bind_params now tb [] = Inr []"
| "bind_params now tb ((c, p) # ps) =
     (case find (\<lambda>col. col_name col = c) (tab_columns tb) of
        None \<Rightarrow> Inl (Failure ''undefined_column'')
      | Some col \<Rightarrow> (case bind_param now (col_type col) p of
          Inl e \<Rightarrow> Inl e
        | Inr v \<Rightarrow> (case bind_params now tb ps of Inl e \<Rightarrow> Inl e | Inr vs \<Rightarrow> Inr ((c, v) # vs))))"

definition default_value :: "int \<Rightarrow> string \<Rightarrow> nat \<Rightarrow> sql_column \<Rightarrow> sql_value" where
  "default_value now uuid n col = (case col_default col of
     NoDefault \<Rightarrow> SqlNull | NowDefault \<Rightarrow> SqlTime now | GenRandomUuid \<Rightarrow> SqlUuid uuid
   | GeneratedIdentity \<Rightarrow> SqlInt (int n) | LiteralDefault v \<Rightarrow> v)"

definition inserted_row :: "int \<Rightarrow> string \<Rightarrow> sql_table \<Rightarrow> sql_row \<Rightarrow> sql_row" where
  "inserted_row now uuid tb vs = map (\<lambda>col. (col_name col,
     case map_of vs (col_name col) of Some v \<Rightarrow> v | None \<Rightarrow> default_value now uuid (tab_next tb) col)) (tab_columns tb)"

text \<open>
  \<open>INSERT INTO t (..) VALUES (..)\<close>, with \<open>ON CONFLICT (c) DO NOTHING\<close> when \<open>conflict\<close> is a column;
  the answer is whether a row was inserted. \<open>uuid\<close> is what \<open>gen_random_uuid()\<close> returns.
\<close>

definition sql_insert ::
  "int \<Rightarrow> string \<Rightarrow> string \<Rightarrow> string option \<Rightarrow> (string \<times> sql_param) list \<Rightarrow> (sql_db, 'd service_error, bool) tx" where
  "sql_insert now uuid t conflict ps db =
     (case table_of t db of
        None \<Rightarrow> Inl (Failure ''undefined_table'')
      | Some tb \<Rightarrow> (case bind_params now tb ps of
          Inl e \<Rightarrow> Inl e
        | Inr vs \<Rightarrow>
            let row = inserted_row now uuid tb vs
            in if \<not> nulls_pass tb row then Inl (Failure ''not_null_violation'')
               else if \<not> checks_pass tb row then Inl (Db (CheckViolation t))
               else if (case conflict of None \<Rightarrow> False | Some c \<Rightarrow> taken tb row c) then Inr (False, db)
               else (case violated_key tb row of
                   Some col \<Rightarrow> Inl (Db (UniqueViolation (key_name t col)))
                 | None \<Rightarrow>
                     if \<not> list_all (refers db row) (tab_fkeys tb) then Inl (Db (ForeignKeyViolation t))
                     else Inr (True, set_table t (tb\<lparr>tab_rows := tab_rows tb @ [row], tab_next := Suc (tab_next tb)\<rparr>) db))))"

definition set_cells :: "sql_row \<Rightarrow> sql_row \<Rightarrow> sql_row" where
  "set_cells vs row = map (\<lambda>(c, v). (c, case map_of vs c of Some w \<Rightarrow> w | None \<Rightarrow> v)) row"

definition row_matches :: "sql_row \<Rightarrow> sql_row \<Rightarrow> bool" where
  "row_matches ws row \<longleftrightarrow> list_all (\<lambda>(c, v). v \<noteq> SqlNull \<and> cell row c = v) ws"

definition is_key :: "sql_table \<Rightarrow> string \<Rightarrow> bool" where
  "is_key tb c \<longleftrightarrow> list_ex (\<lambda>col. col_name col = c \<and> col_key col \<noteq> NoKey) (tab_columns tb) \<or>
     list_ex (\<lambda>fk. fst fk = c) (tab_fkeys tb)"

text \<open>\<open>UPDATE t SET .. WHERE c = v AND ..\<close>; no statement of the repository updates a key.\<close>

definition sql_update ::
  "int \<Rightarrow> string \<Rightarrow> (string \<times> sql_param) list \<Rightarrow> (string \<times> sql_param) list \<Rightarrow> (sql_db, 'd service_error, unit) tx" where
  "sql_update now t sets cond db =
     (case table_of t db of
        None \<Rightarrow> Inl (Failure ''undefined_table'')
      | Some tb \<Rightarrow> (case (bind_params now tb cond, bind_params now tb sets) of
          (Inl e, _) \<Rightarrow> Inl e
        | (_, Inl e) \<Rightarrow> Inl e
        | (Inr ws, Inr vs) \<Rightarrow>
            if list_ex (\<lambda>(c, _). is_key tb c) vs then Inl (Failure ''feature_not_supported'')
            else if \<not> list_ex (row_matches ws) (tab_rows tb) then Inr ((), db)
            else (case tab_guard tb of
                Some message \<Rightarrow> Inl (Failure message)
              | None \<Rightarrow>
                  let changed = map (set_cells vs) (filter (row_matches ws) (tab_rows tb))
                  in if \<not> list_all (nulls_pass tb) changed then Inl (Failure ''not_null_violation'')
                     else if \<not> list_all (checks_pass tb) changed then Inl (Db (CheckViolation t))
                     else Inr ((), set_table t (tb\<lparr>tab_rows :=
                            map (\<lambda>r. if row_matches ws r then set_cells vs r else r) (tab_rows tb)\<rparr>) db))))"

text \<open>\<open>DELETE FROM t WHERE c = v AND ..\<close>, which no code does.\<close>

definition sql_delete :: "int \<Rightarrow> string \<Rightarrow> (string \<times> sql_param) list \<Rightarrow> (sql_db, 'd service_error, unit) tx" where
  "sql_delete now t cond db =
     (case table_of t db of
        None \<Rightarrow> Inl (Failure ''undefined_table'')
      | Some tb \<Rightarrow> (case bind_params now tb cond of
          Inl e \<Rightarrow> Inl e
        | Inr ws \<Rightarrow>
            if \<not> list_ex (row_matches ws) (tab_rows tb) then Inr ((), db)
            else (case tab_guard tb of
                Some message \<Rightarrow> Inl (Failure message)
              | None \<Rightarrow> Inr ((), set_table t (tb\<lparr>tab_rows := filter (\<lambda>r. \<not> row_matches ws r) (tab_rows tb)\<rparr>) db))))"

subsection \<open>Schema statements\<close>

datatype sql_statement =
    CreateTable string "sql_column list" "sql_check list"
  | CreateIndex string string
  | CreateRaisingFunction string string  \<comment> \<open>RETURNS trigger, body RAISE EXCEPTION\<close>
  | CreateTrigger string string string  \<comment> \<open>name, BEFORE UPDATE OR DELETE ON table, function\<close>
  | AddForeignKey string string string string
  | AddColumn string sql_column
  | DropDefault string string
  | InsertInto string "(string \<times> sql_param) list"

definition column_fkeys :: "sql_column list \<Rightarrow> (string \<times> string \<times> string) list" where
  "column_fkeys cols = concat (map (\<lambda>col. case col_references col of
     None \<Rightarrow> [] | Some (t, d) \<Rightarrow> [(col_name col, t, d)]) cols)"

definition without_default :: "string \<Rightarrow> sql_column \<Rightarrow> sql_column" where
  "without_default c col = (if col_name col = c
     then Column c (col_type col) (col_not_null col) NoDefault (col_key col) (col_references col) else col)"

fun execute :: "int \<Rightarrow> string \<Rightarrow> sql_statement \<Rightarrow> sql_db \<Rightarrow> 'd service_error + sql_db" where
  "execute now uuid (CreateTable t cols checks) db =
     (if table_of t db \<noteq> None then Inl (Failure ''duplicate_table'')
      else if list_ex (\<lambda>(c, r, d). table_of r db = None) (column_fkeys cols) then Inl (Failure ''undefined_table'')
      else Inr (db\<lparr>sql_tables := sql_tables db @
        [(t, \<lparr>tab_columns = cols, tab_checks = checks, tab_fkeys = column_fkeys cols, tab_rows = [],
              tab_next = 1, tab_guard = None\<rparr>)]\<rparr>))"
| "execute now uuid (CreateIndex i t) db =
     (if table_of t db = None then Inl (Failure ''undefined_table'')
      else if i \<in> set (sql_indexes db) then Inl (Failure ''duplicate_table'')
      else Inr (db\<lparr>sql_indexes := sql_indexes db @ [i]\<rparr>))"
| "execute now uuid (CreateRaisingFunction f message) db =
     (if f \<in> fst ` set (sql_functions db) then Inl (Failure ''duplicate_function'')
      else Inr (db\<lparr>sql_functions := sql_functions db @ [(f, message)]\<rparr>))"
| "execute now uuid (CreateTrigger g t f) db =
     (case (table_of t db, map_of (sql_functions db) f) of
        (None, _) \<Rightarrow> Inl (Failure ''undefined_table'')
      | (_, None) \<Rightarrow> Inl (Failure ''undefined_function'')
      | (Some tb, Some message) \<Rightarrow> Inr (set_table t (tb\<lparr>tab_guard := Some message\<rparr>) db))"
| "execute now uuid (AddForeignKey t c r d) db =
     (case (table_of t db, table_of r db) of
        (Some tb, Some _) \<Rightarrow>
          if list_all (\<lambda>row. refers db row (c, r, d)) (tab_rows tb)
          then Inr (set_table t (tb\<lparr>tab_fkeys := tab_fkeys tb @ [(c, r, d)]\<rparr>) db)
          else Inl (Db (ForeignKeyViolation t))
      | _ \<Rightarrow> Inl (Failure ''undefined_table''))"
| "execute now uuid (AddColumn t col) db =
     (case table_of t db of
        None \<Rightarrow> Inl (Failure ''undefined_table'')
      | Some tb \<Rightarrow>
          let v = default_value now uuid (tab_next tb) col
          in if col_name col \<in> col_name ` set (tab_columns tb) then Inl (Failure ''duplicate_column'')
             else if col_not_null col \<and> v = SqlNull \<and> tab_rows tb \<noteq> [] then Inl (Failure ''not_null_violation'')
             else Inr (set_table t (tb\<lparr>tab_columns := tab_columns tb @ [col],
                    tab_rows := map (\<lambda>r. r @ [(col_name col, v)]) (tab_rows tb)\<rparr>) db))"
| "execute now uuid (DropDefault t c) db =
     (case table_of t db of
        None \<Rightarrow> Inl (Failure ''undefined_table'')
      | Some tb \<Rightarrow> Inr (set_table t (tb\<lparr>tab_columns := map (without_default c) (tab_columns tb)\<rparr>) db))"
| "execute now uuid (InsertInto t ps) db =
     (case sql_insert now uuid t None ps db of Inl e \<Rightarrow> Inl e | Inr (_, db') \<Rightarrow> Inr db')"

fun execute_all :: "int \<Rightarrow> string \<Rightarrow> sql_statement list \<Rightarrow> sql_db \<Rightarrow> 'd service_error + sql_db" where
  "execute_all now uuid [] db = Inr db"
| "execute_all now uuid (st # sts) db =
     (case execute now uuid st db of Inl e \<Rightarrow> Inl e | Inr db' \<Rightarrow> execute_all now uuid sts db')"

text \<open>Rows of a table with an identity column, numbered from one.\<close>

definition numbered :: "(nat \<Rightarrow> 'a \<Rightarrow> sql_row) \<Rightarrow> 'a list \<Rightarrow> sql_row list" where
  "numbered f xs = map (\<lambda>(i, x). f i x) (enumerate 1 xs)"

lemma numbered_Nil [simp]: "numbered f [] = []"
  by (simp add: numbered_def)

lemma numbered_append [simp]: "numbered f (xs @ [x]) = numbered f xs @ [f (Suc (length xs)) x]"
  by (simp add: numbered_def enumerate_append_eq)

lemma numbered_unused:
  assumes "\<And>i x. map_of (f i x) c = Some (SqlInt (int i))"
  shows "list_ex (\<lambda>r. cell r c = SqlInt (int (Suc (length xs)))) (numbered f xs) \<longleftrightarrow> False"
  using assms by (auto simp: list_ex_iff numbered_def cell_def in_set_enumerate_eq split: prod.splits)

lemma numbered_cells:
  assumes "\<And>i x. cell (f i x) c = SqlInt (int i)"
  shows "distinct (map (\<lambda>r. cell r c) (numbered f xs))"
proof -
  have "map (\<lambda>r. cell r c) (numbered f xs) = map (\<lambda>i. SqlInt (int i)) (map fst (enumerate 1 xs))"
    unfolding numbered_def map_map by (rule map_cong) (auto simp: assms)
  moreover have "inj_on (\<lambda>i. SqlInt (int i)) A" for A by (simp add: inj_on_def)
  ultimately show ?thesis by (simp only: distinct_map distinct_enumerate map_fst_enumerate distinct_upt)
qed

lemma distinct_wrapped: "distinct (map f xs) \<Longrightarrow> inj g \<Longrightarrow> distinct (map (\<lambda>x. g (f x)) xs)"
  by (auto simp: distinct_map inj_on_def)

subsection \<open>Evaluation\<close>

named_theorems sql_eval \<open>the statements on concrete columns\<close>

lemmas statement_eval [sql_eval] = table_of_def set_table_def column_fkeys_def cell_def nulls_pass_def checks_pass_def
  taken_def violated_key_def refers_def inserted_row_def default_value_def sql_insert_def key_name_def without_default_def
  Let_def

lemma list_ex_map [simp]: "list_ex P (map f xs) = list_ex (\<lambda>x. P (f x)) xs"
  by (induction xs) simp_all

text \<open>What a query leaves in the database, or its error.\<close>

definition sql_effect :: "'e + 'a \<times> sql_db \<Rightarrow> 'e + sql_db" where
  "sql_effect r = (case r of Inl e \<Rightarrow> Inl e | Inr (_, t) \<Rightarrow> Inr t)"

lemma sql_effect_simps [simp]: "sql_effect (Inl e) = Inl e" "sql_effect (Inr (a, db)) = Inr db"
  by (simp_all add: sql_effect_def)

lemma execute_all_append:
  "execute_all now uuid (xs @ ys) db =
     (case execute_all now uuid xs db of Inl e \<Rightarrow> Inl e | Inr db' \<Rightarrow> execute_all now uuid ys db')"
  by (induction xs arbitrary: db) (auto split: sum.splits)

text \<open>An update of a table without a trigger, where the rows are the images of records.\<close>

lemma sql_update_records:
  assumes tab: "table_of t db = Some tb" "tab_guard tb = None" "tab_rows tb = map f xs" "set_table t tb db = db"
    and binds: "bind_params now tb cond = (Inr ws :: 'd service_error + sql_row)"
      "bind_params now tb sets = (Inr vs :: 'd service_error + sql_row)"
    and keys: "\<not> list_ex (\<lambda>(c, _). is_key tb c) vs"
    and chosen: "\<And>x. x \<in> set xs \<Longrightarrow> row_matches ws (f x) \<longleftrightarrow> P x"
    and changed: "\<And>x. x \<in> set xs \<Longrightarrow> P x \<Longrightarrow> set_cells vs (f x) = f (g x) \<and> nulls_pass tb (f (g x)) \<and> checks_pass tb (f (g x))"
  shows "sql_update now t sets cond db =
    (Inr ((), set_table t (tb\<lparr>tab_rows := map f (map (\<lambda>x. if P x then g x else x) xs)\<rparr>) db)
      :: 'd service_error + unit \<times> sql_db)"
proof (cases "list_ex P xs")
  case False
  then have none: "\<And>x. x \<in> set xs \<Longrightarrow> \<not> P x" by (auto simp: list_ex_iff)
  then have "map (\<lambda>x. if P x then g x else x) xs = xs" by (simp add: map_idI)
  moreover have "\<not> list_ex (row_matches ws) (tab_rows tb)" using none chosen by (auto simp: tab(3) list_ex_iff)
  moreover have "tb\<lparr>tab_rows := map f xs\<rparr> = tb" by (simp flip: tab(3))
  ultimately show ?thesis using keys by (simp add: sql_update_def tab(1,4) binds)
next
  case True
  then have "list_ex (row_matches ws) (tab_rows tb)" using chosen by (auto simp: tab(3) list_ex_iff)
  moreover have "list_all (nulls_pass tb) (map (set_cells vs) (filter (row_matches ws) (tab_rows tb)))"
    "list_all (checks_pass tb) (map (set_cells vs) (filter (row_matches ws) (tab_rows tb)))"
    using chosen changed by (auto simp: tab(3) list_all_iff)
  moreover have "map (\<lambda>r. if row_matches ws r then set_cells vs r else r) (tab_rows tb) =
      map f (map (\<lambda>x. if P x then g x else x) xs)"
    using chosen changed by (simp add: tab(3))
  ultimately show ?thesis using keys by (simp add: sql_update_def tab(1,2) binds Let_def)
qed

text \<open>A table with a trigger that raises: no update or delete that finds a row returns.\<close>

lemma guarded_table:
  assumes "table_of t db = Some tb" "tab_guard tb = Some message"
  shows "sql_update now t sets cond db = Inr ((), db') \<Longrightarrow> db' = db"
    and "sql_delete now t cond db = Inr ((), db') \<Longrightarrow> db' = db"
  using assms by (auto simp: sql_update_def sql_delete_def Let_def split: sum.splits if_splits)

subsection \<open>What transactions keep\<close>

definition tx_keeps :: "('s \<Rightarrow> bool) \<Rightarrow> ('s, 'e, 'a) tx \<Rightarrow> bool" where
  "tx_keeps P m \<longleftrightarrow> (\<forall>s a t. P s \<longrightarrow> m s = Inr (a, t) \<longrightarrow> P t)"

lemma tx_keepsD: "tx_keeps P m \<Longrightarrow> P s \<Longrightarrow> m s = Inr (a, t) \<Longrightarrow> P t"
  unfolding tx_keeps_def by blast

lemma tx_keeps_bind:
  assumes "tx_keeps P m" and "\<And>a. tx_keeps P (f a)"
  shows "tx_keeps P (tx_bind m f)"
  unfolding tx_keeps_def
proof (intro allI impI)
  fix s b t assume "P s" "tx_bind m f s = Inr (b, t)"
  then obtain a s' where "m s = Inr (a, s')" "f a s' = Inr (b, t)" by (auto simp: tx_bind_Inr_eq)
  with assms \<open>P s\<close> show "P t" unfolding tx_keeps_def by blast
qed

lemma tx_keeps_pure [simp]:
  "tx_keeps P (tx_return a)" "tx_keeps P (tx_check r)" "tx_keeps P (tx_read g)" "tx_keeps P (db_guard p e)" "tx_keeps P (tx_throw x)"
  by (auto simp: tx_keeps_def tx_simps tx_throw_def)

end
