(* ===== verification/SchemaRuns.thy ===== *)
theory SchemaRuns
  imports Relational Migrate Outbox
begin

text \<open>
  The migration runner on a directory whose files hold SQL: \<open>parse\<close>, how PostgreSQL reads the text
  of a file, is outside the program; \<open>directory_holds\<close> says that the files are there and read as the
  given statements.
\<close>

definition schema_exec ::
  "(string \<Rightarrow> sql_statement list option) \<Rightarrow> int \<Rightarrow> string \<Rightarrow> string \<Rightarrow> sql_db \<Rightarrow> unit service_error + sql_db" where
  "schema_exec parse now uuid sql db = (case parse sql of
     None \<Rightarrow> Inl (Failure ''syntax_error'') | Some sts \<Rightarrow> execute_all now uuid sts db)"

definition directory_holds ::
  "(string \<Rightarrow> sql_statement list option) \<Rightarrow> string list \<Rightarrow> (string \<Rightarrow> unit service_error + string) \<Rightarrow>
   (string \<times> sql_statement list) list \<Rightarrow> bool" where
  "directory_holds parse readdir readFile ms \<longleftrightarrow> distinct readdir \<and>
     {f \<in> set readdir. suffix ''.sql'' f} = fst ` set ms \<and>
     list_all (\<lambda>(f, sts). \<exists>sql. readFile f = Inr sql \<and> parse sql = Some sts) ms"

definition fresh_database :: "sql_db migrations_db" where
  "fresh_database = \<lparr>mig_schema = empty_sql, mig_applied = None\<rparr>"

lemma run_all_statements:
  assumes "list_all (\<lambda>(f, sts). \<exists>sql. readFile f = Inr sql \<and> parse sql = Some sts) ms"
    and "execute_all now uuid (concat (map snd ms)) db = (Inr db' :: unit service_error + sql_db)"
  shows "run_all (schema_exec parse now uuid) readFile (map fst ms) db = Some db'"
  using assms
proof (induction ms arbitrary: db)
  case (Cons m ms)
  then show ?case
    by (cases m) (auto simp: schema_exec_def execute_all_append split: sum.splits)
qed simp

lemma migrate_directory:
  assumes holds: "directory_holds parse readdir readFile ms"
    and names: "sorted (map fst ms)" "distinct (map fst ms)"
    and run: "execute_all now uuid (concat (map snd ms)) empty_sql = (Inr db :: unit service_error + sql_db)"
  shows "migrate (schema_exec parse now uuid) readdir readFile now fresh_database =
    (Inr (), \<lparr>mig_schema = db, mig_applied = Some (map (\<lambda>m. (fst m, now)) ms)\<rparr>)"
proof -
  have dir: "distinct readdir" and files: "set (sql_files readdir) = set (map fst ms)"
    and texts: "list_all (\<lambda>(f, sts). \<exists>sql. readFile f = Inr sql \<and> parse sql = Some sts) ms"
    using holds by (auto simp: directory_holds_def sql_files_def)
  have "sql_files readdir = map fst ms"
    using pending_distinct [OF dir] names files by (intro sorted_distinct_set_unique) (simp_all add: sql_files_def)
  then have pend: "pending readdir fresh_database = map fst ms"
    by (simp add: pending_def applied_names_def fresh_database_def)
  have start: "mig_schema fresh_database = empty_sql" by (simp add: fresh_database_def)
  obtain res t where m: "migrate (schema_exec parse now uuid) readdir readFile now fresh_database = (res, t)"
    by (metis prod.exhaust)
  obtain fs x where fs: "run_all (schema_exec parse now uuid) readFile fs empty_sql = Some x" "t = advanced now fs x fresh_database"
    and out: "if res = Inr () then fs = map fst ms
      else \<exists>file gs. map fst ms = fs @ file # gs \<and> run_all (schema_exec parse now uuid) readFile [file] x = None"
    using migrate_spec [OF dir m] unfolding pend start by (auto split: if_splits)
  have all: "run_all (schema_exec parse now uuid) readFile (map fst ms) empty_sql = Some db"
    by (rule run_all_statements [OF texts run])
  have "res = Inr ()"
  proof (rule ccontr)
    assume "res \<noteq> Inr ()"
    with out obtain f gs where "map fst ms = fs @ [f] @ gs" "run_all (schema_exec parse now uuid) readFile [f] x = None"
      by auto
    with all fs(1) show False by (simp add: run_all_append split: sum.splits)
  qed
  with out fs all have "fs = map fst ms" "x = db" by auto
  with m fs(2) \<open>res = Inr ()\<close> show ?thesis
    by (simp add: advanced_def fresh_database_def create_migrations_table_def comp_def)
qed

subsection \<open>The outbox table, the same in both services\<close>

definition outbox_sql :: "outbox_row \<Rightarrow> sql_row" where
  "outbox_sql r = [(''id'', SqlInt (int (ob_id r))), (''aggregate_id'', SqlUuid (ob_aggregate_id r)),
     (''event_type'', SqlText (ob_event_type r)), (''routing_key'', SqlText (ob_routing_key r)),
     (''payload'', SqlJson (ob_payload r)), (''created_at'', SqlTime (ob_created_at r)),
     (''published_at'', case ob_published_at r of None \<Rightarrow> SqlNull | Some t \<Rightarrow> SqlTime t)]"

definition outbox_events_table :: "sql_row list \<Rightarrow> nat \<Rightarrow> sql_table" where
  "outbox_events_table rows n =
     \<lparr>tab_columns =
        [Column ''id'' BIGINT True GeneratedIdentity PrimaryKey None,
         Column ''aggregate_id'' UUID True NoDefault NoKey None,
         Column ''event_type'' TEXT True NoDefault NoKey None,
         Column ''routing_key'' TEXT True NoDefault NoKey None,
         Column ''payload'' JSONB True NoDefault NoKey None,
         Column ''created_at'' TIMESTAMPTZ True NowDefault NoKey None,
         Column ''published_at'' TIMESTAMPTZ False NoDefault NoKey None],
      tab_checks = [], tab_fkeys = [], tab_rows = rows, tab_next = n, tab_guard = None\<rparr>"

lemma outbox_id [simp]: "cell (outbox_sql r) ''id'' = SqlInt (int (ob_id r))"
  by (simp add: cell_def outbox_sql_def)

lemma outbox_next_unused: "outbox_ok ob \<Longrightarrow> list_ex (\<lambda>r. ob_id r = outbox_next_id ob) (outbox_rows ob) \<longleftrightarrow> False"
  by (auto simp: outbox_ok_def list_ex_iff)

lemma outbox_table_integrity:
  assumes "outbox_ok ob"
  shows "table_integrity db (outbox_events_table (map outbox_sql (outbox_rows ob)) n)"
  using distinct_wrapped [OF outbox_ok_distinct [OF assms], of "\<lambda>i. SqlInt (int i)"]
  by (auto simp: table_integrity_def keys_differ_def outbox_events_table_def inj_def comp_def nulls_pass_def checks_pass_def)
    (simp_all add: outbox_sql_def cell_def)

text \<open>\<open>UPDATE outbox_events SET published_at = now() WHERE id = $1\<close>\<close>

lemma mark_published_table:
  assumes "safe_int (int i)"
    and tab: "table_of ''outbox_events'' db = Some (outbox_events_table (map outbox_sql (outbox_rows ob)) n)"
      "set_table ''outbox_events'' (outbox_events_table (map outbox_sql (outbox_rows ob)) n) db = db"
  shows "sql_update now ''outbox_events'' [(''published_at'', PNow)] [(''id'', PNumber (js_of_int (int i)))] db =
    (Inr ((), set_table ''outbox_events'' (outbox_events_table (map outbox_sql (outbox_rows (markPublished now i ob))) n) db)
     :: 'd service_error + unit \<times> sql_db)"
proof -
  let ?tb = "outbox_events_table (map outbox_sql (outbox_rows ob)) n"
  have "sql_update now ''outbox_events'' [(''published_at'', PNow)] [(''id'', PNumber (js_of_int (int i)))] db =
    (Inr ((), set_table ''outbox_events'' (?tb\<lparr>tab_rows := map outbox_sql
      (map (\<lambda>r. if ob_id r = i then r\<lparr>ob_published_at := Some now\<rparr> else r) (outbox_rows ob))\<rparr>) db)
     :: 'd service_error + unit \<times> sql_db)"
  proof (rule sql_update_records [OF tab(1)])
    show "row_matches [(''id'', SqlInt (int i))] (outbox_sql x) \<longleftrightarrow> ob_id x = i" for x
      by (simp add: row_matches_def)
    show "set_cells [(''published_at'', SqlTime now)] (outbox_sql x) = outbox_sql (x\<lparr>ob_published_at := Some now\<rparr>) \<and>
        nulls_pass ?tb (outbox_sql (x\<lparr>ob_published_at := Some now\<rparr>)) \<and>
        checks_pass ?tb (outbox_sql (x\<lparr>ob_published_at := Some now\<rparr>))" for x
      by (simp add: set_cells_def outbox_sql_def nulls_pass_def checks_pass_def cell_def outbox_events_table_def)
  qed (use assms in \<open>simp_all add: outbox_events_table_def is_key_def bind_bigint_safe\<close>)
  then show ?thesis by (simp add: markPublished_def outbox_events_table_def)
qed

end
