(* ===== verification/Selects.thy ===== *)
theory Selects
  imports SchemaRuns
begin

text \<open>
  The SELECTs of the two services on tables: WHERE with its conditions, the locks other transactions
  hold where the query says SKIP LOCKED, ORDER BY, LIMIT, the list of columns, and SUM. Rows that
  ORDER BY does not tell apart stay in the order they were inserted in, which PostgreSQL leaves open.
\<close>

subsection \<open>Conditions\<close>

datatype sql_cond =
    Equals string sql_param
  | Earlier string int
  | Missing string  \<comment> \<open>IS NULL\<close>

definition has_column :: "sql_table \<Rightarrow> string \<Rightarrow> bool" where
  "has_column tb c \<longleftrightarrow> list_ex (\<lambda>col. col_name col = c) (tab_columns tb)"

fun sql_where :: "int \<Rightarrow> sql_table \<Rightarrow> sql_cond list \<Rightarrow> 'd service_error + (sql_row \<Rightarrow> bool)" where
  "sql_where now tb [] = Inr (\<lambda>_. True)"
| "sql_where now tb (Equals c p # conds) =
     (case bind_params now tb [(c, p)] of
        Inl e \<Rightarrow> Inl e
      | Inr ws \<Rightarrow> (case sql_where now tb conds of
          Inl e \<Rightarrow> Inl e | Inr q \<Rightarrow> Inr (\<lambda>row. row_matches ws row \<and> q row)))"
| "sql_where now tb (Earlier c t # conds) =
     (if \<not> has_column tb c then Inl (Failure ''undefined_column'')
      else (case sql_where now tb conds of
        Inl e \<Rightarrow> Inl e
      | Inr q \<Rightarrow> Inr (\<lambda>row. (case cell row c of SqlTime u \<Rightarrow> u < t | _ \<Rightarrow> False) \<and> q row)))"
| "sql_where now tb (Missing c # conds) =
     (if \<not> has_column tb c then Inl (Failure ''undefined_column'')
      else (case sql_where now tb conds of
        Inl e \<Rightarrow> Inl e | Inr q \<Rightarrow> Inr (\<lambda>row. cell row c = SqlNull \<and> q row)))"

subsection \<open>Queries\<close>

datatype sql_order = Unordered | Ascending string | Descending string

definition order_value :: "string \<Rightarrow> sql_row \<Rightarrow> int" where
  "order_value c row = (case cell row c of SqlInt n \<Rightarrow> n | SqlTime t \<Rightarrow> t | _ \<Rightarrow> 0)"

fun in_order :: "sql_order \<Rightarrow> sql_row list \<Rightarrow> sql_row list" where
  "in_order Unordered rows = rows"
| "in_order (Ascending c) rows = sort_key (order_value c) rows"
| "in_order (Descending c) rows = rev (sort_key (order_value c) rows)"

definition project :: "string list \<Rightarrow> sql_row \<Rightarrow> sql_row" where
  "project cols row = map (\<lambda>c. (c, cell row c)) cols"

record sql_query =
  q_columns :: "string list"
  q_where :: "sql_cond list"
  q_order :: sql_order
  q_limit :: "nat option"

text \<open>\<open>held\<close> are the rows that FOR UPDATE SKIP LOCKED passes over.\<close>

definition sql_select ::
  "int \<Rightarrow> (sql_row \<Rightarrow> bool) \<Rightarrow> string \<Rightarrow> sql_query \<Rightarrow> sql_db \<Rightarrow> 'd service_error + sql_row list" where
  "sql_select now held t q db =
     (case table_of t db of
        None \<Rightarrow> Inl (Failure ''undefined_table'')
      | Some tb \<Rightarrow>
          if \<not> list_all (has_column tb) (q_columns q) then Inl (Failure ''undefined_column'')
          else (case sql_where now tb (q_where q) of
            Inl e \<Rightarrow> Inl e
          | Inr w \<Rightarrow>
              let rows = filter (\<lambda>row. \<not> held row) (in_order (q_order q) (filter w (tab_rows tb)))
              in Inr (map (project (q_columns q)) (case q_limit q of None \<Rightarrow> rows | Some n \<Rightarrow> take n rows))))"

text \<open>\<open>SELECT COALESCE(SUM(c), 0)\<close>\<close>

definition sql_sum :: "int \<Rightarrow> string \<Rightarrow> string \<Rightarrow> sql_cond list \<Rightarrow> sql_db \<Rightarrow> 'd service_error + int" where
  "sql_sum now c t conds db =
     (case table_of t db of
        None \<Rightarrow> Inl (Failure ''undefined_table'')
      | Some tb \<Rightarrow>
          if \<not> has_column tb c then Inl (Failure ''undefined_column'')
          else (case sql_where now tb conds of
            Inl e \<Rightarrow> Inl e
          | Inr w \<Rightarrow> Inr (sum_list (map (\<lambda>row. case cell row c of SqlInt n \<Rightarrow> n | _ \<Rightarrow> 0) (filter w (tab_rows tb))))))"

text \<open>What the driver makes of a cell.\<close>

fun text_cell :: "sql_value \<Rightarrow> string" where
  "text_cell (SqlUuid u) = u"
| "text_cell (SqlText s) = s"
| "text_cell _ = []"

fun int_cell :: "sql_value \<Rightarrow> int" where
  "int_cell (SqlInt n) = n"
| "int_cell (SqlTime t) = t"
| "int_cell _ = 0"

fun json_cell :: "sql_value \<Rightarrow> json" where
  "json_cell (SqlJson j) = j"
| "json_cell _ = JNull"

fun nullable_cell :: "sql_value \<Rightarrow> string option" where
  "nullable_cell SqlNull = None"
| "nullable_cell v = Some (text_cell v)"

text \<open>\<open>rows[0] ? f(rows[0]) : null\<close>\<close>

definition first_row :: "(sql_row \<Rightarrow> 'a) \<Rightarrow> sql_row list \<Rightarrow> 'a option" where
  "first_row f rows = (case rows of [] \<Rightarrow> None | row # _ \<Rightarrow> Some (f row))"

subsection \<open>Queries on the images of records\<close>

lemma sort_key_image: "sort_key k (map f xs) = map f (sort_key (\<lambda>x. k (f x)) xs)"
proof -
  have "insort_key k (f x) (map f ys) = map f (insort_key (\<lambda>x. k (f x)) x ys)" for x ys
    by (induction ys) auto
  then show ?thesis by (induction xs) simp_all
qed

lemma sort_key_int: "sort_key (\<lambda>x. int (k x)) xs = sort_key k xs"
proof -
  have "insort_key (\<lambda>x. int (k x)) x ys = insort_key k x ys" for x ys
    by (induction ys) auto
  then show ?thesis by (induction xs) simp_all
qed

lemma first_row_filter: "first_row g (map f (filter P xs)) = map_option (\<lambda>x. g (f x)) (find P xs)"
  by (induction xs) (simp_all add: first_row_def)

text \<open>The rows a SELECT finds, before it cuts out its columns.\<close>

lemma select_records:
  assumes tab: "table_of t db = Some tb" "tab_rows tb = map f xs"
    and cols: "list_all (has_column tb) (q_columns q)"
    and cond: "sql_where now tb (q_where q) = (Inr w :: 'd service_error + (sql_row \<Rightarrow> bool))"
    and chosen: "\<And>x. x \<in> set xs \<Longrightarrow> w (f x) \<longleftrightarrow> P x" and held: "\<And>x. held (f x) \<longleftrightarrow> H x"
    and order: "in_order (q_order q) (map f (filter P xs)) = map f ys"
  shows "sql_select now held t q db = (Inr (map (\<lambda>x. project (q_columns q) (f x))
    (case q_limit q of None \<Rightarrow> filter (\<lambda>x. \<not> H x) ys | Some n \<Rightarrow> take n (filter (\<lambda>x. \<not> H x) ys)))
    :: 'd service_error + sql_row list)"
proof -
  have "filter w (tab_rows tb) = map f (filter P xs)"
    using chosen by (simp add: tab(2) filter_map comp_def cong: filter_cong)
  then show ?thesis
    using cols held by (simp add: sql_select_def tab(1) cond order Let_def filter_map comp_def take_map comp_def split: option.split)
qed

lemma sum_records:
  assumes tab: "table_of t db = Some tb" "tab_rows tb = map f xs" and col: "has_column tb c"
    and cond: "sql_where now tb conds = (Inr w :: 'd service_error + (sql_row \<Rightarrow> bool))"
    and chosen: "\<And>x. x \<in> set xs \<Longrightarrow> w (f x) \<longleftrightarrow> P x" and amount: "\<And>x. cell (f x) c = SqlInt (g x)"
  shows "sql_sum now c t conds db = (Inr (sum_list (map g (filter P xs))) :: 'd service_error + int)"
proof -
  have "filter w (tab_rows tb) = map f (filter P xs)"
    using chosen by (simp add: tab(2) filter_map comp_def cong: filter_cong)
  then show ?thesis by (simp add: sql_sum_def tab(1) col cond comp_def amount)
qed

text \<open>A row looked up by a column that holds a UUID, and by one that holds a text.\<close>

definition lookup :: "string list \<Rightarrow> string \<Rightarrow> string \<Rightarrow> sql_query" where
  "lookup cols c v = \<lparr>q_columns = cols, q_where = [Equals c (PText v)], q_order = Unordered, q_limit = None\<rparr>"

lemma select_by_uuid:
  assumes tab: "table_of t db = Some tb" "tab_rows tb = map f xs" and cols: "list_all (has_column tb) cols"
    and col: "map_option col_type (find (\<lambda>col. col_name col = c) (tab_columns tb)) = Some UUID"
    and key: "\<And>x. cell (f x) c = SqlUuid (key x)"
  shows "(sql_select now (\<lambda>_. False) t (lookup cols c v) db :: 'd service_error + sql_row list) =
    (case bind_uuid v of
       Inl e \<Rightarrow> Inl e | Inr k \<Rightarrow> Inr (map (\<lambda>x. project cols (f x)) (filter (\<lambda>x. key x = k) xs)))"
proof (cases "bind_uuid v :: 'd service_error + string")
  case (Inl e)
  with cols col show ?thesis by (auto simp: sql_select_def tab(1) lookup_def)
next
  case (Inr k)
  have "sql_where now tb (q_where (lookup cols c v)) =
      (Inr (\<lambda>row. row_matches [(c, SqlUuid k)] row \<and> True) :: 'd service_error + (sql_row \<Rightarrow> bool))"
    using Inr col by (auto simp: lookup_def)
  from select_records [OF tab _ this, of "\<lambda>x. key x = k" "\<lambda>_. False" "\<lambda>_. False"] show ?thesis
    using Inr cols by (simp add: lookup_def row_matches_def key)
qed

lemma select_by_text:
  assumes tab: "table_of t db = Some tb" "tab_rows tb = map f xs" and cols: "list_all (has_column tb) cols"
    and col: "map_option col_type (find (\<lambda>col. col_name col = c) (tab_columns tb)) = Some TEXT"
    and key: "\<And>x. cell (f x) c = SqlText (key x)"
  shows "(sql_select now (\<lambda>_. False) t (lookup cols c v) db :: 'd service_error + sql_row list) =
    Inr (map (\<lambda>x. project cols (f x)) (filter (\<lambda>x. key x = v) xs))"
proof -
  have "sql_where now tb (q_where (lookup cols c v)) =
      (Inr (\<lambda>row. row_matches [(c, SqlText v)] row \<and> True) :: 'd service_error + (sql_row \<Rightarrow> bool))"
    using col by (auto simp: lookup_def)
  from select_records [OF tab _ this, of "\<lambda>x. key x = v" "\<lambda>_. False" "\<lambda>_. False"] show ?thesis
    using cols by (simp add: lookup_def row_matches_def key)
qed

text \<open>Numbered rows: they are in the order of their numbers.\<close>

lemma numbered_as_map: "numbered f xs = map (\<lambda>p. f (fst p) (snd p)) (enumerate 1 xs)"
  by (simp add: numbered_def case_prod_unfold)

lemma filter_enumerate: "map snd (filter (\<lambda>p. P (snd p)) (enumerate n xs)) = filter P xs"
  by (induction xs arbitrary: n) simp_all

lemma enumerate_sorted: "sort_key (\<lambda>p. int (fst p)) (filter P (enumerate n xs)) = filter P (enumerate n xs)"
proof -
  have "sorted (map fst (filter P (enumerate n xs)))"
    by (simp add: sorted_filter enumerate_eq_zip)
  then have "sorted (map (\<lambda>p. int (fst p)) (filter P (enumerate n xs)))"
    by (simp add: sorted_map)
  then show ?thesis by (rule sort_key_id_if_sorted)
qed

subsection \<open>The claim of the relay\<close>

definition event_of :: "sql_row \<Rightarrow> outbox_event" where
  "event_of row = \<lparr>ev_id = nat (int_cell (cell row ''id'')), ev_routingKey = text_cell (cell row ''routing_key''),
     ev_payload = json_cell (cell row ''payload'')\<rparr>"

definition claim_query :: "nat \<Rightarrow> sql_query" where
  "claim_query limit = \<lparr>q_columns = [''id'', ''routing_key'', ''payload''], q_where = [Missing ''published_at''],
     q_order = Ascending ''id'', q_limit = Some limit\<rparr>"

text \<open>The rows that other relays have locked.\<close>

definition held_rows :: "nat list \<Rightarrow> sql_row \<Rightarrow> bool" where
  "held_rows locked row \<longleftrightarrow> list_ex (\<lambda>i. cell row ''id'' = SqlInt (int i)) locked"

lemma claim_reads:
  assumes tab: "table_of ''outbox_events'' db = Some (outbox_events_table (map outbox_sql (outbox_rows ob)) n)"
  shows "(Inr (claimUnpublished locked limit ob) :: 'd service_error + outbox_event list) =
    (case sql_select now (held_rows locked) ''outbox_events'' (claim_query limit) db of
       Inl e \<Rightarrow> Inl e | Inr rows \<Rightarrow> Inr (map event_of rows))"
proof -
  let ?tb = "outbox_events_table (map outbox_sql (outbox_rows ob)) n"
  have cond: "sql_where now ?tb (q_where (claim_query limit)) =
      (Inr (\<lambda>row. cell row ''published_at'' = SqlNull \<and> True) :: 'd service_error + (sql_row \<Rightarrow> bool))"
    by (simp add: claim_query_def outbox_events_table_def has_column_def)
  have "order_value ''id'' (outbox_sql r) = int (ob_id r)" for r by (simp add: order_value_def)
  then have order: "in_order (q_order (claim_query limit)) (map outbox_sql (filter (\<lambda>r. ob_published_at r = None) (outbox_rows ob))) =
      map outbox_sql (sort_key ob_id (unpublished ob))"
    by (simp add: claim_query_def sort_key_image sort_key_int unpublished_def)
  have held: "held_rows locked (outbox_sql r) \<longleftrightarrow> ob_id r \<in> set locked" for r
    by (auto simp: held_rows_def list_ex_iff)
  have decode: "event_of (project (q_columns (claim_query limit)) (outbox_sql r)) = to_event r" for r
    by (simp add: event_of_def claim_query_def project_def cell_def outbox_sql_def to_event_def)
  have "(sql_select now (held_rows locked) ''outbox_events'' (claim_query limit) db :: 'd service_error + sql_row list) =
      Inr (map (\<lambda>r. project (q_columns (claim_query limit)) (outbox_sql r))
        (case q_limit (claim_query limit) of
           None \<Rightarrow> filter (\<lambda>r. ob_id r \<notin> set locked) (sort_key ob_id (unpublished ob))
         | Some k \<Rightarrow> take k (filter (\<lambda>r. ob_id r \<notin> set locked) (sort_key ob_id (unpublished ob)))))"
    by (rule select_records [where H = "\<lambda>r. ob_id r \<in> set locked", OF tab _ _ cond _ _ order])
      (simp_all only: held, auto simp: outbox_events_table_def claim_query_def has_column_def outbox_sql_def cell_def split: option.splits)
  moreover have "q_limit (claim_query limit) = Some limit" by (simp add: claim_query_def)
  ultimately show ?thesis by (simp add: claimUnpublished_def decode)
qed

end
