(* ===== verification/BankSchema.thy ===== *)
theory BankSchema
  imports SchemaRuns BankSteps
begin

text \<open>
  Bank A's migrations (migrations/), statement by statement, the database they build, and what its
  constraints make of the queries of the repositories. \<open>bank_sql\<close> reads a database of \<open>BankDb\<close> as
  tables under that schema.
\<close>

subsection \<open>The migrations\<close>

definition create_accounts :: "sql_statement list" where
  "create_accounts =
     [CreateTable ''accounts''
        [Column ''id'' UUID True GenRandomUuid PrimaryKey None,
         Column ''owner_name'' TEXT True NoDefault NoKey None,
         Column ''created_at'' TIMESTAMPTZ True NowDefault NoKey None]
        [LengthBetween ''owner_name'' 1 120]]"

definition create_ledger_entries :: "sql_statement list" where
  "create_ledger_entries =
     [CreateTable ''ledger_entries''
        [Column ''id'' BIGINT True GeneratedIdentity PrimaryKey None,
         Column ''transfer_id'' UUID True NoDefault NoKey None,
         Column ''account_id'' UUID True NoDefault NoKey (Some (''accounts'', ''id'')),
         Column ''amount'' BIGINT True NoDefault NoKey None,
         Column ''created_at'' TIMESTAMPTZ True NowDefault NoKey None]
        [NotEqualTo ''amount'' 0],
      CreateIndex ''ledger_entries_account_id_idx'' ''ledger_entries'',
      CreateRaisingFunction ''forbid_ledger_mutation'' ''ledger_entries is append-only'',
      CreateTrigger ''ledger_entries_append_only'' ''ledger_entries'' ''forbid_ledger_mutation'']"

definition create_transfers :: "sql_statement list" where
  "create_transfers =
     [CreateTable ''transfers''
        [Column ''id'' UUID True NoDefault PrimaryKey None,
         Column ''idempotency_key'' TEXT True NoDefault UniqueKey None,
         Column ''payer_account_id'' UUID True NoDefault NoKey (Some (''accounts'', ''id'')),
         Column ''payee_account_id'' UUID True NoDefault NoKey (Some (''accounts'', ''id'')),
         Column ''amount'' BIGINT True NoDefault NoKey None,
         Column ''created_at'' TIMESTAMPTZ True NowDefault NoKey None]
        [LengthBetween ''idempotency_key'' 1 255, GreaterThan ''amount'' 0,
         ColumnsDiffer ''payer_account_id'' ''payee_account_id''],
      CreateRaisingFunction ''forbid_transfer_mutation'' ''transfers are immutable'',
      CreateTrigger ''transfers_immutable'' ''transfers'' ''forbid_transfer_mutation'',
      AddForeignKey ''ledger_entries'' ''transfer_id'' ''transfers'' ''id'']"

definition create_outbox_events :: "sql_statement list" where
  "create_outbox_events =
     [CreateTable ''outbox_events''
        [Column ''id'' BIGINT True GeneratedIdentity PrimaryKey None,
         Column ''aggregate_id'' UUID True NoDefault NoKey None,
         Column ''event_type'' TEXT True NoDefault NoKey None,
         Column ''routing_key'' TEXT True NoDefault NoKey None,
         Column ''payload'' JSONB True NoDefault NoKey None,
         Column ''created_at'' TIMESTAMPTZ True NowDefault NoKey None,
         Column ''published_at'' TIMESTAMPTZ False NoDefault NoKey None]
        [],
      CreateIndex ''outbox_events_unpublished_idx'' ''outbox_events'']"

definition create_interbank_transfers :: "sql_statement list" where
  "create_interbank_transfers =
     [InsertInto ''accounts''
        [(''id'', PText ''00000000-0000-0000-0000-000000000001''),
         (''owner_name'', PText ''suspense (interbank transfers in transit)'')],
      CreateTable ''interbank_transfers''
        [Column ''transfer_id'' UUID True NoDefault PrimaryKey (Some (''transfers'', ''id'')),
         Column ''payee_account_ref'' TEXT True NoDefault NoKey None,
         Column ''status'' TEXT True NoDefault NoKey None,
         Column ''created_at'' TIMESTAMPTZ True NowDefault NoKey None,
         Column ''updated_at'' TIMESTAMPTZ True NowDefault NoKey None]
        [LengthBetween ''payee_account_ref'' 1 255,
         OneOf ''status'' [''DEBITED'', ''CONFIRMED'', ''COMPENSATED'']],
      CreateIndex ''interbank_transfers_status_idx'' ''interbank_transfers'']"

definition create_dev_treasury_account :: "sql_statement list" where
  "create_dev_treasury_account =
     [InsertInto ''accounts''
        [(''id'', PText ''00000000-0000-0000-0000-000000000099''),
         (''owner_name'', PText ''dev treasury (demo seeding only, not part of the public API)'')]]"

definition add_payee_bank_id :: "sql_statement list" where
  "add_payee_bank_id =
     [AddColumn ''interbank_transfers''
        (Column ''payee_bank_id'' TEXT True (LiteralDefault (SqlText ''bank-b'')) NoKey None),
      DropDefault ''interbank_transfers'' ''payee_bank_id'']"

text \<open>The directory: every file with its statements.\<close>

definition bank_migrations :: "(string \<times> sql_statement list) list" where
  "bank_migrations =
     [(''001_create_accounts.sql'', create_accounts),
      (''002_create_ledger_entries.sql'', create_ledger_entries),
      (''003_create_transfers.sql'', create_transfers),
      (''004_create_outbox_events.sql'', create_outbox_events),
      (''005_create_interbank_transfers.sql'', create_interbank_transfers),
      (''006_create_dev_treasury_account.sql'', create_dev_treasury_account),
      (''007_add_payee_bank_id_to_interbank_transfers.sql'', add_payee_bank_id)]"

subsection \<open>The rows\<close>

definition account_sql :: "account_row \<Rightarrow> sql_row" where
  "account_sql r = [(''id'', SqlUuid (acc_id r)), (''owner_name'', SqlText (acc_owner_name r)),
     (''created_at'', SqlTime (acc_created_at r))]"

definition ledger_sql :: "nat \<Rightarrow> ledger_row \<Rightarrow> sql_row" where
  "ledger_sql i r = [(''id'', SqlInt (int i)), (''transfer_id'', SqlUuid (led_transfer_id r)),
     (''account_id'', SqlUuid (led_account_id r)), (''amount'', SqlInt (led_amount r)),
     (''created_at'', SqlTime (led_created_at r))]"

definition transfer_sql :: "transfer_row \<Rightarrow> sql_row" where
  "transfer_sql r = [(''id'', SqlUuid (trow_id r)), (''idempotency_key'', SqlText (trow_idempotency_key r)),
     (''payer_account_id'', SqlUuid (trow_payer_account_id r)), (''payee_account_id'', SqlUuid (trow_payee_account_id r)),
     (''amount'', SqlInt (trow_amount r)), (''created_at'', SqlTime (trow_created_at r))]"

fun status_text :: "interbank_status \<Rightarrow> string" where
  "status_text DEBITED = ''DEBITED''"
| "status_text CONFIRMED = ''CONFIRMED''"
| "status_text COMPENSATED = ''COMPENSATED''"

definition interbank_sql :: "interbank_row \<Rightarrow> sql_row" where
  "interbank_sql r = [(''transfer_id'', SqlUuid (ib_transfer_id r)), (''payee_account_ref'', SqlText (ib_payee_account_ref r)),
     (''status'', SqlText (status_text (ib_status r))), (''created_at'', SqlTime (ib_created_at r)),
     (''updated_at'', SqlTime (ib_updated_at r)), (''payee_bank_id'', SqlText (ib_payee_bank_id r))]"

subsection \<open>The database they build\<close>

text \<open>The tables after the last migration.\<close>

definition accounts_table :: "sql_row list \<Rightarrow> nat \<Rightarrow> sql_table" where
  "accounts_table rows n =
     \<lparr>tab_columns =
        [Column ''id'' UUID True GenRandomUuid PrimaryKey None,
         Column ''owner_name'' TEXT True NoDefault NoKey None,
         Column ''created_at'' TIMESTAMPTZ True NowDefault NoKey None],
      tab_checks = [LengthBetween ''owner_name'' 1 120], tab_fkeys = [], tab_rows = rows, tab_next = n,
      tab_guard = None\<rparr>"

definition ledger_entries_table :: "sql_row list \<Rightarrow> nat \<Rightarrow> sql_table" where
  "ledger_entries_table rows n =
     \<lparr>tab_columns =
        [Column ''id'' BIGINT True GeneratedIdentity PrimaryKey None,
         Column ''transfer_id'' UUID True NoDefault NoKey None,
         Column ''account_id'' UUID True NoDefault NoKey (Some (''accounts'', ''id'')),
         Column ''amount'' BIGINT True NoDefault NoKey None,
         Column ''created_at'' TIMESTAMPTZ True NowDefault NoKey None],
      tab_checks = [NotEqualTo ''amount'' 0],
      tab_fkeys = [(''account_id'', ''accounts'', ''id''), (''transfer_id'', ''transfers'', ''id'')],
      tab_rows = rows, tab_next = n, tab_guard = Some ''ledger_entries is append-only''\<rparr>"

definition transfers_table :: "sql_row list \<Rightarrow> nat \<Rightarrow> sql_table" where
  "transfers_table rows n =
     \<lparr>tab_columns =
        [Column ''id'' UUID True NoDefault PrimaryKey None,
         Column ''idempotency_key'' TEXT True NoDefault UniqueKey None,
         Column ''payer_account_id'' UUID True NoDefault NoKey (Some (''accounts'', ''id'')),
         Column ''payee_account_id'' UUID True NoDefault NoKey (Some (''accounts'', ''id'')),
         Column ''amount'' BIGINT True NoDefault NoKey None,
         Column ''created_at'' TIMESTAMPTZ True NowDefault NoKey None],
      tab_checks =
        [LengthBetween ''idempotency_key'' 1 255, GreaterThan ''amount'' 0,
         ColumnsDiffer ''payer_account_id'' ''payee_account_id''],
      tab_fkeys = [(''payer_account_id'', ''accounts'', ''id''), (''payee_account_id'', ''accounts'', ''id'')],
      tab_rows = rows, tab_next = n, tab_guard = Some ''transfers are immutable''\<rparr>"

definition interbank_transfers_table :: "sql_row list \<Rightarrow> nat \<Rightarrow> sql_table" where
  "interbank_transfers_table rows n =
     \<lparr>tab_columns =
        [Column ''transfer_id'' UUID True NoDefault PrimaryKey (Some (''transfers'', ''id'')),
         Column ''payee_account_ref'' TEXT True NoDefault NoKey None,
         Column ''status'' TEXT True NoDefault NoKey None,
         Column ''created_at'' TIMESTAMPTZ True NowDefault NoKey None,
         Column ''updated_at'' TIMESTAMPTZ True NowDefault NoKey None,
         Column ''payee_bank_id'' TEXT True NoDefault NoKey None],
      tab_checks =
        [LengthBetween ''payee_account_ref'' 1 255, OneOf ''status'' [''DEBITED'', ''CONFIRMED'', ''COMPENSATED'']],
      tab_fkeys = [(''transfer_id'', ''transfers'', ''id'')], tab_rows = rows, tab_next = n, tab_guard = None\<rparr>"

text \<open>A database of \<open>BankDb\<close> as the tables of that schema; the rows of a table are numbered from one.\<close>

definition bank_sql :: "bank_db \<Rightarrow> sql_db" where
  "bank_sql s =
     \<lparr>sql_tables =
        [(''accounts'', accounts_table (map account_sql (accounts s)) (Suc (length (accounts s)))),
         (''ledger_entries'', ledger_entries_table (numbered ledger_sql (ledger_entries s))
            (Suc (length (ledger_entries s)))),
         (''transfers'', transfers_table (map transfer_sql (transfers s)) (Suc (length (transfers s)))),
         (''outbox_events'', outbox_events_table (map outbox_sql (outbox_rows (outbox s))) (outbox_next_id (outbox s))),
         (''interbank_transfers'', interbank_transfers_table (map interbank_sql (interbank_transfers s))
            (Suc (length (interbank_transfers s))))],
      sql_functions =
        [(''forbid_ledger_mutation'', ''ledger_entries is append-only''),
         (''forbid_transfer_mutation'', ''transfers are immutable'')],
      sql_indexes =
        [''ledger_entries_account_id_idx'', ''outbox_events_unpublished_idx'', ''interbank_transfers_status_idx'']\<rparr>"

lemmas bank_tables = accounts_table_def ledger_entries_table_def transfers_table_def outbox_events_table_def
  interbank_transfers_table_def

lemmas bank_rows = account_sql_def ledger_sql_def transfer_sql_def outbox_sql_def interbank_sql_def

lemmas literal_uuids = suspense_uuid [unfolded SUSPENSE_ACCOUNT_ID_def] treasury_uuid [unfolded DEV_TREASURY_ACCOUNT_ID_def]

lemma tables_built:
  "execute_all 0 uuid (create_accounts @ create_ledger_entries @ create_transfers @ create_outbox_events) empty_sql =
     Inr ((bank_sql migrated_bank)\<lparr>sql_tables :=
       [(''accounts'', accounts_table [] 1), (''ledger_entries'', ledger_entries_table [] 1),
        (''transfers'', transfers_table [] 1), (''outbox_events'', outbox_events_table [] 1)],
       sql_indexes := [''ledger_entries_account_id_idx'', ''outbox_events_unpublished_idx'']\<rparr>)"
  by (simp add: create_accounts_def create_ledger_entries_def create_transfers_def create_outbox_events_def
      empty_sql_def bank_sql_def bank_tables statement_eval)

lemma accounts_seeded:
  "execute_all 0 uuid (create_interbank_transfers @ create_dev_treasury_account @ add_payee_bank_id)
     ((bank_sql migrated_bank)\<lparr>sql_tables :=
       [(''accounts'', accounts_table [] 1), (''ledger_entries'', ledger_entries_table [] 1),
        (''transfers'', transfers_table [] 1), (''outbox_events'', outbox_events_table [] 1)],
       sql_indexes := [''ledger_entries_account_id_idx'', ''outbox_events_unpublished_idx'']\<rparr>) =
   Inr (bank_sql migrated_bank)"
  by (simp add: create_interbank_transfers_def create_dev_treasury_account_def add_payee_bank_id_def
      bank_sql_def bank_tables statement_eval bind_uuid_def literal_uuids migrated_bank_def account_sql_def
      SUSPENSE_ACCOUNT_ID_def DEV_TREASURY_ACCOUNT_ID_def empty_outbox_def)

subsection \<open>The queries\<close>

text \<open>What an operation of a repository leaves in the database, or its error.\<close>

definition bank_effect :: "'e + 'a \<times> bank_db \<Rightarrow> 'e + sql_db" where
  "bank_effect r = (case r of Inl e \<Rightarrow> Inl e | Inr (_, t) \<Rightarrow> Inr (bank_sql t))"

lemma bank_effect_simps [simp]: "bank_effect (Inl e) = Inl e" "bank_effect (Inr (a, t)) = Inr (bank_sql t)"
  by (simp_all add: bank_effect_def)

lemma ledger_id_unused [simp]:
  "list_ex (\<lambda>r. (case map_of r ''id'' of None \<Rightarrow> SqlNull | Some v \<Rightarrow> v) = SqlInt (1 + int (length xs)))
     (numbered ledger_sql xs) \<longleftrightarrow> False"
  using numbered_unused [of ledger_sql "''id''" xs] by (simp add: ledger_sql_def cell_def)

lemma create_account_sql:
  "bank_effect (AccountRepository_create uuid now ownerName s) =
   sql_effect (sql_insert now uuid ''accounts'' None [(''owner_name'', PText ownerName)] (bank_sql s))"
  by (simp add: AccountRepository_create_def db_guard_def tx_bind_def account_exists_def bank_sql_def bank_tables
      statement_eval account_sql_def)

lemma insert_ledger_sql:
  "bank_effect (ledger_insert now entry s) =
   sql_effect (sql_insert now uuid ''ledger_entries'' None
     [(''transfer_id'', PText (entry_transferId entry)), (''account_id'', PText (entry_accountId entry)),
      (''amount'', PNumber (js_of_int (cents (entry_amount entry))))] (bank_sql s))"
proof (cases "bind_uuid (entry_transferId entry) :: bank_error + string")
  case (Inl e)
  then show ?thesis by (simp add: ledger_insert_def bank_sql_def bank_tables statement_eval)
next
  case t: (Inr t)
  show ?thesis
  proof (cases "bind_uuid (entry_accountId entry) :: bank_error + string")
    case (Inl e)
    with t show ?thesis by (simp add: ledger_insert_def bank_sql_def bank_tables statement_eval)
  next
    case a: (Inr a)
    show ?thesis
    proof (cases "bind_bigint (js_of_int (cents (entry_amount entry))) :: bank_error + int")
      case (Inl e)
      with t a show ?thesis by (simp add: ledger_insert_def bank_sql_def bank_tables statement_eval)
    next
      case (Inr n)
      with t a show ?thesis
        by (simp add: ledger_insert_def db_guard_def tx_bind_def account_exists_def transfer_exists_def bank_sql_def
            bank_tables statement_eval account_sql_def transfer_sql_def) (simp add: ledger_sql_def)
    qed
  qed
qed

lemma insert_outbox_sql:
  assumes "outbox_ok (outbox s)"
  shows "bank_effect (OutboxRepository_insert now aggregateId eventType routingKey payload s) =
   sql_effect (sql_insert now uuid ''outbox_events'' None
     [(''aggregate_id'', PText aggregateId), (''event_type'', PText eventType), (''routing_key'', PText routingKey),
      (''payload'', PJson payload)] (bank_sql s))"
proof (cases "bind_uuid aggregateId :: bank_error + string")
  case (Inl e)
  then show ?thesis by (simp add: OutboxRepository_insert_def bank_sql_def bank_tables statement_eval)
next
  case (Inr a)
  with outbox_next_unused [OF assms] show ?thesis
    by (simp add: OutboxRepository_insert_def bank_sql_def bank_tables statement_eval outbox_add_def outbox_sql_def)
qed

lemma insert_interbank_sql:
  "bank_effect (InterbankRepository_insert now transferId payeeBankId payeeAccountRef s) =
   sql_effect (sql_insert now uuid ''interbank_transfers'' None
     [(''transfer_id'', PText transferId), (''payee_bank_id'', PText payeeBankId),
      (''payee_account_ref'', PText payeeAccountRef), (''status'', PText ''DEBITED'')] (bank_sql s))"
proof (cases "bind_uuid transferId :: bank_error + string")
  case (Inl e)
  then show ?thesis by (simp add: InterbankRepository_insert_def bank_sql_def bank_tables statement_eval)
next
  case (Inr t)
  then show ?thesis
    by (simp add: InterbankRepository_insert_def db_guard_def tx_bind_def transfer_exists_def bank_sql_def
        bank_tables statement_eval transfer_sql_def interbank_sql_def)
qed

lemma insert_transfer_sql:
  assumes "money_ok (tr_amount transfer)"
  shows "bank_effect (TransferRepository_insert now transfer key s) =
   sql_effect (sql_insert now uuid ''transfers'' (Some ''idempotency_key'')
     [(''id'', PText (tr_id transfer)), (''idempotency_key'', PText key),
      (''payer_account_id'', PText (tr_payerAccountId transfer)), (''payee_account_id'', PText (tr_payeeAccountId transfer)),
      (''amount'', PNumber (js_of_int (cents (tr_amount transfer))))] (bank_sql s))"
proof -
  define n where "n = cents (tr_amount transfer)"
  have n: "bind_bigint (js_of_int n) = (Inr n :: bank_error + int)" "Money_fromCents (js_of_int n) = Inr (Money n)"
    using assms by (simp_all add: n_def money_ok_def bind_bigint_safe Money_fromCents_of_int)
  show ?thesis
  proof (cases "bind_uuid (tr_id transfer) :: bank_error + string")
    case (Inl e)
    then show ?thesis by (simp add: TransferRepository_insert_def bank_sql_def bank_tables statement_eval)
  next
    case i: (Inr i)
    show ?thesis
    proof (cases "bind_uuid (tr_payerAccountId transfer) :: bank_error + string")
      case (Inl e)
      with i show ?thesis by (simp add: TransferRepository_insert_def bank_sql_def bank_tables statement_eval)
    next
      case p: (Inr p)
      show ?thesis
      proof (cases "bind_uuid (tr_payeeAccountId transfer) :: bank_error + string")
        case (Inl e)
        with i p show ?thesis by (simp add: TransferRepository_insert_def bank_sql_def bank_tables statement_eval)
      next
        case (Inr q)
        with i p n show ?thesis
          by (simp add: TransferRepository_insert_def insert_transfer_row_def db_guard_def tx_bind_def account_exists_def
              transfer_exists_def key_taken_def toRecord_def bank_sql_def bank_tables statement_eval account_sql_def
              transfer_sql_def flip: n_def)
      qed
    qed
  qed
qed

lemma insert_seed_sql:
  "bank_effect (seed_insert now transferId key accountId amount s) =
   sql_effect (sql_insert now uuid ''transfers'' None
     [(''id'', PText transferId), (''idempotency_key'', PText key),
      (''payer_account_id'', PText DEV_TREASURY_ACCOUNT_ID), (''payee_account_id'', PText accountId),
      (''amount'', PNumber (js_of_int (cents amount)))] (bank_sql s))"
proof -
  have treasury: "bind_uuid DEV_TREASURY_ACCOUNT_ID = (Inr DEV_TREASURY_ACCOUNT_ID :: bank_error + string)"
    by (simp add: bind_uuid_def)
  show ?thesis
  proof (cases "bind_uuid transferId :: bank_error + string")
    case (Inl e)
    then show ?thesis by (simp add: seed_insert_def bank_sql_def bank_tables statement_eval)
  next
    case i: (Inr i)
    show ?thesis
    proof (cases "bind_uuid accountId :: bank_error + string")
      case (Inl e)
      with i treasury show ?thesis by (simp add: seed_insert_def bank_sql_def bank_tables statement_eval)
    next
      case q: (Inr q)
      show ?thesis
      proof (cases "bind_bigint (js_of_int (cents amount)) :: bank_error + int")
        case (Inl e)
        with i q treasury show ?thesis by (simp add: seed_insert_def bank_sql_def bank_tables statement_eval)
      next
        case (Inr n)
        with i q treasury show ?thesis
          by (simp add: seed_insert_def db_guard_def tx_bind_def account_exists_def transfer_exists_def key_taken_def
              add_transfer_def bank_sql_def bank_tables statement_eval account_sql_def transfer_sql_def)
      qed
    qed
  qed
qed

text \<open>The updates: a row that is changed satisfied its CHECKs when it was stored, and has to again.\<close>

lemma status_text_inj [simp]: "status_text a = status_text b \<longleftrightarrow> a = b"
  by (cases a; cases b) simp_all

definition texts_fit :: "bank_db \<Rightarrow> bool" where
  "texts_fit s \<longleftrightarrow>
     (\<forall>r \<in> set (accounts s). 1 \<le> length (acc_owner_name r) \<and> length (acc_owner_name r) \<le> 120) \<and>
     (\<forall>r \<in> set (interbank_transfers s). 1 \<le> length (ib_payee_account_ref r) \<and> length (ib_payee_account_ref r) \<le> 255)"

lemma update_interbank_sql:
  assumes "texts_fit s"
  shows "bank_effect (tx_bind (tx_check (bind_uuid transferId)) (\<lambda>k s. Inr ((), update_debited st now k s)) s :: bank_error + unit \<times> bank_db) =
   sql_effect (sql_update now ''interbank_transfers'' [(''status'', PText (status_text st)), (''updated_at'', PNow)]
     [(''transfer_id'', PText transferId), (''status'', PText ''DEBITED'')] (bank_sql s))"
proof (cases "bind_uuid transferId :: bank_error + string")
  case (Inl e)
  then show ?thesis by (simp add: sql_update_def bank_sql_def bank_tables table_of_def)
next
  case (Inr k)
  let ?tb = "interbank_transfers_table (map interbank_sql (interbank_transfers s)) (Suc (length (interbank_transfers s)))"
  have debited: "''DEBITED'' = status_text DEBITED" by simp
  have "sql_update now ''interbank_transfers'' [(''status'', PText (status_text st)), (''updated_at'', PNow)]
      [(''transfer_id'', PText transferId), (''status'', PText ''DEBITED'')] (bank_sql s) =
    (Inr ((), set_table ''interbank_transfers'' (?tb\<lparr>tab_rows := map interbank_sql
      (map (\<lambda>r. if ib_transfer_id r = k \<and> ib_status r = DEBITED then r\<lparr>ib_status := st, ib_updated_at := now\<rparr> else r)
         (interbank_transfers s))\<rparr>) (bank_sql s)) :: bank_error + unit \<times> sql_db)"
  proof (rule sql_update_records)
    show "row_matches [(''transfer_id'', SqlUuid k), (''status'', SqlText ''DEBITED'')] (interbank_sql x) \<longleftrightarrow>
        ib_transfer_id x = k \<and> ib_status x = DEBITED" for x
      unfolding debited by (simp add: row_matches_def interbank_sql_def cell_def del: status_text.simps)
    show "set_cells [(''status'', SqlText (status_text st)), (''updated_at'', SqlTime now)] (interbank_sql x) =
        interbank_sql (x\<lparr>ib_status := st, ib_updated_at := now\<rparr>) \<and>
      nulls_pass ?tb (interbank_sql (x\<lparr>ib_status := st, ib_updated_at := now\<rparr>)) \<and>
      checks_pass ?tb (interbank_sql (x\<lparr>ib_status := st, ib_updated_at := now\<rparr>))" if "x \<in> set (interbank_transfers s)" for x
      using that assms by (cases st)
        (auto simp: set_cells_def interbank_sql_def nulls_pass_def checks_pass_def cell_def interbank_transfers_table_def texts_fit_def)
  qed (use Inr in \<open>simp_all add: bank_sql_def table_of_def set_table_def interbank_transfers_table_def is_key_def\<close>)
  with Inr show ?thesis
    by (simp add: update_debited_def bank_sql_def set_table_def interbank_transfers_table_def)
qed

lemma mark_published_sql:
  assumes "safe_int (int i)"
  shows "(Inr (bank_sql (s\<lparr>outbox := markPublished now i (outbox s)\<rparr>)) :: bank_error + sql_db) =
   sql_effect (sql_update now ''outbox_events'' [(''published_at'', PNow)] [(''id'', PNumber (js_of_int (int i)))] (bank_sql s))"
proof -
  have "table_of ''outbox_events'' (bank_sql s) =
      Some (outbox_events_table (map outbox_sql (outbox_rows (outbox s))) (outbox_next_id (outbox s)))"
    "set_table ''outbox_events'' (outbox_events_table (map outbox_sql (outbox_rows (outbox s))) (outbox_next_id (outbox s)))
       (bank_sql s) = bank_sql s"
    by (simp_all add: table_of_def set_table_def bank_sql_def)
  note mark = mark_published_table [OF assms this, of now]
  have built: "set_table ''outbox_events'' (outbox_events_table (map outbox_sql (outbox_rows (markPublished now i (outbox s))))
      (outbox_next_id (outbox s))) (bank_sql s) = bank_sql (s\<lparr>outbox := markPublished now i (outbox s)\<rparr>)"
    by (simp add: set_table_def bank_sql_def markPublished_def)
  show ?thesis by (simp only: mark built sql_effect_simps)
qed

lemma bank_files_sorted: "sorted (map fst bank_migrations)" "distinct (map fst bank_migrations)"
  by code_simp+

lemma bank_migrations_run: "execute_all 0 uuid (concat (map snd bank_migrations)) empty_sql = Inr (bank_sql migrated_bank)"
proof -
  have "concat (map snd bank_migrations) =
      (create_accounts @ create_ledger_entries @ create_transfers @ create_outbox_events) @
      (create_interbank_transfers @ create_dev_treasury_account @ add_payee_bank_id)"
    by (simp add: bank_migrations_def)
  then show ?thesis by (simp only:) (subst execute_all_append, simp only: tables_built sum.case accounts_seeded)
qed

subsection \<open>Every reachable database satisfies its constraints\<close>

lemma cells [simp]:
  "cell (account_sql a) ''id'' = SqlUuid (acc_id a)"
  "cell (transfer_sql r) ''id'' = SqlUuid (trow_id r)"
  "cell (transfer_sql r) ''idempotency_key'' = SqlText (trow_idempotency_key r)"
  "cell (ledger_sql i e) ''id'' = SqlInt (int i)"
  "cell (interbank_sql ib) ''transfer_id'' = SqlUuid (ib_transfer_id ib)"
  by (simp_all add: cell_def bank_rows)

lemma refers_account:
  "cell row c = SqlUuid k \<Longrightarrow> account_exists k s \<Longrightarrow> refers (bank_sql s) row (c, ''accounts'', ''id'')"
  by (auto simp: refers_def bank_sql_def table_of_def accounts_table_def account_exists_def list_ex_iff)

lemma refers_transfer:
  "cell row c = SqlUuid (trow_id r) \<Longrightarrow> r \<in> set (transfers s) \<Longrightarrow> refers (bank_sql s) row (c, ''transfers'', ''id'')"
  by (auto simp: refers_def bank_sql_def table_of_def transfers_table_def list_ex_iff)

lemma accounts_integrity:
  assumes "bank_inv s" and "texts_fit s"
  shows "table_integrity (bank_sql s) (accounts_table (map account_sql (accounts s)) n)"
  using assms distinct_wrapped [of acc_id "accounts s" SqlUuid]
  by (auto simp: table_integrity_def keys_differ_def accounts_table_def nulls_pass_def checks_pass_def texts_fit_def
      inj_def comp_def bank_inv_def accounts_ok_def) (simp_all add: account_sql_def cell_def)

lemma transfers_integrity:
  assumes inv: "bank_inv s"
  shows "table_integrity (bank_sql s) (transfers_table (map transfer_sql (transfers s)) n)"
  unfolding table_integrity_def
proof (intro conjI ballI)
  have "distinct (map trow_id (transfers s))" "distinct (map trow_idempotency_key (transfers s))"
    using inv by (simp_all add: bank_inv_def transfers_ok_def)
  then show "keys_differ (transfers_table (map transfer_sql (transfers s)) n)"
    using distinct_wrapped [of trow_id "transfers s" SqlUuid] distinct_wrapped [of trow_idempotency_key "transfers s" SqlText]
    by (simp add: keys_differ_def transfers_table_def inj_def comp_def)
next
  fix row assume "row \<in> set (tab_rows (transfers_table (map transfer_sql (transfers s)) n))"
  then obtain r where row: "row = transfer_sql r" and "r \<in> set (transfers s)" by (auto simp: transfers_table_def)
  with inv have ok: "row_ok s r" by (simp add: bank_inv_def transfers_ok_def)
  show "nulls_pass (transfers_table (map transfer_sql (transfers s)) n) row"
    by (simp add: row nulls_pass_def transfers_table_def transfer_sql_def cell_def)
  show "checks_pass (transfers_table (map transfer_sql (transfers s)) n) row"
    using ok by (simp add: row checks_pass_def transfers_table_def transfer_sql_def cell_def row_ok_def)
  have "refers (bank_sql s) row (''payer_account_id'', ''accounts'', ''id'')"
    by (rule refers_account [of _ _ "trow_payer_account_id r"]) (use ok in \<open>simp_all add: row transfer_sql_def cell_def row_ok_def\<close>)
  moreover have "refers (bank_sql s) row (''payee_account_id'', ''accounts'', ''id'')"
    by (rule refers_account [of _ _ "trow_payee_account_id r"]) (use ok in \<open>simp_all add: row transfer_sql_def cell_def row_ok_def\<close>)
  ultimately show "list_all (refers (bank_sql s) row) (tab_fkeys (transfers_table (map transfer_sql (transfers s)) n))"
    by (simp add: transfers_table_def)
qed

lemma ledger_integrity:
  assumes inv: "bank_inv s"
  shows "table_integrity (bank_sql s) (ledger_entries_table (numbered ledger_sql (ledger_entries s)) n)"
  unfolding table_integrity_def
proof (intro conjI ballI)
  show "keys_differ (ledger_entries_table (numbered ledger_sql (ledger_entries s)) n)"
    using numbered_cells [of ledger_sql "''id''" "ledger_entries s"] by (simp add: keys_differ_def ledger_entries_table_def)
next
  fix row assume "row \<in> set (tab_rows (ledger_entries_table (numbered ledger_sql (ledger_entries s)) n))"
  then obtain i e where row: "row = ledger_sql i e" and "e \<in> set (ledger_entries s)"
    by (auto simp: ledger_entries_table_def numbered_def in_set_enumerate_eq)
  then obtain r where r: "r \<in> set (transfers s)" "e \<in> set (row_entries r)" "row_ok s r"
    using inv by (auto simp: bank_inv_def transfers_ok_def)
  have e: "led_transfer_id e = trow_id r" "led_amount e \<noteq> 0" "account_exists (led_account_id e) s"
    using r(2,3) by (auto simp: row_entries_def row_ok_def)
  show "nulls_pass (ledger_entries_table (numbered ledger_sql (ledger_entries s)) n) row"
    by (simp add: row nulls_pass_def ledger_entries_table_def ledger_sql_def cell_def)
  show "checks_pass (ledger_entries_table (numbered ledger_sql (ledger_entries s)) n) row"
    using e(2) by (simp add: row checks_pass_def ledger_entries_table_def ledger_sql_def cell_def)
  have "refers (bank_sql s) row (''account_id'', ''accounts'', ''id'')"
    by (rule refers_account [OF _ e(3)]) (simp add: row ledger_sql_def cell_def)
  moreover have "refers (bank_sql s) row (''transfer_id'', ''transfers'', ''id'')"
    by (rule refers_transfer [OF _ r(1)]) (simp add: row ledger_sql_def cell_def e(1))
  ultimately show "list_all (refers (bank_sql s) row) (tab_fkeys (ledger_entries_table (numbered ledger_sql (ledger_entries s)) n))"
    by (simp add: ledger_entries_table_def)
qed

lemma interbank_integrity:
  assumes inv: "bank_inv s" and fit: "texts_fit s"
  shows "table_integrity (bank_sql s) (interbank_transfers_table (map interbank_sql (interbank_transfers s)) n)"
  unfolding table_integrity_def
proof (intro conjI ballI)
  show "keys_differ (interbank_transfers_table (map interbank_sql (interbank_transfers s)) n)"
    using inv distinct_wrapped [of ib_transfer_id "interbank_transfers s" SqlUuid]
    by (simp add: keys_differ_def interbank_transfers_table_def inj_def comp_def bank_inv_def interbank_ok_def)
next
  fix row assume "row \<in> set (tab_rows (interbank_transfers_table (map interbank_sql (interbank_transfers s)) n))"
  then obtain i where row: "row = interbank_sql i" and i: "i \<in> set (interbank_transfers s)"
    by (auto simp: interbank_transfers_table_def)
  then obtain r where r: "r \<in> set (transfers s)" "trow_id r = ib_transfer_id i"
    using inv by (auto simp: bank_inv_def interbank_ok_def)
  show "nulls_pass (interbank_transfers_table (map interbank_sql (interbank_transfers s)) n) row"
    by (simp add: row nulls_pass_def interbank_transfers_table_def interbank_sql_def cell_def)
  show "checks_pass (interbank_transfers_table (map interbank_sql (interbank_transfers s)) n) row"
    using i fit by (cases "ib_status i")
      (auto simp: row checks_pass_def interbank_transfers_table_def interbank_sql_def cell_def texts_fit_def)
  show "list_all (refers (bank_sql s) row) (tab_fkeys (interbank_transfers_table (map interbank_sql (interbank_transfers s)) n))"
    using refers_transfer [of row "''transfer_id''" r s] r by (simp add: row interbank_transfers_table_def)
qed

lemma bank_integrity:
  assumes "bank_inv s" and "texts_fit s"
  shows "integrity (bank_sql s)"
  using assms(1) accounts_integrity [OF assms] ledger_integrity [OF assms(1)] transfers_integrity [OF assms(1)]
    outbox_table_integrity [of "outbox s"] interbank_integrity [OF assms]
  by (simp add: integrity_def bank_inv_def) (simp add: bank_sql_def)

text \<open>The texts nobody else looks at: every transaction keeps within their bounds.\<close>

lemma texts_unchanged:
  "(\<And>s a t. m s = Inr (a, t) \<Longrightarrow> accounts t = accounts s \<and> interbank_transfers t = interbank_transfers s) \<Longrightarrow> tx_keeps texts_fit m"
  by (auto simp: tx_keeps_def texts_fit_def)

lemma texts_insert_transfer: "tx_keeps texts_fit (TransferRepository_insert now transfer key)"
  by (rule texts_unchanged)
    (auto simp: TransferRepository_insert_def insert_transfer_row_def tx_simps split: if_splits sum.splits)

lemma texts_ledger_append: "tx_keeps texts_fit (ledger_append now entries)"
proof (induction entries)
  case (Cons e es)
  have "tx_keeps texts_fit (ledger_insert now e)"
    by (rule texts_unchanged) (auto simp: ledger_insert_def tx_simps split: if_splits)
  with Cons show ?case by (simp add: tx_keeps_bind)
qed (auto simp: tx_keeps_def)

lemma texts_update: "texts_fit s \<Longrightarrow> texts_fit (update_debited st now k s)"
  by (auto simp: texts_fit_def update_debited_def)

lemma texts_interbank_insert: "tx_keeps texts_fit (InterbankRepository_insert now transferId payeeBankId ref)"
  by (auto simp: tx_keeps_def InterbankRepository_insert_def tx_simps texts_fit_def Let_def split: if_splits)

lemma texts_outbox_insert: "tx_keeps texts_fit (OutboxRepository_insert now a t k p)"
  by (rule texts_unchanged) (auto simp: OutboxRepository_insert_def tx_simps)

lemma texts_seed_insert: "tx_keeps texts_fit (seed_insert now i key a m)"
  by (rule texts_unchanged) (auto simp: seed_insert_def tx_simps add_transfer_def split: if_splits)

lemma texts_locks: "tx_keeps texts_fit (lockAccounts tr)"
  by (rule texts_unchanged) (auto simp: lockAccounts_Inr)

lemmas texts_keep = tx_keeps_bind texts_insert_transfer texts_ledger_append texts_interbank_insert texts_outbox_insert
  texts_seed_insert texts_locks tx_keeps_pure

lemma texts_transactions:
  "tx_keeps texts_fit (execute_tx now tr key)" "tx_keeps texts_fit (interbank_tx bankId now tr key ps)"
  "tx_keeps texts_fit (devSeed_tx uuid now a m)" "tx_keeps texts_fit (markConfirmed now i)"
  "tx_keeps texts_fit (compensate_tx now tr i)"
proof -
  show "tx_keeps texts_fit (markConfirmed now i)"
    by (auto simp: tx_keeps_def markConfirmed_Inr texts_update)
  have mark: "tx_keeps texts_fit (markCompensated now i)"
    by (auto simp: tx_keeps_def markCompensated_def tx_simps texts_update)
  show "tx_keeps texts_fit (compensate_tx now tr i)"
    unfolding compensate_tx_def by (intro texts_keep mark) (auto split: option.split intro: texts_keep)
  show "tx_keeps texts_fit (execute_tx now tr key)"
    unfolding execute_tx_def by (intro texts_keep) (auto split: option.split intro!: texts_keep)
  show "tx_keeps texts_fit (interbank_tx bankId now tr key ps)"
    unfolding interbank_tx_def by (intro texts_keep) (auto split: option.split intro!: texts_keep)
  show "tx_keeps texts_fit (devSeed_tx uuid now a m)"
    unfolding devSeed_tx_def by (intro texts_keep)
qed

lemma texts_step:
  assumes step: "bank_step s t" and fit: "texts_fit s"
  shows "texts_fit t"
  using step
proof cases
  case (open_account uuid now name a)
  with fit show ?thesis by (auto simp: AccountRepository_create_Inr texts_fit_def)
next
  case (relay publish commit locked now res ob sent)
  with fit show ?thesis by (simp add: texts_fit_def)
qed (rule tx_keepsD, rule texts_transactions, rule fit, assumption)+

lemma bank_reachable:
  "bank_step\<^sup>*\<^sup>* migrated_bank s \<Longrightarrow> bank_inv s \<and> texts_fit s"
proof (induction rule: rtranclp_induct)
  case base
  have "texts_fit migrated_bank" by (simp add: texts_fit_def migrated_bank_def)
  then show ?case by (simp add: bank_inv_migrated)
next
  case (step t u)
  then show ?case using bank_step_ok texts_step by blast
qed

subsection \<open>Properties\<close>

text \<open>
  C12. Bank A's queries and Bank A's schema are one. In every database the running bank can reach,
  no constraint of the migrated schema is violated, and each INSERT and UPDATE of the repositories
  (accounts, ledger, transfers, the seeding, sagas, outbox) does to the tables exactly what the
  query does under the constraints the migrations declare: the same rows, the same conversions, the
  same refusals.
\<close>
theorem bank_queries_obey_schema:
  assumes reach: "bank_step\<^sup>*\<^sup>* migrated_bank s" and m: "money_ok (tr_amount tr)" and i: "safe_int (int i)"
  shows "integrity (bank_sql s) \<and>
    bank_effect (AccountRepository_create uuid now name s) =
      sql_effect (sql_insert now uuid ''accounts'' None [(''owner_name'', PText name)] (bank_sql s)) \<and>
    bank_effect (TransferRepository_insert now tr key s) =
      sql_effect (sql_insert now uuid ''transfers'' (Some ''idempotency_key'')
        [(''id'', PText (tr_id tr)), (''idempotency_key'', PText key),
         (''payer_account_id'', PText (tr_payerAccountId tr)), (''payee_account_id'', PText (tr_payeeAccountId tr)),
         (''amount'', PNumber (js_of_int (cents (tr_amount tr))))] (bank_sql s)) \<and>
    bank_effect (seed_insert now k key a amount s) =
      sql_effect (sql_insert now uuid ''transfers'' None
        [(''id'', PText k), (''idempotency_key'', PText key), (''payer_account_id'', PText DEV_TREASURY_ACCOUNT_ID),
         (''payee_account_id'', PText a), (''amount'', PNumber (js_of_int (cents amount)))] (bank_sql s)) \<and>
    bank_effect (ledger_insert now entry s) =
      sql_effect (sql_insert now uuid ''ledger_entries'' None
        [(''transfer_id'', PText (entry_transferId entry)), (''account_id'', PText (entry_accountId entry)),
         (''amount'', PNumber (js_of_int (cents (entry_amount entry))))] (bank_sql s)) \<and>
    bank_effect (InterbankRepository_insert now k payeeBankId ref s) =
      sql_effect (sql_insert now uuid ''interbank_transfers'' None
        [(''transfer_id'', PText k), (''payee_bank_id'', PText payeeBankId), (''payee_account_ref'', PText ref),
         (''status'', PText ''DEBITED'')] (bank_sql s)) \<and>
    bank_effect (markConfirmed now k s) =
      sql_effect (sql_update now ''interbank_transfers'' [(''status'', PText ''CONFIRMED''), (''updated_at'', PNow)]
        [(''transfer_id'', PText k), (''status'', PText ''DEBITED'')] (bank_sql s)) \<and>
    bank_effect (markCompensated now k s) =
      sql_effect (sql_update now ''interbank_transfers'' [(''status'', PText ''COMPENSATED''), (''updated_at'', PNow)]
        [(''transfer_id'', PText k), (''status'', PText ''DEBITED'')] (bank_sql s)) \<and>
    bank_effect (OutboxRepository_insert now a eventType routingKey payload s) =
      sql_effect (sql_insert now uuid ''outbox_events'' None
        [(''aggregate_id'', PText a), (''event_type'', PText eventType), (''routing_key'', PText routingKey),
         (''payload'', PJson payload)] (bank_sql s)) \<and>
    (Inr (bank_sql (s\<lparr>outbox := markPublished now i (outbox s)\<rparr>)) :: bank_error + sql_db) =
      sql_effect (sql_update now ''outbox_events'' [(''published_at'', PNow)] [(''id'', PNumber (js_of_int (int i)))] (bank_sql s))"
proof -
  have inv: "bank_inv s" "texts_fit s" using bank_reachable [OF reach] by simp_all
  then have ob: "outbox_ok (outbox s)" by (simp add: bank_inv_def)
  show ?thesis
    using bank_integrity [OF inv] create_account_sql insert_transfer_sql [OF m] insert_seed_sql insert_ledger_sql
      insert_interbank_sql insert_outbox_sql [OF ob] mark_published_sql [OF i]
      update_interbank_sql [OF inv(2), of k CONFIRMED now] update_interbank_sql [OF inv(2), of k COMPENSATED now]
    by (intro conjI) (simp_all only: markConfirmed_def markCompensated_def status_text.simps)
qed

theorem bank_queries_obey_schema_witness:
  "integrity (bank_sql opened_bank) \<and>
   (sql_effect (sql_insert 5 alice ''accounts'' None [(''owner_name'', PText [])] (bank_sql opened_bank)) :: bank_error + sql_db) =
     Inl (Db (CheckViolation ''accounts''))"
proof -
  have "AccountRepository_create alice 5 [] opened_bank = Inl (Db (CheckViolation ''accounts''))"
    by (simp add: AccountRepository_create_def db_guard_def tx_bind_def)
  with bank_queries_obey_schema [OF opened_step, of "\<lparr>tr_id = alice, tr_payerAccountId = alice, tr_payeeAccountId = bob, tr_amount = Money 1\<rparr>"
      0 alice 5 "[]"]
  show ?thesis by (simp add: money_small safe_int_def MAX_SAFE_INTEGER_def)
qed

text \<open>The triggers: an UPDATE or DELETE that finds an entry or a transfer fails.\<close>

lemma history_tables_guarded:
  assumes "t = ''ledger_entries'' \<or> t = ''transfers''"
  shows "sql_update now t sets cond (bank_sql s) = Inr ((), db) \<Longrightarrow> db = bank_sql s"
    and "sql_delete now t cond (bank_sql s) = Inr ((), db) \<Longrightarrow> db = bank_sql s"
proof -
  obtain tb message where "table_of t (bank_sql s) = Some tb" "tab_guard tb = Some message"
    using assms by (auto simp: bank_sql_def table_of_def ledger_entries_table_def transfers_table_def)
  note guard = guarded_table [OF this]
  show "sql_update now t sets cond (bank_sql s) = Inr ((), db) \<Longrightarrow> db = bank_sql s"
    "sql_delete now t cond (bank_sql s) = Inr ((), db) \<Longrightarrow> db = bank_sql s"
    by (rule guard, assumption)+
qed

end
