(* ===== verification/BankReads.thy ===== *)
theory BankReads
  imports Selects BankSchema
begin

text \<open>
  What the repositories of Bank A read, as the SELECTs they send: the definitions of \<open>BankDb\<close> and
  \<open>Outbox\<close> give the answers of these queries on the tables.
\<close>

subsection \<open>The queries and the records made of their rows\<close>

definition account_of :: "sql_row \<Rightarrow> account_row" where
  "account_of row = \<lparr>acc_id = text_cell (cell row ''id''), acc_owner_name = text_cell (cell row ''owner_name''),
     acc_created_at = int_cell (cell row ''created_at'')\<rparr>"

text \<open>\<open>toRecord\<close> does not look at the idempotency key, which the query does not select.\<close>

definition transfer_of :: "sql_row \<Rightarrow> transfer_row" where
  "transfer_of row = \<lparr>trow_id = text_cell (cell row ''id''), trow_idempotency_key = [],
     trow_payer_account_id = text_cell (cell row ''payer_account_id''),
     trow_payee_account_id = text_cell (cell row ''payee_account_id''),
     trow_amount = int_cell (cell row ''amount''), trow_created_at = int_cell (cell row ''created_at'')\<rparr>"

definition TRANSFER_COLUMNS :: "string list" where
  "TRANSFER_COLUMNS = [''id'', ''payer_account_id'', ''payee_account_id'', ''amount'', ''created_at'']"

definition first_transfer :: "sql_row list \<Rightarrow> bank_error + transfer_record option" where
  "first_transfer rows = (case first_row (toRecord \<circ> transfer_of) rows of
     None \<Rightarrow> Inr None | Some (Inl e) \<Rightarrow> Inl (Domain e) | Some (Inr r) \<Rightarrow> Inr (Some r))"

definition status_of :: "string \<Rightarrow> interbank_status" where
  "status_of s = (if s = ''CONFIRMED'' then CONFIRMED else if s = ''COMPENSATED'' then COMPENSATED else DEBITED)"

definition interbank_of :: "sql_row \<Rightarrow> interbank_row" where
  "interbank_of row = \<lparr>ib_transfer_id = text_cell (cell row ''transfer_id''),
     ib_payee_bank_id = text_cell (cell row ''payee_bank_id''),
     ib_payee_account_ref = text_cell (cell row ''payee_account_ref''),
     ib_status = status_of (text_cell (cell row ''status'')),
     ib_created_at = int_cell (cell row ''created_at''), ib_updated_at = int_cell (cell row ''updated_at'')\<rparr>"

definition INTERBANK_COLUMNS :: "string list" where
  "INTERBANK_COLUMNS = [''transfer_id'', ''payee_bank_id'', ''payee_account_ref'', ''status'', ''created_at'', ''updated_at'']"

definition statement_query :: "string \<Rightarrow> nat \<Rightarrow> sql_query" where
  "statement_query accountId limit = \<lparr>q_columns = [''transfer_id'', ''amount'', ''created_at''],
     q_where = [Equals ''account_id'' (PText accountId)], q_order = Descending ''id'', q_limit = Some limit\<rparr>"

definition line_of :: "sql_row \<Rightarrow> domain_error + statement_line" where
  "line_of row = (case Money_fromCents (js_of_int (int_cell (cell row ''amount''))) of
     Inl e \<Rightarrow> Inl e
   | Inr m \<Rightarrow> Inr \<lparr>sl_transferId = text_cell (cell row ''transfer_id''), sl_amount = m,
       sl_createdAt = int_cell (cell row ''created_at'')\<rparr>)"

lemma status_of_text [simp]: "status_of (status_text st) = st"
  by (cases st) (simp_all add: status_of_def)

lemmas decoders = account_of_def transfer_of_def interbank_of_def line_of_def

lemmas read_eval = has_column_def project_def cell_def row_matches_def

subsection \<open>The answers\<close>

lemma bank_table_of:
  "table_of ''accounts'' (bank_sql s) = Some (accounts_table (map account_sql (accounts s)) (Suc (length (accounts s))))"
  "table_of ''transfers'' (bank_sql s) = Some (transfers_table (map transfer_sql (transfers s)) (Suc (length (transfers s))))"
  "table_of ''ledger_entries'' (bank_sql s) =
     Some (ledger_entries_table (numbered ledger_sql (ledger_entries s)) (Suc (length (ledger_entries s))))"
  "table_of ''interbank_transfers'' (bank_sql s) =
     Some (interbank_transfers_table (map interbank_sql (interbank_transfers s)) (Suc (length (interbank_transfers s))))"
  "table_of ''outbox_events'' (bank_sql s) =
     Some (outbox_events_table (map outbox_sql (outbox_rows (outbox s))) (outbox_next_id (outbox s)))"
  by (simp_all add: table_of_def bank_sql_def)

lemma account_reads:
  "AccountRepository_findById i s =
    (case sql_select now (\<lambda>_. False) ''accounts'' (lookup [''id'', ''owner_name'', ''created_at''] ''id'' i) (bank_sql s) of
       Inl e \<Rightarrow> Inl e | Inr rows \<Rightarrow> Inr (first_row (toAccount \<circ> account_of) rows))"
  "AccountRepository_lockById i s =
    (case sql_select now (\<lambda>_. False) ''accounts'' (lookup [] ''id'' i) (bank_sql s) of
       Inl e \<Rightarrow> Inl e | Inr rows \<Rightarrow> Inr (0 < length rows))"
proof -
  have decode: "toAccount (account_of (project [''id'', ''owner_name'', ''created_at''] (account_sql r))) = toAccount r" for r
    by (simp add: toAccount_def account_of_def read_eval account_sql_def)
  have select: "(sql_select now (\<lambda>_. False) ''accounts'' (lookup cols ''id'' i) (bank_sql s) :: bank_error + sql_row list) =
      (case bind_uuid i of
         Inl e \<Rightarrow> Inl e | Inr k \<Rightarrow> Inr (map (\<lambda>r. project cols (account_sql r)) (filter (\<lambda>r. acc_id r = k) (accounts s))))"
    if "set cols \<subseteq> {''id'', ''owner_name'', ''created_at''}" for cols
    by (rule select_by_uuid [OF bank_table_of(1)])
      (use that in \<open>auto simp: accounts_table_def has_column_def list_all_iff account_sql_def cell_def\<close>)
  show "AccountRepository_findById i s =
    (case sql_select now (\<lambda>_. False) ''accounts'' (lookup [''id'', ''owner_name'', ''created_at''] ''id'' i) (bank_sql s) of
       Inl e \<Rightarrow> Inl e | Inr rows \<Rightarrow> Inr (first_row (toAccount \<circ> account_of) rows))"
    by (subst select) (simp_all add: AccountRepository_findById_def first_row_filter decode split: sum.split)
  show "AccountRepository_lockById i s =
    (case sql_select now (\<lambda>_. False) ''accounts'' (lookup [] ''id'' i) (bank_sql s) of
       Inl e \<Rightarrow> Inl e | Inr rows \<Rightarrow> Inr (0 < length rows))"
    by (subst select)
      (simp_all add: AccountRepository_lockById_def account_exists_def list_ex_iff filter_empty_conv split: sum.split)
qed

lemma transfer_reads:
  "TransferRepository_findById i s =
    (case sql_select now (\<lambda>_. False) ''transfers'' (lookup TRANSFER_COLUMNS ''id'' i) (bank_sql s) of
       Inl e \<Rightarrow> Inl e | Inr rows \<Rightarrow> first_transfer rows)"
  "findByIdempotencyKey key s =
    (case sql_select now (\<lambda>_. False) ''transfers'' (lookup TRANSFER_COLUMNS ''idempotency_key'' key) (bank_sql s) of
       Inl e \<Rightarrow> Inl e | Inr rows \<Rightarrow> first_transfer rows)"
proof -
  have decode: "toRecord (transfer_of (project TRANSFER_COLUMNS (transfer_sql r))) = toRecord r" for r
    by (simp add: toRecord_def transfer_of_def read_eval transfer_sql_def TRANSFER_COLUMNS_def split: sum.split)
  have cols: "list_all (has_column (transfers_table rows n)) TRANSFER_COLUMNS" for rows n
    by (simp add: TRANSFER_COLUMNS_def transfers_table_def has_column_def)
  have first: "first_transfer (map (\<lambda>r. project TRANSFER_COLUMNS (transfer_sql r)) (filter P (transfers s))) =
      (case find P (transfers s) of
         None \<Rightarrow> Inr None | Some row \<Rightarrow> (case toRecord row of Inl e \<Rightarrow> Inl (Domain e) | Inr r \<Rightarrow> Inr (Some r)))" for P
    by (simp add: first_transfer_def first_row_filter decode split: option.split sum.split)
  have by_id: "(sql_select now (\<lambda>_. False) ''transfers'' (lookup TRANSFER_COLUMNS ''id'' i) (bank_sql s) :: bank_error + sql_row list) =
      (case bind_uuid i of
         Inl e \<Rightarrow> Inl e
       | Inr k \<Rightarrow> Inr (map (\<lambda>r. project TRANSFER_COLUMNS (transfer_sql r)) (filter (\<lambda>r. trow_id r = k) (transfers s))))"
    by (rule select_by_uuid [OF bank_table_of(2) _ cols]) (simp_all add: transfers_table_def)
  have by_key: "(sql_select now (\<lambda>_. False) ''transfers'' (lookup TRANSFER_COLUMNS ''idempotency_key'' key) (bank_sql s)
      :: bank_error + sql_row list) =
      Inr (map (\<lambda>r. project TRANSFER_COLUMNS (transfer_sql r)) (filter (\<lambda>r. trow_idempotency_key r = key) (transfers s)))"
    by (rule select_by_text [OF bank_table_of(2) _ cols]) (simp_all add: transfers_table_def)
  show "TransferRepository_findById i s =
    (case sql_select now (\<lambda>_. False) ''transfers'' (lookup TRANSFER_COLUMNS ''id'' i) (bank_sql s) of
       Inl e \<Rightarrow> Inl e | Inr rows \<Rightarrow> first_transfer rows)"
    by (simp add: TransferRepository_findById_def by_id first split: sum.split)
  show "findByIdempotencyKey key s =
    (case sql_select now (\<lambda>_. False) ''transfers'' (lookup TRANSFER_COLUMNS ''idempotency_key'' key) (bank_sql s) of
       Inl e \<Rightarrow> Inl e | Inr rows \<Rightarrow> first_transfer rows)"
    by (simp add: findByIdempotencyKey_def by_key first)
qed

lemma balance_reads:
  "balanceOf i s = (case sql_sum now ''amount'' ''ledger_entries'' [Equals ''account_id'' (PText i)] (bank_sql s) of
     Inl e \<Rightarrow> Inl e | Inr n \<Rightarrow> lift_domain (Money_fromCents (js_of_int n)))"
proof (cases "bind_uuid i :: bank_error + string")
  case (Inl e)
  then show ?thesis by (simp add: balanceOf_def sql_sum_def bank_table_of ledger_entries_table_def has_column_def)
next
  case (Inr k)
  let ?tb = "ledger_entries_table (numbered ledger_sql (ledger_entries s)) (Suc (length (ledger_entries s)))"
  have cond: "sql_where now ?tb [Equals ''account_id'' (PText i)] =
      (Inr (\<lambda>row. row_matches [(''account_id'', SqlUuid k)] row \<and> True) :: bank_error + (sql_row \<Rightarrow> bool))"
    using Inr by (simp add: ledger_entries_table_def)
  have "sql_sum now ''amount'' ''ledger_entries'' [Equals ''account_id'' (PText i)] (bank_sql s) =
      (Inr (sum_list (map (\<lambda>p. led_amount (snd p)) (filter (\<lambda>p. led_account_id (snd p) = k) (enumerate 1 (ledger_entries s)))))
        :: bank_error + int)"
    by (rule sum_records [where f = "\<lambda>p. ledger_sql (fst p) (snd p)", OF bank_table_of(3) _ _ cond])
      (simp_all add: ledger_entries_table_def numbered_as_map has_column_def row_matches_def ledger_sql_def cell_def)
  also have "map (\<lambda>p. led_amount (snd p)) (filter (\<lambda>p. led_account_id (snd p) = k) (enumerate 1 (ledger_entries s))) =
      map led_amount (filter (\<lambda>e. led_account_id e = k) (ledger_entries s))"
    by (simp flip: filter_enumerate [of "\<lambda>e. led_account_id e = k" 1])
  finally show ?thesis using Inr by (simp add: balanceOf_def ledger_sum_def)
qed

lemma map_throw_map: "map_throw f (map g xs) = map_throw (\<lambda>x. f (g x)) xs"
  by (induction xs) (simp_all cong: sum.case_cong)

lemma statement_reads:
  "statementOf i limit s =
    (case sql_select now (\<lambda>_. False) ''ledger_entries'' (statement_query i limit) (bank_sql s) of
       Inl e \<Rightarrow> Inl e | Inr rows \<Rightarrow> lift_domain (map_throw line_of rows))"
proof (cases "bind_uuid i :: bank_error + string")
  case (Inl e)
  then show ?thesis
    by (simp add: statementOf_def sql_select_def bank_table_of statement_query_def ledger_entries_table_def has_column_def)
next
  case (Inr k)
  let ?tb = "ledger_entries_table (numbered ledger_sql (ledger_entries s)) (Suc (length (ledger_entries s)))"
  let ?q = "statement_query i limit" and ?row = "\<lambda>p. ledger_sql (fst p) (snd p)"
  let ?mine = "filter (\<lambda>p. led_account_id (snd p) = k) (enumerate 1 (ledger_entries s))"
  have cond: "sql_where now ?tb (q_where ?q) =
      (Inr (\<lambda>row. row_matches [(''account_id'', SqlUuid k)] row \<and> True) :: bank_error + (sql_row \<Rightarrow> bool))"
    using Inr by (simp add: ledger_entries_table_def statement_query_def)
  have "order_value ''id'' (?row p) = int (fst p)" for p by (simp add: order_value_def)
  then have order: "in_order (q_order ?q) (map ?row ?mine) = map ?row (rev ?mine)"
    by (simp add: statement_query_def sort_key_image enumerate_sorted rev_map)
  have "(sql_select now (\<lambda>_. False) ''ledger_entries'' ?q (bank_sql s) :: bank_error + sql_row list) =
      Inr (map (\<lambda>p. project (q_columns ?q) (?row p))
        (case q_limit ?q of None \<Rightarrow> filter (\<lambda>_. \<not> False) (rev ?mine) | Some n \<Rightarrow> take n (filter (\<lambda>_. \<not> False) (rev ?mine))))"
    by (rule select_records [OF bank_table_of(3) _ _ cond _ _ order])
      (simp_all add: ledger_entries_table_def numbered_as_map statement_query_def has_column_def row_matches_def ledger_sql_def cell_def)
  then have rows: "(sql_select now (\<lambda>_. False) ''ledger_entries'' ?q (bank_sql s) :: bank_error + sql_row list) =
      Inr (map (\<lambda>p. project (q_columns ?q) (?row p)) (take limit (rev ?mine)))"
    by (simp add: statement_query_def)
  have "line_of (project (q_columns ?q) (?row p)) = (case Money_fromCents (js_of_int (led_amount (snd p))) of
      Inl e \<Rightarrow> Inl e
    | Inr m \<Rightarrow> Inr \<lparr>sl_transferId = led_transfer_id (snd p), sl_amount = m, sl_createdAt = led_created_at (snd p)\<rparr>)" for p
    by (simp add: line_of_def statement_query_def read_eval ledger_sql_def split: sum.split)
  moreover have "take limit (rev (filter (\<lambda>e. led_account_id e = k) (ledger_entries s))) = map snd (take limit (rev ?mine))"
    by (simp add: take_map rev_map flip: filter_enumerate [of "\<lambda>e. led_account_id e = k" 1])
  ultimately show ?thesis using Inr by (simp add: statementOf_def rows map_throw_map)
qed

lemma interbank_reads:
  "InterbankRepository_findById i s =
    (case sql_select now (\<lambda>_. False) ''interbank_transfers'' (lookup INTERBANK_COLUMNS ''transfer_id'' i) (bank_sql s) of
       Inl e \<Rightarrow> Inl e | Inr rows \<Rightarrow> Inr (first_row (toInterbankRecord \<circ> interbank_of) rows))"
  "(Inr (findStaleDebited olderThan s) :: bank_error + interbank_record list) =
    (case sql_select now (\<lambda>_. False) ''interbank_transfers''
        \<lparr>q_columns = INTERBANK_COLUMNS, q_where = [Equals ''status'' (PText ''DEBITED''), Earlier ''updated_at'' olderThan],
         q_order = Ascending ''updated_at'', q_limit = None\<rparr> (bank_sql s) of
       Inl e \<Rightarrow> Inl e | Inr rows \<Rightarrow> Inr (map (toInterbankRecord \<circ> interbank_of) rows))"
proof -
  let ?tb = "interbank_transfers_table (map interbank_sql (interbank_transfers s)) (Suc (length (interbank_transfers s)))"
  let ?stale = "\<lambda>r. ib_status r = DEBITED \<and> ib_updated_at r < olderThan"
  let ?q = "\<lparr>q_columns = INTERBANK_COLUMNS, q_where = [Equals ''status'' (PText ''DEBITED''), Earlier ''updated_at'' olderThan],
         q_order = Ascending ''updated_at'', q_limit = None\<rparr>"
  have decode: "toInterbankRecord (interbank_of (project INTERBANK_COLUMNS (interbank_sql r))) = toInterbankRecord r" for r
    by (simp add: toInterbankRecord_def interbank_of_def read_eval interbank_sql_def INTERBANK_COLUMNS_def)
  have cols: "list_all (has_column (interbank_transfers_table rows n)) INTERBANK_COLUMNS" for rows n
    by (simp add: INTERBANK_COLUMNS_def interbank_transfers_table_def has_column_def)
  have by_id: "(sql_select now (\<lambda>_. False) ''interbank_transfers'' (lookup INTERBANK_COLUMNS ''transfer_id'' i) (bank_sql s)
      :: bank_error + sql_row list) =
      (case bind_uuid i of
         Inl e \<Rightarrow> Inl e
       | Inr k \<Rightarrow> Inr (map (\<lambda>r. project INTERBANK_COLUMNS (interbank_sql r)) (filter (\<lambda>r. ib_transfer_id r = k) (interbank_transfers s))))"
    by (rule select_by_uuid [OF bank_table_of(4) _ cols]) (simp_all add: interbank_transfers_table_def)
  show "InterbankRepository_findById i s =
    (case sql_select now (\<lambda>_. False) ''interbank_transfers'' (lookup INTERBANK_COLUMNS ''transfer_id'' i) (bank_sql s) of
       Inl e \<Rightarrow> Inl e | Inr rows \<Rightarrow> Inr (first_row (toInterbankRecord \<circ> interbank_of) rows))"
    by (simp add: InterbankRepository_findById_def by_id first_row_filter decode split: sum.split)
  have debited: "''DEBITED'' = status_text DEBITED" by simp
  have cond: "sql_where now ?tb (q_where ?q) = (Inr (\<lambda>row. row_matches [(''status'', SqlText ''DEBITED'')] row \<and>
      (case cell row ''updated_at'' of SqlTime u \<Rightarrow> u < olderThan | _ \<Rightarrow> False) \<and> True) :: bank_error + (sql_row \<Rightarrow> bool))"
    by (simp add: interbank_transfers_table_def has_column_def)
  have "order_value ''updated_at'' (interbank_sql r) = ib_updated_at r" for r
    by (simp add: order_value_def cell_def interbank_sql_def)
  then have order: "in_order (q_order ?q) (map interbank_sql (filter ?stale (interbank_transfers s))) =
      map interbank_sql (sort_key ib_updated_at (filter ?stale (interbank_transfers s)))"
    by (simp add: sort_key_image)
  have chosen: "(row_matches [(''status'', SqlText ''DEBITED'')] (interbank_sql r) \<and>
      (case cell (interbank_sql r) ''updated_at'' of SqlTime u \<Rightarrow> u < olderThan | _ \<Rightarrow> False) \<and> True) \<longleftrightarrow> ?stale r" for r
    unfolding debited by (simp add: row_matches_def interbank_sql_def cell_def del: status_text.simps)
  have "(sql_select now (\<lambda>_. False) ''interbank_transfers'' ?q (bank_sql s) :: bank_error + sql_row list) =
      Inr (map (\<lambda>r. project (q_columns ?q) (interbank_sql r))
        (case q_limit ?q of
           None \<Rightarrow> filter (\<lambda>_. \<not> False) (sort_key ib_updated_at (filter ?stale (interbank_transfers s)))
         | Some n \<Rightarrow> take n (filter (\<lambda>_. \<not> False) (sort_key ib_updated_at (filter ?stale (interbank_transfers s))))))"
    by (rule select_records [OF bank_table_of(4) _ _ cond _ _ order])
      (simp_all only: chosen, simp_all add: interbank_transfers_table_def INTERBANK_COLUMNS_def has_column_def)
  then show "(Inr (findStaleDebited olderThan s) :: bank_error + interbank_record list) =
    (case sql_select now (\<lambda>_. False) ''interbank_transfers'' ?q (bank_sql s) of
       Inl e \<Rightarrow> Inl e | Inr rows \<Rightarrow> Inr (map (toInterbankRecord \<circ> interbank_of) rows))"
    by (simp add: findStaleDebited_def decode)
qed

end
