(* ===== verification/HubSchema.thy ===== *)
theory HubSchema
  imports SchemaRuns HubSteps
begin

text \<open>
  The Hub's migrations (hub/migrations), the database they build, and what its constraints make of
  the queries of the repositories, in the manner of \<open>BankSchema\<close>.
\<close>

subsection \<open>The migrations\<close>

definition create_banks :: "sql_statement list" where
  "create_banks =
     [CreateTable ''banks''
        [Column ''id'' TEXT True NoDefault PrimaryKey None,
         Column ''name'' TEXT True NoDefault NoKey None,
         Column ''base_url'' TEXT True NoDefault NoKey None,
         Column ''created_at'' TIMESTAMPTZ True NowDefault NoKey None]
        [LengthBetween ''id'' 1 64, LengthBetween ''name'' 1 120, LengthBetween ''base_url'' 1 255]]"

definition create_hub_ledger_entries :: "sql_statement list" where
  "create_hub_ledger_entries =
     [CreateTable ''hub_ledger_entries''
        [Column ''id'' BIGINT True GeneratedIdentity PrimaryKey None,
         Column ''settlement_id'' UUID True NoDefault NoKey None,
         Column ''bank_id'' TEXT True NoDefault NoKey (Some (''banks'', ''id'')),
         Column ''amount'' BIGINT True NoDefault NoKey None,
         Column ''created_at'' TIMESTAMPTZ True NowDefault NoKey None]
        [NotEqualTo ''amount'' 0],
      CreateIndex ''hub_ledger_entries_bank_id_idx'' ''hub_ledger_entries'',
      CreateIndex ''hub_ledger_entries_settlement_id_idx'' ''hub_ledger_entries'',
      CreateRaisingFunction ''forbid_hub_ledger_mutation'' ''hub_ledger_entries is append-only'',
      CreateTrigger ''hub_ledger_entries_append_only'' ''hub_ledger_entries'' ''forbid_hub_ledger_mutation'']"

definition create_settlements :: "sql_statement list" where
  "create_settlements =
     [CreateTable ''settlements''
        [Column ''id'' UUID True NoDefault PrimaryKey None,
         Column ''payer_bank_id'' TEXT True NoDefault NoKey (Some (''banks'', ''id'')),
         Column ''payee_bank_id'' TEXT True NoDefault NoKey None,
         Column ''payee_account_ref'' TEXT True NoDefault NoKey None,
         Column ''amount'' BIGINT True NoDefault NoKey None,
         Column ''status'' TEXT True NoDefault NoKey None,
         Column ''reject_reason'' TEXT False NoDefault NoKey None,
         Column ''created_at'' TIMESTAMPTZ True NowDefault NoKey None,
         Column ''updated_at'' TIMESTAMPTZ True NowDefault NoKey None]
        [LengthBetween ''payee_bank_id'' 1 64, LengthBetween ''payee_account_ref'' 1 255, GreaterThan ''amount'' 0,
         OneOf ''status'' [''PENDING'', ''CONFIRMED'', ''REVERSED'', ''REJECTED''],
         ColumnsDiffer ''payer_bank_id'' ''payee_bank_id'',
         SameTruth (OneOf ''status'' [''REJECTED'', ''REVERSED'']) (IsNotNull ''reject_reason'')],
      CreateIndex ''settlements_status_idx'' ''settlements'']"

definition hub_create_outbox_events :: "sql_statement list" where
  "hub_create_outbox_events =
     [CreateTable ''outbox_events''
        [Column ''id'' BIGINT True GeneratedIdentity PrimaryKey None,
         Column ''aggregate_id'' UUID True NoDefault NoKey None,
         Column ''event_type'' TEXT True NoDefault NoKey None,
         Column ''routing_key'' TEXT True NoDefault NoKey None,
         Column ''payload'' JSONB True NoDefault NoKey None,
         Column ''created_at'' TIMESTAMPTZ True NowDefault NoKey None,
         Column ''published_at'' TIMESTAMPTZ False NoDefault NoKey None]
        [],
      CreateIndex ''outbox_events_unpublished_idx'' ''outbox_events'']"

definition hub_migrations :: "(string \<times> sql_statement list) list" where
  "hub_migrations =
     [(''001_create_banks.sql'', create_banks),
      (''002_create_hub_ledger_entries.sql'', create_hub_ledger_entries),
      (''003_create_settlements.sql'', create_settlements),
      (''004_create_outbox_events.sql'', hub_create_outbox_events)]"

subsection \<open>The database they build\<close>

definition bank_row_sql :: "bank_row \<Rightarrow> sql_row" where
  "bank_row_sql r = [(''id'', SqlText (bk_id r)), (''name'', SqlText (bk_name r)), (''base_url'', SqlText (bk_base_url r)),
     (''created_at'', SqlTime (bk_created_at r))]"

definition reserve_sql :: "nat \<Rightarrow> reserve_row \<Rightarrow> sql_row" where
  "reserve_sql i r = [(''id'', SqlInt (int i)), (''settlement_id'', SqlUuid (rs_settlement_id r)),
     (''bank_id'', SqlText (rs_bank_id r)), (''amount'', SqlInt (rs_amount r)), (''created_at'', SqlTime (rs_created_at r))]"

fun settlement_text :: "settlement_status \<Rightarrow> string" where
  "settlement_text HPENDING = ''PENDING''"
| "settlement_text HCONFIRMED = ''CONFIRMED''"
| "settlement_text HREVERSED = ''REVERSED''"
| "settlement_text HREJECTED = ''REJECTED''"

definition nullable_text :: "string option \<Rightarrow> sql_value" where
  "nullable_text x = (case x of None \<Rightarrow> SqlNull | Some s \<Rightarrow> SqlText s)"

definition settlement_sql :: "settlement_row \<Rightarrow> sql_row" where
  "settlement_sql r = [(''id'', SqlUuid (st_id r)), (''payer_bank_id'', SqlText (st_payer_bank_id r)),
     (''payee_bank_id'', SqlText (st_payee_bank_id r)), (''payee_account_ref'', SqlText (st_payee_account_ref r)),
     (''amount'', SqlInt (st_amount r)), (''status'', SqlText (settlement_text (st_status r))),
     (''reject_reason'', nullable_text (st_reject_reason r)), (''created_at'', SqlTime (st_created_at r)),
     (''updated_at'', SqlTime (st_updated_at r))]"

definition banks_table :: "sql_row list \<Rightarrow> nat \<Rightarrow> sql_table" where
  "banks_table rows n =
     \<lparr>tab_columns =
        [Column ''id'' TEXT True NoDefault PrimaryKey None,
         Column ''name'' TEXT True NoDefault NoKey None,
         Column ''base_url'' TEXT True NoDefault NoKey None,
         Column ''created_at'' TIMESTAMPTZ True NowDefault NoKey None],
      tab_checks = [LengthBetween ''id'' 1 64, LengthBetween ''name'' 1 120, LengthBetween ''base_url'' 1 255],
      tab_fkeys = [], tab_rows = rows, tab_next = n, tab_guard = None\<rparr>"

definition hub_ledger_entries_table :: "sql_row list \<Rightarrow> nat \<Rightarrow> sql_table" where
  "hub_ledger_entries_table rows n =
     \<lparr>tab_columns =
        [Column ''id'' BIGINT True GeneratedIdentity PrimaryKey None,
         Column ''settlement_id'' UUID True NoDefault NoKey None,
         Column ''bank_id'' TEXT True NoDefault NoKey (Some (''banks'', ''id'')),
         Column ''amount'' BIGINT True NoDefault NoKey None,
         Column ''created_at'' TIMESTAMPTZ True NowDefault NoKey None],
      tab_checks = [NotEqualTo ''amount'' 0], tab_fkeys = [(''bank_id'', ''banks'', ''id'')],
      tab_rows = rows, tab_next = n, tab_guard = Some ''hub_ledger_entries is append-only''\<rparr>"

definition settlements_table :: "sql_row list \<Rightarrow> nat \<Rightarrow> sql_table" where
  "settlements_table rows n =
     \<lparr>tab_columns =
        [Column ''id'' UUID True NoDefault PrimaryKey None,
         Column ''payer_bank_id'' TEXT True NoDefault NoKey (Some (''banks'', ''id'')),
         Column ''payee_bank_id'' TEXT True NoDefault NoKey None,
         Column ''payee_account_ref'' TEXT True NoDefault NoKey None,
         Column ''amount'' BIGINT True NoDefault NoKey None,
         Column ''status'' TEXT True NoDefault NoKey None,
         Column ''reject_reason'' TEXT False NoDefault NoKey None,
         Column ''created_at'' TIMESTAMPTZ True NowDefault NoKey None,
         Column ''updated_at'' TIMESTAMPTZ True NowDefault NoKey None],
      tab_checks =
        [LengthBetween ''payee_bank_id'' 1 64, LengthBetween ''payee_account_ref'' 1 255, GreaterThan ''amount'' 0,
         OneOf ''status'' [''PENDING'', ''CONFIRMED'', ''REVERSED'', ''REJECTED''],
         ColumnsDiffer ''payer_bank_id'' ''payee_bank_id'',
         SameTruth (OneOf ''status'' [''REJECTED'', ''REVERSED'']) (IsNotNull ''reject_reason'')],
      tab_fkeys = [(''payer_bank_id'', ''banks'', ''id'')], tab_rows = rows, tab_next = n, tab_guard = None\<rparr>"

definition hub_sql :: "hub_db \<Rightarrow> sql_db" where
  "hub_sql s =
     \<lparr>sql_tables =
        [(''banks'', banks_table (map bank_row_sql (hub_banks s)) (Suc (length (hub_banks s)))),
         (''hub_ledger_entries'', hub_ledger_entries_table (numbered reserve_sql (hub_ledger s)) (Suc (length (hub_ledger s)))),
         (''settlements'', settlements_table (map settlement_sql (settlements s)) (Suc (length (settlements s)))),
         (''outbox_events'', outbox_events_table (map outbox_sql (outbox_rows (hub_outbox s))) (outbox_next_id (hub_outbox s)))],
      sql_functions = [(''forbid_hub_ledger_mutation'', ''hub_ledger_entries is append-only'')],
      sql_indexes =
        [''hub_ledger_entries_bank_id_idx'', ''hub_ledger_entries_settlement_id_idx'', ''settlements_status_idx'',
         ''outbox_events_unpublished_idx'']\<rparr>"

lemmas hub_tables = banks_table_def hub_ledger_entries_table_def settlements_table_def outbox_events_table_def

lemma hub_files_sorted: "sorted (map fst hub_migrations)" "distinct (map fst hub_migrations)"
  by code_simp+

lemma hub_migrations_run: "execute_all 0 uuid (concat (map snd hub_migrations)) empty_sql = Inr (hub_sql migrated_hub)"
  by (simp add: hub_migrations_def create_banks_def create_hub_ledger_entries_def create_settlements_def
      hub_create_outbox_events_def empty_sql_def hub_sql_def hub_tables statement_eval migrated_hub_def empty_outbox_def)

subsection \<open>The queries\<close>

text \<open>The Hub has its own copy of the outbox repository.\<close>

definition hub_claimUnpublished :: "nat list \<Rightarrow> nat \<Rightarrow> outbox_table \<Rightarrow> outbox_event list" where
  "hub_claimUnpublished locked limit ob =
     map to_event (take limit (filter (\<lambda>r. ob_id r \<notin> set locked) (sort_key ob_id (unpublished ob))))"

definition hub_markPublished :: "int \<Rightarrow> nat \<Rightarrow> outbox_table \<Rightarrow> outbox_table" where
  "hub_markPublished now i ob =
     ob\<lparr>outbox_rows := map (\<lambda>r. if ob_id r = i then r\<lparr>ob_published_at := Some now\<rparr> else r) (outbox_rows ob)\<rparr>"

lemma hub_outbox_same: "hub_claimUnpublished = claimUnpublished" "hub_markPublished = markPublished"
  by (simp_all add: fun_eq_iff hub_claimUnpublished_def claimUnpublished_def hub_markPublished_def markPublished_def)

definition hub_effect_sql :: "'e + 'a \<times> hub_db \<Rightarrow> 'e + sql_db" where
  "hub_effect_sql r = (case r of Inl e \<Rightarrow> Inl e | Inr (_, t) \<Rightarrow> Inr (hub_sql t))"

lemma hub_effect_simps [simp]: "hub_effect_sql (Inl e) = Inl e" "hub_effect_sql (Inr (a, t)) = Inr (hub_sql t)"
  by (simp_all add: hub_effect_sql_def)

lemma hub_cells [simp]:
  "cell (bank_row_sql b) ''id'' = SqlText (bk_id b)"
  "cell (reserve_sql i e) ''id'' = SqlInt (int i)"
  "cell (settlement_sql r) ''id'' = SqlUuid (st_id r)"
  by (simp_all add: cell_def bank_row_sql_def reserve_sql_def settlement_sql_def)

lemma reserve_id_unused [simp]:
  "list_ex (\<lambda>r. (case map_of r ''id'' of None \<Rightarrow> SqlNull | Some v \<Rightarrow> v) = SqlInt (1 + int (length xs)))
     (numbered reserve_sql xs) \<longleftrightarrow> False"
  using numbered_unused [of reserve_sql "''id''" xs] by (simp add: reserve_sql_def cell_def)

lemma settlement_text_inj [simp]: "settlement_text a = settlement_text b \<longleftrightarrow> a = b"
  by (cases a; cases b) simp_all

lemma settlement_texts [simp]:
  "settlement_text st = ''REJECTED'' \<or> settlement_text st = ''REVERSED'' \<longleftrightarrow> rejecting st"
  "settlement_text st = ''PENDING'' \<or> settlement_text st = ''CONFIRMED'' \<or> settlement_text st = ''REVERSED'' \<or>
     settlement_text st = ''REJECTED''"
  by (cases st; simp add: rejecting_def)+

lemma nullable_text_Null [simp]: "nullable_text x = SqlNull \<longleftrightarrow> x = None"
  by (cases x) (simp_all add: nullable_text_def)

lemma create_bank_sql:
  "hub_effect_sql (BankRepository_create now i name url s) =
   sql_effect (sql_insert now uuid ''banks'' (Some ''id'')
     [(''id'', PText i), (''name'', PText name), (''base_url'', PText url)] (hub_sql s))"
  by (simp add: BankRepository_create_def db_guard_def tx_bind_def bank_exists_def hub_sql_def hub_tables
      statement_eval bank_row_sql_def Let_def)

lemma insert_reserve_sql:
  "hub_effect_sql (hub_ledger_insert now entry s) =
   sql_effect (sql_insert now uuid ''hub_ledger_entries'' None
     [(''settlement_id'', PText (re_settlementId entry)), (''bank_id'', PText (re_bankId entry)),
      (''amount'', PNumber (js_of_int (cents (re_amount entry))))] (hub_sql s))"
proof (cases "bind_uuid (re_settlementId entry) :: hub_service_error + string")
  case (Inl e)
  then show ?thesis by (simp add: hub_ledger_insert_def hub_sql_def hub_tables statement_eval)
next
  case i: (Inr i)
  show ?thesis
  proof (cases "bind_bigint (js_of_int (cents (re_amount entry))) :: hub_service_error + int")
    case (Inl e)
    with i show ?thesis by (simp add: hub_ledger_insert_def hub_sql_def hub_tables statement_eval)
  next
    case (Inr n)
    with i show ?thesis
      by (simp add: hub_ledger_insert_def db_guard_def tx_bind_def bank_exists_def hub_sql_def hub_tables statement_eval
          bank_row_sql_def) (simp add: reserve_sql_def)
  qed
qed

lemma settlement_found: "find_settlement k s = None \<longleftrightarrow> \<not> list_ex (\<lambda>r. st_id r = k) (settlements s)"
  by (auto simp: find_settlement_def find_None list_ex_iff)

text \<open>A \<open>null\<close> or a text, as the driver sends it.\<close>

fun reason_param :: "string option \<Rightarrow> sql_param" where
  "reason_param None = PNull"
| "reason_param (Some s) = PText s"

lemma insert_settlement_sql:
  "hub_effect_sql (SettlementRepository_insert now i payer payee ref amount st reason s) =
   sql_effect (sql_insert now uuid ''settlements'' (Some ''id'')
     [(''id'', PText i), (''payer_bank_id'', PText payer), (''payee_bank_id'', PText payee),
      (''payee_account_ref'', PText ref), (''amount'', PNumber amount), (''status'', PText (settlement_text st)),
      (''reject_reason'', reason_param reason)] (hub_sql s))"
proof (cases "bind_uuid i :: hub_service_error + string")
  case (Inl e)
  then show ?thesis by (simp add: SettlementRepository_insert_def hub_sql_def hub_tables statement_eval)
next
  case i: (Inr k)
  show ?thesis
  proof (cases "bind_bigint amount :: hub_service_error + int")
    case (Inl e)
    with i show ?thesis by (simp add: SettlementRepository_insert_def hub_sql_def hub_tables statement_eval)
  next
    case (Inr n)
    with i show ?thesis
      by (cases reason; cases st) (simp_all add: SettlementRepository_insert_def insert_settlement_row_def db_guard_def tx_bind_def
          bank_exists_def settlement_found hub_sql_def hub_tables statement_eval bank_row_sql_def settlement_sql_def
          nullable_text_def rejecting_def)
  qed
qed

lemma hub_insert_outbox_sql:
  assumes "outbox_ok (hub_outbox s)"
  shows "hub_effect_sql (hub_outbox_insert now aggregateId eventType routingKey payload s) =
   sql_effect (sql_insert now uuid ''outbox_events'' None
     [(''aggregate_id'', PText aggregateId), (''event_type'', PText eventType), (''routing_key'', PText routingKey),
      (''payload'', PJson payload)] (hub_sql s))"
proof (cases "bind_uuid aggregateId :: hub_service_error + string")
  case (Inl e)
  then show ?thesis by (simp add: hub_outbox_insert_def hub_sql_def hub_tables statement_eval)
next
  case (Inr a)
  with outbox_next_unused [OF assms] show ?thesis
    by (simp add: hub_outbox_insert_def hub_sql_def hub_tables statement_eval outbox_add_def outbox_sql_def)
qed

lemma hub_mark_published_sql:
  assumes "safe_int (int i)"
  shows "(Inr (hub_sql (s\<lparr>hub_outbox := markPublished now i (hub_outbox s)\<rparr>)) :: hub_service_error + sql_db) =
   sql_effect (sql_update now ''outbox_events'' [(''published_at'', PNow)] [(''id'', PNumber (js_of_int (int i)))] (hub_sql s))"
proof -
  have "table_of ''outbox_events'' (hub_sql s) =
      Some (outbox_events_table (map outbox_sql (outbox_rows (hub_outbox s))) (outbox_next_id (hub_outbox s)))"
    "set_table ''outbox_events'' (outbox_events_table (map outbox_sql (outbox_rows (hub_outbox s))) (outbox_next_id (hub_outbox s)))
       (hub_sql s) = hub_sql s"
    by (simp_all add: table_of_def set_table_def hub_sql_def)
  note mark = mark_published_table [OF assms this, of now]
  have built: "set_table ''outbox_events'' (outbox_events_table (map outbox_sql (outbox_rows (markPublished now i (hub_outbox s))))
      (outbox_next_id (hub_outbox s))) (hub_sql s) = hub_sql (s\<lparr>hub_outbox := markPublished now i (hub_outbox s)\<rparr>)"
    by (simp add: set_table_def hub_sql_def markPublished_def)
  show ?thesis by (simp only: mark built sql_effect_simps)
qed

text \<open>What the checks demand of the columns nothing else constrains.\<close>

definition columns_fit :: "hub_db \<Rightarrow> bool" where
  "columns_fit s \<longleftrightarrow>
     (\<forall>b \<in> set (hub_banks s). 1 \<le> length (bk_id b) \<and> length (bk_id b) \<le> 64 \<and> 1 \<le> length (bk_name b) \<and>
        length (bk_name b) \<le> 120 \<and> 1 \<le> length (bk_base_url b) \<and> length (bk_base_url b) \<le> 255) \<and>
     (\<forall>r \<in> set (settlements s). 1 \<le> length (st_payee_bank_id r) \<and> length (st_payee_bank_id r) \<le> 64 \<and>
        1 \<le> length (st_payee_account_ref r) \<and> length (st_payee_account_ref r) \<le> 255) \<and>
     (\<forall>e \<in> set (hub_ledger s). rs_amount e \<noteq> 0)"

text \<open>
  The two updates of a settlement: a row that is changed was PENDING, without a reason, and has to
  satisfy the checks of the table in its new status.
\<close>

definition resolved_row :: "settlement_status \<Rightarrow> int \<Rightarrow> string option \<Rightarrow> settlement_row \<Rightarrow> settlement_row" where
  "resolved_row st now w r = r\<lparr>st_status := st, st_updated_at := now,
     st_reject_reason := (case w of None \<Rightarrow> st_reject_reason r | Some reason \<Rightarrow> Some reason)\<rparr>"

lemma update_pending_rows: "update_pending st (now, w) k s =
    s\<lparr>settlements := map (\<lambda>r. if st_id r = k \<and> st_status r = HPENDING then resolved_row st now w r else r) (settlements s)\<rparr>"
  by (simp add: update_pending_def resolved_row_def)

lemma resolved_row_checks:
  assumes inv: "hub_inv s" "columns_fit s" and x: "x \<in> set (settlements s)" "st_status x = HPENDING"
    and st: "rejecting st \<longleftrightarrow> w \<noteq> None"
  shows "nulls_pass (settlements_table rows n) (settlement_sql (resolved_row st now w x))"
    and "checks_pass (settlements_table rows n) (settlement_sql (resolved_row st now w x))"
proof -
  have ok: "settlement_ok s x" and fit: "1 \<le> length (st_payee_bank_id x)" "length (st_payee_bank_id x) \<le> 64"
      "1 \<le> length (st_payee_account_ref x)" "length (st_payee_account_ref x) \<le> 255"
    using inv x(1) by (auto simp: hub_inv_def columns_fit_def)
  then have reason: "st_reject_reason x = None" "0 < st_amount x" "st_payer_bank_id x \<noteq> st_payee_bank_id x"
    using x(2) by (auto simp: settlement_ok_def rejecting_def)
  show "nulls_pass (settlements_table rows n) (settlement_sql (resolved_row st now w x))"
    by (simp add: nulls_pass_def settlements_table_def settlement_sql_def resolved_row_def cell_def)
  show "checks_pass (settlements_table rows n) (settlement_sql (resolved_row st now w x))"
    using st reason fit
    by (cases w) (auto simp: checks_pass_def settlements_table_def settlement_sql_def resolved_row_def cell_def)
qed

lemma update_settlement_sql:
  assumes inv: "hub_inv s" "columns_fit s" and st: "rejecting st \<longleftrightarrow> w \<noteq> None"
    and sets: "sets = (''status'', PText (settlement_text st)) # (case w of None \<Rightarrow> [] | Some x \<Rightarrow> [(''reject_reason'', PText x)])
      @ [(''updated_at'', PNow)]"
  shows "hub_effect_sql (tx_bind (tx_check (bind_uuid i)) (\<lambda>k s. Inr ((), update_pending st (now, w) k s)) s ::
      hub_service_error + unit \<times> hub_db) =
   sql_effect (sql_update now ''settlements'' sets [(''id'', PText i), (''status'', PText ''PENDING'')] (hub_sql s))"
proof (cases "bind_uuid i :: hub_service_error + string")
  case (Inl e)
  then show ?thesis by (simp add: sql_update_def hub_sql_def hub_tables table_of_def)
next
  case (Inr k)
  let ?tb = "settlements_table (map settlement_sql (settlements s)) (Suc (length (settlements s)))"
  let ?vs = "(''status'', SqlText (settlement_text st)) # (case w of None \<Rightarrow> [] | Some x \<Rightarrow> [(''reject_reason'', SqlText x)])
      @ [(''updated_at'', SqlTime now)]"
  have pending: "''PENDING'' = settlement_text HPENDING" by simp
  have "sql_update now ''settlements'' sets [(''id'', PText i), (''status'', PText ''PENDING'')] (hub_sql s) =
    (Inr ((), set_table ''settlements'' (?tb\<lparr>tab_rows := map settlement_sql
      (map (\<lambda>r. if st_id r = k \<and> st_status r = HPENDING then resolved_row st now w r else r) (settlements s))\<rparr>) (hub_sql s))
      :: hub_service_error + unit \<times> sql_db)"
  proof (rule sql_update_records [where vs = ?vs])
    show "row_matches [(''id'', SqlUuid k), (''status'', SqlText ''PENDING'')] (settlement_sql x) \<longleftrightarrow>
        st_id x = k \<and> st_status x = HPENDING" for x
      unfolding pending by (simp add: row_matches_def settlement_sql_def cell_def del: settlement_text.simps)
    show "set_cells ?vs (settlement_sql x) = settlement_sql (resolved_row st now w x) \<and>
        nulls_pass ?tb (settlement_sql (resolved_row st now w x)) \<and> checks_pass ?tb (settlement_sql (resolved_row st now w x))"
      if "x \<in> set (settlements s)" "st_id x = k \<and> st_status x = HPENDING" for x
      using resolved_row_checks [OF inv that(1) conjunct2 [OF that(2)] st]
      by (cases w) (simp_all add: set_cells_def settlement_sql_def resolved_row_def nullable_text_def)
    show "bind_params now ?tb sets = (Inr ?vs :: hub_service_error + sql_row)"
      by (cases w) (simp_all add: sets settlements_table_def)
    show "\<not> list_ex (\<lambda>(c, _). is_key ?tb c) ?vs"
      by (cases w) (simp_all add: settlements_table_def is_key_def)
  qed (use Inr in \<open>simp_all add: hub_sql_def table_of_def set_table_def settlements_table_def\<close>)
  with Inr show ?thesis
    by (simp add: update_pending_rows hub_sql_def set_table_def settlements_table_def)
qed

subsection \<open>Every reachable database satisfies its constraints\<close>

lemma refers_bank:
  "cell row c = SqlText b \<Longrightarrow> bank_exists b s \<Longrightarrow> refers (hub_sql s) row (c, ''banks'', ''id'')"
  by (auto simp: refers_def hub_sql_def table_of_def banks_table_def bank_exists_def list_ex_iff)

lemma banks_integrity:
  assumes "hub_inv s" and "columns_fit s"
  shows "table_integrity (hub_sql s) (banks_table (map bank_row_sql (hub_banks s)) n)"
  using assms distinct_wrapped [of bk_id "hub_banks s" SqlText]
  by (auto simp: table_integrity_def keys_differ_def banks_table_def nulls_pass_def checks_pass_def columns_fit_def
      inj_def comp_def hub_inv_def) (simp_all add: bank_row_sql_def cell_def)

lemma reserves_integrity:
  assumes inv: "hub_inv s" and fit: "columns_fit s"
  shows "table_integrity (hub_sql s) (hub_ledger_entries_table (numbered reserve_sql (hub_ledger s)) n)"
  unfolding table_integrity_def
proof (intro conjI ballI)
  show "keys_differ (hub_ledger_entries_table (numbered reserve_sql (hub_ledger s)) n)"
    using numbered_cells [of reserve_sql "''id''" "hub_ledger s"] by (simp add: keys_differ_def hub_ledger_entries_table_def)
next
  fix row assume "row \<in> set (tab_rows (hub_ledger_entries_table (numbered reserve_sql (hub_ledger s)) n))"
  then obtain i e where row: "row = reserve_sql i e" and e: "e \<in> set (hub_ledger s)"
    by (auto simp: hub_ledger_entries_table_def numbered_def in_set_enumerate_eq)
  show "nulls_pass (hub_ledger_entries_table (numbered reserve_sql (hub_ledger s)) n) row"
    by (simp add: row nulls_pass_def hub_ledger_entries_table_def reserve_sql_def cell_def)
  show "checks_pass (hub_ledger_entries_table (numbered reserve_sql (hub_ledger s)) n) row"
    using e fit by (simp add: row checks_pass_def hub_ledger_entries_table_def reserve_sql_def cell_def columns_fit_def)
  have "refers (hub_sql s) row (''bank_id'', ''banks'', ''id'')"
    by (rule refers_bank [of _ _ "rs_bank_id e"]) (use e inv in \<open>simp_all add: row reserve_sql_def cell_def hub_inv_def\<close>)
  then show "list_all (refers (hub_sql s) row) (tab_fkeys (hub_ledger_entries_table (numbered reserve_sql (hub_ledger s)) n))"
    by (simp add: hub_ledger_entries_table_def)
qed

lemma settlements_integrity:
  assumes inv: "hub_inv s" and fit: "columns_fit s"
  shows "table_integrity (hub_sql s) (settlements_table (map settlement_sql (settlements s)) n)"
  unfolding table_integrity_def
proof (intro conjI ballI)
  show "keys_differ (settlements_table (map settlement_sql (settlements s)) n)"
    using inv distinct_wrapped [of st_id "settlements s" SqlUuid]
    by (simp add: keys_differ_def settlements_table_def inj_def comp_def hub_inv_def)
next
  fix row assume "row \<in> set (tab_rows (settlements_table (map settlement_sql (settlements s)) n))"
  then obtain r where row: "row = settlement_sql r" and r: "r \<in> set (settlements s)"
    by (auto simp: settlements_table_def)
  have ok: "settlement_ok s r" using inv r by (simp add: hub_inv_def)
  show "nulls_pass (settlements_table (map settlement_sql (settlements s)) n) row"
    by (simp add: row nulls_pass_def settlements_table_def settlement_sql_def cell_def)
  show "checks_pass (settlements_table (map settlement_sql (settlements s)) n) row"
    using ok r fit by (auto simp: row checks_pass_def settlements_table_def settlement_sql_def cell_def columns_fit_def settlement_ok_def)
  have "refers (hub_sql s) row (''payer_bank_id'', ''banks'', ''id'')"
    by (rule refers_bank [of _ _ "st_payer_bank_id r"])
      (use ok in \<open>simp_all add: row settlement_sql_def cell_def settlement_ok_def\<close>)
  then show "list_all (refers (hub_sql s) row) (tab_fkeys (settlements_table (map settlement_sql (settlements s)) n))"
    by (simp add: settlements_table_def)
qed

lemma hub_integrity:
  assumes "hub_inv s" and "columns_fit s"
  shows "integrity (hub_sql s)"
  using assms(1) banks_integrity [OF assms] reserves_integrity [OF assms] settlements_integrity [OF assms]
    outbox_table_integrity [of "hub_outbox s"]
  by (simp add: integrity_def hub_inv_def) (simp add: hub_sql_def)

text \<open>Every transaction keeps the columns within their checks.\<close>

lemma fit_create: "tx_keeps columns_fit (BankRepository_create now i name url)"
  by (auto simp: tx_keeps_def BankRepository_create_def tx_simps columns_fit_def Let_def split: if_splits)

lemma fit_settlement: "tx_keeps columns_fit (SettlementRepository_insert now i payer payee ref amount st reason)"
  by (auto simp: tx_keeps_def SettlementRepository_insert_def insert_settlement_row_def tx_simps columns_fit_def
      split: if_splits)

lemma fit_append: "tx_keeps columns_fit (hub_ledger_append now entries)"
proof (induction entries)
  case (Cons e es)
  have "tx_keeps columns_fit (hub_ledger_insert now e)"
    by (auto simp: tx_keeps_def hub_ledger_insert_def tx_simps columns_fit_def split: if_splits)
  with Cons show ?case by (simp add: tx_keeps_bind)
qed (auto simp: tx_keeps_def)

lemma fit_outbox: "tx_keeps columns_fit (hub_outbox_insert now a t k p)"
  by (auto simp: tx_keeps_def hub_outbox_insert_def tx_simps columns_fit_def)

lemma fit_marks: "tx_keeps columns_fit (hub_markConfirmed now i)" "tx_keeps columns_fit (hub_markReversed now i reason)"
  by (auto simp: tx_keeps_def hub_markConfirmed_def hub_markReversed_def tx_simps columns_fit_def update_pending_def)

lemmas fit_keep = tx_keeps_bind fit_settlement fit_append fit_outbox fit_marks tx_keeps_pure

lemma fit_transactions:
  "tx_keeps columns_fit (reject_tx now ev)" "tx_keeps columns_fit (accept_tx now occurredAt ev)"
  "tx_keeps columns_fit (reply_tx pg_text now r reply)"
proof -
  show "tx_keeps columns_fit (reject_tx now ev)"
    unfolding reject_tx_def by (intro fit_keep) (auto split: option.split intro: fit_keep)
  show "tx_keeps columns_fit (accept_tx now occurredAt ev)"
    unfolding accept_tx_def by (intro fit_keep) (auto split: option.split intro!: fit_keep)
  have "tx_keeps columns_fit (resolve_tx pg_text now r reply)"
    unfolding resolve_tx_def by (auto intro!: fit_keep)
  then show "tx_keeps columns_fit (reply_tx pg_text now r reply)"
    unfolding reply_tx_def by (intro fit_keep)
qed

lemma fit_step:
  assumes step: "hub_step overlap s t" and fit: "columns_fit s"
  shows "columns_fit t"
  using step
proof cases
  case (register now i name url b)
  from tx_keepsD [OF fit_create fit this] show ?thesis .
next
  case (relay publish commit locked now res ob sent)
  with fit show ?thesis by (simp add: columns_fit_def)
qed (rule tx_keepsD, rule fit_transactions, rule fit, assumption)+

lemma hub_reachable:
  "(hub_step overlap)\<^sup>*\<^sup>* migrated_hub s \<Longrightarrow> hub_inv s \<and> columns_fit s"
proof (induction rule: rtranclp_induct)
  case base
  have "columns_fit migrated_hub" by (simp add: columns_fit_def migrated_hub_def)
  then show ?case by (simp add: hub_inv_migrated)
next
  case (step t u)
  then show ?case using hub_change_inv hub_step_change fit_step by blast
qed

text \<open>The reserve ledger is append-only: an UPDATE or DELETE that finds an entry fails.\<close>

lemma reserves_guarded:
  "sql_update now ''hub_ledger_entries'' sets cond (hub_sql s) = Inr ((), db) \<Longrightarrow> db = hub_sql s"
  "sql_delete now ''hub_ledger_entries'' cond (hub_sql s) = Inr ((), db) \<Longrightarrow> db = hub_sql s"
proof -
  obtain tb message where "table_of ''hub_ledger_entries'' (hub_sql s) = Some tb" "tab_guard tb = Some message"
    by (simp add: hub_sql_def table_of_def hub_ledger_entries_table_def)
  note guard = guarded_table [OF this]
  show "sql_update now ''hub_ledger_entries'' sets cond (hub_sql s) = Inr ((), db) \<Longrightarrow> db = hub_sql s"
    "sql_delete now ''hub_ledger_entries'' cond (hub_sql s) = Inr ((), db) \<Longrightarrow> db = hub_sql s"
    by (rule guard, assumption)+
qed

subsection \<open>Properties\<close>

text \<open>
  C13. The Hub's queries and the Hub's schema are one. In every database the running Hub can reach,
  overlapping replies included, no constraint of the migrated schema is violated, and each INSERT
  and UPDATE of its repositories (banks, reserves, settlements, outbox) does to the tables exactly
  what the query does under the constraints the migrations declare: the same rows, the same
  conversions, the same refusals.
\<close>
theorem hub_queries_obey_schema:
  assumes reach: "(hub_step overlap)\<^sup>*\<^sup>* migrated_hub s" and n: "safe_int (int n)"
  shows "integrity (hub_sql s) \<and>
    hub_effect_sql (BankRepository_create now b name url s) =
      sql_effect (sql_insert now uuid ''banks'' (Some ''id'')
        [(''id'', PText b), (''name'', PText name), (''base_url'', PText url)] (hub_sql s)) \<and>
    hub_effect_sql (hub_ledger_insert now entry s) =
      sql_effect (sql_insert now uuid ''hub_ledger_entries'' None
        [(''settlement_id'', PText (re_settlementId entry)), (''bank_id'', PText (re_bankId entry)),
         (''amount'', PNumber (js_of_int (cents (re_amount entry))))] (hub_sql s)) \<and>
    hub_effect_sql (SettlementRepository_insert now i payer payee ref amount st reason s) =
      sql_effect (sql_insert now uuid ''settlements'' (Some ''id'')
        [(''id'', PText i), (''payer_bank_id'', PText payer), (''payee_bank_id'', PText payee),
         (''payee_account_ref'', PText ref), (''amount'', PNumber amount), (''status'', PText (settlement_text st)),
         (''reject_reason'', reason_param reason)] (hub_sql s)) \<and>
    hub_effect_sql (hub_markConfirmed now i s) =
      sql_effect (sql_update now ''settlements'' [(''status'', PText ''CONFIRMED''), (''updated_at'', PNow)]
        [(''id'', PText i), (''status'', PText ''PENDING'')] (hub_sql s)) \<and>
    hub_effect_sql (hub_markReversed now i why s) =
      sql_effect (sql_update now ''settlements''
        [(''status'', PText ''REVERSED''), (''reject_reason'', PText why), (''updated_at'', PNow)]
        [(''id'', PText i), (''status'', PText ''PENDING'')] (hub_sql s)) \<and>
    hub_effect_sql (hub_outbox_insert now i eventType routingKey payload s) =
      sql_effect (sql_insert now uuid ''outbox_events'' None
        [(''aggregate_id'', PText i), (''event_type'', PText eventType), (''routing_key'', PText routingKey),
         (''payload'', PJson payload)] (hub_sql s)) \<and>
    (Inr (hub_sql (s\<lparr>hub_outbox := hub_markPublished now n (hub_outbox s)\<rparr>)) :: hub_service_error + sql_db) =
      sql_effect (sql_update now ''outbox_events'' [(''published_at'', PNow)] [(''id'', PNumber (js_of_int (int n)))] (hub_sql s))"
proof -
  have inv: "hub_inv s" "columns_fit s" using hub_reachable [OF reach] by simp_all
  then have ob: "outbox_ok (hub_outbox s)" by (simp add: hub_inv_def)
  have marks: "rejecting HCONFIRMED \<longleftrightarrow> (None :: string option) \<noteq> None" "rejecting HREVERSED \<longleftrightarrow> Some why \<noteq> None"
    by (simp_all add: rejecting_def)
  show ?thesis
    using hub_integrity [OF inv] create_bank_sql insert_reserve_sql insert_settlement_sql hub_insert_outbox_sql [OF ob]
      hub_mark_published_sql [OF n, folded hub_outbox_same(2)] update_settlement_sql [OF inv marks(1) refl, where now = now and i = i]
      update_settlement_sql [OF inv marks(2) refl, where now = now and i = i]
    by (intro conjI) (simp_all only: hub_markConfirmed_def hub_markReversed_def settlement_text.simps option.case
        append_Nil append_Cons)
qed

lemma sample_hub_reached: "(hub_step False)\<^sup>*\<^sup>* migrated_hub sample_hub"
proof -
  have "hub_step False migrated_hub (migrated_hub\<lparr>hub_banks :=
      [\<lparr>bk_id = ''bank-a'', bk_name = ''Bank A'', bk_base_url = ''http://a'', bk_created_at = 1\<rparr>]\<rparr>)"
    by (rule hub_step.register [of 1 "''bank-a''" "''Bank A''" "''http://a''"])
      (simp add: BankRepository_create_def migrated_hub_def bank_exists_def Let_def)
  moreover have "hub_step False (migrated_hub\<lparr>hub_banks :=
      [\<lparr>bk_id = ''bank-a'', bk_name = ''Bank A'', bk_base_url = ''http://a'', bk_created_at = 1\<rparr>]\<rparr>) sample_hub"
    by (rule hub_step.register [of 2 "''bank-b''" "''Bank B''" "''http://b''"])
      (simp add: BankRepository_create_def migrated_hub_def sample_hub_def bank_exists_def Let_def)
  ultimately show ?thesis by (meson rtranclp.rtrancl_refl rtranclp.rtrancl_into_rtrancl)
qed

theorem hub_queries_obey_schema_witness:
  "integrity (hub_sql sample_hub) \<and>
   (sql_effect (sql_insert 5 [] ''settlements'' (Some ''id'')
      [(''id'', PText sample_settlement_id), (''payer_bank_id'', PText ''bank-a''), (''payee_bank_id'', PText ''bank-b''),
       (''payee_account_ref'', PText ''x''), (''amount'', PNumber (js_of_int 400)), (''status'', PText ''PENDING''),
       (''reject_reason'', PText ''late'')] (hub_sql sample_hub)) :: hub_service_error + sql_db) =
     Inl (Db (CheckViolation ''settlements''))"
proof -
  have "SettlementRepository_insert 5 sample_settlement_id ''bank-a'' ''bank-b'' ''x'' (js_of_int 400) HPENDING (Some ''late'')
      sample_hub = Inl (Db (CheckViolation ''settlements''))"
    using sample_settlement_uuid
    by (simp add: SettlementRepository_insert_def bind_uuid_def bind_bigint_safe safe_int_def MAX_SAFE_INTEGER_def
        insert_settlement_row_def rejecting_def db_guard_def)
  moreover have "safe_int (int 0)" by (simp add: safe_int_def MAX_SAFE_INTEGER_def)
  moreover note hub_queries_obey_schema [OF sample_hub_reached, where n = 0 and now = 5 and uuid = "[]" and i = sample_settlement_id
      and payer = "''bank-a''" and payee = "''bank-b''" and ref = "''x''" and amount = "js_of_int 400" and st = HPENDING
      and reason = "Some ''late''"]
  ultimately show ?thesis unfolding settlement_text.simps reason_param.simps by (metis hub_effect_simps(1))
qed

end
