(* ===== verification/HubReads.thy ===== *)
theory HubReads
  imports Selects HubSchema
begin

text \<open>What the repositories of the Hub read, as the SELECTs they send.\<close>

definition bank_of :: "sql_row \<Rightarrow> bank_row" where
  "bank_of row = \<lparr>bk_id = text_cell (cell row ''id''), bk_name = text_cell (cell row ''name''),
     bk_base_url = text_cell (cell row ''base_url''), bk_created_at = int_cell (cell row ''created_at'')\<rparr>"

definition BANK_COLUMNS :: "string list" where
  "BANK_COLUMNS = [''id'', ''name'', ''base_url'', ''created_at'']"

definition settlement_status_of_text :: "string \<Rightarrow> settlement_status" where
  "settlement_status_of_text s = (if s = ''CONFIRMED'' then HCONFIRMED else if s = ''REVERSED'' then HREVERSED
     else if s = ''REJECTED'' then HREJECTED else HPENDING)"

definition settlement_of :: "sql_row \<Rightarrow> settlement_row" where
  "settlement_of row = \<lparr>st_id = text_cell (cell row ''id''), st_payer_bank_id = text_cell (cell row ''payer_bank_id''),
     st_payee_bank_id = text_cell (cell row ''payee_bank_id''),
     st_payee_account_ref = text_cell (cell row ''payee_account_ref''), st_amount = int_cell (cell row ''amount''),
     st_status = settlement_status_of_text (text_cell (cell row ''status'')),
     st_reject_reason = nullable_cell (cell row ''reject_reason''),
     st_created_at = int_cell (cell row ''created_at''), st_updated_at = int_cell (cell row ''updated_at'')\<rparr>"

definition SETTLEMENT_COLUMNS :: "string list" where
  "SETTLEMENT_COLUMNS = [''id'', ''payer_bank_id'', ''payee_bank_id'', ''payee_account_ref'', ''amount'', ''status'',
     ''reject_reason'', ''created_at'', ''updated_at'']"

lemma settlement_status_of_text [simp]: "settlement_status_of_text (settlement_text st) = st"
  by (cases st) (simp_all add: settlement_status_of_text_def)

lemma nullable_cell_text [simp]: "nullable_cell (nullable_text x) = x"
  by (cases x) (simp_all add: nullable_text_def)

lemma hub_table_of:
  "table_of ''banks'' (hub_sql s) = Some (banks_table (map bank_row_sql (hub_banks s)) (Suc (length (hub_banks s))))"
  "table_of ''hub_ledger_entries'' (hub_sql s) =
     Some (hub_ledger_entries_table (numbered reserve_sql (hub_ledger s)) (Suc (length (hub_ledger s))))"
  "table_of ''settlements'' (hub_sql s) = Some (settlements_table (map settlement_sql (settlements s)) (Suc (length (settlements s))))"
  "table_of ''outbox_events'' (hub_sql s) =
     Some (outbox_events_table (map outbox_sql (outbox_rows (hub_outbox s))) (outbox_next_id (hub_outbox s)))"
  by (simp_all add: table_of_def hub_sql_def)

lemma bank_reads:
  "(Inr (BankRepository_findById i s) :: hub_service_error + hub_bank option) =
    (case sql_select now (\<lambda>_. False) ''banks'' (lookup BANK_COLUMNS ''id'' i) (hub_sql s) of
       Inl e \<Rightarrow> Inl e | Inr rows \<Rightarrow> Inr (first_row (toBank \<circ> bank_of) rows))"
  "(Inr (BankRepository_findAll s) :: hub_service_error + hub_bank list) =
    (case sql_select now (\<lambda>_. False) ''banks''
        \<lparr>q_columns = BANK_COLUMNS, q_where = [], q_order = Ascending ''created_at'', q_limit = None\<rparr> (hub_sql s) of
       Inl e \<Rightarrow> Inl e | Inr rows \<Rightarrow> Inr (map (toBank \<circ> bank_of) rows))"
proof -
  let ?q = "\<lparr>q_columns = BANK_COLUMNS, q_where = [], q_order = Ascending ''created_at'', q_limit = None\<rparr>"
  have decode: "toBank (bank_of (project BANK_COLUMNS (bank_row_sql r))) = toBank r" for r
    by (simp add: toBank_def bank_of_def project_def cell_def bank_row_sql_def BANK_COLUMNS_def)
  have cols: "list_all (has_column (banks_table rows n)) BANK_COLUMNS" for rows n
    by (simp add: BANK_COLUMNS_def banks_table_def has_column_def)
  have by_id: "(sql_select now (\<lambda>_. False) ''banks'' (lookup BANK_COLUMNS ''id'' i) (hub_sql s) :: hub_service_error + sql_row list) =
      Inr (map (\<lambda>r. project BANK_COLUMNS (bank_row_sql r)) (filter (\<lambda>r. bk_id r = i) (hub_banks s)))"
    by (rule select_by_text [OF hub_table_of(1) _ cols]) (simp_all add: banks_table_def)
  show "(Inr (BankRepository_findById i s) :: hub_service_error + hub_bank option) =
    (case sql_select now (\<lambda>_. False) ''banks'' (lookup BANK_COLUMNS ''id'' i) (hub_sql s) of
       Inl e \<Rightarrow> Inl e | Inr rows \<Rightarrow> Inr (first_row (toBank \<circ> bank_of) rows))"
    by (simp add: BankRepository_findById_def by_id first_row_filter decode)
  have "order_value ''created_at'' (bank_row_sql r) = bk_created_at r" for r
    by (simp add: order_value_def cell_def bank_row_sql_def)
  then have order: "in_order (q_order ?q) (map bank_row_sql (filter (\<lambda>_. True) (hub_banks s))) =
      map bank_row_sql (sort_key bk_created_at (hub_banks s))"
    by (simp add: sort_key_image)
  have "(sql_select now (\<lambda>_. False) ''banks'' ?q (hub_sql s) :: hub_service_error + sql_row list) =
      Inr (map (\<lambda>r. project (q_columns ?q) (bank_row_sql r))
        (case q_limit ?q of
           None \<Rightarrow> filter (\<lambda>_. \<not> False) (sort_key bk_created_at (hub_banks s))
         | Some n \<Rightarrow> take n (filter (\<lambda>_. \<not> False) (sort_key bk_created_at (hub_banks s)))))"
    by (rule select_records [where w = "\<lambda>_. True", OF hub_table_of(1) _ _ _ _ _ order])
      (simp_all add: banks_table_def BANK_COLUMNS_def has_column_def)
  then show "(Inr (BankRepository_findAll s) :: hub_service_error + hub_bank list) =
    (case sql_select now (\<lambda>_. False) ''banks'' ?q (hub_sql s) of
       Inl e \<Rightarrow> Inl e | Inr rows \<Rightarrow> Inr (map (toBank \<circ> bank_of) rows))"
    by (simp add: BankRepository_findAll_def decode)
qed

lemma reserve_reads:
  "reserveBalanceOf i s = (case sql_sum now ''amount'' ''hub_ledger_entries'' [Equals ''bank_id'' (PText i)] (hub_sql s) of
     Inl e \<Rightarrow> Inl e | Inr n \<Rightarrow> lift_domain (HubMoney_fromCents (js_of_int n)))"
proof -
  let ?tb = "hub_ledger_entries_table (numbered reserve_sql (hub_ledger s)) (Suc (length (hub_ledger s)))"
  have cond: "sql_where now ?tb [Equals ''bank_id'' (PText i)] =
      (Inr (\<lambda>row. row_matches [(''bank_id'', SqlText i)] row \<and> True) :: hub_service_error + (sql_row \<Rightarrow> bool))"
    by (simp add: hub_ledger_entries_table_def)
  have "sql_sum now ''amount'' ''hub_ledger_entries'' [Equals ''bank_id'' (PText i)] (hub_sql s) =
      (Inr (sum_list (map (\<lambda>p. rs_amount (snd p)) (filter (\<lambda>p. rs_bank_id (snd p) = i) (enumerate 1 (hub_ledger s)))))
        :: hub_service_error + int)"
    by (rule sum_records [where f = "\<lambda>p. reserve_sql (fst p) (snd p)", OF hub_table_of(2) _ _ cond])
      (simp_all add: hub_ledger_entries_table_def numbered_as_map has_column_def row_matches_def reserve_sql_def cell_def)
  also have "map (\<lambda>p. rs_amount (snd p)) (filter (\<lambda>p. rs_bank_id (snd p) = i) (enumerate 1 (hub_ledger s))) =
      map rs_amount (filter (\<lambda>e. rs_bank_id e = i) (hub_ledger s))"
    by (simp flip: filter_enumerate [of "\<lambda>e. rs_bank_id e = i" 1])
  finally show ?thesis by (simp add: reserveBalanceOf_def reserve_sum_def)
qed

lemma settlement_reads:
  "SettlementRepository_findById i s =
    (case sql_select now (\<lambda>_. False) ''settlements'' (lookup SETTLEMENT_COLUMNS ''id'' i) (hub_sql s) of
       Inl e \<Rightarrow> Inl e | Inr rows \<Rightarrow> Inr (first_row (toSettlementRecord \<circ> settlement_of) rows))"
  "(Inr (findStalePending olderThan s) :: hub_service_error + settlement_record list) =
    (case sql_select now (\<lambda>_. False) ''settlements''
        \<lparr>q_columns = SETTLEMENT_COLUMNS, q_where = [Equals ''status'' (PText ''PENDING''), Earlier ''updated_at'' olderThan],
         q_order = Ascending ''updated_at'', q_limit = None\<rparr> (hub_sql s) of
       Inl e \<Rightarrow> Inl e | Inr rows \<Rightarrow> Inr (map (toSettlementRecord \<circ> settlement_of) rows))"
proof -
  let ?tb = "settlements_table (map settlement_sql (settlements s)) (Suc (length (settlements s)))"
  let ?stale = "\<lambda>r. st_status r = HPENDING \<and> st_updated_at r < olderThan"
  let ?q = "\<lparr>q_columns = SETTLEMENT_COLUMNS, q_where = [Equals ''status'' (PText ''PENDING''), Earlier ''updated_at'' olderThan],
         q_order = Ascending ''updated_at'', q_limit = None\<rparr>"
  have decode: "toSettlementRecord (settlement_of (project SETTLEMENT_COLUMNS (settlement_sql r))) = toSettlementRecord r" for r
    by (simp add: toSettlementRecord_def settlement_of_def project_def cell_def settlement_sql_def SETTLEMENT_COLUMNS_def)
  have cols: "list_all (has_column (settlements_table rows n)) SETTLEMENT_COLUMNS" for rows n
    by (simp add: SETTLEMENT_COLUMNS_def settlements_table_def has_column_def)
  have by_id: "(sql_select now (\<lambda>_. False) ''settlements'' (lookup SETTLEMENT_COLUMNS ''id'' i) (hub_sql s)
      :: hub_service_error + sql_row list) =
      (case bind_uuid i of
         Inl e \<Rightarrow> Inl e
       | Inr k \<Rightarrow> Inr (map (\<lambda>r. project SETTLEMENT_COLUMNS (settlement_sql r)) (filter (\<lambda>r. st_id r = k) (settlements s))))"
    by (rule select_by_uuid [OF hub_table_of(3) _ cols]) (simp_all add: settlements_table_def)
  show "SettlementRepository_findById i s =
    (case sql_select now (\<lambda>_. False) ''settlements'' (lookup SETTLEMENT_COLUMNS ''id'' i) (hub_sql s) of
       Inl e \<Rightarrow> Inl e | Inr rows \<Rightarrow> Inr (first_row (toSettlementRecord \<circ> settlement_of) rows))"
    by (simp add: SettlementRepository_findById_def find_settlement_def by_id first_row_filter decode split: sum.split)
  have pending: "''PENDING'' = settlement_text HPENDING" by simp
  have cond: "sql_where now ?tb (q_where ?q) = (Inr (\<lambda>row. row_matches [(''status'', SqlText ''PENDING'')] row \<and>
      (case cell row ''updated_at'' of SqlTime u \<Rightarrow> u < olderThan | _ \<Rightarrow> False) \<and> True)
      :: hub_service_error + (sql_row \<Rightarrow> bool))"
    by (simp add: settlements_table_def has_column_def)
  have "order_value ''updated_at'' (settlement_sql r) = st_updated_at r" for r
    by (simp add: order_value_def cell_def settlement_sql_def)
  then have order: "in_order (q_order ?q) (map settlement_sql (filter ?stale (settlements s))) =
      map settlement_sql (sort_key st_updated_at (filter ?stale (settlements s)))"
    by (simp add: sort_key_image)
  have chosen: "(row_matches [(''status'', SqlText ''PENDING'')] (settlement_sql r) \<and>
      (case cell (settlement_sql r) ''updated_at'' of SqlTime u \<Rightarrow> u < olderThan | _ \<Rightarrow> False) \<and> True) \<longleftrightarrow> ?stale r" for r
    unfolding pending by (simp add: row_matches_def settlement_sql_def cell_def del: settlement_text.simps)
  have "(sql_select now (\<lambda>_. False) ''settlements'' ?q (hub_sql s) :: hub_service_error + sql_row list) =
      Inr (map (\<lambda>r. project (q_columns ?q) (settlement_sql r))
        (case q_limit ?q of
           None \<Rightarrow> filter (\<lambda>_. \<not> False) (sort_key st_updated_at (filter ?stale (settlements s)))
         | Some n \<Rightarrow> take n (filter (\<lambda>_. \<not> False) (sort_key st_updated_at (filter ?stale (settlements s))))))"
    by (rule select_records [OF hub_table_of(3) _ _ cond _ _ order])
      (simp_all only: chosen, simp_all add: settlements_table_def SETTLEMENT_COLUMNS_def has_column_def)
  then show "(Inr (findStalePending olderThan s) :: hub_service_error + settlement_record list) =
    (case sql_select now (\<lambda>_. False) ''settlements'' ?q (hub_sql s) of
       Inl e \<Rightarrow> Inl e | Inr rows \<Rightarrow> Inr (map (toSettlementRecord \<circ> settlement_of) rows))"
    by (simp add: findStalePending_def decode)
qed

end
