(* ===== verification/Schema.thy ===== *)
theory Schema
  imports BankReads HubReads
begin

text \<open>
  The migration runner on the migrations of the two services: it builds the databases the
  transactions of \<open>BankDb\<close> and \<open>HubDb\<close> start from, with the histories guarded.
\<close>

text \<open>
  C14. The migrations build the databases. On an empty database and a migrations directory that
  holds the service's SQL files in whatever order it lists them, and whatever else it holds, one run
  of the migration runner succeeds, records every file once, in the order of the names, and leaves
  exactly the database the service's transactions start from: at Bank A with the dev treasury
  account in it. From then on no UPDATE or DELETE of a ledger entry or a transfer of Bank A, or of a
  reserve entry of the Hub, that does not fail changes anything.
\<close>
theorem migrations_build_databases:
  assumes bank: "directory_holds parse readdir readFile bank_migrations"
    and hub: "directory_holds hub_parse hub_readdir hub_readFile hub_migrations"
  shows "migrate (schema_exec parse 0 uuid) readdir readFile 0 fresh_database =
      (Inr (), \<lparr>mig_schema = bank_sql migrated_bank, mig_applied = Some (map (\<lambda>m. (fst m, 0)) bank_migrations)\<rparr>) \<and>
    migrate (schema_exec hub_parse 0 uuid) hub_readdir hub_readFile 0 fresh_database =
      (Inr (), \<lparr>mig_schema = hub_sql migrated_hub, mig_applied = Some (map (\<lambda>m. (fst m, 0)) hub_migrations)\<rparr>) \<and>
    (t = ''ledger_entries'' \<or> t = ''transfers'' \<longrightarrow>
      (sql_update now t sets cond (bank_sql s) = Inr ((), db) \<or> sql_delete now t cond (bank_sql s) = Inr ((), db)) \<longrightarrow>
      db = bank_sql s) \<and>
    (sql_update now ''hub_ledger_entries'' sets cond (hub_sql h) = Inr ((), db) \<or>
      sql_delete now ''hub_ledger_entries'' cond (hub_sql h) = Inr ((), db) \<longrightarrow> db = hub_sql h)"
proof (intro conjI)
  show "t = ''ledger_entries'' \<or> t = ''transfers'' \<longrightarrow>
      (sql_update now t sets cond (bank_sql s) = Inr ((), db) \<or> sql_delete now t cond (bank_sql s) = Inr ((), db)) \<longrightarrow>
      db = bank_sql s"
    using history_tables_guarded(1) [of t now sets cond s db] history_tables_guarded(2) [of t now cond s db] by blast
  show "sql_update now ''hub_ledger_entries'' sets cond (hub_sql h) = Inr ((), db) \<or>
      sql_delete now ''hub_ledger_entries'' cond (hub_sql h) = Inr ((), db) \<longrightarrow> db = hub_sql h"
    using reserves_guarded(1) [of now sets cond h db] reserves_guarded(2) [of now cond h db] by blast
qed (rule migrate_directory [OF bank bank_files_sorted bank_migrations_run]
  migrate_directory [OF hub hub_files_sorted hub_migrations_run])+

text \<open>A directory whose files read as themselves, listed backwards, with a README beside them.\<close>

definition listed_backwards :: "(string \<times> sql_statement list) list \<Rightarrow> string list" where
  "listed_backwards ms = rev (map fst ms) @ [''README.md'']"

lemma directory_backwards:
  "directory_holds (map_of bank_migrations) (listed_backwards bank_migrations) Inr bank_migrations"
  "directory_holds (map_of hub_migrations) (listed_backwards hub_migrations) Inr hub_migrations"
  by (auto simp: directory_holds_def listed_backwards_def bank_migrations_def hub_migrations_def suffix_def)

theorem migrations_build_databases_witness:
  "migrate (schema_exec (map_of bank_migrations) 0 []) (listed_backwards bank_migrations) Inr 0 fresh_database =
     (Inr (), \<lparr>mig_schema = bank_sql migrated_bank, mig_applied = Some (map (\<lambda>m. (fst m, 0)) bank_migrations)\<rparr>)"
  using migrations_build_databases [OF directory_backwards] by blast

text \<open>
  C15. What the repositories read is what their SELECTs say. On every database of either service the
  result of each reading operation (an account, its lock, a balance, a statement, a transfer by
  identifier or by key, a saga, the stale sagas, the events a relay claims while others hold rows; a
  bank, all banks, a reserve, a settlement, the stale settlements) is made of the rows that its query
  selects from the tables of the schema, in the query's order and up to its limit, with the query's
  conversion error when a parameter is no UUID.
\<close>
theorem repositories_read_the_tables:
  "AccountRepository_findById i s =
     (case sql_select now (\<lambda>_. False) ''accounts'' (lookup [''id'', ''owner_name'', ''created_at''] ''id'' i) (bank_sql s) of
        Inl e \<Rightarrow> Inl e | Inr rows \<Rightarrow> Inr (first_row (toAccount \<circ> account_of) rows)) \<and>
   AccountRepository_lockById i s =
     (case sql_select now (\<lambda>_. False) ''accounts'' (lookup [] ''id'' i) (bank_sql s) of
        Inl e \<Rightarrow> Inl e | Inr rows \<Rightarrow> Inr (0 < length rows)) \<and>
   balanceOf i s = (case sql_sum now ''amount'' ''ledger_entries'' [Equals ''account_id'' (PText i)] (bank_sql s) of
     Inl e \<Rightarrow> Inl e | Inr n \<Rightarrow> lift_domain (Money_fromCents (js_of_int n))) \<and>
   statementOf i limit s =
     (case sql_select now (\<lambda>_. False) ''ledger_entries'' (statement_query i limit) (bank_sql s) of
        Inl e \<Rightarrow> Inl e | Inr rows \<Rightarrow> lift_domain (map_throw line_of rows)) \<and>
   TransferRepository_findById i s =
     (case sql_select now (\<lambda>_. False) ''transfers'' (lookup TRANSFER_COLUMNS ''id'' i) (bank_sql s) of
        Inl e \<Rightarrow> Inl e | Inr rows \<Rightarrow> first_transfer rows) \<and>
   findByIdempotencyKey key s =
     (case sql_select now (\<lambda>_. False) ''transfers'' (lookup TRANSFER_COLUMNS ''idempotency_key'' key) (bank_sql s) of
        Inl e \<Rightarrow> Inl e | Inr rows \<Rightarrow> first_transfer rows) \<and>
   InterbankRepository_findById i s =
     (case sql_select now (\<lambda>_. False) ''interbank_transfers'' (lookup INTERBANK_COLUMNS ''transfer_id'' i) (bank_sql s) of
        Inl e \<Rightarrow> Inl e | Inr rows \<Rightarrow> Inr (first_row (toInterbankRecord \<circ> interbank_of) rows)) \<and>
   (Inr (findStaleDebited olderThan s) :: bank_error + interbank_record list) =
     (case sql_select now (\<lambda>_. False) ''interbank_transfers''
         \<lparr>q_columns = INTERBANK_COLUMNS, q_where = [Equals ''status'' (PText ''DEBITED''), Earlier ''updated_at'' olderThan],
          q_order = Ascending ''updated_at'', q_limit = None\<rparr> (bank_sql s) of
        Inl e \<Rightarrow> Inl e | Inr rows \<Rightarrow> Inr (map (toInterbankRecord \<circ> interbank_of) rows)) \<and>
   (Inr (claimUnpublished locked limit (outbox s)) :: bank_error + outbox_event list) =
     (case sql_select now (held_rows locked) ''outbox_events'' (claim_query limit) (bank_sql s) of
        Inl e \<Rightarrow> Inl e | Inr rows \<Rightarrow> Inr (map event_of rows)) \<and>
   (Inr (BankRepository_findById i h) :: hub_service_error + hub_bank option) =
     (case sql_select now (\<lambda>_. False) ''banks'' (lookup BANK_COLUMNS ''id'' i) (hub_sql h) of
        Inl e \<Rightarrow> Inl e | Inr rows \<Rightarrow> Inr (first_row (toBank \<circ> bank_of) rows)) \<and>
   (Inr (BankRepository_findAll h) :: hub_service_error + hub_bank list) =
     (case sql_select now (\<lambda>_. False) ''banks''
         \<lparr>q_columns = BANK_COLUMNS, q_where = [], q_order = Ascending ''created_at'', q_limit = None\<rparr> (hub_sql h) of
        Inl e \<Rightarrow> Inl e | Inr rows \<Rightarrow> Inr (map (toBank \<circ> bank_of) rows)) \<and>
   reserveBalanceOf i h = (case sql_sum now ''amount'' ''hub_ledger_entries'' [Equals ''bank_id'' (PText i)] (hub_sql h) of
     Inl e \<Rightarrow> Inl e | Inr n \<Rightarrow> lift_domain (HubMoney_fromCents (js_of_int n))) \<and>
   SettlementRepository_findById i h =
     (case sql_select now (\<lambda>_. False) ''settlements'' (lookup SETTLEMENT_COLUMNS ''id'' i) (hub_sql h) of
        Inl e \<Rightarrow> Inl e | Inr rows \<Rightarrow> Inr (first_row (toSettlementRecord \<circ> settlement_of) rows)) \<and>
   (Inr (findStalePending olderThan h) :: hub_service_error + settlement_record list) =
     (case sql_select now (\<lambda>_. False) ''settlements''
         \<lparr>q_columns = SETTLEMENT_COLUMNS, q_where = [Equals ''status'' (PText ''PENDING''), Earlier ''updated_at'' olderThan],
          q_order = Ascending ''updated_at'', q_limit = None\<rparr> (hub_sql h) of
        Inl e \<Rightarrow> Inl e | Inr rows \<Rightarrow> Inr (map (toSettlementRecord \<circ> settlement_of) rows)) \<and>
   (Inr (hub_claimUnpublished locked limit (hub_outbox h)) :: hub_service_error + outbox_event list) =
     (case sql_select now (held_rows locked) ''outbox_events'' (claim_query limit) (hub_sql h) of
        Inl e \<Rightarrow> Inl e | Inr rows \<Rightarrow> Inr (map event_of rows))"
  by (intro conjI) (rule account_reads balance_reads statement_reads transfer_reads interbank_reads bank_reads reserve_reads
      settlement_reads claim_reads [OF bank_table_of(5)] claim_reads [OF hub_table_of(4), folded hub_outbox_same(1)])+

end
