(* ===== verification/Spec2Isabelle.thy ===== *)
theory Spec2Isabelle
  imports BankHttp BankDeadlock HubIsolation Wiring MigrateRunners FrontendPage Schema
begin

text \<open>
  A payment ledger in two services. Bank A (src/) keeps customer accounts in a double-entry
  ledger, executes transfers between them under idempotency keys, and starts transfers to other
  banks as sagas. The Hub (hub/src/) keeps a reserve ledger for the participating banks and
  settles between them. They talk through a transactional outbox and a topic exchange, and Bank A
  falls back on asking the Hub over HTTP.

  The parts and their theories:
    \<^item> \<open>LedgerPrelude\<close>: the transaction monad (a function from the database to an error or a
      value and the new database; \<open>with_tx\<close> is BEGIN .. COMMIT / ROLLBACK) and list facts;
      \<open>Interfaces\<close>: the locales \<open>journal\<close>, \<open>double_entry\<close>, \<open>guarded_status\<close> and
      \<open>idempotent_consumer\<close>, interpreted where a component provides them.
    \<^item> \<open>JsNumbers\<close>, \<open>JsDoubles\<close>, \<open>PgUuid\<close>, \<open>Postgres\<close>, \<open>Messaging\<close>: what the code uses of its platform, as
      far as behaviour depends on it: JavaScript numbers and their rounding, the number a text
      denotes, how PostgreSQL reads
      and prints a UUID, the errors of a statement, JSON values and routing keys.
    \<^item> Bank A: \<open>BankDomain\<close> (src/domain, src/http), \<open>BankDb\<close> (the tables of migrations/ and
      the repositories of src/accounts, src/ledger, src/transfers, src/interbank-transfers),
      \<open>Outbox\<close> (src/outbox), \<open>BankAccounts\<close> (accounts.service.ts), \<open>BankTransfers\<close>
      (transfers.service.ts), \<open>BankInterbank\<close> (interbank-transfers.service.ts), \<open>BankReply\<close>
      (interbank-reply.service.ts and its consumer), \<open>BankReconciliation\<close>
      (reconciliation.service.ts), \<open>BankHttp\<close> (the DTOs, controllers and answers). \<open>BankPosting\<close> holds the invariant \<open>bank_inv\<close> and the exact
      effect of the statements on a database that satisfies it; \<open>BankSteps\<close> the transition system
      of committed transactions; \<open>BankIsolation\<close> the same transactions statement by statement
      under the locks PostgreSQL takes, and \<open>BankDeadlock\<close> which of them can wait in a circle.
    \<^item> The Hub: \<open>HubDomain\<close> (hub/src/domain, hub/src/http), \<open>HubDb\<close> (the repositories of
      hub/src/banks, hub/src/ledger, hub/src/settlements), \<open>HubBanks\<close> (banks.service.ts),
      \<open>HubSettlements\<close> (settlements.service.ts), \<open>HubDeliveries\<close> (both handlers under
      redelivery), \<open>HubSteps\<close> (its transition system), \<open>HubIsolation\<close>
      (the same transactions statement by statement), \<open>HubConsumer\<close> (settlements.consumer.ts),
      \<open>HubHttp\<close> (its controllers).
    \<^item> The composition: \<open>Saga\<close> (both databases and the letters between them as one transition
      system), \<open>SagaAgreement\<close> (its invariant), \<open>SagaRun\<close> (what a saga comes to: the two ends
      agree, a round trip completes it, and the reconciliation that is too early), \<open>Broker\<close> (the
      queues both services declare, and where each letter is routed),
      \<open>Lifecycle\<close> (main.ts, src/infra, src/health and their twins under hub/: how a process starts, and what
      a broker that goes away does to it and to the outbox), \<open>Wiring\<close> (the *.module.ts files and the
      constructors of both services: what is injected where, and that every way of building the containers
      starts the process of \<open>Lifecycle\<close>).
    \<^item> \<open>Frontend\<close>: the requests of the browser's page and the handlers over its state
      (frontend/src/api, App.tsx, useTransferPolling.ts). \<open>FrontendPage\<close>: its components as trees of
      elements, and what a user can do with them while requests are under way.
    \<^item> \<open>Migrate\<close>: the migration runner (scripts/migrate.ts and its twin under hub/);
      \<open>MigrateRunners\<close>: several of them at once, statement by statement.
    \<^item> \<open>Relational\<close>: tables with defaults, keys, CHECKs, foreign keys and triggers, and the SQL statements
      the repository uses on them; \<open>SchemaRuns\<close>: a run of the runner on a directory of such statements;
      \<open>BankSchema\<close> and \<open>HubSchema\<close>: the files of migrations/ and hub/migrations/ statement by statement,
      the databases of \<open>BankDb\<close> and \<open>HubDb\<close> read as tables of that schema, and each INSERT and UPDATE of the
      repositories as the SQL it sends; \<open>Selects\<close>, \<open>BankReads\<close> and \<open>HubReads\<close>: the same for what they read;
      \<open>Schema\<close>: what a run of the migrations builds, and the reading side as one theorem.

  How code became definitions. A method of a service is a function of the same name (a prefix
  where HOL or another component has the name) from its arguments and the database to
  \<open>error + result\<close> and the database. Every throw is an \<open>Inl\<close>. One transaction is one step: for
  Bank A's money and for the Hub this is a theorem (\<open>transactions_serialize\<close>,
  \<open>hub_transactions_serialize\<close>) about the statements at READ COMMITTED, the row locks, the locks
  of foreign keys and the unique indexes; for the relay it is how the model reads it. What others commit between a read
  outside a transaction and the transaction is a function argument (\<open>i1\<close>, \<open>i2\<close>, ..), so the
  theorems about a request quantify over its interleavings. Clock, fresh identifiers, ISO time
  texts, configuration, network and publisher are arguments too. No definition needs fuel: every
  loop of the code runs over a list. The relay and the migration runner exist twice in the
  repository with the same text; each is modelled once (\<open>hub_tick\<close> runs the relay on the Hub's
  database).

  The saga across the services (\<open>world_step\<close>) assumes little. A letter that a relay handed over
  may be delivered any number of times, late, in any order, or be lost; each transaction of
  either service is a step, so handlers overlap freely. Three things it takes as given: the
  identifiers Bank A draws are its own (\<open>mine\<close>); the payee bank decides once per settlement
  whether it credited the payee and its replies say so (\<open>credited\<close>); and a 404 of the Hub counts
  as a verdict only once no request for the transfer is on its way (\<open>gone\<close>), which is what the
  five minutes of \<open>STALE_AFTER_MS\<close> are for. That the last one is needed is a theorem.

  Third-party code is an argument with its documented behaviour as hypothesis: the UUID
  validators accept 8-4-4-4-12 hexadecimal digits only, a topic pattern without wildcards
  matches itself only, an operation on a closed channel of amqplib throws, ConfigModule makes
  ConfigService available everywhere. The URL validator is an argument about which nothing is assumed; of
  PostgreSQL's parser of migrations only that it reads the files of the repository as the statements of
  \<open>BankSchema\<close> and \<open>HubSchema\<close>, where the theorem is about them.

  What the lemmas show. Per operation, the exact outcome on a well-formed database, errors
  included, and that it keeps the invariant. Per request, what it did under any interleaving.
  Per service, that every interleaving of committed transactions keeps the books balanced and
  only appends to history. Where the code does not do what it means to, a theorem states what
  it does: contradicting outcomes that race, reversals that overlap, a compensation key that a
  client has taken, identifiers in a form PostgreSQL accepts and the comparison does not, a page whose transfers
  Bank A always refuses, a channel to the broker that nothing opens again.

  Per saga, that the two ends agree. Per route, the status and the effect of every answer. Per
  table, that the running service never violates a constraint of the schema, and that the repositories'
  definitions write, refuse and read exactly what their SQL does on that schema.

  Not modelled: Bank B (Python, on an earlier topology), the order in which the framework builds its
  containers (the theorem about them holds for every order that respects the dependencies), the
  pooling of connections to PostgreSQL, the plans and indexes of queries, and the gaps that rolled-back
  statements leave in identity columns. Texts are taken without U+0000,
  which PostgreSQL refuses. Of the frontend, the style sheets and what it shows of values that do
  not have the types of types.ts are not modelled. In the statements of
  \<open>BankIsolation\<close> and \<open>HubIsolation\<close> an INSERT gets its keys and the locks of its foreign keys in one
  step, and rows are ordered by their commits.
\<close>

end
